(* ===== verification/Prelude.thy ===== *)
theory Prelude
  imports Complex_Main
begin

text \<open>
  Shared ground of the development: nullable SQL comparisons, jsonb objects,
  integer casts of PostgreSQL, keyed tables held as lists of rows, and the
  lemmas about them that every component uses.

  Conventions.  A \<open>uuid\<close> is a natural number (the 128-bit value, so that
  \<open>ORDER BY id\<close> is the order of naturals).  A \<open>timestamptz\<close> and an
  \<open>interval\<close> are integers counting microseconds, which is the resolution
  PostgreSQL stores; the session time zone is UTC, so a day is 24 hours.
  A nullable column is an option.
\<close>

type_synonym uuid = nat
type_synonym timestamptz = int
type_synonym interval = int

text \<open>
  One statement may evaluate \<open>clock_timestamp()\<close> several times and get
  different answers.  A \<open>clock\<close> gives the value of the k-th textual
  occurrence in the statement, counted from 0.
\<close>

type_synonym clock = "nat \<Rightarrow> timestamptz"

definition usec_per_sec :: int where
  "usec_per_sec = 1000000"

definition seconds :: "int \<Rightarrow> interval" where
  "seconds n = n * usec_per_sec"

named_theorems row_simps "equations that compute a row after a SET clause"
named_theorems table_simps "lookup and membership after an update of a table"

section \<open>Truth of nullable comparisons in a WHERE clause\<close>

text \<open>A comparison with NULL is NULL, and a WHERE clause keeps only true rows.\<close>

fun sql_rel :: "('a \<Rightarrow> 'b \<Rightarrow> bool) \<Rightarrow> 'a option \<Rightarrow> 'b option \<Rightarrow> bool" where
  "sql_rel R (Some x) (Some y) = R x y"
| "sql_rel R _ _ = False"

abbreviation sql_eq :: "'a option \<Rightarrow> 'a option \<Rightarrow> bool" where
  "sql_eq \<equiv> sql_rel (=)"

abbreviation sql_lt :: "'a::ord option \<Rightarrow> 'a option \<Rightarrow> bool" where
  "sql_lt \<equiv> sql_rel (<)"

abbreviation sql_le :: "'a::ord option \<Rightarrow> 'a option \<Rightarrow> bool" where
  "sql_le \<equiv> sql_rel (\<le>)"

lemma sql_rel_iff:
  "sql_rel R x y \<longleftrightarrow> (\<exists>a b. x = Some a \<and> y = Some b \<and> R a b)"
  by (cases x; cases y) auto

lemma sql_rel_NoneL [simp]: "\<not> sql_rel R None y"
  by (simp add: sql_rel_iff)

lemma sql_rel_NoneR [simp]: "\<not> sql_rel R x None"
  by (simp add: sql_rel_iff)

lemma sql_eq_SomeR [simp]: "sql_eq x (Some y) \<longleftrightarrow> x = Some y"
  by (auto simp: sql_rel_iff)

lemma sql_eq_SomeL [simp]: "sql_eq (Some x) y \<longleftrightarrow> y = Some x"
  by (auto simp: sql_rel_iff)

primrec coalesce :: "'a option list \<Rightarrow> 'a option" where
  "coalesce [] = None"
| "coalesce (x # xs) = (case x of Some v \<Rightarrow> Some v | None \<Rightarrow> coalesce xs)"

definition greatest :: "int \<Rightarrow> int \<Rightarrow> int" where
  "greatest x y = max x y"

definition least :: "int \<Rightarrow> int \<Rightarrow> int" where
  "least x y = min x y"

section \<open>jsonb values\<close>

datatype json =
    JNull
  | JBool bool
  | JNum rat
  | JStr string
  | JArr "json list"
  | JObj "(string \<times> json) list"

text \<open>The jsonb columns of this schema hold objects: maps from keys to values.\<close>

type_synonym jobj = "string \<Rightarrow> json option"

definition jsonb_build_object :: "(string \<times> json) list \<Rightarrow> jobj" where
  "jsonb_build_object kvs = map_of kvs"

definition jsonb_strip_nulls :: "jobj \<Rightarrow> jobj" where
  "jsonb_strip_nulls m = (\<lambda>k. case m k of Some JNull \<Rightarrow> None | v \<Rightarrow> v)"

text \<open>\<open>a || b\<close> on objects: keys of the right operand win.\<close>

definition jsonb_concat :: "jobj \<Rightarrow> jobj \<Rightarrow> jobj" where
  "jsonb_concat a b = a ++ b"

primrec json_text :: "string option \<Rightarrow> json" where
  "json_text None = JNull"
| "json_text (Some s) = JStr s"

lemma jsonb_strip_nulls_apply:
  "jsonb_strip_nulls m k = (if m k = Some JNull then None else m k)"
  by (simp add: jsonb_strip_nulls_def split: option.splits json.splits)

lemma jsonb_concat_apply:
  "jsonb_concat a b k = (case b k of None \<Rightarrow> a k | Some v \<Rightarrow> Some v)"
  by (simp add: jsonb_concat_def map_add_def split: option.splits)

lemma jsonb_build_object_apply:
  "jsonb_build_object kvs k = map_of kvs k"
  by (simp add: jsonb_build_object_def)

lemmas jsonb_simps = jsonb_strip_nulls_apply jsonb_concat_apply jsonb_build_object_apply

lemma jsonb_concat_idem: "jsonb_concat (jsonb_concat a b) b = jsonb_concat a b"
  by (rule ext) (simp add: jsonb_concat_apply split: option.splits)

section \<open>Casts\<close>

datatype pg_error =
    IntegerOutOfRange
  | NotNullViolation
  | UniqueViolation
  | InvalidTextRepresentation
  | CheckViolation

definition int4_max :: int where "int4_max = 2147483647"
definition int4_min :: int where "int4_min = - 2147483648"
definition smallint_max :: int where "smallint_max = 32767"

definition to_int4 :: "int \<Rightarrow> pg_error + int" where
  "to_int4 n = (if int4_min \<le> n \<and> n \<le> int4_max then Inr n else Inl IntegerOutOfRange)"

text \<open>Division that truncates toward zero.\<close>

definition trunc_div :: "int \<Rightarrow> int \<Rightarrow> int" where
  "trunc_div a b = sgn a * (\<bar>a\<bar> div b)"

lemma trunc_div_nonneg: "0 \<le> a \<Longrightarrow> trunc_div a b = a div b"
  by (cases "a = 0") (auto simp: trunc_div_def)

section \<open>Results with errors\<close>

primrec bindE :: "'e + 'a \<Rightarrow> ('a \<Rightarrow> 'e + 'b) \<Rightarrow> 'e + 'b" where
  "bindE (Inl e) f = Inl e"
| "bindE (Inr x) f = f x"

text \<open>A filter whose predicate may fail, as a predicate that fails on a row fails its statement.\<close>

fun filterE :: "('a \<Rightarrow> 'e + bool) \<Rightarrow> 'a list \<Rightarrow> 'e + 'a list" where
  "filterE p [] = Inr []"
| "filterE p (x # xs) = bindE (p x) (\<lambda>b. bindE (filterE p xs) (\<lambda>ys. Inr (if b then x # ys else ys)))"

lemma bindE_Inr_iff: "bindE m f = Inr y \<longleftrightarrow> (\<exists>x. m = Inr x \<and> f x = Inr y)"
  by (cases m) auto

lemma bindE_Inl_iff: "bindE m f = Inl e \<longleftrightarrow> m = Inl e \<or> (\<exists>x. m = Inr x \<and> f x = Inl e)"
  by (cases m) auto

section \<open>Tables as lists of rows with a key\<close>

definition row_by :: "('r \<Rightarrow> 'k) \<Rightarrow> 'k \<Rightarrow> 'r list \<Rightarrow> 'r option" where
  "row_by key k rows = List.find (\<lambda>r. key r = k) rows"

text \<open>\<open>UPDATE ... SET f WHERE P\<close>.\<close>

definition upd_where :: "('r \<Rightarrow> bool) \<Rightarrow> ('r \<Rightarrow> 'r) \<Rightarrow> 'r list \<Rightarrow> 'r list" where
  "upd_where P f rows = map (\<lambda>r. if P r then f r else r) rows"

text \<open>\<open>INSERT ... ON CONFLICT (key) DO NOTHING\<close>.\<close>

definition ins_new :: "('r \<Rightarrow> 'k) \<Rightarrow> 'r \<Rightarrow> 'r list \<Rightarrow> 'r list" where
  "ins_new key r rows = (if row_by key (key r) rows = None then rows @ [r] else rows)"

lemma row_by_Nil [simp]: "row_by key k [] = None"
  by (simp add: row_by_def)

lemma row_by_Cons [simp]:
  "row_by key k (r # rows) = (if key r = k then Some r else row_by key k rows)"
  by (simp add: row_by_def)

lemma row_by_append:
  "row_by key k (xs @ ys) = (case row_by key k xs of None \<Rightarrow> row_by key k ys | Some r \<Rightarrow> Some r)"
  by (induction xs) auto

lemma row_by_None_iff: "row_by key k rows = None \<longleftrightarrow> k \<notin> key ` set rows"
  by (induction rows) auto

lemma row_by_SomeD: "row_by key k rows = Some r \<Longrightarrow> r \<in> set rows \<and> key r = k"
  by (induction rows) (auto split: if_splits)

lemma row_by_key [dest]: "row_by key k rows = Some r \<Longrightarrow> key r = k"
  by (drule row_by_SomeD) simp

lemma row_by_distinct:
  "distinct (map key rows) \<Longrightarrow> r \<in> set rows \<Longrightarrow> row_by key (key r) rows = Some r"
  by (induction rows) (auto intro: rev_image_eqI)

lemma row_by_upd_where [table_simps]:
  assumes "\<And>r. key (f r) = key r"
  shows "row_by key k (upd_where P f rows)
         = map_option (\<lambda>r. if P r then f r else r) (row_by key k rows)"
  by (induction rows) (auto simp: upd_where_def assms)

lemma keys_upd_where [table_simps]:
  assumes "\<And>r. key (f r) = key r"
  shows "map key (upd_where P f rows) = map key rows"
  by (induction rows) (auto simp: upd_where_def assms)

lemma row_by_replace:
  "row_by key k (upd_where (\<lambda>x. key x = key r) (\<lambda>_. r) rows)
   = (if key r = k \<and> row_by key k rows \<noteq> None then Some r else row_by key k rows)"
  by (induction rows) (auto simp: upd_where_def)

lemma length_upd_where [simp]: "length (upd_where P f rows) = length rows"
  by (simp add: upd_where_def)

lemma set_upd_where: "set (upd_where P f rows) = (\<lambda>r. if P r then f r else r) ` set rows"
  by (simp add: upd_where_def)

lemma row_by_ins_new [table_simps]:
  "row_by key k (ins_new key r rows)
   = (case row_by key k rows of Some q \<Rightarrow> Some q | None \<Rightarrow> if key r = k then Some r else None)"
  by (auto simp: ins_new_def row_by_append split: option.splits)

lemma distinct_ins_new:
  "distinct (map key rows) \<Longrightarrow> distinct (map key (ins_new key r rows))"
  by (auto simp: ins_new_def row_by_None_iff)

lemma set_ins_new_mono: "set rows \<subseteq> set (ins_new key r rows)"
  by (auto simp: ins_new_def)

lemma set_ins_new_subset: "set (ins_new key r rows) \<subseteq> insert r (set rows)"
  by (auto simp: ins_new_def)

end
