(* ===== verification/Statemachine.thy ===== *)
theory Statemachine
  imports Prelude
begin

text \<open>
  The job state machine: \<open>backend/statemachine.py\<close> and the closed value sets
  of \<open>backend/_protocol.py\<close> that the rows carry.
\<close>

datatype job_status =
    Pending | Scheduled | Running | Succeeded | Failed | Cancelled | Crashed | Abandoned

datatype attempt_outcome =
    OutSucceeded | OutFailed | OutSnoozed | OutCancelled | OutCrashed | OutScheduled
  | OutReservationDenied | OutRateLimitDenied

datatype retry_kind = Transient | Indefinite | NonRetryable

datatype outcome_branch =
    BrRetried | BrDeadlineFailed | BrSnoozed | BrCancelled | BrFailed | BrMaxAttemptsFailed
  | BrReleased

fun status_text :: "job_status \<Rightarrow> string" where
  "status_text Pending = ''pending''"
| "status_text Scheduled = ''scheduled''"
| "status_text Running = ''running''"
| "status_text Succeeded = ''succeeded''"
| "status_text Failed = ''failed''"
| "status_text Cancelled = ''cancelled''"
| "status_text Crashed = ''crashed''"
| "status_text Abandoned = ''abandoned''"

definition TERMINAL_STATUSES :: "job_status set" where
  "TERMINAL_STATUSES = {Succeeded, Failed, Cancelled, Crashed, Abandoned}"

fun VALID_TRANSITIONS :: "job_status \<Rightarrow> job_status set" where
  "VALID_TRANSITIONS Pending = {Running, Cancelled, Failed}"
| "VALID_TRANSITIONS Scheduled = {Pending, Cancelled, Failed}"
| "VALID_TRANSITIONS Running =
     {Succeeded, Failed, Cancelled, Crashed, Abandoned, Scheduled, Pending}"
| "VALID_TRANSITIONS Succeeded = {}"
| "VALID_TRANSITIONS Failed = {}"
| "VALID_TRANSITIONS Cancelled = {}"
| "VALID_TRANSITIONS Crashed = {}"
| "VALID_TRANSITIONS Abandoned = {}"

definition ACTIVE_STATUSES :: "job_status set" where
  "ACTIVE_STATUSES = UNIV - TERMINAL_STATUSES"

datatype illegal_transition = IllegalStateTransition uuid job_status job_status

definition assert_valid_transition ::
    "job_status \<Rightarrow> job_status \<Rightarrow> uuid \<Rightarrow> illegal_transition + unit" where
  "assert_valid_transition from_status to_status job_id =
     (if to_status \<notin> VALID_TRANSITIONS from_status
      then Inl (IllegalStateTransition job_id from_status to_status)
      else Inr ())"

section \<open>Facts about the table\<close>

lemma status_UNIV:
  "UNIV = {Pending, Scheduled, Running, Succeeded, Failed, Cancelled, Crashed, Abandoned}"
proof -
  have "s \<in> {Pending, Scheduled, Running, Succeeded, Failed, Cancelled, Crashed, Abandoned}" for s
    by (cases s) simp_all
  then show ?thesis by blast
qed

lemma terminal_simps [simp]:
  "Pending \<notin> TERMINAL_STATUSES" "Scheduled \<notin> TERMINAL_STATUSES" "Running \<notin> TERMINAL_STATUSES"
  "Cancelled \<in> TERMINAL_STATUSES" "Failed \<in> TERMINAL_STATUSES" "Succeeded \<in> TERMINAL_STATUSES"
  "Crashed \<in> TERMINAL_STATUSES" "Abandoned \<in> TERMINAL_STATUSES"
  by (simp_all add: TERMINAL_STATUSES_def)

lemma terminal_iff_no_exit: "s \<in> TERMINAL_STATUSES \<longleftrightarrow> VALID_TRANSITIONS s = {}"
  by (cases s) (simp_all add: TERMINAL_STATUSES_def)

lemma active_eq: "ACTIVE_STATUSES = {Pending, Scheduled, Running}"
  by (auto simp: ACTIVE_STATUSES_def TERMINAL_STATUSES_def status_UNIV)

lemma no_self_transition: "s \<notin> VALID_TRANSITIONS s"
  by (cases s) simp_all

lemma status_text_inj: "inj status_text"
proof (rule injI)
  fix a b assume "status_text a = status_text b"
  then show "a = b" by (cases a; cases b) simp_all
qed

end
