(* ===== verification/Jobs.thy ===== *)
theory Jobs
  imports Statemachine
begin

text \<open>
  The tables the backend writes (\<open>jobs\<close>, \<open>job_attempts\<close>, \<open>job_events\<close>,
  \<open>workers\<close>, \<open>actor_config\<close>), the SQL fragments every statement shares
  (\<open>backend/_sql_fragments.py\<close>), the constants the statements interpolate
  (\<open>constants.py\<close>), and the execution of a chain of data-modifying arms.
\<close>

section \<open>Rows\<close>

datatype backoff = Exponential | Linear | Fixed

text \<open>
  A row of \<open>jobs\<close>, in the column order of \<open>JobRow\<close>, followed by the two
  workflow columns the claim reads.  The column \<open>id\<close> is \<open>jid\<close> here.
\<close>

record job =
  jid :: uuid
  actor :: string
  queue :: string
  payload :: jobj
  payload_schema_ver :: int
  status :: job_status
  priority :: int
  attempt :: int
  max_attempts :: int
  retry_kind :: retry_kind
  created_at :: timestamptz
  scheduled_at :: timestamptz
  identity_key :: "string option"
  fairness_key :: "string option"
  schedule_to_close :: "timestamptz option"
  start_to_close :: "interval option"
  heartbeat_timeout :: "interval option"
  started_at :: "timestamptz option"
  finished_at :: "timestamptz option"
  last_heartbeat_at :: "timestamptz option"
  locked_by_worker :: "uuid option"
  lock_expires_at :: "timestamptz option"
  cancel_requested_at :: "timestamptz option"
  cancel_phase :: int
  error_class :: "string option"
  error_message :: "string option"
  error_traceback :: "string option"
  progress_state :: "jobj option"
  progress_seq :: int
  result :: "json option"
  result_size_bytes :: "int option"
  result_expires_at :: "timestamptz option"
  idempotency_key :: "string option"
  idempotency_scope :: string
  trace_id :: "string option"
  span_id :: "string option"
  metadata :: jobj
  tags :: "string list"
  snooze_count :: int
  rate_limit_blocked_count :: int
  interrupt_count :: int
  retry_base_seconds :: rat
  retry_cap_seconds :: rat
  retry_backoff :: backoff
  retry_jitter :: rat
  assignment_routed :: bool
  claim_epoch :: int
  parent_id :: "uuid option"
  deps_pending :: int
  step_key :: "string option"

text \<open>A row of \<open>job_attempts\<close>; \<open>a_started_at\<close> is NOT NULL in the schema.\<close>

record attempt_row =
  a_job_id :: uuid
  a_attempt :: int
  a_started_at :: timestamptz
  a_finished_at :: "timestamptz option"
  a_outcome :: attempt_outcome
  a_error_class :: "string option"
  a_error_message :: "string option"
  a_error_traceback :: "string option"
  a_duration_ms :: "int option"
  a_worker_id :: "uuid option"
  a_metadata :: jobj
  a_due_at :: "timestamptz option"

record event_row =
  e_id :: int
  e_job_id :: uuid
  e_occurred_at :: timestamptz
  e_kind :: string
  e_detail :: jobj

record worker_row =
  w_id :: uuid
  w_queues :: "string list"
  w_last_seen_at :: timestamptz
  w_workflow_execution :: "bool option"

record actor_config_row =
  ac_queue :: string
  ac_max_concurrent :: "int option"
  ac_result_ttl :: "interval option"
  ac_last_claimed_at :: "timestamptz option"

datatype batch_status = BatchActive | BatchComplete | BatchAborted

record batch_row =
  b_id :: uuid
  b_status :: batch_status
  b_completed_at :: "timestamptz option"

record db =
  jobs :: "job list"
  job_attempts :: "attempt_row list"
  job_events :: "event_row list"
  event_seq :: int
  workers :: "worker_row list"
  actor_config :: "string \<Rightarrow> actor_config_row option"
  batches :: "batch_row list"

text \<open>The exceptions the Python layer raises to its caller.\<close>

datatype py_error =
    PyValueError
  | PyUnencodable
  | PyResultTooLarge
  | PyWorkerOwnershipMismatch uuid uuid "uuid option"
  | PyAssertionError
  | PyDataError
  | PyPostgresError pg_error

section \<open>Constants\<close>

definition MIN_DEFERRAL_INTERVAL :: interval where
  "MIN_DEFERRAL_INTERVAL = seconds 1"

definition MAX_ATTEMPTS_SMALLINT_CEILING :: int where
  "MAX_ATTEMPTS_SMALLINT_CEILING = 32767"

definition CANCEL_ORIGIN_COOPERATIVE :: string where
  "CANCEL_ORIGIN_COOPERATIVE = ''CancelledCooperatively''"
definition CANCEL_ORIGIN_FORCED :: string where
  "CANCEL_ORIGIN_FORCED = ''CancelledForced''"
definition CANCEL_ORIGIN_ABANDONED :: string where
  "CANCEL_ORIGIN_ABANDONED = ''CancelAbandoned''"
definition CANCEL_ORIGIN_PENDING :: string where
  "CANCEL_ORIGIN_PENDING = ''CancelledBeforeStart''"
definition CANCEL_ORIGIN_UNREQUESTED :: string where
  "CANCEL_ORIGIN_UNREQUESTED = ''CancelledWithoutRequest''"
definition ERROR_CLASS_DEADLINE_EXCEEDED :: string where
  "ERROR_CLASS_DEADLINE_EXCEEDED = ''DeadlineExceeded''"
definition ERROR_CLASS_MAX_ATTEMPTS_EXCEEDED :: string where
  "ERROR_CLASS_MAX_ATTEMPTS_EXCEEDED = ''MaxAttemptsExceeded''"
definition BUDGET_EXHAUSTED_MESSAGE :: string where
  "BUDGET_EXHAUSTED_MESSAGE = ''retry budget exhausted''"
definition ERROR_CLASS_WORKER_CRASHED :: string where
  "ERROR_CLASS_WORKER_CRASHED = ''WorkerCrashed''"
definition ERROR_CLASS_HEARTBEAT_LOST :: string where
  "ERROR_CLASS_HEARTBEAT_LOST = ''HeartbeatLost''"
definition DEADLINE_EXCEEDED_MESSAGE :: string where
  "DEADLINE_EXCEEDED_MESSAGE = ''schedule_to_close reached before next dispatch''"
definition DEADLINE_RETRY_EXCEEDED_MESSAGE :: string where
  "DEADLINE_RETRY_EXCEEDED_MESSAGE = ''schedule_to_close reached before next retry dispatch''"

section \<open>Shared fragments\<close>

text \<open>
  What a handler presents of its claim: the job, its own worker id, and the
  attempt and claim epoch of its dispatch-time snapshot (None binds NULL).
\<close>

record claim =
  c_job :: uuid
  c_worker :: uuid
  c_attempt :: "int option"
  c_epoch :: "int option"

definition JOB_FENCE :: "claim \<Rightarrow> job \<Rightarrow> bool" where
  "JOB_FENCE c j \<longleftrightarrow>
     jid j = c_job c
     \<and> status j = Running
     \<and> sql_eq (locked_by_worker j) (Some (c_worker c))
     \<and> sql_eq (Some (attempt j)) (c_attempt c)
     \<and> sql_eq (Some (claim_epoch j)) (c_epoch c)"

definition ATTEMPT_REFUND :: "job \<Rightarrow> int" where
  "ATTEMPT_REFUND j = greatest (attempt j - 1) 0"

definition LEASE_CLEAR :: "job \<Rightarrow> job" where
  "LEASE_CLEAR j = j\<lparr>locked_by_worker := None, lock_expires_at := None, last_heartbeat_at := None\<rparr>"

record progress =
  p_seq :: int
  p_state :: "jobj option"

definition PROGRESS_MERGE :: "progress \<Rightarrow> job \<Rightarrow> job" where
  "PROGRESS_MERGE p j = j\<lparr>
     progress_seq := greatest (progress_seq j) (p_seq p),
     progress_state := (case p_state p of
         Some upd \<Rightarrow> Some (jsonb_concat (case progress_state j of Some s \<Rightarrow> s | None \<Rightarrow> Map.empty) upd)
       | None \<Rightarrow> progress_state j)\<rparr>"

section \<open>The ledgers\<close>

definition find_job :: "uuid \<Rightarrow> db \<Rightarrow> job option" where
  "find_job i d = row_by jid i (jobs d)"

definition put_job :: "job \<Rightarrow> db \<Rightarrow> db" where
  "put_job r d = d\<lparr>jobs := upd_where (\<lambda>j. jid j = jid r) (\<lambda>_. r) (jobs d)\<rparr>"

definition att_key :: "attempt_row \<Rightarrow> uuid \<times> int" where
  "att_key a = (a_job_id a, a_attempt a)"

text \<open>The holder CTE: the worker's id if its row still exists, NULL otherwise.\<close>

definition holder :: "uuid option \<Rightarrow> db \<Rightarrow> uuid option" where
  "holder w d = (case w of None \<Rightarrow> None
     | Some i \<Rightarrow> if row_by w_id i (workers d) = None then None else Some i)"

text \<open>\<open>trunc(EXTRACT(EPOCH FROM (f - s)) * 1000)::int\<close>, NULL if an operand is NULL.\<close>

definition duration_ms :: "timestamptz option \<Rightarrow> timestamptz option \<Rightarrow> pg_error + int option" where
  "duration_ms f s = (case (f, s) of
       (Some f', Some s') \<Rightarrow> bindE (to_int4 (trunc_div (f' - s') 1000)) (\<lambda>n. Inr (Some n))
     | _ \<Rightarrow> Inr None)"

text \<open>
  The attempt insert of the terminal statements: the duration cast and the
  NOT NULL check of \<open>started_at\<close> come before conflict arbitration, then
  \<open>ON CONFLICT (job_id, attempt) DO NOTHING\<close>.
\<close>

definition insert_attempt ::
    "job \<Rightarrow> timestamptz option \<Rightarrow> timestamptz \<Rightarrow> attempt_outcome
     \<Rightarrow> string option \<Rightarrow> string option \<Rightarrow> string option \<Rightarrow> timestamptz option
     \<Rightarrow> uuid option \<Rightarrow> timestamptz \<Rightarrow> db \<Rightarrow> pg_error + db" where
  "insert_attempt r started fin outcome ecls emsg etb dur_end wid due d =
     bindE (duration_ms dur_end (started_at r)) (\<lambda>dur.
       case started of
         None \<Rightarrow> Inl NotNullViolation
       | Some st \<Rightarrow> Inr (d\<lparr>job_attempts := ins_new att_key
           \<lparr>a_job_id = jid r, a_attempt = attempt r, a_started_at = st,
            a_finished_at = Some fin, a_outcome = outcome,
            a_error_class = ecls, a_error_message = emsg, a_error_traceback = etb,
            a_duration_ms = dur, a_worker_id = wid, a_metadata = Map.empty,
            a_due_at = Some due\<rparr> (job_attempts d)\<rparr>))"

definition insert_event :: "uuid \<Rightarrow> timestamptz \<Rightarrow> string \<Rightarrow> jobj \<Rightarrow> db \<Rightarrow> db" where
  "insert_event i ts kind det d = d\<lparr>
     job_events := job_events d @
       [\<lparr>e_id = event_seq d, e_job_id = i, e_occurred_at = ts, e_kind = kind, e_detail = det\<rparr>],
     event_seq := event_seq d + 1\<rparr>"

text \<open>\<open>uuid::text\<close>: 32 hexadecimal digits grouped 8-4-4-4-12.\<close>

definition hex_digit :: "nat \<Rightarrow> char" where
  "hex_digit n = (''0123456789abcdef'' ! (n mod 16))"

definition uuid_text :: "uuid \<Rightarrow> string" where
  "uuid_text u =
     (let h = map (\<lambda>i. hex_digit (u div 16 ^ (31 - i))) [0..<32]
      in take 8 h @ ''-'' @ take 4 (drop 8 h) @ ''-'' @ take 4 (drop 12 h)
         @ ''-'' @ take 4 (drop 16 h) @ ''-'' @ drop 20 h)"

text \<open>
  The cast \<open>text::uuid\<close>: optional braces around sixteen pairs of hexadecimal
  digits, with an optional dash after every second pair but the last.
\<close>

definition hex_char :: "char \<Rightarrow> nat option" where
  "hex_char c = (let n = of_char c in
     if 48 \<le> n \<and> n \<le> 57 then Some (n - 48)
     else if 97 \<le> n \<and> n \<le> 102 then Some (n - 87)
     else if 65 \<le> n \<and> n \<le> 70 then Some (n - 55) else None)"

fun strip_dash :: "string \<Rightarrow> string" where
  "strip_dash (CHR ''-'' # s) = s"
| "strip_dash s = s"

function uuid_bytes :: "nat \<Rightarrow> nat \<Rightarrow> string \<Rightarrow> (nat \<times> string) option" where
  "uuid_bytes i acc s =
     (if 16 \<le> i then Some (acc, s) else
      (case s of
         a # b # t \<Rightarrow> (case (hex_char a, hex_char b) of
             (Some x, Some y) \<Rightarrow> uuid_bytes (i + 1) (256 * acc + (16 * x + y))
                (if i mod 2 = 1 \<and> i < 15 then strip_dash t else t)
           | _ \<Rightarrow> None)
       | _ \<Rightarrow> None))"
  by pat_completeness auto
termination by (relation "measure (\<lambda>(i, acc, s). 16 - i)") auto

definition uuid_of_text :: "string \<Rightarrow> uuid option" where
  "uuid_of_text s = (case s of
       CHR ''{'' # t \<Rightarrow> (case uuid_bytes 0 0 t of
           Some (u, rest) \<Rightarrow> if rest = ''}'' then Some u else None
         | None \<Rightarrow> None)
     | _ \<Rightarrow> (case uuid_bytes 0 0 s of
           Some (u, rest) \<Rightarrow> if rest = [] then Some u else None
         | None \<Rightarrow> None))"

text \<open>
  \<open>(metadata->>'k')::uuid\<close>: a missing key or a JSON null is NULL, a string is
  cast, and the text of any other JSON value is no uuid.
\<close>

definition uuid_key :: "string \<Rightarrow> jobj \<Rightarrow> pg_error + uuid option" where
  "uuid_key k m = (case m k of
       None \<Rightarrow> Inr None
     | Some JNull \<Rightarrow> Inr None
     | Some (JStr s) \<Rightarrow> (case uuid_of_text s of
           Some u \<Rightarrow> Inr (Some u) | None \<Rightarrow> Inl InvalidTextRepresentation)
     | Some _ \<Rightarrow> Inl InvalidTextRepresentation)"

section \<open>Chains of data-modifying arms\<close>

text \<open>
  The fused statements are chains of data-modifying CTEs.  Each arm is an
  \<open>UPDATE ... WHERE ... RETURNING\<close> on the one row of the job, guarded by
  \<open>NOT EXISTS\<close> on every earlier arm, and followed by the inserts that read its
  RETURNING row.  All arms see the snapshot the statement started with, so the
  chain runs the first arm whose WHERE clause holds, or none.  \<open>arm_post\<close> gets
  the row before and after the SET clause and performs the inserts.
\<close>

record 'b arm =
  arm_branch :: 'b
  arm_where :: "job \<Rightarrow> bool"
  arm_set :: "job \<Rightarrow> job"
  arm_post :: "job \<Rightarrow> job \<Rightarrow> db \<Rightarrow> pg_error + db"

primrec exec_arms :: "'b arm list \<Rightarrow> job \<Rightarrow> db \<Rightarrow> pg_error + (('b \<times> job) option \<times> db)" where
  "exec_arms [] j d = Inr (None, d)"
| "exec_arms (a # as) j d =
     (if arm_where a j
      then bindE (arm_post a j (arm_set a j) (put_job (arm_set a j) d))
             (\<lambda>d'. Inr (Some (arm_branch a, arm_set a j), d'))
      else exec_arms as j d)"

definition run_arms :: "'b arm list \<Rightarrow> uuid \<Rightarrow> db \<Rightarrow> pg_error + (('b \<times> job) option \<times> db)" where
  "run_arms as i d = (case find_job i d of
       None \<Rightarrow> Inr (None, d)
     | Some j \<Rightarrow> exec_arms as j d)"


section \<open>Lookup, insertion and chain lemmas\<close>

lemma find_job_jid: "find_job i d = Some j \<Longrightarrow> jid j = i"
  by (auto simp: find_job_def dest: row_by_SomeD)

lemma find_job_in: "find_job i d = Some j \<Longrightarrow> j \<in> set (jobs d)"
  by (auto simp: find_job_def dest: row_by_SomeD)

lemma find_job_member:
  "distinct (map jid (jobs d)) \<Longrightarrow> j \<in> set (jobs d) \<Longrightarrow> find_job (jid j) d = Some j"
  by (simp add: find_job_def row_by_distinct)

lemma find_job_put [table_simps]:
  "find_job i (put_job r d) = (if jid r = i \<and> find_job i d \<noteq> None then Some r else find_job i d)"
  by (simp add: find_job_def put_job_def row_by_replace)

lemma jids_put [table_simps]: "map jid (jobs (put_job r d)) = map jid (jobs d)"
  by (simp add: put_job_def upd_where_def)

lemma put_job_same_tables [simp]:
  "job_attempts (put_job r d) = job_attempts d"
  "job_events (put_job r d) = job_events d"
  "event_seq (put_job r d) = event_seq d"
  "workers (put_job r d) = workers d"
  "actor_config (put_job r d) = actor_config d"
  "batches (put_job r d) = batches d"
  by (simp_all add: put_job_def)

lemma insert_event_same_tables [simp]:
  "jobs (insert_event i ts kind det d) = jobs d"
  "job_attempts (insert_event i ts kind det d) = job_attempts d"
  "workers (insert_event i ts kind det d) = workers d"
  "actor_config (insert_event i ts kind det d) = actor_config d"
  "batches (insert_event i ts kind det d) = batches d"
  by (simp_all add: insert_event_def)

lemma set_jobs_put:
  "j \<in> set (jobs (put_job r d)) \<Longrightarrow> j = r \<or> (j \<in> set (jobs d) \<and> jid j \<noteq> jid r)"
  by (auto simp: put_job_def upd_where_def split: if_splits)

text \<open>
  \<open>ledger_ext i n d d'\<close>: \<open>d'\<close> differs from \<open>d\<close> only by new event rows of job
  \<open>i\<close>, numbered from the sequence, and by at most one new attempt row, of
  key \<open>(i, n)\<close>, which the ledger did not hold before.
\<close>

definition ledger_ext :: "uuid \<Rightarrow> int \<Rightarrow> db \<Rightarrow> db \<Rightarrow> bool" where
  "ledger_ext i n d d' \<longleftrightarrow>
     jobs d' = jobs d \<and> workers d' = workers d \<and> actor_config d' = actor_config d
     \<and> batches d' = batches d
     \<and> (job_attempts d' = job_attempts d
        \<or> (\<exists>a. job_attempts d' = job_attempts d @ [a] \<and> att_key a = (i, n)
              \<and> (i, n) \<notin> att_key ` set (job_attempts d)))
     \<and> (\<exists>es. job_events d' = job_events d @ es \<and> (\<forall>e\<in>set es. e_job_id e = i)
           \<and> map e_id es = map (\<lambda>k. event_seq d + int k) [0..<length es]
           \<and> event_seq d' = event_seq d + int (length es))"

lemma ledger_ext_refl [intro, simp]: "ledger_ext i n d d"
  by (simp add: ledger_ext_def)

lemma ledger_extD:
  assumes "ledger_ext i n d d'"
  shows "jobs d' = jobs d" "workers d' = workers d" "actor_config d' = actor_config d"
    "find_job k d' = find_job k d"
  using assms by (auto simp: ledger_ext_def find_job_def)

lemma ledger_ext_insert_event [intro, simp]: "ledger_ext i n d (insert_event i ts kind det d)"
  by (auto simp: ledger_ext_def insert_event_def)

lemma insert_attempt_cases:
  assumes "insert_attempt r st fin out ec em et de wid due d = Inr d'"
  obtains dur st' where "st = Some st'" "duration_ms de (started_at r) = Inr dur"
    "d' = d\<lparr>job_attempts := ins_new att_key
           \<lparr>a_job_id = jid r, a_attempt = attempt r, a_started_at = st',
            a_finished_at = Some fin, a_outcome = out,
            a_error_class = ec, a_error_message = em, a_error_traceback = et,
            a_duration_ms = dur, a_worker_id = wid, a_metadata = Map.empty,
            a_due_at = Some due\<rparr> (job_attempts d)\<rparr>"
  using assms by (auto simp: insert_attempt_def bindE_Inr_iff split: option.splits)

lemma ledger_ext_insert_attempt:
  assumes "insert_attempt r st fin out ec em et de wid due d = Inr d'"
  shows "ledger_ext (jid r) (attempt r) d d'"
proof -
  obtain a where d': "d' = d\<lparr>job_attempts := ins_new att_key a (job_attempts d)\<rparr>"
    and a: "att_key a = (jid r, attempt r)"
    using assms by (rule insert_attempt_cases) (auto simp: att_key_def)
  show ?thesis
    by (cases "row_by att_key (att_key a) (job_attempts d)")
       (auto simp: ledger_ext_def d' ins_new_def a row_by_None_iff)
qed

lemma insert_attempt_recorded:
  assumes "insert_attempt r st fin out ec em et de wid due d = Inr d'"
  shows "(jid r, attempt r) \<in> att_key ` set (job_attempts d')"
proof -
  obtain a where d': "d' = d\<lparr>job_attempts := ins_new att_key a (job_attempts d)\<rparr>"
    and a: "att_key a = (jid r, attempt r)"
    using assms by (rule insert_attempt_cases) (auto simp: att_key_def)
  then have "row_by att_key (jid r, attempt r) (job_attempts d') \<noteq> None"
    by (simp add: row_by_ins_new split: option.splits)
  then show ?thesis by (simp add: row_by_None_iff)
qed

lemma ledger_ext_event_after:
  assumes "ledger_ext i n d d'"
  shows "ledger_ext i n d (insert_event i ts kind det d')"
proof -
  obtain es where es: "job_events d' = job_events d @ es" "\<forall>e\<in>set es. e_job_id e = i"
      "map e_id es = map (\<lambda>k. event_seq d + int k) [0..<length es]"
      "event_seq d' = event_seq d + int (length es)"
    using assms by (auto simp: ledger_ext_def)
  let ?e = "\<lparr>e_id = event_seq d', e_job_id = i, e_occurred_at = ts, e_kind = kind, e_detail = det\<rparr>"
  have "job_events (insert_event i ts kind det d') = job_events d @ (es @ [?e])"
    using es(1) by (simp add: insert_event_def)
  moreover have "map e_id (es @ [?e]) = map (\<lambda>k. event_seq d + int k) [0..<length (es @ [?e])]"
    using es by simp
  moreover have "event_seq (insert_event i ts kind det d') = event_seq d + int (length (es @ [?e]))"
    using es(4) by (simp add: insert_event_def)
  moreover have "\<forall>e\<in>set (es @ [?e]). e_job_id e = i"
    using es(2) by simp
  moreover have "jobs (insert_event i ts kind det d') = jobs d'"
    "workers (insert_event i ts kind det d') = workers d'"
    "actor_config (insert_event i ts kind det d') = actor_config d'"
    "batches (insert_event i ts kind det d') = batches d'"
    "job_attempts (insert_event i ts kind det d') = job_attempts d'"
    by (simp_all add: insert_event_def)
  ultimately show ?thesis
    using assms unfolding ledger_ext_def by metis
qed

text \<open>What one arm does to the row and the ledgers, read off a successful chain.\<close>

lemma exec_arms_cases:
  assumes "exec_arms as j d = Inr (res, d')"
  obtains (none) "res = None" "d' = d" "\<forall>a\<in>set as. \<not> arm_where a j"
  | (some) a where "a \<in> set as" "arm_where a j" "res = Some (arm_branch a, arm_set a j)"
      "arm_post a j (arm_set a j) (put_job (arm_set a j) d) = Inr d'"
  using assms
proof (induction as)
  case (Cons a as)
  show ?case
  proof (cases "arm_where a j")
    case True
    then show ?thesis using Cons.prems by (auto simp: bindE_Inr_iff)
  next
    case False
    then show ?thesis using Cons by auto
  qed
qed simp

lemma exec_arms_noop: "(\<forall>a\<in>set as. \<not> arm_where a j) \<Longrightarrow> exec_arms as j d = Inr (None, d)"
  by (induction as) auto

lemma run_arms_missing: "find_job i d = None \<Longrightarrow> run_arms as i d = Inr (None, d)"
  by (simp add: run_arms_def)

lemma run_arms_noop:
  "find_job i d = Some j \<Longrightarrow> \<forall>a\<in>set as. \<not> arm_where a j \<Longrightarrow> run_arms as i d = Inr (None, d)"
  by (simp add: run_arms_def exec_arms_noop)

lemma exec_arms_some:
  assumes "exec_arms as j d = Inr (r, d')" "\<exists>a\<in>set as. arm_where a j"
  shows "r \<noteq> None"
  using assms by (induction as) (auto simp: bindE_Inr_iff split: if_splits)

lemma run_arms_some:
  assumes "run_arms as i d = Inr (r, d')" "find_job i d = Some j" "\<exists>a\<in>set as. arm_where a j"
  shows "r \<noteq> None"
  using assms exec_arms_some[of as j d r d'] by (simp add: run_arms_def)

end
