(* ===== verification/Fence.thy ===== *)
theory Fence
  imports Jobs
begin

text \<open>
  The contract of a fenced write.  Every worker-scoped statement of
  \<open>backend/_sql_templates.py\<close> carries the fence fragment; this theory states
  once what the fence promises (the locale \<open>fenced_write\<close>), proves the
  consequences a caller relies on, and gives the rule by which a chain of
  arms meets the contract.
\<close>

section \<open>What a fenced write may do to its row\<close>

definition same_identity :: "job \<Rightarrow> job \<Rightarrow> bool" where
  "same_identity j j' \<longleftrightarrow>
     jid j' = jid j \<and> actor j' = actor j \<and> queue j' = queue j \<and> payload j' = payload j
     \<and> priority j' = priority j \<and> max_attempts j' = max_attempts j
     \<and> retry_kind j' = retry_kind j \<and> created_at j' = created_at j
     \<and> identity_key j' = identity_key j \<and> schedule_to_close j' = schedule_to_close j
     \<and> heartbeat_timeout j' = heartbeat_timeout j \<and> started_at j' = started_at j
     \<and> idempotency_key j' = idempotency_key j \<and> claim_epoch j' = claim_epoch j
     \<and> retry_base_seconds j' = retry_base_seconds j \<and> retry_cap_seconds j' = retry_cap_seconds j
     \<and> retry_backoff j' = retry_backoff j \<and> retry_jitter j' = retry_jitter j
     \<and> deps_pending j' = deps_pending j \<and> step_key j' = step_key j"

definition counters_grow :: "job \<Rightarrow> job \<Rightarrow> bool" where
  "counters_grow j j' \<longleftrightarrow>
     progress_seq j \<le> progress_seq j' \<and> snooze_count j \<le> snooze_count j'
     \<and> rate_limit_blocked_count j \<le> rate_limit_blocked_count j'
     \<and> interrupt_count j \<le> interrupt_count j'"

text \<open>
  A write either ends the job (the cancel columns and the attempt stay as the
  record of why and when) or hands it back (only if no cancel is in flight,
  and then the next attempt inherits none; the attempt number stays or is the
  refunded one).  Either way the lock is released.
\<close>

definition fenced_step :: "job \<Rightarrow> job \<Rightarrow> bool" where
  "fenced_step j j' \<longleftrightarrow>
     same_identity j j' \<and> counters_grow j j'
     \<and> status j' \<in> VALID_TRANSITIONS (status j)
     \<and> locked_by_worker j' = None \<and> lock_expires_at j' = None
     \<and> (if status j' \<in> TERMINAL_STATUSES
        then finished_at j' \<noteq> None \<and> attempt j' = attempt j
             \<and> cancel_phase j' = cancel_phase j \<and> cancel_requested_at j' = cancel_requested_at j
             \<and> scheduled_at j' = scheduled_at j
        else finished_at j' = None \<and> attempt j' \<in> {attempt j, ATTEMPT_REFUND j}
             \<and> cancel_phase j = 0 \<and> cancel_phase j' = 0 \<and> cancel_requested_at j' = None
             \<and> assignment_routed j')"

text \<open>
  What the write leaves in the ledgers of \<open>d\<close>: a job that ends has a recorded
  attempt, and a refunded attempt number records none.
\<close>

definition fenced_ledger :: "job \<Rightarrow> job \<Rightarrow> db \<Rightarrow> db \<Rightarrow> bool" where
  "fenced_ledger j j' d d' \<longleftrightarrow>
     ledger_ext (jid j) (attempt j') d d'
     \<and> (attempt j' \<noteq> attempt j \<longrightarrow> job_attempts d' = job_attempts d)
     \<and> (status j' \<in> TERMINAL_STATUSES \<longrightarrow>
          started_at j \<noteq> None \<and> (jid j, attempt j') \<in> att_key ` set (job_attempts d'))"

lemma fenced_ledgerD: "fenced_ledger j j' d d' \<Longrightarrow> ledger_ext (jid j) (attempt j') d d'"
  by (simp add: fenced_ledger_def)

section \<open>The contract\<close>

locale fenced_write =
  fixes stmt :: "'p \<Rightarrow> claim \<Rightarrow> db \<Rightarrow> pg_error + ('r option \<times> db)"
  assumes missing: "find_job (c_job c) d = None \<Longrightarrow> stmt p c d = Inr (None, d)"
    and fenced_out:
      "find_job (c_job c) d = Some j \<Longrightarrow> \<not> JOB_FENCE c j \<Longrightarrow> stmt p c d = Inr (None, d)"
    and not_applied: "stmt p c d = Inr (None, d') \<Longrightarrow> d' = d"
    and applied:
      "stmt p c d = Inr (Some r, d') \<Longrightarrow>
         \<exists>j j'. find_job (c_job c) d = Some j \<and> JOB_FENCE c j \<and> fenced_step j j'
           \<and> fenced_ledger j j' (put_job j' d) d'"
begin

lemma row_after:
  assumes "stmt p c d = Inr (Some r, d')"
  obtains j j' where "find_job (c_job c) d = Some j" "JOB_FENCE c j" "fenced_step j j'"
    "find_job (c_job c) d' = Some j'" "jid j' = c_job c"
proof -
  obtain j j' where j: "find_job (c_job c) d = Some j" "JOB_FENCE c j" "fenced_step j j'"
    and ext: "ledger_ext (jid j) (attempt j') (put_job j' d) d'"
    using applied[OF assms] fenced_ledgerD by blast
  have "jid j' = c_job c"
    using j find_job_jid[OF j(1)] by (simp add: fenced_step_def same_identity_def)
  moreover have "find_job (c_job c) d' = Some j'"
    using ledger_extD(4)[OF ext] calculation j(1) by (simp add: find_job_put)
  ultimately show thesis using that j by blast
qed

lemma stale_epoch: "find_job (c_job c) d = Some j \<Longrightarrow> c_epoch c \<noteq> Some (claim_epoch j)
    \<Longrightarrow> stmt p c d = Inr (None, d)"
  by (rule fenced_out) (auto simp: JOB_FENCE_def)

lemma stale_attempt: "find_job (c_job c) d = Some j \<Longrightarrow> c_attempt c \<noteq> Some (attempt j)
    \<Longrightarrow> stmt p c d = Inr (None, d)"
  by (rule fenced_out) (auto simp: JOB_FENCE_def)

lemma not_holder: "find_job (c_job c) d = Some j \<Longrightarrow> locked_by_worker j \<noteq> Some (c_worker c)
    \<Longrightarrow> stmt p c d = Inr (None, d)"
  by (rule fenced_out) (auto simp: JOB_FENCE_def)

lemma no_claim_view: "c_attempt c = None \<or> c_epoch c = None \<Longrightarrow> stmt p c d = Inr (None, d)"
  by (cases "find_job (c_job c) d") (auto simp: missing JOB_FENCE_def intro!: fenced_out)

lemma frame:
  assumes "stmt p c d = Inr (r, d')" "i \<noteq> c_job c"
  shows "find_job i d' = find_job i d"
proof (cases r)
  case None
  then show ?thesis using assms not_applied by blast
next
  case (Some x)
  obtain j j' where j: "find_job (c_job c) d = Some j" "fenced_step j j'"
    and ext: "ledger_ext (jid j) (attempt j') (put_job j' d) d'"
    using applied assms(1) Some fenced_ledgerD by blast
  have "jid j' = c_job c"
    using j find_job_jid[OF j(1)] by (simp add: fenced_step_def same_identity_def)
  then show ?thesis
    using ledger_extD(4)[OF ext] assms(2) by (simp add: find_job_put)
qed

lemma left_running:
  assumes "stmt p c d = Inr (Some r, d')" "find_job (c_job c) d' = Some j'"
  shows "status j' \<noteq> Running"
  using assms(1)
proof (rule row_after)
  fix j k assume "JOB_FENCE c j" "fenced_step j k" "find_job (c_job c) d' = Some k"
  then show ?thesis
    using assms(2) by (auto simp: fenced_step_def JOB_FENCE_def)
qed

end

text \<open>
  Two fenced statements under one claim: once the first has landed, the
  second finds nothing to write.  A handler and its own late retry, or a
  handler and its shutdown release, cannot both land.
\<close>

locale fenced_pair = first: fenced_write stmt1 + second: fenced_write stmt2
  for stmt1 :: "'p \<Rightarrow> claim \<Rightarrow> db \<Rightarrow> pg_error + ('r option \<times> db)"
  and stmt2 :: "'q \<Rightarrow> claim \<Rightarrow> db \<Rightarrow> pg_error + ('s option \<times> db)"
begin

lemma second_noop:
  assumes "stmt1 p c d = Inr (Some r, d')"
  shows "stmt2 q c d' = Inr (None, d')"
  using assms
proof (rule first.row_after)
  fix j j' assume "find_job (c_job c) d' = Some j'" "JOB_FENCE c j" "fenced_step j j'"
  then show ?thesis
    using first.left_running[OF assms]
    by (intro second.fenced_out) (auto simp: JOB_FENCE_def)
qed

end

sublocale fenced_write \<subseteq> self: fenced_pair stmt stmt
  by unfold_locales

section \<open>Chains of arms meet the contract\<close>

definition arm_ok :: "claim \<Rightarrow> 'b arm \<Rightarrow> bool" where
  "arm_ok c a \<longleftrightarrow>
     (\<forall>j. arm_where a j \<longrightarrow> JOB_FENCE c j)
     \<and> (\<forall>j. arm_where a j \<longrightarrow> fenced_step j (arm_set a j))
     \<and> (\<forall>j d d'. arm_where a j \<longrightarrow> arm_post a j (arm_set a j) d = Inr d'
           \<longrightarrow> fenced_ledger j (arm_set a j) d d')"

lemma fenced_writeI:
  assumes stmt: "\<And>p c d. stmt p c d = run_arms (arms p c d) (c_job c) d"
    and ok: "\<And>p c d a. a \<in> set (arms p c d) \<Longrightarrow> arm_ok c a"
  shows "fenced_write stmt"
proof
  fix c d p
  show "stmt p c d = Inr (None, d)" if "find_job (c_job c) d = None"
    using that by (simp add: stmt run_arms_missing)
  fix j
  show "stmt p c d = Inr (None, d)" if "find_job (c_job c) d = Some j" "\<not> JOB_FENCE c j"
    using that ok by (auto simp: stmt arm_ok_def intro!: run_arms_noop)
next
  fix p c d d'
  assume "stmt p c d = Inr (None, d')"
  then show "d' = d"
    by (auto simp: stmt run_arms_def split: option.splits elim: exec_arms_cases)
next
  fix p c d r d'
  assume "stmt p c d = Inr (Some r, d')"
  then obtain j where j: "find_job (c_job c) d = Some j"
    and ex: "exec_arms (arms p c d) j d = Inr (Some r, d')"
    by (auto simp: stmt run_arms_def split: option.splits)
  from ex show "\<exists>j j'. find_job (c_job c) d = Some j \<and> JOB_FENCE c j \<and> fenced_step j j'
           \<and> fenced_ledger j j' (put_job j' d) d'"
  proof (cases rule: exec_arms_cases)
    case (some a)
    then show ?thesis
      using j ok[OF some(1)] unfolding arm_ok_def by metis
  qed simp
qed

text \<open>The branch, the row and the table after a chain that wrote.\<close>

lemma run_arms_applied:
  assumes "run_arms as (c_job c) d = Inr (Some (b, r), d')" "\<And>a. a \<in> set as \<Longrightarrow> arm_ok c a"
  obtains j a where "find_job (c_job c) d = Some j" "a \<in> set as" "arm_where a j"
    "b = arm_branch a" "r = arm_set a j" "find_job (c_job c) d' = Some r"
    "arm_post a j r (put_job r d) = Inr d'"
proof -
  obtain j where j: "find_job (c_job c) d = Some j" "exec_arms as j d = Inr (Some (b, r), d')"
    using assms(1) by (auto simp: run_arms_def split: option.splits)
  then obtain a where a: "a \<in> set as" "arm_where a j" "b = arm_branch a" "r = arm_set a j"
      "arm_post a j r (put_job r d) = Inr d'"
    by (auto elim: exec_arms_cases)
  have ok: "fenced_step j r" "fenced_ledger j r (put_job r d) d'"
    using assms(2)[OF a(1)] a unfolding arm_ok_def by blast+
  then have "jid r = c_job c" using find_job_jid[OF j(1)] by (simp add: fenced_step_def same_identity_def)
  then have "find_job (c_job c) d' = Some r"
    using ledger_extD(4)[OF fenced_ledgerD[OF ok(2)]] j(1) by (simp add: find_job_put)
  then show thesis using that j(1) a by blast
qed

end
