(* ===== verification/Terminal.thy ===== *)
theory Terminal
  imports Fence
begin

text \<open>
  The fused terminal statements of \<open>backend/_sql_templates.py\<close>:
  \<open>mark_succeeded\<close>, \<open>mark_failed\<close>, \<open>mark_retry\<close>, \<open>mark_cancelled\<close> and
  \<open>mark_abandoned\<close>.  One definition per CTE arm, one per statement.  The
  number given to \<open>clk\<close> is the position of the occurrence of
  \<open>clock_timestamp()\<close> in the text of the statement.
\<close>

section \<open>Pieces the arms share\<close>

definition state_change_detail :: "string \<Rightarrow> string \<Rightarrow> (string \<times> json) list \<Rightarrow> jobj" where
  "state_change_detail from_state to_state extra =
     jsonb_build_object
       ([(''from_state'', JStr from_state), (''to_state'', JStr to_state)] @ extra)"

definition deadline_fits :: "timestamptz \<Rightarrow> interval \<Rightarrow> job \<Rightarrow> bool" where
  "deadline_fits now delay j \<longleftrightarrow>
     schedule_to_close j = None \<or> sql_le (Some (now + delay)) (schedule_to_close j)"

definition deadline_lapsed :: "timestamptz \<Rightarrow> interval \<Rightarrow> job \<Rightarrow> bool" where
  "deadline_lapsed now delay j \<longleftrightarrow>
     schedule_to_close j \<noteq> None \<and> sql_lt (schedule_to_close j) (Some (now + delay))"

definition delayed_status :: "interval \<Rightarrow> job_status" where
  "delayed_status delay = (if delay > 0 then Scheduled else Pending)"

text \<open>The SET clause every hand-back arm opens with.\<close>

definition requeue :: "timestamptz \<Rightarrow> interval \<Rightarrow> job \<Rightarrow> job" where
  "requeue now delay j = LEASE_CLEAR (j\<lparr>
     status := delayed_status delay,
     scheduled_at := now + delay,
     finished_at := None,
     cancel_phase := 0,
     cancel_requested_at := None,
     assignment_routed := True\<rparr>)"

definition floored_delay :: "interval \<Rightarrow> interval" where
  "floored_delay delay = greatest delay MIN_DEFERRAL_INTERVAL"

text \<open>The SET clause of the deadline arms.\<close>

definition deadline_fail :: "timestamptz \<Rightarrow> string \<Rightarrow> job \<Rightarrow> job" where
  "deadline_fail now msg j = LEASE_CLEAR (j\<lparr>
     status := Failed,
     finished_at := Some now,
     error_class := Some ERROR_CLASS_DEADLINE_EXCEEDED,
     error_message := Some msg,
     error_traceback := None\<rparr>)"

section \<open>mark_succeeded\<close>

record succeeded_binds =
  sb_result :: "json option"
  sb_result_size :: "int option"
  sb_fallback_ttl :: "interval option"
  sb_progress :: progress

definition succeeded_set ::
    "clock \<Rightarrow> (string \<Rightarrow> actor_config_row option) \<Rightarrow> succeeded_binds \<Rightarrow> job \<Rightarrow> job" where
  "succeeded_set clk cfg b j = PROGRESS_MERGE (sb_progress b) (j\<lparr>
     status := Succeeded,
     finished_at := Some (clk 0),
     locked_by_worker := None,
     lock_expires_at := None,
     result := sb_result b,
     result_size_bytes := sb_result_size b,
     result_expires_at := coalesce
       [Option.bind (cfg (actor j)) (\<lambda>ac. map_option (\<lambda>ttl. clk 1 + ttl) (ac_result_ttl ac)),
        map_option (\<lambda>ttl. clk 2 + ttl) (sb_fallback_ttl b),
        result_expires_at j]\<rparr>)"

definition succeeded_post :: "clock \<Rightarrow> claim \<Rightarrow> job \<Rightarrow> job \<Rightarrow> db \<Rightarrow> pg_error + db" where
  "succeeded_post clk c j upd d =
     bindE (insert_attempt upd (started_at upd) (clk 3) OutSucceeded None None None
              (finished_at upd) (holder (Some (c_worker c)) d) (scheduled_at upd) d)
       (\<lambda>d'. Inr (insert_event (jid upd) (clk 4) ''state_change''
          (state_change_detail ''running'' ''succeeded''
             [(''worker_id'', JStr (uuid_text (c_worker c)))]) d'))"

definition mark_succeeded ::
    "clock \<Rightarrow> succeeded_binds \<Rightarrow> claim \<Rightarrow> db \<Rightarrow> pg_error + ((unit \<times> job) option \<times> db)" where
  "mark_succeeded clk b c d = run_arms
     [\<lparr>arm_branch = (), arm_where = JOB_FENCE c,
       arm_set = succeeded_set clk (actor_config d) b,
       arm_post = succeeded_post clk c\<rparr>] (c_job c) d"

section \<open>mark_failed\<close>

record error_info =
  ei_class :: string
  ei_message :: string
  ei_traceback :: "string option"

definition failed_set :: "clock \<Rightarrow> error_info \<Rightarrow> progress \<Rightarrow> job \<Rightarrow> job" where
  "failed_set clk e p j = PROGRESS_MERGE p (j\<lparr>
     status := Failed,
     finished_at := Some (clk 0),
     locked_by_worker := None,
     lock_expires_at := None,
     error_class := Some (ei_class e),
     error_message := Some (ei_message e),
     error_traceback := ei_traceback e\<rparr>)"

definition failed_post :: "clock \<Rightarrow> error_info \<Rightarrow> claim \<Rightarrow> job \<Rightarrow> job \<Rightarrow> db \<Rightarrow> pg_error + db" where
  "failed_post clk e c j upd d =
     bindE (insert_attempt upd (started_at upd) (clk 1) OutFailed
              (Some (ei_class e)) (Some (ei_message e)) (ei_traceback e)
              (finished_at upd) (holder (Some (c_worker c)) d) (scheduled_at upd) d)
       (\<lambda>d'. Inr (insert_event (jid upd) (clk 2) ''state_change''
          (jsonb_strip_nulls (state_change_detail ''running'' ''failed''
             [(''error_class'', JStr (ei_class e)),
              (''worker_id'', JStr (uuid_text (c_worker c)))])) d'))"

definition mark_failed ::
    "clock \<Rightarrow> error_info \<times> progress \<Rightarrow> claim \<Rightarrow> db \<Rightarrow> pg_error + ((unit \<times> job) option \<times> db)" where
  "mark_failed clk b c d = run_arms
     [\<lparr>arm_branch = (), arm_where = JOB_FENCE c,
       arm_set = failed_set clk (fst b) (snd b),
       arm_post = failed_post clk (fst b) c\<rparr>] (c_job c) d"

section \<open>mark_retry\<close>

record retry_binds =
  rb_delay :: interval
  rb_error :: error_info
  rb_progress :: progress

definition retry_retried ::
    "clock \<Rightarrow> retry_binds \<Rightarrow> claim \<Rightarrow> outcome_branch arm" where
  "retry_retried clk b c =
     (let delay = floored_delay (rb_delay b); e = rb_error b in
      \<lparr>arm_branch = BrRetried,
       arm_where = (\<lambda>j. JOB_FENCE c j \<and> cancel_phase j = 0 \<and> deadline_fits (clk 1) delay j),
       arm_set = (\<lambda>j. PROGRESS_MERGE (rb_progress b) ((requeue (clk 0) delay j)\<lparr>
          error_class := Some (ei_class e),
          error_message := Some (ei_message e),
          error_traceback := ei_traceback e\<rparr>)),
       arm_post = (\<lambda>j r d.
          bindE (insert_attempt r (started_at r) (clk 6) OutFailed
                   (Some (ei_class e)) (Some (ei_message e)) (ei_traceback e)
                   (Some (clk 2)) (holder (Some (c_worker c)) d) (scheduled_at j) d)
            (\<lambda>d'. Inr (insert_event (jid r) (clk 7) ''state_change''
               (jsonb_strip_nulls (state_change_detail ''running'' ''scheduled''
                  [(''error_class'', JStr (ei_class e)),
                   (''worker_id'', JStr (uuid_text (c_worker c)))])) d')))\<rparr>)"

definition retry_deadline_failed ::
    "clock \<Rightarrow> retry_binds \<Rightarrow> claim \<Rightarrow> outcome_branch arm" where
  "retry_deadline_failed clk b c =
     (let delay = floored_delay (rb_delay b) in
      \<lparr>arm_branch = BrDeadlineFailed,
       arm_where = (\<lambda>j. JOB_FENCE c j \<and> cancel_phase j = 0 \<and> deadline_lapsed (clk 4) delay j),
       arm_set = (\<lambda>j. PROGRESS_MERGE (rb_progress b)
          (deadline_fail (clk 3) DEADLINE_RETRY_EXCEEDED_MESSAGE j)),
       arm_post = (\<lambda>j r d.
          bindE (insert_attempt r (started_at r) (clk 8) OutFailed
                   (Some ERROR_CLASS_DEADLINE_EXCEEDED) (Some DEADLINE_RETRY_EXCEEDED_MESSAGE) None
                   (finished_at r) (holder (Some (c_worker c)) d) (scheduled_at r) d)
            (\<lambda>d'. Inr (insert_event (jid r) (clk 9) ''state_change''
               (state_change_detail ''running'' ''failed''
                  [(''error_class'', JStr ERROR_CLASS_DEADLINE_EXCEEDED),
                   (''worker_id'', JStr (uuid_text (c_worker c)))]) d')))\<rparr>)"

definition mark_retry ::
    "clock \<Rightarrow> retry_binds \<Rightarrow> claim \<Rightarrow> db \<Rightarrow> pg_error + ((outcome_branch \<times> job) option \<times> db)" where
  "mark_retry clk b c d =
     run_arms [retry_retried clk b c, retry_deadline_failed clk b c] (c_job c) d"

section \<open>mark_cancelled and mark_abandoned\<close>

definition cancelled_set :: "clock \<Rightarrow> progress \<Rightarrow> job \<Rightarrow> job" where
  "cancelled_set clk p j = PROGRESS_MERGE p (j\<lparr>
     status := Cancelled,
     finished_at := Some (clk 0),
     locked_by_worker := None,
     lock_expires_at := None,
     error_class := Some (if cancel_phase j = 2 then CANCEL_ORIGIN_FORCED
                          else if cancel_requested_at j \<noteq> None then CANCEL_ORIGIN_COOPERATIVE
                          else CANCEL_ORIGIN_UNREQUESTED)\<rparr>)"

definition cancelled_post :: "clock \<Rightarrow> claim \<Rightarrow> job \<Rightarrow> job \<Rightarrow> db \<Rightarrow> pg_error + db" where
  "cancelled_post clk c j upd d =
     bindE (insert_attempt upd (started_at upd) (clk 1) OutCancelled (error_class upd) None None
              (finished_at upd) (holder (Some (c_worker c)) d) (scheduled_at upd) d)
       (\<lambda>d'. Inr (insert_event (jid upd) (clk 2) ''state_change''
          (state_change_detail ''running'' ''cancelled''
             [(''error_class'', json_text (error_class upd)),
              (''worker_id'', JStr (uuid_text (c_worker c)))]) d'))"

definition mark_cancelled ::
    "clock \<Rightarrow> progress \<Rightarrow> claim \<Rightarrow> db \<Rightarrow> pg_error + ((unit \<times> job) option \<times> db)" where
  "mark_cancelled clk p c d = run_arms
     [\<lparr>arm_branch = (), arm_where = JOB_FENCE c, arm_set = cancelled_set clk p,
       arm_post = cancelled_post clk c\<rparr>] (c_job c) d"

definition abandoned_set :: "clock \<Rightarrow> progress \<Rightarrow> job \<Rightarrow> job" where
  "abandoned_set clk p j = PROGRESS_MERGE p (j\<lparr>
     status := Abandoned,
     finished_at := Some (clk 0),
     error_class := Some CANCEL_ORIGIN_ABANDONED\<rparr>)"

definition abandoned_where :: "uuid \<Rightarrow> job \<Rightarrow> bool" where
  "abandoned_where i j \<longleftrightarrow>
     jid j = i \<and> status j = Running \<and> (cancel_phase j = 2 \<or> lock_expires_at j = None)"

definition abandoned_post :: "clock \<Rightarrow> job \<Rightarrow> job \<Rightarrow> db \<Rightarrow> pg_error + db" where
  "abandoned_post clk j upd d =
     bindE (insert_attempt upd (coalesce [started_at upd, Some (clk 1)]) (clk 2) OutCancelled
              (Some CANCEL_ORIGIN_ABANDONED) None None
              (finished_at upd) (holder (locked_by_worker upd) d) (scheduled_at upd) d)
       (\<lambda>d'. Inr (insert_event (jid upd) (clk 3) ''state_change''
          (jsonb_strip_nulls (state_change_detail ''running'' ''abandoned''
             [(''error_class'', JStr CANCEL_ORIGIN_ABANDONED),
              (''worker_id'', json_text (map_option uuid_text (locked_by_worker upd)))])) d'))"

definition mark_abandoned ::
    "clock \<Rightarrow> progress \<Rightarrow> uuid \<Rightarrow> db \<Rightarrow> pg_error + ((unit \<times> job) option \<times> db)" where
  "mark_abandoned clk p i d = run_arms
     [\<lparr>arm_branch = (), arm_where = abandoned_where i, arm_set = abandoned_set clk p,
       arm_post = abandoned_post clk\<rparr>] i d"


section \<open>The arms meet the fence contract\<close>

lemmas set_defs = PROGRESS_MERGE_def requeue_def deadline_fail_def LEASE_CLEAR_def delayed_status_def
  succeeded_set_def failed_set_def cancelled_set_def

lemmas step_defs = fenced_step_def same_identity_def counters_grow_def TERMINAL_STATUSES_def
  JOB_FENCE_def greatest_def ATTEMPT_REFUND_def

lemma post_ledger:
  assumes "bindE (insert_attempt r st fin out ec em et de wid due d)
             (\<lambda>d'. Inr (insert_event i ts kind det d')) = Inr d''"
    and "jid r = i" "attempt r = n"
  shows "ledger_ext i n d d'' \<and> st \<noteq> None \<and> (i, n) \<in> att_key ` set (job_attempts d'')"
proof -
  obtain d' where d': "insert_attempt r st fin out ec em et de wid due d = Inr d'"
      "d'' = insert_event i ts kind det d'"
    using assms(1) by (auto simp: bindE_Inr_iff)
  have "st \<noteq> None" using d'(1) by (rule insert_attempt_cases) simp
  moreover have "job_attempts d'' = job_attempts d'" by (simp add: d'(2) insert_event_def)
  ultimately show ?thesis
    using ledger_ext_insert_attempt[OF d'(1)] insert_attempt_recorded[OF d'(1)] assms(2,3)
    by (auto simp: d'(2) intro: ledger_ext_event_after)
qed

text \<open>
  Two ways to meet the ledger half of the contract: the arm inserts an attempt
  row for an attempt number it keeps, or it ends nothing and inserts none.
\<close>

lemma arm_okI:
  assumes "\<And>j. arm_where a j \<Longrightarrow> JOB_FENCE c j"
    and "\<And>j. JOB_FENCE c j \<Longrightarrow> arm_where a j \<Longrightarrow> fenced_step j (arm_set a j)"
    and "\<And>j d d'. fenced_step j (arm_set a j) \<Longrightarrow> arm_post a j (arm_set a j) d = Inr d'
           \<Longrightarrow> ledger_ext (jid (arm_set a j)) (attempt (arm_set a j)) d d'
               \<and> (attempt (arm_set a j) = attempt j \<and> started_at (arm_set a j) \<noteq> None
                    \<and> (jid (arm_set a j), attempt (arm_set a j)) \<in> att_key ` set (job_attempts d')
                  \<or> status (arm_set a j) \<notin> TERMINAL_STATUSES \<and> job_attempts d' = job_attempts d)"
  shows "arm_ok c a"
  unfolding arm_ok_def
proof (intro conjI allI impI)
  fix j assume w: "arm_where a j"
  show f: "JOB_FENCE c j" by (rule assms(1)[OF w])
  show s: "fenced_step j (arm_set a j)" by (rule assms(2)[OF f w])
  fix d d' assume "arm_post a j (arm_set a j) d = Inr d'"
  from assms(3)[OF s this] s show "fenced_ledger j (arm_set a j) d d'"
    unfolding fenced_ledger_def fenced_step_def same_identity_def by metis
qed

lemma succeeded_arm_ok:
  "arm_ok c \<lparr>arm_branch = (), arm_where = JOB_FENCE c, arm_set = succeeded_set clk cfg b,
       arm_post = succeeded_post clk c\<rparr>"
  by (rule arm_okI)
     (auto simp: set_defs step_defs succeeded_post_def dest: post_ledger)

lemma failed_arm_ok:
  "arm_ok c \<lparr>arm_branch = (), arm_where = JOB_FENCE c, arm_set = failed_set clk e p,
       arm_post = failed_post clk e c\<rparr>"
  by (rule arm_okI)
     (auto simp: set_defs step_defs failed_post_def dest: post_ledger)

lemma cancelled_arm_ok:
  "arm_ok c \<lparr>arm_branch = (), arm_where = JOB_FENCE c, arm_set = cancelled_set clk p,
       arm_post = cancelled_post clk c\<rparr>"
  by (rule arm_okI)
     (auto simp: set_defs step_defs cancelled_post_def dest: post_ledger)

lemma retry_retried_ok: "arm_ok c (retry_retried clk b c)"
  by (rule arm_okI)
     (auto simp: retry_retried_def Let_def set_defs step_defs dest: post_ledger)

lemma retry_deadline_failed_ok: "arm_ok c (retry_deadline_failed clk b c)"
  by (rule arm_okI)
     (auto simp: retry_deadline_failed_def Let_def set_defs step_defs dest: post_ledger)

interpretation succ: fenced_write "mark_succeeded clk" for clk
  by (rule fenced_writeI[OF mark_succeeded_def]) (auto intro: succeeded_arm_ok)

interpretation failed: fenced_write "mark_failed clk" for clk
  by (rule fenced_writeI[OF mark_failed_def]) (auto intro: failed_arm_ok)

interpretation retry: fenced_write "mark_retry clk" for clk
  by (rule fenced_writeI[OF mark_retry_def]) (auto intro: retry_retried_ok retry_deadline_failed_ok)

interpretation canc: fenced_write "mark_cancelled clk" for clk
  by (rule fenced_writeI[OF mark_cancelled_def]) (auto intro: cancelled_arm_ok)

end
