(* ===== verification/Sample.thy ===== *)
theory Sample
  imports Jobs
begin

text \<open>
  A concrete row, claim and database on which the components' theorems are
  evaluated: job 4 of actor \<open>a\<close> runs its first attempt, locked by worker 7.
\<close>

definition sample_job :: job where
  "sample_job = \<lparr>jid = 4, actor = ''a'', queue = ''q'', payload = Map.empty, payload_schema_ver = 1,
     status = Running, priority = 0, attempt = 1, max_attempts = 3, retry_kind = Transient,
     created_at = 0, scheduled_at = 0, identity_key = None, fairness_key = None,
     schedule_to_close = Some 60000000, start_to_close = None, heartbeat_timeout = None,
     started_at = Some 1000, finished_at = None, last_heartbeat_at = Some 1000,
     locked_by_worker = Some 7, lock_expires_at = Some 30001000, cancel_requested_at = None,
     cancel_phase = 0, error_class = None, error_message = None, error_traceback = None,
     progress_state = Some Map.empty, progress_seq = 0, result = None, result_size_bytes = None,
     result_expires_at = None, idempotency_key = None, idempotency_scope = [], trace_id = None,
     span_id = None, metadata = Map.empty, tags = [], snooze_count = 0, rate_limit_blocked_count = 0,
     interrupt_count = 0, retry_base_seconds = 1, retry_cap_seconds = 60, retry_backoff = Fixed,
     retry_jitter = 0, assignment_routed = False, claim_epoch = 1, parent_id = None,
     deps_pending = 0, step_key = None\<rparr>"

definition sample_db :: db where
  "sample_db = \<lparr>jobs = [sample_job], job_attempts = [], job_events = [], event_seq = 1,
     workers = [\<lparr>w_id = 7, w_queues = [''q''], w_last_seen_at = 0, w_workflow_execution = None\<rparr>],
     actor_config = Map.empty, batches = []\<rparr>"

definition sample_claim :: claim where
  "sample_claim = \<lparr>c_job = 4, c_worker = 7, c_attempt = Some 1, c_epoch = Some 1\<rparr>"

definition sample_clock :: clock where
  "sample_clock k = 2000 + int k"

lemma sample_job_simps [simp]:
  "jid sample_job = 4" "actor sample_job = ''a''" "status sample_job = Running"
  "attempt sample_job = 1" "max_attempts sample_job = 3" "retry_kind sample_job = Transient"
  "scheduled_at sample_job = 0" "schedule_to_close sample_job = Some 60000000"
  "heartbeat_timeout sample_job = None" "started_at sample_job = Some 1000"
  "finished_at sample_job = None" "locked_by_worker sample_job = Some 7"
  "lock_expires_at sample_job = Some 30001000" "cancel_requested_at sample_job = None"
  "cancel_phase sample_job = 0" "claim_epoch sample_job = 1" "deps_pending sample_job = 0"
  "step_key sample_job = None" "metadata sample_job = Map.empty" "interrupt_count sample_job = 0"
  "snooze_count sample_job = 0" "result_expires_at sample_job = None" "result sample_job = None"
  "idempotency_key sample_job = None"
  by (simp_all add: sample_job_def)

lemma sample_db_simps [simp]:
  "jobs sample_db = [sample_job]" "job_attempts sample_db = []" "job_events sample_db = []"
  "batches sample_db = []" "actor_config sample_db = Map.empty"
  by (simp_all add: sample_db_def)

lemma sample_claim_simps [simp]:
  "c_job sample_claim = 4" "c_worker sample_claim = 7" "c_attempt sample_claim = Some 1"
  "c_epoch sample_claim = Some 1"
  by (simp_all add: sample_claim_def)

lemma sample_find [simp]: "find_job 4 sample_db = Some sample_job"
  by (simp add: find_job_def)

lemma sample_fence [simp]: "JOB_FENCE sample_claim sample_job"
  by (simp add: JOB_FENCE_def)

lemma sample_clock_mono: "mono sample_clock"
  by (rule monoI) (simp add: sample_clock_def)

end
