(* ===== verification/Deferral.thy ===== *)
theory Deferral
  imports Terminal Sample
begin

text \<open>
  The deferral statements of \<open>backend/_sql_templates.py\<close>: \<open>mark_snoozed\<close>,
  \<open>mark_retry_after_consume_true\<close>, \<open>mark_retry_after_consume_false\<close> and
  \<open>mark_interrupted\<close>, one definition per CTE arm.
\<close>

section \<open>Arms shared by the three deferral statements\<close>

text \<open>The SET clause of the \<open>deadline_cancelled\<close> arms (lines 961-966, 1152-1157, 1406-1411).\<close>

definition deadline_cancel :: "timestamptz \<Rightarrow> progress \<Rightarrow> job \<Rightarrow> job" where
  "deadline_cancel now p j = PROGRESS_MERGE p (LEASE_CLEAR (j\<lparr>
     status := Cancelled,
     finished_at := Some now,
     error_class := Some (if cancel_phase j = 2 then CANCEL_ORIGIN_FORCED
                          else CANCEL_ORIGIN_COOPERATIVE)\<rparr>))"

definition deadline_cancel_post ::
    "timestamptz \<Rightarrow> timestamptz \<Rightarrow> claim \<Rightarrow> job \<Rightarrow> job \<Rightarrow> db \<Rightarrow> pg_error + db" where
  "deadline_cancel_post t_att t_evt c j r d =
     bindE (insert_attempt r (started_at r) t_att OutCancelled (error_class r) None None
              (finished_at r) (holder (Some (c_worker c)) d) (scheduled_at r) d)
       (\<lambda>d'. Inr (insert_event (jid r) t_evt ''state_change''
          (state_change_detail ''running'' ''cancelled''
             [(''error_class'', json_text (error_class r)),
              (''worker_id'', JStr (uuid_text (c_worker c)))]) d'))"

definition terminal_fail_post ::
    "timestamptz \<Rightarrow> timestamptz \<Rightarrow> string \<Rightarrow> string \<Rightarrow> (string \<times> json) list
     \<Rightarrow> claim \<Rightarrow> job \<Rightarrow> job \<Rightarrow> db \<Rightarrow> pg_error + db" where
  "terminal_fail_post t_att t_evt cls msg extra c j r d =
     bindE (insert_attempt r (started_at r) t_att OutFailed (Some cls) (Some msg) None
              (finished_at r) (holder (Some (c_worker c)) d) (scheduled_at r) d)
       (\<lambda>d'. Inr (insert_event (jid r) t_evt ''state_change''
          (jsonb_concat (state_change_detail ''running'' ''failed''
             [(''error_class'', JStr cls),
              (''worker_id'', JStr (uuid_text (c_worker c)))])
             (jsonb_build_object extra)) d'))"

section \<open>mark_snoozed\<close>

datatype snooze_outcome = Snoozed | ReservationDenied | RateLimitDenied
datatype denial_reason = Capacity | Unavailable

fun denial_text :: "denial_reason \<Rightarrow> string" where
  "denial_text Capacity = ''capacity''"
| "denial_text Unavailable = ''unavailable''"

definition is_denial :: "snooze_outcome \<Rightarrow> bool" where
  "is_denial oc \<longleftrightarrow> oc \<in> {ReservationDenied, RateLimitDenied}"

record snooze_binds =
  zb_delay :: interval
  zb_metadata :: "jobj option"
  zb_progress :: progress
  zb_outcome :: snooze_outcome
  zb_reason :: denial_reason

definition snooze_snoozed :: "clock \<Rightarrow> snooze_binds \<Rightarrow> claim \<Rightarrow> outcome_branch arm" where
  "snooze_snoozed clk b c =
     (let delay = floored_delay (zb_delay b); oc = zb_outcome b in
      \<lparr>arm_branch = BrSnoozed,
       arm_where = (\<lambda>j. JOB_FENCE c j \<and> cancel_phase j = 0 \<and> deadline_fits (clk 1) delay j),
       arm_set = (\<lambda>j. PROGRESS_MERGE (zb_progress b) ((requeue (clk 0) delay j)\<lparr>
          attempt := ATTEMPT_REFUND j,
          snooze_count := (if oc = Snoozed then snooze_count j + 1 else snooze_count j),
          rate_limit_blocked_count :=
            (if is_denial oc then rate_limit_blocked_count j + 1 else rate_limit_blocked_count j),
          metadata := jsonb_concat (metadata j)
            (case zb_metadata b of Some m \<Rightarrow> m | None \<Rightarrow> Map.empty)\<rparr>)),
       arm_post = (\<lambda>j r d. Inr d)\<rparr>)"

definition snooze_deadline_cancelled :: "clock \<Rightarrow> snooze_binds \<Rightarrow> claim \<Rightarrow> outcome_branch arm" where
  "snooze_deadline_cancelled clk b c =
     (let delay = floored_delay (zb_delay b) in
      \<lparr>arm_branch = BrCancelled,
       arm_where = (\<lambda>j. JOB_FENCE c j \<and> cancel_phase j \<noteq> 0 \<and> deadline_lapsed (clk 4) delay j),
       arm_set = deadline_cancel (clk 3) (zb_progress b),
       arm_post = deadline_cancel_post (clk 9) (clk 10) c\<rparr>)"

definition snooze_deadline_failed :: "clock \<Rightarrow> snooze_binds \<Rightarrow> claim \<Rightarrow> outcome_branch arm" where
  "snooze_deadline_failed clk b c =
     (let delay = floored_delay (zb_delay b); oc = zb_outcome b in
      \<lparr>arm_branch = BrFailed,
       arm_where = (\<lambda>j. JOB_FENCE c j \<and> cancel_phase j = 0 \<and> deadline_lapsed (clk 7) delay j),
       arm_set = (\<lambda>j. PROGRESS_MERGE (zb_progress b)
          ((deadline_fail (clk 6) DEADLINE_EXCEEDED_MESSAGE j)\<lparr>
             rate_limit_blocked_count :=
               (if is_denial oc then rate_limit_blocked_count j + 1
                else rate_limit_blocked_count j)\<rparr>)),
       arm_post = terminal_fail_post (clk 11) (clk 12)
          ERROR_CLASS_DEADLINE_EXCEEDED DEADLINE_EXCEEDED_MESSAGE
          (if is_denial oc then [(''denial_reason'', JStr (denial_text (zb_reason b)))] else []) c\<rparr>)"

definition mark_snoozed ::
    "clock \<Rightarrow> snooze_binds \<Rightarrow> claim \<Rightarrow> db \<Rightarrow> pg_error + ((outcome_branch \<times> job) option \<times> db)" where
  "mark_snoozed clk b c d = run_arms
     [snooze_snoozed clk b c, snooze_deadline_cancelled clk b c, snooze_deadline_failed clk b c]
     (c_job c) d"

section \<open>mark_retry_after, consuming the budget\<close>

record after_binds =
  ab_delay :: interval
  ab_progress :: progress

definition consume_snoozed :: "clock \<Rightarrow> after_binds \<Rightarrow> claim \<Rightarrow> outcome_branch arm" where
  "consume_snoozed clk b c =
     (let delay = ab_delay b in
      \<lparr>arm_branch = BrSnoozed,
       arm_where = (\<lambda>j. JOB_FENCE c j \<and> cancel_phase j = 0 \<and> deadline_fits (clk 1) delay j
                      \<and> (retry_kind j = Indefinite \<or> attempt j < max_attempts j)),
       arm_set = (\<lambda>j. PROGRESS_MERGE (ab_progress b) (requeue (clk 0) delay j)),
       arm_post = (\<lambda>j r d.
          bindE (insert_attempt r (started_at r) (clk 14) OutSnoozed (Some ''RetryAfter'') None None
                   (Some (clk 2)) (holder (Some (c_worker c)) d) (scheduled_at j) d)
            (\<lambda>d'. Inr (insert_event (jid r) (clk 15) ''state_change''
               (state_change_detail ''running'' ''scheduled''
                  [(''worker_id'', JStr (uuid_text (c_worker c)))]) d')))\<rparr>)"

definition consume_deadline_cancelled :: "clock \<Rightarrow> after_binds \<Rightarrow> claim \<Rightarrow> outcome_branch arm" where
  "consume_deadline_cancelled clk b c =
      \<lparr>arm_branch = BrCancelled,
       arm_where = (\<lambda>j. JOB_FENCE c j \<and> cancel_phase j \<noteq> 0
                      \<and> deadline_lapsed (clk 4) (ab_delay b) j),
       arm_set = deadline_cancel (clk 3) (ab_progress b),
       arm_post = deadline_cancel_post (clk 12) (clk 13) c\<rparr>"

definition consume_max_attempts_failed :: "clock \<Rightarrow> after_binds \<Rightarrow> claim \<Rightarrow> outcome_branch arm" where
  "consume_max_attempts_failed clk b c =
      \<lparr>arm_branch = BrMaxAttemptsFailed,
       arm_where = (\<lambda>j. JOB_FENCE c j \<and> retry_kind j \<noteq> Indefinite
                      \<and> attempt j \<ge> max_attempts j \<and> cancel_phase j = 0
                      \<and> deadline_fits (clk 7) (ab_delay b) j),
       arm_set = (\<lambda>j. PROGRESS_MERGE (ab_progress b) (LEASE_CLEAR (j\<lparr>
          status := Failed,
          finished_at := Some (clk 6),
          error_class := Some ERROR_CLASS_MAX_ATTEMPTS_EXCEEDED,
          error_message := Some BUDGET_EXHAUSTED_MESSAGE,
          error_traceback := None\<rparr>))),
       arm_post = terminal_fail_post (clk 16) (clk 17)
          ERROR_CLASS_MAX_ATTEMPTS_EXCEEDED BUDGET_EXHAUSTED_MESSAGE [] c\<rparr>"

definition consume_deadline_failed :: "clock \<Rightarrow> after_binds \<Rightarrow> claim \<Rightarrow> outcome_branch arm" where
  "consume_deadline_failed clk b c =
      \<lparr>arm_branch = BrDeadlineFailed,
       arm_where = (\<lambda>j. JOB_FENCE c j \<and> deadline_lapsed (clk 10) (ab_delay b) j
                      \<and> cancel_phase j = 0),
       arm_set = (\<lambda>j. PROGRESS_MERGE (ab_progress b)
          (deadline_fail (clk 9) DEADLINE_EXCEEDED_MESSAGE j)),
       arm_post = terminal_fail_post (clk 18) (clk 19)
          ERROR_CLASS_DEADLINE_EXCEEDED DEADLINE_EXCEEDED_MESSAGE [] c\<rparr>"

definition mark_retry_after_consume_true ::
    "clock \<Rightarrow> after_binds \<Rightarrow> claim \<Rightarrow> db \<Rightarrow> pg_error + ((outcome_branch \<times> job) option \<times> db)" where
  "mark_retry_after_consume_true clk b c d = run_arms
     [consume_snoozed clk b c, consume_deadline_cancelled clk b c,
      consume_max_attempts_failed clk b c, consume_deadline_failed clk b c] (c_job c) d"

section \<open>mark_retry_after, not consuming the budget\<close>

definition refund_snoozed :: "clock \<Rightarrow> after_binds \<Rightarrow> claim \<Rightarrow> outcome_branch arm" where
  "refund_snoozed clk b c =
     (let delay = floored_delay (ab_delay b) in
      \<lparr>arm_branch = BrSnoozed,
       arm_where = (\<lambda>j. JOB_FENCE c j \<and> cancel_phase j = 0 \<and> deadline_fits (clk 1) delay j),
       arm_set = (\<lambda>j. PROGRESS_MERGE (ab_progress b) ((requeue (clk 0) delay j)\<lparr>
          attempt := ATTEMPT_REFUND j,
          snooze_count := snooze_count j + 1\<rparr>)),
       arm_post = (\<lambda>j r d. Inr d)\<rparr>)"

definition refund_deadline_cancelled :: "clock \<Rightarrow> after_binds \<Rightarrow> claim \<Rightarrow> outcome_branch arm" where
  "refund_deadline_cancelled clk b c =
     (let delay = floored_delay (ab_delay b) in
      \<lparr>arm_branch = BrCancelled,
       arm_where = (\<lambda>j. JOB_FENCE c j \<and> cancel_phase j \<noteq> 0 \<and> deadline_lapsed (clk 4) delay j),
       arm_set = deadline_cancel (clk 3) (ab_progress b),
       arm_post = deadline_cancel_post (clk 9) (clk 10) c\<rparr>)"

definition refund_deadline_failed :: "clock \<Rightarrow> after_binds \<Rightarrow> claim \<Rightarrow> outcome_branch arm" where
  "refund_deadline_failed clk b c =
     (let delay = floored_delay (ab_delay b) in
      \<lparr>arm_branch = BrDeadlineFailed,
       arm_where = (\<lambda>j. JOB_FENCE c j \<and> deadline_lapsed (clk 7) delay j \<and> cancel_phase j = 0),
       arm_set = (\<lambda>j. PROGRESS_MERGE (ab_progress b)
          (deadline_fail (clk 6) DEADLINE_EXCEEDED_MESSAGE j)),
       arm_post = terminal_fail_post (clk 11) (clk 12)
          ERROR_CLASS_DEADLINE_EXCEEDED DEADLINE_EXCEEDED_MESSAGE [] c\<rparr>)"

definition mark_retry_after_consume_false ::
    "clock \<Rightarrow> after_binds \<Rightarrow> claim \<Rightarrow> db \<Rightarrow> pg_error + ((outcome_branch \<times> job) option \<times> db)" where
  "mark_retry_after_consume_false clk b c d = run_arms
     [refund_snoozed clk b c, refund_deadline_cancelled clk b c, refund_deadline_failed clk b c]
     (c_job c) d"

section \<open>mark_interrupted\<close>

record interrupt_binds =
  ib_hold :: interval
  ib_progress :: progress

definition effective_hold :: "interval \<Rightarrow> interval" where
  "effective_hold hold = (if hold > 0 then greatest hold MIN_DEFERRAL_INTERVAL else 0)"

definition interrupt_released :: "clock \<Rightarrow> interrupt_binds \<Rightarrow> claim \<Rightarrow> outcome_branch arm" where
  "interrupt_released clk b c =
     (let hold = effective_hold (ib_hold b) in
      \<lparr>arm_branch = BrReleased,
       arm_where = (\<lambda>j. JOB_FENCE c j \<and> cancel_phase j = 0 \<and> deadline_fits (clk 1) hold j),
       arm_set = (\<lambda>j. PROGRESS_MERGE (ib_progress b)
          ((requeue (clk 0) hold j)\<lparr>interrupt_count := interrupt_count j + 1\<rparr>)),
       arm_post = (\<lambda>j r d. Inr (insert_event (jid r) (clk 6) ''state_change''
          (state_change_detail ''running'' (status_text (status r))
             [(''reason'', JStr ''interrupted''),
              (''worker_id'', JStr (uuid_text (c_worker c))),
              (''hold_seconds'', JNum (of_int hold / of_int usec_per_sec))]) d))\<rparr>)"

definition interrupt_deadline_failed :: "clock \<Rightarrow> interrupt_binds \<Rightarrow> claim \<Rightarrow> outcome_branch arm" where
  "interrupt_deadline_failed clk b c =
     (let hold = effective_hold (ib_hold b) in
      \<lparr>arm_branch = BrDeadlineFailed,
       arm_where = (\<lambda>j. JOB_FENCE c j \<and> cancel_phase j = 0 \<and> deadline_lapsed (clk 4) hold j),
       arm_set = (\<lambda>j. PROGRESS_MERGE (ib_progress b)
          (deadline_fail (clk 3) DEADLINE_EXCEEDED_MESSAGE j)),
       arm_post = terminal_fail_post (clk 7) (clk 8)
          ERROR_CLASS_DEADLINE_EXCEEDED DEADLINE_EXCEEDED_MESSAGE [] c\<rparr>)"

definition mark_interrupted ::
    "clock \<Rightarrow> interrupt_binds \<Rightarrow> claim \<Rightarrow> db \<Rightarrow> pg_error + ((outcome_branch \<times> job) option \<times> db)" where
  "mark_interrupted clk b c d = run_arms
     [interrupt_released clk b c, interrupt_deadline_failed clk b c] (c_job c) d"


section \<open>The arms meet the fence contract\<close>

lemmas deferral_set_defs = set_defs deadline_cancel_def

lemmas deferral_post_defs = deadline_cancel_post_def terminal_fail_post_def

lemma snooze_arms_ok:
  "arm_ok c (snooze_snoozed clk b c)"
  "arm_ok c (snooze_deadline_cancelled clk b c)"
  "arm_ok c (snooze_deadline_failed clk b c)"
  by (rule arm_okI;
      auto simp: snooze_snoozed_def snooze_deadline_cancelled_def snooze_deadline_failed_def Let_def
        deferral_set_defs deferral_post_defs step_defs dest: post_ledger)+

lemma consume_arms_ok:
  "arm_ok c (consume_snoozed clk a c)"
  "arm_ok c (consume_deadline_cancelled clk a c)"
  "arm_ok c (consume_max_attempts_failed clk a c)"
  "arm_ok c (consume_deadline_failed clk a c)"
  by (rule arm_okI;
      auto simp: consume_snoozed_def consume_deadline_cancelled_def consume_max_attempts_failed_def
        consume_deadline_failed_def Let_def
        deferral_set_defs deferral_post_defs step_defs dest: post_ledger)+

lemma refund_arms_ok:
  "arm_ok c (refund_snoozed clk a c)"
  "arm_ok c (refund_deadline_cancelled clk a c)"
  "arm_ok c (refund_deadline_failed clk a c)"
  by (rule arm_okI;
      auto simp: refund_snoozed_def refund_deadline_cancelled_def refund_deadline_failed_def Let_def
        deferral_set_defs deferral_post_defs step_defs dest: post_ledger)+

lemma interrupt_arms_ok:
  "arm_ok c (interrupt_released clk i c)"
  "arm_ok c (interrupt_deadline_failed clk i c)"
  by (rule arm_okI;
      auto simp: interrupt_released_def interrupt_deadline_failed_def Let_def
        deferral_set_defs deferral_post_defs step_defs dest: post_ledger split: if_splits)+

interpretation snz: fenced_write "mark_snoozed clk" for clk
  by (rule fenced_writeI[OF mark_snoozed_def]) (auto intro: snooze_arms_ok)

interpretation rat: fenced_write "mark_retry_after_consume_true clk" for clk
  by (rule fenced_writeI[OF mark_retry_after_consume_true_def]) (auto intro: consume_arms_ok)

interpretation raf: fenced_write "mark_retry_after_consume_false clk" for clk
  by (rule fenced_writeI[OF mark_retry_after_consume_false_def]) (auto intro: refund_arms_ok)

interpretation intr: fenced_write "mark_interrupted clk" for clk
  by (rule fenced_writeI[OF mark_interrupted_def]) (auto intro: interrupt_arms_ok)

section \<open>All worker-scoped writes as one operation\<close>

text \<open>
  The eight fenced statements a handler may issue, with their binds, so that
  statements about sequences of writes range over all of them.
\<close>

datatype fenced_stmt =
    MarkSucceeded succeeded_binds
  | MarkFailed "error_info \<times> progress"
  | MarkRetry retry_binds
  | MarkCancelled progress
  | MarkSnoozed snooze_binds
  | MarkRetryAfterTrue after_binds
  | MarkRetryAfterFalse after_binds
  | MarkInterrupted interrupt_binds

definition drop_branch :: "pg_error + (('b \<times> job) option \<times> db) \<Rightarrow> pg_error + (job option \<times> db)" where
  "drop_branch = map_sum id (map_prod (map_option snd) id)"

fun exec_fenced :: "clock \<Rightarrow> fenced_stmt \<Rightarrow> claim \<Rightarrow> db \<Rightarrow> pg_error + (job option \<times> db)" where
  "exec_fenced clk (MarkSucceeded b) c d = drop_branch (mark_succeeded clk b c d)"
| "exec_fenced clk (MarkFailed b) c d = drop_branch (mark_failed clk b c d)"
| "exec_fenced clk (MarkRetry b) c d = drop_branch (mark_retry clk b c d)"
| "exec_fenced clk (MarkCancelled p) c d = drop_branch (mark_cancelled clk p c d)"
| "exec_fenced clk (MarkSnoozed b) c d = drop_branch (mark_snoozed clk b c d)"
| "exec_fenced clk (MarkRetryAfterTrue b) c d = drop_branch (mark_retry_after_consume_true clk b c d)"
| "exec_fenced clk (MarkRetryAfterFalse b) c d = drop_branch (mark_retry_after_consume_false clk b c d)"
| "exec_fenced clk (MarkInterrupted b) c d = drop_branch (mark_interrupted clk b c d)"

lemma drop_branch_Inr:
  "drop_branch m = Inr (r, d') \<longleftrightarrow> (\<exists>x. m = Inr (x, d') \<and> r = map_option snd x)"
  by (cases m) (auto simp: drop_branch_def)

lemma drop_branch_None: "drop_branch (Inr (None, d)) = Inr (None, d)"
  by (simp add: drop_branch_def)

lemma map_option_eq_cases:
  "None = map_option f x \<longleftrightarrow> x = None"
  "Some y = map_option f x \<longleftrightarrow> (\<exists>z. x = Some z \<and> y = f z)"
  by (cases x; auto)+

interpretation any: fenced_write "exec_fenced clk" for clk
proof
  fix p c d
  show "exec_fenced clk p c d = Inr (None, d)" if "find_job (c_job c) d = None"
    using that
    by (cases p) (simp_all add: drop_branch_None succ.missing failed.missing retry.missing
      canc.missing snz.missing rat.missing raf.missing intr.missing)
  fix j
  show "exec_fenced clk p c d = Inr (None, d)"
    if "find_job (c_job c) d = Some j" "\<not> JOB_FENCE c j"
    using that
    by (cases p) (simp_all add: drop_branch_None succ.fenced_out failed.fenced_out retry.fenced_out
      canc.fenced_out snz.fenced_out rat.fenced_out raf.fenced_out intr.fenced_out)
next
  fix p c d d'
  assume "exec_fenced clk p c d = Inr (None, d')"
  then show "d' = d"
    by (cases p) (auto simp: drop_branch_Inr map_option_eq_cases dest: succ.not_applied
      failed.not_applied retry.not_applied canc.not_applied snz.not_applied rat.not_applied
      raf.not_applied intr.not_applied)
next
  fix p c d r d'
  assume "exec_fenced clk p c d = Inr (Some r, d')"
  then show "\<exists>j j'. find_job (c_job c) d = Some j \<and> JOB_FENCE c j \<and> fenced_step j j'
      \<and> fenced_ledger j j' (put_job j' d) d'"
    by (cases p) (auto simp: drop_branch_Inr map_option_eq_cases dest!: succ.applied
      failed.applied retry.applied canc.applied snz.applied rat.applied raf.applied intr.applied)
qed

text \<open>
  A sequence of fenced writes under one claim, each with the clock of its own
  execution; a statement that raises is rolled back.  The number counts the
  writes that landed.
\<close>

fun run_fenced :: "(clock \<times> fenced_stmt) list \<Rightarrow> claim \<Rightarrow> db \<Rightarrow> nat \<times> db" where
  "run_fenced [] c d = (0, d)"
| "run_fenced ((clk, s) # ss) c d =
     (case exec_fenced clk s c d of
        Inl e \<Rightarrow> run_fenced ss c d
      | Inr (None, d') \<Rightarrow> run_fenced ss c d'
      | Inr (Some r, d') \<Rightarrow> map_prod Suc id (run_fenced ss c d'))"

lemma run_fenced_idle:
  assumes "\<And>clk s. exec_fenced clk s c d = Inr (None, d)"
  shows "run_fenced ss c d = (0, d)"
  by (induction ss) (auto simp: assms)

interpretation two: fenced_pair "exec_fenced clk1" "exec_fenced clk2" for clk1 clk2
  by unfold_locales

lemma run_fenced_once: "fst (run_fenced ss c d) \<le> 1"
proof (induction ss arbitrary: d)
  case (Cons x ss)
  obtain clk s where x: "x = (clk, s)" by (cases x)
  show ?case
  proof (cases "exec_fenced clk s c d")
    case (Inr y)
    obtain r d' where y: "y = (r, d')" by (cases y)
    show ?thesis
    proof (cases r)
      case None
      then show ?thesis using Cons Inr by (simp add: x y)
    next
      case (Some k)
      then have "exec_fenced clk' s' c d' = Inr (None, d')" for clk' s'
        using two.second_noop[of clk s c d k d' clk' s'] Inr y by simp
      then have "run_fenced ss c d' = (0, d')" by (rule run_fenced_idle)
      then show ?thesis using Inr Some by (simp add: x y)
    qed
  qed (use Cons[of d] x in simp)
qed simp

lemma deadline_dichotomy:
  "t \<le> t' \<Longrightarrow> deadline_fits t delay j \<or> deadline_lapsed t' delay j"
  by (cases "schedule_to_close j") (auto simp: deadline_fits_def deadline_lapsed_def)

text \<open>The statements that may hand a job back, arm by arm.\<close>

fun arms_of :: "clock \<Rightarrow> fenced_stmt \<Rightarrow> claim \<Rightarrow> outcome_branch arm list" where
  "arms_of clk (MarkRetry b) c = [retry_retried clk b c, retry_deadline_failed clk b c]"
| "arms_of clk (MarkSnoozed b) c =
     [snooze_snoozed clk b c, snooze_deadline_cancelled clk b c, snooze_deadline_failed clk b c]"
| "arms_of clk (MarkRetryAfterTrue b) c =
     [consume_snoozed clk b c, consume_deadline_cancelled clk b c,
      consume_max_attempts_failed clk b c, consume_deadline_failed clk b c]"
| "arms_of clk (MarkRetryAfterFalse b) c =
     [refund_snoozed clk b c, refund_deadline_cancelled clk b c, refund_deadline_failed clk b c]"
| "arms_of clk (MarkInterrupted b) c = [interrupt_released clk b c, interrupt_deadline_failed clk b c]"
| "arms_of clk _ c = []"

definition hand_back :: "fenced_stmt \<Rightarrow> bool" where
  "hand_back f \<longleftrightarrow> (case f of MarkSucceeded _ \<Rightarrow> False | MarkFailed _ \<Rightarrow> False | MarkCancelled _ \<Rightarrow> False | _ \<Rightarrow> True)"

lemma exec_hand_back:
  "hand_back f \<Longrightarrow> exec_fenced clk f c d = drop_branch (run_arms (arms_of clk f c) (c_job c) d)"
  by (cases f) (simp_all add: hand_back_def mark_retry_def mark_snoozed_def
      mark_retry_after_consume_true_def mark_retry_after_consume_false_def mark_interrupted_def)

lemmas arm_defs = retry_retried_def retry_deadline_failed_def snooze_snoozed_def
  snooze_deadline_cancelled_def snooze_deadline_failed_def consume_snoozed_def
  consume_deadline_cancelled_def consume_max_attempts_failed_def consume_deadline_failed_def
  refund_snoozed_def refund_deadline_cancelled_def refund_deadline_failed_def
  interrupt_released_def interrupt_deadline_failed_def Let_def

lemma some_arm_applies:
  assumes f: "hand_back f" and clk: "mono clk" and j: "JOB_FENCE c j" "cancel_phase j = 0"
  shows "\<exists>a\<in>set (arms_of clk f c). arm_where a j"
proof -
  have fits: "deadline_fits (clk m) delay j \<or> deadline_lapsed (clk n) delay j" if "m \<le> n" for m n delay
    using deadline_dichotomy monoD[OF clk that] by blast
  show ?thesis
  proof (cases f)
    case (MarkRetryAfterTrue b)
    show ?thesis using fits[of 1 10 "ab_delay b"] fits[of 7 10 "ab_delay b"] j MarkRetryAfterTrue
      by (simp add: arm_defs) linarith
  qed (use f j fits[of 1 4] fits[of 1 7] in \<open>auto simp: hand_back_def arm_defs\<close>)
qed

text \<open>A row that is handed back went through one of the hand-back arms.\<close>

lemma handed_back:
  assumes "exec_fenced clk f c d = Inr (Some r, d')" "status r \<notin> TERMINAL_STATUSES"
  obtains j a where "hand_back f" "find_job (c_job c) d = Some j" "a \<in> set (arms_of clk f c)" "arm_where a j"
    "r = arm_set a j" "arm_post a j r (put_job r d) = Inr d'"
proof -
  have hb: "hand_back f"
  proof (rule ccontr)
    assume "\<not> hand_back f"
    then have "status r \<in> TERMINAL_STATUSES"
      using assms(1)
      by (cases f) (auto simp: hand_back_def drop_branch_Inr mark_succeeded_def mark_failed_def
          mark_cancelled_def run_arms_def bindE_Inr_iff succeeded_set_def failed_set_def cancelled_set_def
          PROGRESS_MERGE_def TERMINAL_STATUSES_def LEASE_CLEAR_def split: option.splits if_splits)
    then show False using assms(2) by simp
  qed
  obtain b where "run_arms (arms_of clk f c) (c_job c) d = Inr (Some (b, r), d')"
    using assms(1) unfolding exec_hand_back[OF hb] by (auto simp: drop_branch_Inr map_option_eq_cases)
  then obtain j where j: "find_job (c_job c) d = Some j"
      "exec_arms (arms_of clk f c) j d = Inr (Some (b, r), d')"
    by (auto simp: run_arms_def split: option.splits)
  then show thesis using that hb by (auto elim!: exec_arms_cases)
qed

section \<open>Properties\<close>

text \<open>
  A hand-back statement always decides.  With a clock that does not step
  back between the clauses of one statement, a fenced row without a cancel in
  flight is either handed back or ended: none of the five statements lets it
  fall through its arms.
\<close>

theorem hand_back_decides:
  assumes "hand_back f" "mono clk" "find_job (c_job c) d = Some j" "JOB_FENCE c j" "cancel_phase j = 0"
    and "exec_fenced clk f c d = Inr (r, d')"
  shows "r \<noteq> None"
  using assms(6) run_arms_some[OF _ assms(3) some_arm_applies[OF assms(1,2,4,5)]]
  unfolding exec_hand_back[OF assms(1)] by (auto simp: drop_branch_Inr)

lemma hand_back_decides_witness:
  "exec_fenced sample_clock (MarkInterrupted \<lparr>ib_hold = 0, ib_progress = \<lparr>p_seq = 0, p_state = None\<rparr>\<rparr>)
     sample_claim sample_db \<noteq> Inr (None, sample_db)"
  using hand_back_decides[of "MarkInterrupted \<lparr>ib_hold = 0, ib_progress = \<lparr>p_seq = 0, p_state = None\<rparr>\<rparr>"
      sample_clock sample_claim sample_db sample_job None sample_db] sample_clock_mono
  by (auto simp: hand_back_def)

text \<open>
  Where a handed-back job is put.  It is never scheduled past its
  \<open>schedule_to_close\<close> deadline; it is \<open>scheduled\<close> exactly if its due time lies
  after the statement's clock and \<open>pending\<close> otherwise; and a failure retry, a
  snooze or a budget-free RetryAfter parks it at least \<open>MIN_DEFERRAL_INTERVAL\<close>
  ahead.
\<close>

theorem hand_back_schedule:
  assumes "mono clk" "exec_fenced clk f c d = Inr (Some r, d')" "status r \<notin> TERMINAL_STATUSES"
  shows "(\<forall>t. schedule_to_close r = Some t \<longrightarrow> scheduled_at r \<le> t)
    \<and> status r = (if clk 0 < scheduled_at r then Scheduled else Pending)
    \<and> (f \<in> range MarkRetry \<union> range MarkSnoozed \<union> range MarkRetryAfterFalse \<longrightarrow>
         clk 0 + MIN_DEFERRAL_INTERVAL \<le> scheduled_at r)"
proof -
  have c: "clk 0 \<le> clk 1" using assms(1) by (simp add: monoD)
  obtain j a where a: "hand_back f" "a \<in> set (arms_of clk f c)" "arm_where a j" "r = arm_set a j"
    using handed_back[OF assms(2,3)] by metis
  then show ?thesis using assms(3) c
    by (cases f) (auto simp: hand_back_def arm_defs set_defs deadline_cancel_def deadline_fits_def floored_delay_def
        greatest_def MIN_DEFERRAL_INTERVAL_def effective_hold_def)
qed

lemma hand_back_schedule_witness:
  "\<exists>r d'. exec_fenced sample_clock (MarkRetryAfterFalse \<lparr>ab_delay = 5, ab_progress = \<lparr>p_seq = 0, p_state = None\<rparr>\<rparr>)
     sample_claim sample_db = Inr (Some r, d') \<and> scheduled_at r \<le> 60000000
     \<and> sample_clock 0 + MIN_DEFERRAL_INTERVAL \<le> scheduled_at r"
proof -
  let ?b = "\<lparr>ab_delay = 5, ab_progress = \<lparr>p_seq = 0, p_state = None\<rparr>\<rparr>"
  let ?a = "refund_snoozed sample_clock ?b sample_claim"
  let ?r = "arm_set ?a sample_job"
  have delay: "floored_delay 5 = 1000000"
    by (simp add: floored_delay_def greatest_def MIN_DEFERRAL_INTERVAL_def seconds_def usec_per_sec_def)
  have "arm_where ?a sample_job"
    by (simp add: refund_snoozed_def deadline_fits_def delay sample_clock_def)
  moreover have "arm_post ?a j r d = Inr d" for j r d by (simp add: refund_snoozed_def Let_def)
  ultimately have e: "exec_fenced sample_clock (MarkRetryAfterFalse ?b) sample_claim sample_db
      = Inr (Some ?r, put_job ?r sample_db)"
    by (simp add: mark_retry_after_consume_false_def run_arms_def drop_branch_def)
  have r: "status ?r \<notin> TERMINAL_STATUSES" "schedule_to_close ?r = Some 60000000"
    by (simp_all add: refund_snoozed_def delay set_defs TERMINAL_STATUSES_def)
  have "MarkRetryAfterFalse ?b \<in> range MarkRetry \<union> range MarkSnoozed \<union> range MarkRetryAfterFalse" by blast
  then show ?thesis using hand_back_schedule[OF sample_clock_mono e r(1)] r(2) e by blast
qed

end
