(* ===== verification/Json.thy ===== *)
theory Json
  imports Prelude
begin

text \<open>
  The JSON boundary of \<open>_json.py\<close>: the UTF-8 rewriting of values that no
  encoder accepts, the NUL guards, and the serialisers that bind a value to a
  jsonb parameter.  A Python string is a list of code points, bytes are a list
  of numbers below 256.  The encoder \<open>orjson.dumps\<close>, the parser
  \<open>orjson.loads\<close> and the byte scan \<open>tors.contains_unescaped\<close> are third-party
  code: they are the fields of the parameter \<open>codec\<close>.
\<close>

type_synonym pystr = "nat list"
type_synonym bytes = "nat list"

datatype pyval =
    PNone
  | PBool bool
  | PInt int
  | PStr pystr
  | PList "pyval list"
  | PDict "(pystr \<times> pyval) list"
  | POther

datatype json_error = ValueError | UnencodableValue

record codec =
  orjson_dumps :: "pyval \<Rightarrow> bytes option"
  orjson_loads :: "bytes \<Rightarrow> pyval option"
  contains_unescaped :: "bytes \<Rightarrow> bytes \<Rightarrow> bool"

section \<open>UTF-8\<close>

definition is_surrogate :: "nat \<Rightarrow> bool" where
  "is_surrogate c \<longleftrightarrow> 0xD800 \<le> c \<and> c \<le> 0xDFFF"

definition is_scalar :: "nat \<Rightarrow> bool" where
  "is_scalar c \<longleftrightarrow> c < 0x110000 \<and> \<not> is_surrogate c"

definition utf8_char :: "nat \<Rightarrow> bytes" where
  "utf8_char c =
     (if c < 0x80 then [c]
      else if c < 0x800 then [0xC0 + c div 64, 0x80 + c mod 64]
      else if c < 0x10000 then [0xE0 + c div 4096, 0x80 + (c div 64) mod 64, 0x80 + c mod 64]
      else [0xF0 + c div 262144, 0x80 + (c div 4096) mod 64, 0x80 + (c div 64) mod 64,
            0x80 + c mod 64])"

definition hex_code :: "nat \<Rightarrow> nat" where
  "hex_code n = (if n < 10 then 48 + n else 87 + n)"

text \<open>The \<open>backslashreplace\<close> form of a surrogate: backslash, u, four lower-case hex digits.\<close>

definition backslash_u :: "nat \<Rightarrow> pystr" where
  "backslash_u c = [92, 117, hex_code (c div 4096 mod 16), hex_code (c div 256 mod 16),
                    hex_code (c div 16 mod 16), hex_code (c mod 16)]"

primrec encode_backslashreplace :: "pystr \<Rightarrow> bytes" where
  "encode_backslashreplace [] = []"
| "encode_backslashreplace (c # cs) =
     (if is_surrogate c then concat (map utf8_char (backslash_u c)) else utf8_char c)
     @ encode_backslashreplace cs"

definition is_cont :: "nat \<Rightarrow> bool" where
  "is_cont b \<longleftrightarrow> 0x80 \<le> b \<and> b < 0xC0"

fun utf8_decode :: "bytes \<Rightarrow> pystr option" where
  "utf8_decode [] = Some []"
| "utf8_decode (b # bs) =
     (if b < 0x80 then map_option (Cons b) (utf8_decode bs)
      else if 0xC0 \<le> b \<and> b < 0xE0 then
        (case bs of c1 # rest \<Rightarrow>
           (let c = (b - 0xC0) * 64 + (c1 - 0x80)
            in if is_cont c1 \<and> 0x80 \<le> c then map_option (Cons c) (utf8_decode rest) else None)
         | _ \<Rightarrow> None)
      else if 0xE0 \<le> b \<and> b < 0xF0 then
        (case bs of c1 # c2 # rest \<Rightarrow>
           (let c = (b - 0xE0) * 4096 + (c1 - 0x80) * 64 + (c2 - 0x80)
            in if is_cont c1 \<and> is_cont c2 \<and> 0x800 \<le> c \<and> \<not> is_surrogate c
               then map_option (Cons c) (utf8_decode rest) else None)
         | _ \<Rightarrow> None)
      else if 0xF0 \<le> b \<and> b < 0xF8 then
        (case bs of c1 # c2 # c3 # rest \<Rightarrow>
           (let c = (b - 0xF0) * 262144 + (c1 - 0x80) * 4096 + (c2 - 0x80) * 64 + (c3 - 0x80)
            in if is_cont c1 \<and> is_cont c2 \<and> is_cont c3 \<and> 0x10000 \<le> c \<and> c < 0x110000
               then map_option (Cons c) (utf8_decode rest) else None)
         | _ \<Rightarrow> None)
      else None)"

section \<open>Sanitising\<close>

definition sanitize_nul_str :: "pystr \<Rightarrow> pystr" where
  "sanitize_nul_str s = concat (map (\<lambda>c. if c = 0 then [92, 120, 48, 48] else [c]) s)"

definition check_no_nul_str :: "pystr \<Rightarrow> json_error + unit" where
  "check_no_nul_str s = (if 0 \<in> set s then Inl ValueError else Inr ())"

text \<open>\<open>value.encode("utf-8", "backslashreplace").decode("utf-8")\<close>.\<close>

definition sanitize_str :: "pystr \<Rightarrow> pystr" where
  "sanitize_str s = (case utf8_decode (encode_backslashreplace s) of Some t \<Rightarrow> t | None \<Rightarrow> [])"

text \<open>
  A comprehension over a dict builds a new dict: a later item whose rewritten
  key is already present replaces its value and keeps its position.
\<close>

primrec dict_put :: "'k \<Rightarrow> 'v \<Rightarrow> ('k \<times> 'v) list \<Rightarrow> ('k \<times> 'v) list" where
  "dict_put k v [] = [(k, v)]"
| "dict_put k v (e # es) = (if fst e = k then (k, v) # es else e # dict_put k v es)"

lemma map_of_dict_put: "map_of (dict_put k v d) = (map_of d)(k \<mapsto> v)"
  by (induction d) auto

definition dict_of_items :: "('k \<times> 'v) list \<Rightarrow> ('k \<times> 'v) list" where
  "dict_of_items items = foldl (\<lambda>d (k, v). dict_put k v d) [] items"

fun sanitize_surrogates :: "pyval \<Rightarrow> pyval" where
  "sanitize_surrogates (PStr s) = PStr (sanitize_str s)"
| "sanitize_surrogates (PDict kvs) =
     PDict (dict_of_items (map (\<lambda>(k, v). (sanitize_str k, sanitize_surrogates v)) kvs))"
| "sanitize_surrogates (PList vs) = PList (map sanitize_surrogates vs)"
| "sanitize_surrogates v = v"

section \<open>Serialisers\<close>

definition NUL_ESCAPE_BYTES :: bytes where
  "NUL_ESCAPE_BYTES = [92, 117, 48, 48, 48, 48]"

definition dumps :: "codec \<Rightarrow> pyval \<Rightarrow> json_error + bytes" where
  "dumps cd v = (case orjson_dumps cd v of Some b \<Rightarrow> Inr b | None \<Rightarrow> Inl UnencodableValue)"

definition encoded_has_nul :: "codec \<Rightarrow> bytes \<Rightarrow> bool" where
  "encoded_has_nul cd b = contains_unescaped cd b NUL_ESCAPE_BYTES"

definition dumps_jsonb_str :: "codec \<Rightarrow> pyval \<Rightarrow> json_error + bytes" where
  "dumps_jsonb_str cd v = bindE (dumps cd v)
     (\<lambda>data. if encoded_has_nul cd data then Inl ValueError else Inr data)"

definition decode_result_bytes :: "codec \<Rightarrow> bytes \<Rightarrow> json_error + pyval" where
  "decode_result_bytes cd b = (case orjson_loads cd b of Some v \<Rightarrow> Inr v | None \<Rightarrow> Inl ValueError)"

primrec encodable :: "pyval \<Rightarrow> bool" where
  "encodable PNone = True"
| "encodable (PBool b) = True"
| "encodable (PInt i) = True"
| "encodable (PStr s) = (\<forall>c\<in>set s. is_scalar c)"
| "encodable (PList vs) = list_all id (map encodable vs)"
| "encodable (PDict kvs) =
     list_all (\<lambda>(k, ok). (\<forall>c\<in>set k. is_scalar c) \<and> ok) (map (map_prod id encodable) kvs)"
| "encodable POther = True"

text \<open>
  Python values as they occur: code points below 0x110000 and distinct keys in
  a dict.  \<open>supported\<close> is what \<open>orjson\<close> documents as serialisable apart from
  the strings: 64-bit integers, nesting up to 254 levels, no foreign objects.
\<close>

definition wf_str :: "pystr \<Rightarrow> bool" where
  "wf_str s \<longleftrightarrow> (\<forall>c\<in>set s. c < 0x110000)"

primrec wf_val :: "pyval \<Rightarrow> bool" where
  "wf_val PNone = True"
| "wf_val (PBool b) = True"
| "wf_val (PInt i) = True"
| "wf_val (PStr s) = wf_str s"
| "wf_val (PList vs) = list_all id (map wf_val vs)"
| "wf_val (PDict kvs) =
     (distinct (map fst kvs) \<and> list_all (\<lambda>(k, ok). wf_str k \<and> ok) (map (map_prod id wf_val) kvs))"
| "wf_val POther = True"

primrec depth :: "pyval \<Rightarrow> nat" where
  "depth PNone = 0"
| "depth (PBool b) = 0"
| "depth (PInt i) = 0"
| "depth (PStr s) = 0"
| "depth (PList vs) = Suc (foldr max (map depth vs) 0)"
| "depth (PDict kvs) = Suc (foldr max (map snd (map (map_prod id depth) kvs)) 0)"
| "depth POther = 0"

primrec plain :: "pyval \<Rightarrow> bool" where
  "plain PNone = True"
| "plain (PBool b) = True"
| "plain (PInt i) = (- (2 ^ 63) \<le> i \<and> i < 2 ^ 64)"
| "plain (PStr s) = True"
| "plain (PList vs) = list_all id (map plain vs)"
| "plain (PDict kvs) = list_all snd (map (map_prod id plain) kvs)"
| "plain POther = False"

definition supported :: "pyval \<Rightarrow> bool" where
  "supported v \<longleftrightarrow> plain v \<and> depth v \<le> 254"

text \<open>
  \<open>_progress_jsonb_escaped\<close> of \<open>backend/_terminal.py\<close>; \<open>stack\<close> is the nesting
  the interpreter's stack affords the walk, past which it raises
  \<open>RecursionError\<close>.
\<close>

definition progress_jsonb_escaped ::
    "nat \<Rightarrow> codec \<Rightarrow> pyval option \<Rightarrow> json_error + bytes option" where
  "progress_jsonb_escaped stack cd value = (case value of
       None \<Rightarrow> Inr None
     | Some v \<Rightarrow>
        (case dumps_jsonb_str cd v of
           Inr b \<Rightarrow> Inr (Some b)
         | Inl UnencodableValue \<Rightarrow>
             (if depth v > stack then Inl UnencodableValue
              else bindE (dumps_jsonb_str cd (sanitize_surrogates v)) (\<lambda>b. Inr (Some b)))
         | Inl e \<Rightarrow> Inl e))"

definition jsonb_param :: "codec \<Rightarrow> pyval option \<Rightarrow> json_error + bytes option" where
  "jsonb_param cd value = (case value of
       None \<Rightarrow> Inr None
     | Some v \<Rightarrow> bindE (dumps_jsonb_str cd v) (\<lambda>b. Inr (Some b)))"

section \<open>Lemmas\<close>

lemma utf8_decode_char:
  assumes "is_scalar c"
  shows "utf8_decode (utf8_char c @ bs) = map_option (Cons c) (utf8_decode bs)"
proof -
  have q: "c div 4096 = c div 64 div 64" "c div 262144 = c div 64 div 64 div 64"
    by (simp_all add: div_mult2_eq[symmetric])
  have d1: "c div 64 * 64 + c mod 64 = c"
    by (rule div_mult_mod_eq)
  have d2: "c div 4096 * 4096 + c div 64 mod 64 * 64 + c mod 64 = c"
    using div_mult_mod_eq[of "c div 64" 64] d1 unfolding q by linarith
  have d3: "c div 262144 * 262144 + c div 4096 mod 64 * 4096 + c div 64 mod 64 * 64 + c mod 64 = c"
    using div_mult_mod_eq[of "c div 64 div 64" 64] div_mult_mod_eq[of "c div 64" 64] d1
    unfolding q by linarith
  have m: "x mod 64 < 64" for x :: nat by simp
  consider "c < 0x80" | "0x80 \<le> c" "c < 0x800" | "0x800 \<le> c" "c < 0x10000"
    | "0x10000 \<le> c" "c < 0x110000"
    using assms by (force simp: is_scalar_def)
  then show ?thesis
  proof cases
    case 1
    then show ?thesis by (simp add: utf8_char_def)
  next
    case 2
    then have "c div 64 < 32" by simp
    with 2 show ?thesis by (simp add: utf8_char_def is_cont_def Let_def d1)
  next
    case 3
    then have "c div 4096 < 16" by simp
    with 3 assms show ?thesis by (simp add: utf8_char_def is_cont_def Let_def d2 is_scalar_def)
  next
    case 4
    then have "c div 262144 < 8" by simp
    with 4 show ?thesis by (simp add: utf8_char_def is_cont_def Let_def d3)
  qed
qed


lemma utf8_decode_scalars:
  "\<forall>c\<in>set cs. is_scalar c \<Longrightarrow> utf8_decode (concat (map utf8_char cs) @ bs)
     = map_option (append cs) (utf8_decode bs)"
  by (induction cs; cases "utf8_decode bs") (auto simp: utf8_decode_char)

lemma ascii_scalar: "c < 128 \<Longrightarrow> is_scalar c"
  by (simp add: is_scalar_def is_surrogate_def)

lemma hex_code_ascii: "hex_code (n mod 16) < 128"
proof -
  have "n mod 16 < 16" by simp
  then have "n mod 16 < 41" by linarith
  then show ?thesis by (simp add: hex_code_def)
qed

lemma backslash_u_scalar: "\<forall>c\<in>set (backslash_u u). is_scalar c"
  by (auto simp: backslash_u_def intro: ascii_scalar hex_code_ascii)

definition escape_surrogate :: "nat \<Rightarrow> pystr" where
  "escape_surrogate c = (if is_surrogate c then backslash_u c else [c])"

lemma decode_encode_backslashreplace:
  "wf_str s \<Longrightarrow> utf8_decode (encode_backslashreplace s) = Some (concat (map escape_surrogate s))"
proof (induction s)
  case (Cons c s)
  show ?case
  proof (cases "is_surrogate c")
    case True
    then show ?thesis
      using Cons utf8_decode_scalars[OF backslash_u_scalar]
      by (simp add: wf_str_def escape_surrogate_def)
  next
    case False
    then have "is_scalar c" using Cons.prems by (simp add: wf_str_def is_scalar_def)
    then show ?thesis
      using Cons False by (simp add: wf_str_def escape_surrogate_def utf8_decode_char)
  qed
qed simp

lemma sanitize_str_eq: "wf_str s \<Longrightarrow> sanitize_str s = concat (map escape_surrogate s)"
  by (simp add: sanitize_str_def decode_encode_backslashreplace)

lemma sanitize_str_scalar: "wf_str s \<Longrightarrow> c \<in> set (sanitize_str s) \<Longrightarrow> is_scalar c"
  using backslash_u_scalar
  by (auto simp: sanitize_str_eq escape_surrogate_def wf_str_def is_scalar_def split: if_splits)

lemma sanitize_str_id: "\<forall>c\<in>set s. is_scalar c \<Longrightarrow> sanitize_str s = s"
proof -
  assume s: "\<forall>c\<in>set s. is_scalar c"
  then have "wf_str s" by (auto simp: wf_str_def is_scalar_def)
  moreover have "concat (map escape_surrogate s) = s"
    using s by (induction s) (auto simp: escape_surrogate_def is_scalar_def)
  ultimately show ?thesis by (simp add: sanitize_str_eq)
qed

lemma set_dict_put: "set (dict_put k v d) \<subseteq> insert (k, v) (set d)"
  by (induction d) auto

lemma dict_put_new: "k \<notin> fst ` set d \<Longrightarrow> dict_put k v d = d @ [(k, v)]"
  by (induction d) auto

lemma dict_of_items_append:
  "foldl (\<lambda>d (k, v). dict_put k v d) acc items = acc @ items"
  if "distinct (map fst (acc @ items))"
  using that
proof (induction items arbitrary: acc)
  case (Cons e items)
  obtain k v where e: "e = (k, v)" by (cases e)
  have "dict_put k v acc = acc @ [(k, v)]"
    using Cons.prems e by (intro dict_put_new) auto
  then show ?case using Cons.IH[of "acc @ [(k, v)]"] Cons.prems e by simp
qed simp

lemma dict_of_items_distinct: "distinct (map fst items) \<Longrightarrow> dict_of_items items = items"
  using dict_of_items_append[of "[]" items] by (simp add: dict_of_items_def)

lemma set_dict_fold:
  "set (foldl (\<lambda>d (k, v). dict_put k v d) acc items) \<subseteq> set acc \<union> set items"
proof (induction items arbitrary: acc)
  case (Cons e items)
  obtain k v where e: "e = (k, v)" by (cases e)
  show ?case using Cons.IH[of "dict_put k v acc"] set_dict_put[of k v acc] e by auto
qed simp

lemma set_dict_of_items: "set (dict_of_items items) \<subseteq> set items"
  using set_dict_fold[of "[]" items] by (simp add: dict_of_items_def)


lemma sanitize_encodable: "wf_val v \<Longrightarrow> encodable (sanitize_surrogates v)"
proof (induction v rule: sanitize_surrogates.induct)
  case (2 kvs)
  have "(k, v) \<in> set kvs \<Longrightarrow> encodable (sanitize_surrogates v) \<and> (\<forall>c\<in>set (sanitize_str k). is_scalar c)"
    for k v
    using 2 by (fastforce simp: list_all_iff intro: sanitize_str_scalar)
  then show ?case
    using set_dict_of_items[of "map (\<lambda>(k, v). (sanitize_str k, sanitize_surrogates v)) kvs"]
    by (fastforce simp: list_all_iff)
qed (auto simp: list_all_iff intro: sanitize_str_scalar)

lemma sanitize_id: "wf_val v \<Longrightarrow> encodable v \<Longrightarrow> sanitize_surrogates v = v"
proof (induction v rule: sanitize_surrogates.induct)
  case (2 kvs)
  have "map (\<lambda>(k, v). (sanitize_str k, sanitize_surrogates v)) kvs = kvs"
    using 2 by (intro map_idI) (fastforce simp: list_all_iff sanitize_str_id)
  then show ?case using 2 by (simp add: dict_of_items_distinct)
qed (auto simp: list_all_iff sanitize_str_id intro: map_idI)

lemma foldr_max_le: "foldr max xs (0::nat) \<le> n \<longleftrightarrow> (\<forall>x\<in>set xs. x \<le> n)"
  by (induction xs) auto

lemma sanitize_depth: "depth (sanitize_surrogates v) \<le> depth v"
proof (induction v rule: sanitize_surrogates.induct)
  case (2 kvs)
  have m: "(k, v) \<in> set kvs \<Longrightarrow> depth v \<le> foldr max (map snd (map (map_prod id depth) kvs)) 0" for k v
    using foldr_max_le[of "map snd (map (map_prod id depth) kvs)"
      "foldr max (map snd (map (map_prod id depth) kvs)) 0"] by force
  have "depth (sanitize_surrogates v) \<le> foldr max (map snd (map (map_prod id depth) kvs)) 0"
    if "(k, v) \<in> set kvs" for k v
    using 2[OF that refl] m[OF that] by (rule le_trans)
  then show ?case
    using set_dict_of_items[of "map (\<lambda>(k, v). (sanitize_str k, sanitize_surrogates v)) kvs"]
    by (fastforce simp: foldr_max_le)
next
  case (3 vs)
  have m: "v \<in> set vs \<Longrightarrow> depth v \<le> foldr max (map depth vs) 0" for v
    using foldr_max_le[of "map depth vs" "foldr max (map depth vs) 0"] by force
  then show ?case using 3 by (fastforce simp: foldr_max_le intro: le_trans)
qed auto

lemma sanitize_plain: "plain v \<Longrightarrow> plain (sanitize_surrogates v)"
proof (induction v rule: sanitize_surrogates.induct)
  case (2 kvs)
  have "(k, v) \<in> set kvs \<Longrightarrow> plain (sanitize_surrogates v)" for k v
    using 2 by (fastforce simp: list_all_iff)
  then show ?case
    using set_dict_of_items[of "map (\<lambda>(k, v). (sanitize_str k, sanitize_surrogates v)) kvs"]
    by (fastforce simp: list_all_iff)
qed (auto simp: list_all_iff)

lemma sanitize_supported: "supported v \<Longrightarrow> supported (sanitize_surrogates v)"
  using sanitize_depth[of v] sanitize_plain[of v] by (auto simp: supported_def)

section \<open>Properties\<close>

text \<open>
  Progress always reaches the database.  Given only what \<open>orjson\<close>
  documents (it serialises every supported value whose strings are valid
  Unicode), \<open>_progress_jsonb_escaped\<close> never gives up on a supported Python value,
  whatever lone surrogates its strings and keys contain.
\<close>

theorem progress_never_unencodable:
  assumes orjson: "\<And>u. supported u \<Longrightarrow> encodable u \<Longrightarrow> orjson_dumps cd u \<noteq> None"
    and "wf_val v" "supported v" "depth v \<le> stack"
  shows "progress_jsonb_escaped stack cd (Some v) \<noteq> Inl UnencodableValue"
proof -
  have "orjson_dumps cd (sanitize_surrogates v) \<noteq> None"
    using orjson sanitize_supported[OF assms(3)] sanitize_encodable[OF assms(2)] by blast
  then have "dumps_jsonb_str cd (sanitize_surrogates v) \<noteq> Inl UnencodableValue"
    by (auto simp: dumps_jsonb_str_def dumps_def split: option.splits)
  then show ?thesis
    using assms(4) by (auto simp: progress_jsonb_escaped_def bindE_Inl_iff split: sum.splits json_error.splits)
qed

definition strict_codec :: codec where
  "strict_codec = \<lparr>orjson_dumps = (\<lambda>v. if encodable v then Some [] else None),
     orjson_loads = (\<lambda>_. None), contains_unescaped = (\<lambda>_ _. False)\<rparr>"

lemma progress_never_unencodable_witness:
  "progress_jsonb_escaped 10 strict_codec (Some (PDict [([0xD800], PStr [65])])) \<noteq> Inl UnencodableValue"
  by (rule progress_never_unencodable)
     (simp_all add: strict_codec_def supported_def wf_str_def)

text \<open>
  What sanitising does to text.  Encoding with \<open>backslashreplace\<close> and
  decoding as UTF-8 is total on Python strings: every scalar value survives
  unchanged and in place, and each lone surrogate becomes its six-character
  escape; a string without surrogates is returned as it is.
\<close>

theorem sanitize_roundtrip:
  assumes "wf_str s"
  shows "utf8_decode (encode_backslashreplace s) =
      Some (concat (map (\<lambda>c. if is_surrogate c then backslash_u c else [c]) s))
    \<and> ((\<forall>c\<in>set s. \<not> is_surrogate c) \<longrightarrow> sanitize_str s = s)"
proof -
  have d: "utf8_decode (encode_backslashreplace s) =
      Some (concat (map (\<lambda>c. if is_surrogate c then backslash_u c else [c]) s))"
    using decode_encode_backslashreplace assms by (simp add: escape_surrogate_def[abs_def] wf_str_def)
  moreover have "sanitize_str s = s" if "\<forall>c\<in>set s. \<not> is_surrogate c"
  proof (rule sanitize_str_id)
    show "\<forall>c\<in>set s. is_scalar c" using that assms by (auto simp: wf_str_def is_scalar_def is_surrogate_def)
  qed
  ultimately show ?thesis by blast
qed

lemma sanitize_roundtrip_witness:
  "utf8_decode (encode_backslashreplace [65, 0xD800]) = Some [65, 92, 117, 100, 56, 48, 48]"
  using sanitize_roundtrip[of "[65, 0xD800]"]
  by (simp add: wf_str_def is_surrogate_def backslash_u_def hex_code_def)

end
