(* ===== verification/Terminal_Api.thy ===== *)
theory Terminal_Api
  imports Deferral Json
begin

text \<open>
  The Python functions of \<open>backend/_terminal.py\<close> around the fused statements:
  argument checks, serialisation of the binds, the statement, and the mapping
  of the returned branch to the value the caller sees.  Checking a connection
  out of the pool and logging have no effect on the database and are left out.

  Text columns hold the UTF-8 bytes of the bound string.  Besides the
  third-party encoder (\<open>codec\<close>) the parameter \<open>wire\<close> carries the server-side
  cast of text to jsonb and the nesting the interpreter's stack affords.
\<close>

record wire = codec +
  jsonb_obj :: "bytes \<Rightarrow> jobj"
  jsonb_any :: "bytes \<Rightarrow> json"
  stack_depth :: nat

fun json_exn :: "json_error \<Rightarrow> py_error" where
  "json_exn ValueError = PyValueError"
| "json_exn UnencodableValue = PyUnencodable"

definition raise_json :: "json_error + 'a \<Rightarrow> py_error + 'a" where
  "raise_json = map_sum json_exn id"

definition raise_pg :: "pg_error + 'a \<Rightarrow> py_error + 'a" where
  "raise_pg = map_sum PyPostgresError id"

definition codec_of :: "wire \<Rightarrow> codec" where
  "codec_of w = codec.truncate w"

section \<open>Binds\<close>

record py_progress =
  pp_seq :: int
  pp_state :: "pyval option"

definition bind_progress :: "wire \<Rightarrow> py_progress \<Rightarrow> py_error + progress" where
  "bind_progress w p =
     bindE (raise_json (progress_jsonb_escaped (stack_depth w) (codec_of w) (pp_state p)))
       (\<lambda>b. Inr \<lparr>p_seq = pp_seq p, p_state = map_option (jsonb_obj w) b\<rparr>)"

text \<open>A text bind: the driver encodes strictly, a string with a surrogate is a \<open>DataError\<close>.\<close>

definition bind_text :: "pystr \<Rightarrow> py_error + string" where
  "bind_text s = (if \<forall>c\<in>set s. is_scalar c
                  then Inr (map (\<lambda>b. char_of (b :: nat)) (concat (map utf8_char s)))
                  else Inl PyDataError)"

definition error_text_escaped :: "pystr \<Rightarrow> pystr" where
  "error_text_escaped s = sanitize_str s"

record py_error_info =
  pe_class :: pystr
  pe_message :: pystr
  pe_traceback :: "pystr option"

definition ERROR_CLASS_MAX_CHARS :: nat where "ERROR_CLASS_MAX_CHARS = 500"
definition ERROR_MESSAGE_MAX_CHARS :: nat where "ERROR_MESSAGE_MAX_CHARS = 10000"
definition ERROR_TRACEBACK_MAX_CHARS :: nat where "ERROR_TRACEBACK_MAX_CHARS = 100000"

definition ErrorInfo :: "pystr \<Rightarrow> pystr \<Rightarrow> pystr option \<Rightarrow> json_error + py_error_info" where
  "ErrorInfo cls msg tb =
     bindE (check_no_nul_str cls) (\<lambda>_.
     bindE (check_no_nul_str msg) (\<lambda>_.
     bindE (case tb of None \<Rightarrow> Inr () | Some t \<Rightarrow> check_no_nul_str t) (\<lambda>_.
       Inr \<lparr>pe_class = take ERROR_CLASS_MAX_CHARS cls,
            pe_message = take ERROR_MESSAGE_MAX_CHARS msg,
            pe_traceback = map_option (take ERROR_TRACEBACK_MAX_CHARS) tb\<rparr>)))"

definition bind_error :: "py_error_info \<Rightarrow> py_error + error_info" where
  "bind_error e =
     bindE (bind_text (pe_class e)) (\<lambda>cls.
     bindE (bind_text (error_text_escaped (pe_message e))) (\<lambda>msg.
     case pe_traceback e of
       None \<Rightarrow> Inr \<lparr>ei_class = cls, ei_message = msg, ei_traceback = None\<rparr>
     | Some t \<Rightarrow> bindE (bind_text (error_text_escaped t))
         (\<lambda>tb. Inr \<lparr>ei_class = cls, ei_message = msg, ei_traceback = Some tb\<rparr>)))"

definition select_owner :: "uuid \<Rightarrow> db \<Rightarrow> uuid option" where
  "select_owner i d = (case find_job i d of None \<Rightarrow> None | Some j \<Rightarrow> locked_by_worker j)"

section \<open>mark_succeeded\<close>

definition MAX_RESULT_BYTES :: nat where "MAX_RESULT_BYTES = 65536"

record succeeded_args =
  sa_result :: "pyval option"
  sa_result_bytes :: "bytes option"
  sa_progress :: py_progress
  sa_fallback_ttl :: "interval option"
  sa_max_bytes :: nat

text \<open>
  The serialised result: the two argument forms are exclusive; pre-serialised
  bytes must be non-empty, carry no NUL and parse.
\<close>

definition serialize_result :: "wire \<Rightarrow> pyval option \<Rightarrow> bytes option \<Rightarrow> py_error + bytes option" where
  "serialize_result w res res_bytes =
     (if res \<noteq> None \<and> res_bytes \<noteq> None then Inl PyValueError
      else case res_bytes of
          Some b \<Rightarrow>
            (if b = [] then Inl PyValueError
             else if encoded_has_nul (codec_of w) b then Inl PyValueError
             else bindE (raise_json (decode_result_bytes (codec_of w) b)) (\<lambda>_. Inr (Some b)))
        | None \<Rightarrow> raise_json (jsonb_param (codec_of w) res))"

definition api_mark_succeeded_on_conn ::
    "wire \<Rightarrow> clock \<Rightarrow> succeeded_args \<Rightarrow> claim \<Rightarrow> db \<Rightarrow> py_error + (bool \<times> db)" where
  "api_mark_succeeded_on_conn w clk a c d =
     bindE (serialize_result w (sa_result a) (sa_result_bytes a)) (\<lambda>ser.
       let size = map_option length ser in
       if (case size of Some n \<Rightarrow> n > sa_max_bytes a | None \<Rightarrow> False) then Inl PyResultTooLarge
       else bindE (bind_progress w (sa_progress a)) (\<lambda>p.
         bindE (raise_pg (mark_succeeded clk
             \<lparr>sb_result = map_option (jsonb_any w) ser, sb_result_size = map_option int size,
              sb_fallback_ttl = sa_fallback_ttl a, sb_progress = p\<rparr> c d))
           (\<lambda>(r, d'). case r of None \<Rightarrow> Inr (False, d') | Some _ \<Rightarrow> Inr (True, d'))))"

section \<open>mark_failed, mark_retry\<close>

definition api_mark_failed ::
    "wire \<Rightarrow> clock \<Rightarrow> py_error_info \<Rightarrow> py_progress \<Rightarrow> claim \<Rightarrow> db \<Rightarrow> py_error + (job \<times> db)" where
  "api_mark_failed w clk e p c d =
     bindE (bind_progress w p) (\<lambda>pb. bindE (bind_error e) (\<lambda>ei.
       bindE (raise_pg (mark_failed clk (ei, pb) c d))
         (\<lambda>(r, d'). case r of
             None \<Rightarrow> Inl (PyWorkerOwnershipMismatch (c_job c) (c_worker c) (select_owner (c_job c) d'))
           | Some (_, row) \<Rightarrow> Inr (row, d'))))"

definition api_mark_retry ::
    "wire \<Rightarrow> clock \<Rightarrow> py_error_info \<Rightarrow> interval \<Rightarrow> py_progress \<Rightarrow> claim \<Rightarrow> db
     \<Rightarrow> py_error + (job \<times> db)" where
  "api_mark_retry w clk e delay p c d =
     bindE (bind_progress w p) (\<lambda>pb. bindE (bind_error e) (\<lambda>ei.
       bindE (raise_pg (mark_retry clk \<lparr>rb_delay = delay, rb_error = ei, rb_progress = pb\<rparr> c d))
         (\<lambda>(r, d'). case r of
             None \<Rightarrow> Inl (PyWorkerOwnershipMismatch (c_job c) (c_worker c) (select_owner (c_job c) d'))
           | Some (br, row) \<Rightarrow>
               (case br of BrRetried \<Rightarrow> Inr (row, d') | BrDeadlineFailed \<Rightarrow> Inr (row, d')
                         | _ \<Rightarrow> Inl PyAssertionError))))"

definition api_mark_failed_or_retry ::
    "wire \<Rightarrow> clock \<Rightarrow> py_error_info \<Rightarrow> interval option \<Rightarrow> py_progress \<Rightarrow> claim \<Rightarrow> db
     \<Rightarrow> py_error + (job \<times> db)" where
  "api_mark_failed_or_retry w clk e retry_delay p c d = (case retry_delay of
       None \<Rightarrow> api_mark_failed w clk e p c d
     | Some delay \<Rightarrow> api_mark_retry w clk e delay p c d)"

section \<open>mark_cancelled, mark_abandoned\<close>

definition api_mark_cancelled ::
    "wire \<Rightarrow> clock \<Rightarrow> py_progress \<Rightarrow> claim \<Rightarrow> db \<Rightarrow> py_error + (bool \<times> db)" where
  "api_mark_cancelled w clk p c d =
     bindE (bind_progress w p) (\<lambda>pb. bindE (raise_pg (mark_cancelled clk pb c d))
       (\<lambda>(r, d'). Inr (r \<noteq> None, d')))"

definition api_mark_abandoned ::
    "wire \<Rightarrow> clock \<Rightarrow> py_progress \<Rightarrow> uuid \<Rightarrow> db \<Rightarrow> py_error + (bool \<times> db)" where
  "api_mark_abandoned w clk p i d =
     bindE (raise_json (jsonb_param (codec_of w) (pp_state p))) (\<lambda>b.
       bindE (raise_pg (mark_abandoned clk
           \<lparr>p_seq = pp_seq p, p_state = map_option (jsonb_obj w) b\<rparr> i d))
         (\<lambda>(r, d'). Inr (r \<noteq> None, d')))"

section \<open>Deferrals\<close>

datatype snooze_reply = ReplyScheduled | ReplyFailed | ReplyNoop

text \<open>
  \<open>validate_snooze_outcome\<close> and \<open>validate_denial_reason\<close>: the arguments arrive
  as strings and only the values of the two closed sets pass.
\<close>

definition validate_snooze_outcome :: "string \<Rightarrow> py_error + snooze_outcome" where
  "validate_snooze_outcome s =
     (if s = ''snoozed'' then Inr Snoozed
      else if s = ''reservation_denied'' then Inr ReservationDenied
      else if s = ''rate_limit_denied'' then Inr RateLimitDenied
      else Inl PyValueError)"

definition validate_denial_reason :: "string \<Rightarrow> py_error + denial_reason" where
  "validate_denial_reason s =
     (if s = ''capacity'' then Inr Capacity
      else if s = ''unavailable'' then Inr Unavailable
      else Inl PyValueError)"

definition api_mark_snoozed ::
    "wire \<Rightarrow> clock \<Rightarrow> interval \<Rightarrow> pyval option \<Rightarrow> py_progress \<Rightarrow> string \<Rightarrow> string \<Rightarrow> claim \<Rightarrow> db
     \<Rightarrow> py_error + (snooze_reply \<times> db)" where
  "api_mark_snoozed w clk delay meta p outcome reason c d =
     bindE (validate_snooze_outcome outcome) (\<lambda>oc.
     bindE (validate_denial_reason reason) (\<lambda>dr.
     bindE (raise_json (jsonb_param (codec_of w) meta)) (\<lambda>mb.
     bindE (bind_progress w p) (\<lambda>pb.
     bindE (raise_pg (mark_snoozed clk
         \<lparr>zb_delay = delay, zb_metadata = map_option (jsonb_obj w) mb, zb_progress = pb,
          zb_outcome = oc, zb_reason = dr\<rparr> c d))
       (\<lambda>(r, d'). case r of None \<Rightarrow> Inr (ReplyNoop, d')
          | Some (br, _) \<Rightarrow> (case br of
               BrSnoozed \<Rightarrow> Inr (ReplyScheduled, d')
             | BrCancelled \<Rightarrow> Inr (ReplyNoop, d')
             | BrFailed \<Rightarrow> Inr (ReplyFailed, d')
             | _ \<Rightarrow> Inl PyAssertionError))))))"

datatype after_reply = AfterScheduled | AfterDeadlineExceeded | AfterMaxAttempts | AfterNoop

definition api_mark_retry_after ::
    "wire \<Rightarrow> clock \<Rightarrow> interval \<Rightarrow> bool \<Rightarrow> py_progress \<Rightarrow> claim \<Rightarrow> db
     \<Rightarrow> py_error + (after_reply \<times> db)" where
  "api_mark_retry_after w clk delay consume_budget p c d =
     bindE (bind_progress w p) (\<lambda>pb.
     bindE (raise_pg ((if consume_budget then mark_retry_after_consume_true
                       else mark_retry_after_consume_false)
                      clk \<lparr>ab_delay = delay, ab_progress = pb\<rparr> c d))
       (\<lambda>(r, d'). case r of None \<Rightarrow> Inr (AfterNoop, d')
          | Some (br, _) \<Rightarrow> (case br of
               BrSnoozed \<Rightarrow> Inr (AfterScheduled, d')
             | BrCancelled \<Rightarrow> Inr (AfterNoop, d')
             | BrMaxAttemptsFailed \<Rightarrow> Inr (AfterMaxAttempts, d')
             | BrDeadlineFailed \<Rightarrow> Inr (AfterDeadlineExceeded, d')
             | _ \<Rightarrow> Inl PyAssertionError)))"

datatype interrupt_reply = IntPending | IntScheduled | IntDeadlineExceeded | IntNoop

definition api_mark_interrupted ::
    "wire \<Rightarrow> clock \<Rightarrow> interval \<Rightarrow> py_progress \<Rightarrow> claim \<Rightarrow> db \<Rightarrow> py_error + (interrupt_reply \<times> db)" where
  "api_mark_interrupted w clk hold p c d =
     bindE (bind_progress w p) (\<lambda>pb.
     bindE (raise_pg (mark_interrupted clk \<lparr>ib_hold = hold, ib_progress = pb\<rparr> c d))
       (\<lambda>(r, d'). case r of None \<Rightarrow> Inr (IntNoop, d')
          | Some (br, row) \<Rightarrow> (case br of
               BrReleased \<Rightarrow> Inr (if status row = Pending then IntPending else IntScheduled, d')
             | BrDeadlineFailed \<Rightarrow> Inr (IntDeadlineExceeded, d')
             | _ \<Rightarrow> Inl PyAssertionError)))"

section \<open>Lemmas\<close>

lemma raise_Inl_neq [simp]:
  "raise_json m \<noteq> Inl PyAssertionError" "raise_pg n \<noteq> Inl PyAssertionError"
proof -
  have "json_exn e \<noteq> PyAssertionError" for e by (cases e) simp_all
  then show "raise_json m \<noteq> Inl PyAssertionError" by (cases m) (simp_all add: raise_json_def)
  show "raise_pg n \<noteq> Inl PyAssertionError" by (cases n) (simp_all add: raise_pg_def)
qed

lemma bind_neq [simp]:
  "bind_progress w p \<noteq> Inl PyAssertionError" "bind_error e \<noteq> Inl PyAssertionError"
  by (auto simp: bind_progress_def bind_error_def bind_text_def bindE_Inl_iff split: option.splits if_splits)

lemma raise_pg_Inr [simp]: "raise_pg m = Inr x \<longleftrightarrow> m = Inr x"
  by (cases m) (auto simp: raise_pg_def)

lemma validate_neq [simp]:
  "validate_snooze_outcome s \<noteq> Inl PyAssertionError" "validate_denial_reason s \<noteq> Inl PyAssertionError"
  by (simp_all add: validate_snooze_outcome_def validate_denial_reason_def)

text \<open>The branches of each statement, with the status of the row it returned.\<close>

lemma retry_branch:
  assumes "mark_retry clk b c d = Inr (Some (br, row), d')"
  shows "br \<in> {BrRetried, BrDeadlineFailed}" "find_job (c_job c) d' = Some row"
    "br = BrRetried \<Longrightarrow> status row = Scheduled" "br = BrDeadlineFailed \<Longrightarrow> status row = Failed"
proof -
  obtain j a where a: "a \<in> {retry_retried clk b c, retry_deadline_failed clk b c}" "br = arm_branch a"
      "row = arm_set a j" "find_job (c_job c) d' = Some row"
    using assms unfolding mark_retry_def
    by (rule run_arms_applied) (auto intro: retry_retried_ok retry_deadline_failed_ok)
  then show "br \<in> {BrRetried, BrDeadlineFailed}" "find_job (c_job c) d' = Some row"
    "br = BrRetried \<Longrightarrow> status row = Scheduled" "br = BrDeadlineFailed \<Longrightarrow> status row = Failed"
    by (auto simp: arm_defs set_defs floored_delay_def greatest_def MIN_DEFERRAL_INTERVAL_def
        seconds_def usec_per_sec_def)
qed

lemma snooze_branch:
  assumes "mark_snoozed clk b c d = Inr (Some (br, row), d')"
  shows "br \<in> {BrSnoozed, BrCancelled, BrFailed}" "find_job (c_job c) d' = Some row"
    "status row = (case br of BrSnoozed \<Rightarrow> Scheduled | BrCancelled \<Rightarrow> Cancelled | _ \<Rightarrow> Failed)"
proof -
  obtain j a where a: "a \<in> {snooze_snoozed clk b c, snooze_deadline_cancelled clk b c,
      snooze_deadline_failed clk b c}" "br = arm_branch a"
      "row = arm_set a j" "find_job (c_job c) d' = Some row"
    using assms unfolding mark_snoozed_def by (rule run_arms_applied) (auto intro: snooze_arms_ok)
  then show "br \<in> {BrSnoozed, BrCancelled, BrFailed}" "find_job (c_job c) d' = Some row"
    "status row = (case br of BrSnoozed \<Rightarrow> Scheduled | BrCancelled \<Rightarrow> Cancelled | _ \<Rightarrow> Failed)"
    by (auto simp: arm_defs deferral_set_defs floored_delay_def greatest_def MIN_DEFERRAL_INTERVAL_def
        seconds_def usec_per_sec_def)
qed

lemma consume_branch:
  assumes "mark_retry_after_consume_true clk b c d = Inr (Some (br, row), d')"
  shows "br \<in> {BrSnoozed, BrCancelled, BrMaxAttemptsFailed, BrDeadlineFailed}"
    "find_job (c_job c) d' = Some row"
    "status row = (case br of BrSnoozed \<Rightarrow> delayed_status (ab_delay b) | BrCancelled \<Rightarrow> Cancelled | _ \<Rightarrow> Failed)"
proof -
  obtain j a where a: "a \<in> {consume_snoozed clk b c, consume_deadline_cancelled clk b c,
      consume_max_attempts_failed clk b c, consume_deadline_failed clk b c}" "br = arm_branch a"
      "row = arm_set a j" "find_job (c_job c) d' = Some row"
    using assms unfolding mark_retry_after_consume_true_def
    by (rule run_arms_applied) (auto intro: consume_arms_ok)
  then show "br \<in> {BrSnoozed, BrCancelled, BrMaxAttemptsFailed, BrDeadlineFailed}"
    "find_job (c_job c) d' = Some row"
    "status row = (case br of BrSnoozed \<Rightarrow> delayed_status (ab_delay b) | BrCancelled \<Rightarrow> Cancelled | _ \<Rightarrow> Failed)"
    by (auto simp: arm_defs deferral_set_defs)
qed

lemma refund_branch:
  assumes "mark_retry_after_consume_false clk b c d = Inr (Some (br, row), d')"
  shows "br \<in> {BrSnoozed, BrCancelled, BrDeadlineFailed}" "find_job (c_job c) d' = Some row"
    "status row = (case br of BrSnoozed \<Rightarrow> Scheduled | BrCancelled \<Rightarrow> Cancelled | _ \<Rightarrow> Failed)"
proof -
  obtain j a where a: "a \<in> {refund_snoozed clk b c, refund_deadline_cancelled clk b c,
      refund_deadline_failed clk b c}" "br = arm_branch a"
      "row = arm_set a j" "find_job (c_job c) d' = Some row"
    using assms unfolding mark_retry_after_consume_false_def
    by (rule run_arms_applied) (auto intro: refund_arms_ok)
  then show "br \<in> {BrSnoozed, BrCancelled, BrDeadlineFailed}" "find_job (c_job c) d' = Some row"
    "status row = (case br of BrSnoozed \<Rightarrow> Scheduled | BrCancelled \<Rightarrow> Cancelled | _ \<Rightarrow> Failed)"
    by (auto simp: arm_defs deferral_set_defs floored_delay_def greatest_def MIN_DEFERRAL_INTERVAL_def
        seconds_def usec_per_sec_def)
qed

abbreviation after_stmt :: "bool \<Rightarrow> clock \<Rightarrow> after_binds \<Rightarrow> claim \<Rightarrow> db
    \<Rightarrow> pg_error + ((outcome_branch \<times> job) option \<times> db)" where
  "after_stmt consume \<equiv> (if consume then mark_retry_after_consume_true else mark_retry_after_consume_false)"

lemma after_branch:
  assumes "after_stmt consume clk b c d = Inr (Some (br, row), d')"
  shows "br \<in> {BrSnoozed, BrCancelled, BrMaxAttemptsFailed, BrDeadlineFailed}"
    "find_job (c_job c) d' = Some row"
    "br = BrSnoozed \<Longrightarrow> status row \<in> {Scheduled, Pending}"
    "br = BrCancelled \<Longrightarrow> status row = Cancelled"
    "br \<in> {BrMaxAttemptsFailed, BrDeadlineFailed} \<Longrightarrow> status row = Failed"
proof -
  have "br \<in> {BrSnoozed, BrCancelled, BrMaxAttemptsFailed, BrDeadlineFailed}
    \<and> find_job (c_job c) d' = Some row
    \<and> status row \<in> (case br of BrSnoozed \<Rightarrow> {Scheduled, Pending} | BrCancelled \<Rightarrow> {Cancelled} | _ \<Rightarrow> {Failed})"
  proof (cases consume)
    case True
    then show ?thesis using assms consume_branch[of clk b c d br row d']
      by (auto simp: delayed_status_def)
  next
    case False
    then show ?thesis using assms refund_branch[of clk b c d br row d'] by auto
  qed
  then show "br \<in> {BrSnoozed, BrCancelled, BrMaxAttemptsFailed, BrDeadlineFailed}"
    "find_job (c_job c) d' = Some row"
    "br = BrSnoozed \<Longrightarrow> status row \<in> {Scheduled, Pending}"
    "br = BrCancelled \<Longrightarrow> status row = Cancelled"
    "br \<in> {BrMaxAttemptsFailed, BrDeadlineFailed} \<Longrightarrow> status row = Failed"
    by auto
qed

lemma after_not_applied: "after_stmt consume clk b c d = Inr (None, d') \<Longrightarrow> d' = d"
  using rat.not_applied raf.not_applied by (cases consume) auto

lemma interrupt_branch:
  assumes "mark_interrupted clk b c d = Inr (Some (br, row), d')"
  shows "br \<in> {BrReleased, BrDeadlineFailed}" "find_job (c_job c) d' = Some row"
    "status row = (case br of BrReleased \<Rightarrow> delayed_status (effective_hold (ib_hold b)) | _ \<Rightarrow> Failed)"
proof -
  obtain j a where a: "a \<in> {interrupt_released clk b c, interrupt_deadline_failed clk b c}" "br = arm_branch a"
      "row = arm_set a j" "find_job (c_job c) d' = Some row"
    using assms unfolding mark_interrupted_def
    by (rule run_arms_applied) (auto intro: interrupt_arms_ok)
  then show "br \<in> {BrReleased, BrDeadlineFailed}" "find_job (c_job c) d' = Some row"
    "status row = (case br of BrReleased \<Rightarrow> delayed_status (effective_hold (ib_hold b)) | _ \<Rightarrow> Failed)"
    by (auto simp: arm_defs set_defs)
qed

lemma snooze_reply:
  assumes "api_mark_snoozed w clk delay meta p outcome reason c d = Inr (rep, d')"
  shows "case rep of
         ReplyScheduled \<Rightarrow> map_option status (find_job (c_job c) d') = Some Scheduled
       | ReplyFailed \<Rightarrow> map_option status (find_job (c_job c) d') = Some Failed
       | ReplyNoop \<Rightarrow> d' = d \<or> map_option status (find_job (c_job c) d') = Some Cancelled"
proof -
  from assms obtain b x d1 where m: "mark_snoozed clk b c d = Inr (x, d1)"
    and rep: "(case x of None \<Rightarrow> Inr (ReplyNoop, d1) | Some (br, row) \<Rightarrow> (case br of
      BrSnoozed \<Rightarrow> Inr (ReplyScheduled, d1) | BrCancelled \<Rightarrow> Inr (ReplyNoop, d1) | BrFailed \<Rightarrow> Inr (ReplyFailed, d1) | _ \<Rightarrow> Inl PyAssertionError)) = Inr (rep, d')"
    by (fastforce simp: api_mark_snoozed_def bindE_Inr_iff)
  show ?thesis
  proof (cases x)
    case None
    then show ?thesis using snz.not_applied[of clk b c d d1] m rep by auto
  next
    case (Some y)
    obtain br row where y: "y = (br, row)" by (cases y)
    note f = snooze_branch(2,3)[OF m[unfolded Some y]]
    show ?thesis using f rep by (cases br) (auto simp: Some y)
  qed
qed

lemma interrupt_reply:
  assumes "api_mark_interrupted w clk delay p c d = Inr (irep, d')"
  shows "case irep of
         IntPending \<Rightarrow> map_option status (find_job (c_job c) d') = Some Pending
       | IntScheduled \<Rightarrow> map_option status (find_job (c_job c) d') = Some Scheduled
       | IntDeadlineExceeded \<Rightarrow> map_option status (find_job (c_job c) d') = Some Failed
       | IntNoop \<Rightarrow> d' = d"
proof -
  from assms obtain b x d1 where m: "mark_interrupted clk b c d = Inr (x, d1)"
    and rep: "(case x of None \<Rightarrow> Inr (IntNoop, d1) | Some (br, row) \<Rightarrow> (case br of
      BrReleased \<Rightarrow> Inr (if status row = Pending then IntPending else IntScheduled, d1) | BrDeadlineFailed \<Rightarrow> Inr (IntDeadlineExceeded, d1) | _ \<Rightarrow> Inl PyAssertionError)) = Inr (irep, d')"
    by (fastforce simp: api_mark_interrupted_def bindE_Inr_iff)
  show ?thesis
  proof (cases x)
    case None
    then show ?thesis using intr.not_applied[of clk b c d d1] m rep by auto
  next
    case (Some y)
    obtain br row where y: "y = (br, row)" by (cases y)
    note f = interrupt_branch(2,3)[OF m[unfolded Some y]]
    show ?thesis using f rep by (cases br) (auto simp: Some y delayed_status_def split: if_splits)
  qed
qed

lemma after_reply:
  assumes "api_mark_retry_after w clk delay consume p c d = Inr (arep, d')"
  shows "case arep of
         AfterScheduled \<Rightarrow> map_option status (find_job (c_job c) d') \<in> {Some Scheduled, Some Pending}
       | AfterDeadlineExceeded \<Rightarrow> map_option status (find_job (c_job c) d') = Some Failed
       | AfterMaxAttempts \<Rightarrow> map_option status (find_job (c_job c) d') = Some Failed
       | AfterNoop \<Rightarrow> d' = d \<or> map_option status (find_job (c_job c) d') = Some Cancelled"
proof -
  from assms obtain b x d1 where m: "after_stmt consume clk b c d = Inr (x, d1)"
    and rep: "(case x of None \<Rightarrow> Inr (AfterNoop, d1) | Some (br, row) \<Rightarrow> (case br of
      BrSnoozed \<Rightarrow> Inr (AfterScheduled, d1) | BrCancelled \<Rightarrow> Inr (AfterNoop, d1) | BrMaxAttemptsFailed \<Rightarrow> Inr (AfterMaxAttempts, d1) | BrDeadlineFailed \<Rightarrow> Inr (AfterDeadlineExceeded, d1) | _ \<Rightarrow> Inl PyAssertionError)) = Inr (arep, d')"
    by (fastforce simp: api_mark_retry_after_def bindE_Inr_iff)
  show ?thesis
  proof (cases x)
    case None
    then show ?thesis using after_not_applied[of consume clk b c d d1] m rep by auto
  next
    case (Some y)
    obtain br row where y: "y = (br, row)" by (cases y)
    note f = after_branch(2-5)[OF m[unfolded Some y]]
    show ?thesis using f rep by (cases br) (auto simp: Some y)
  qed
qed

section \<open>Properties\<close>

text \<open>
  The exhaustiveness assertions of the API are dead code.  No call of
  \<open>_mark_retry\<close>, \<open>_mark_snoozed\<close>, \<open>_mark_retry_after\<close> or \<open>_mark_interrupted\<close> ends
  in the assertion on an unexpected branch, on any table and any argument.
\<close>

theorem api_never_asserts:
  "api_mark_retry w clk e delay p c d \<noteq> Inl PyAssertionError
   \<and> api_mark_snoozed w clk delay meta p outcome reason c d \<noteq> Inl PyAssertionError
   \<and> api_mark_retry_after w clk delay consume p c d \<noteq> Inl PyAssertionError
   \<and> api_mark_interrupted w clk delay p c d \<noteq> Inl PyAssertionError"
proof (intro conjI notI)
  assume "api_mark_retry w clk e delay p c d = Inl PyAssertionError"
  then obtain b br row d' where m: "mark_retry clk b c d = Inr (Some (br, row), d')"
    and br: "(case br of BrRetried \<Rightarrow> Inr (row, d') | BrDeadlineFailed \<Rightarrow> Inr (row, d')
      | _ \<Rightarrow> Inl PyAssertionError) = Inl PyAssertionError"
    by (auto simp: api_mark_retry_def bindE_Inl_iff split: option.splits)
  then show False using retry_branch(1)[OF m] by auto
next
  assume "api_mark_snoozed w clk delay meta p outcome reason c d = Inl PyAssertionError"
  then obtain b br row d' where m: "mark_snoozed clk b c d = Inr (Some (br, row), d')"
    and br: "(case br of BrSnoozed \<Rightarrow> Inr (ReplyScheduled, d') | BrCancelled \<Rightarrow> Inr (ReplyNoop, d')
      | BrFailed \<Rightarrow> Inr (ReplyFailed, d') | _ \<Rightarrow> Inl PyAssertionError) = Inl PyAssertionError"
    by (auto simp: api_mark_snoozed_def bindE_Inl_iff split: option.splits)
  then show False using snooze_branch(1)[OF m] by auto
next
  assume "api_mark_retry_after w clk delay consume p c d = Inl PyAssertionError"
  then obtain b br row d' where m: "after_stmt consume clk b c d = Inr (Some (br, row), d')"
    and br: "(case br of BrSnoozed \<Rightarrow> Inr (AfterScheduled, d') | BrCancelled \<Rightarrow> Inr (AfterNoop, d')
      | BrMaxAttemptsFailed \<Rightarrow> Inr (AfterMaxAttempts, d')
      | BrDeadlineFailed \<Rightarrow> Inr (AfterDeadlineExceeded, d') | _ \<Rightarrow> Inl PyAssertionError) = Inl PyAssertionError"
    by (auto simp: api_mark_retry_after_def bindE_Inl_iff split: option.splits)
  then show False using after_branch(1)[OF m] by auto
next
  assume "api_mark_interrupted w clk delay p c d = Inl PyAssertionError"
  then obtain b br row d' where m: "mark_interrupted clk b c d = Inr (Some (br, row), d')"
    and br: "(case br of BrReleased \<Rightarrow> Inr (if status row = Pending then IntPending else IntScheduled, d')
      | BrDeadlineFailed \<Rightarrow> Inr (IntDeadlineExceeded, d') | _ \<Rightarrow> Inl PyAssertionError) = Inl PyAssertionError"
    by (auto simp: api_mark_interrupted_def bindE_Inl_iff split: option.splits)
  then show False using interrupt_branch(1)[OF m] by auto
qed


definition sample_wire :: wire where
  "sample_wire = \<lparr>orjson_dumps = (\<lambda>_. None), orjson_loads = (\<lambda>_. None),
     contains_unescaped = (\<lambda>_ _. False), jsonb_obj = (\<lambda>_. Map.empty), jsonb_any = (\<lambda>_. JNull),
     stack_depth = 100\<rparr>"

lemma sample_progress: "bind_progress w \<lparr>pp_seq = n, pp_state = None\<rparr> = Inr \<lparr>p_seq = n, p_state = None\<rparr>"
  by (simp add: bind_progress_def progress_jsonb_escaped_def raise_json_def)


text \<open>
  C32: a budget-consuming RetryAfter with a delay of zero or less puts the row
  straight back to \<open>pending\<close>, but the event it appends says \<open>to_state\<close>
  \<open>scheduled\<close>, and the API reports \<open>scheduled\<close>.
\<close>

theorem zero_delay_event_mismatch:
  assumes "mark_retry_after_consume_true clk b c d = Inr (Some (BrSnoozed, row), d')" "ab_delay b \<le> 0"
  shows "status row = Pending \<and> find_job (c_job c) d' = Some row
    \<and> (\<exists>e. job_events d' = job_events d @ [e] \<and> e_job_id e = c_job c
         \<and> e_detail e ''to_state'' = Some (JStr ''scheduled''))"
proof -
  obtain j a where a: "find_job (c_job c) d = Some j"
      "a \<in> {consume_snoozed clk b c, consume_deadline_cancelled clk b c,
      consume_max_attempts_failed clk b c, consume_deadline_failed clk b c}" "BrSnoozed = arm_branch a"
      "row = arm_set a j" "arm_post a j row (put_job row d) = Inr d'"
    using assms(1) unfolding mark_retry_after_consume_true_def
    by (rule run_arms_applied) (auto intro: consume_arms_ok)
  then have cs: "a = consume_snoozed clk b c" by (auto simp: arm_defs)
  have "status row = Pending" using consume_branch(3)[OF assms(1)] assms(2) by (simp add: delayed_status_def)
  moreover have "\<exists>e. job_events d' = job_events d @ [e] \<and> e_job_id e = c_job c
         \<and> e_detail e ''to_state'' = Some (JStr ''scheduled'')"
    using a(5) find_job_jid[OF a(1)]
    by (auto simp: a(4) cs consume_snoozed_def Let_def bindE_Inr_iff insert_event_def insert_attempt_def
        state_change_detail_def jsonb_build_object_apply deferral_set_defs split: option.splits)
  ultimately show ?thesis using consume_branch(2)[OF assms(1)] by simp
qed

lemma zero_delay_event_mismatch_witness:
  "\<exists>row d'. mark_retry_after_consume_true sample_clock
      \<lparr>ab_delay = 0, ab_progress = \<lparr>p_seq = 0, p_state = None\<rparr>\<rparr> sample_claim sample_db
      = Inr (Some (BrSnoozed, row), d') \<and> status row = Pending \<and> length (job_events d') = 1"
proof -
  let ?b = "\<lparr>ab_delay = 0, ab_progress = \<lparr>p_seq = 0, p_state = None\<rparr>\<rparr>"
  let ?a = "consume_snoozed sample_clock ?b sample_claim"
  let ?r = "arm_set ?a sample_job"
  have "arm_where ?a sample_job" "arm_branch ?a = BrSnoozed"
    by (simp_all add: consume_snoozed_def deadline_fits_def sample_clock_def Let_def)
  moreover obtain d' where "arm_post ?a sample_job ?r (put_job ?r sample_db) = Inr d'"
    by (simp add: consume_snoozed_def Let_def insert_attempt_def duration_ms_def deferral_set_defs
        sample_clock_def to_int4_def trunc_div_def int4_min_def int4_max_def)
  ultimately have e: "mark_retry_after_consume_true sample_clock ?b sample_claim sample_db
      = Inr (Some (BrSnoozed, ?r), d')"
    by (simp add: mark_retry_after_consume_true_def run_arms_def)
  show ?thesis using zero_delay_event_mismatch[OF e] e by auto
qed

end
