(* ===== verification/Cancel.thy ===== *)
theory Cancel
  imports Terminal Sample
begin

text \<open>
  Operator writes: the cancel request and its escalation
  (\<open>backend/_sql_templates.py\<close>, \<open>backend/_sql.py\<close>, \<open>backend/postgres.py\<close>,
  \<open>backend/_terminal.py\<close>), the poll of cancel flags, and the administrative
  retry of a job at rest.
\<close>

section \<open>Cancel request\<close>

definition queued :: "job_status \<Rightarrow> bool" where
  "queued s \<longleftrightarrow> s \<in> {Pending, Scheduled}"

definition cancel_pending_scheduled :: "clock \<Rightarrow> uuid \<Rightarrow> db \<Rightarrow> job_status option \<times> db" where
  "cancel_pending_scheduled clk i d = (case find_job i d of
       None \<Rightarrow> (None, d)
     | Some j \<Rightarrow>
         if queued (status j)
         then (Some (status j), put_job (j\<lparr>status := Cancelled, finished_at := Some (clk 0),
                 error_class := Some CANCEL_ORIGIN_PENDING\<rparr>) d)
         else (None, d))"

definition cancel_running :: "clock \<Rightarrow> uuid \<Rightarrow> db \<Rightarrow> uuid option option \<times> db" where
  "cancel_running clk i d = (case find_job i d of
       None \<Rightarrow> (None, d)
     | Some j \<Rightarrow>
         if status j = Running \<and> cancel_phase j = 0
         then (Some (locked_by_worker j),
               put_job (j\<lparr>cancel_requested_at := Some (clk 0), cancel_phase := 1\<rparr>) d)
         else (None, d))"

definition cancel_request_set :: "clock \<Rightarrow> job \<Rightarrow> job" where
  "cancel_request_set clk j =
     (let q = queued (status j); r = (status j = Running \<and> cancel_phase j = 0) in
      j\<lparr>status := (if q then Cancelled else status j),
        finished_at := (if q then Some (clk 0) else finished_at j),
        error_class := (if q then Some CANCEL_ORIGIN_PENDING else error_class j),
        cancel_requested_at := (if r then Some (clk 1) else cancel_requested_at j),
        cancel_phase := (if r then 1 else cancel_phase j)\<rparr>)"

definition cancel_request_where :: "job \<Rightarrow> bool" where
  "cancel_request_where j \<longleftrightarrow> queued (status j) \<or> (status j = Running \<and> cancel_phase j = 0)"

text \<open>One insert writes both events, the \<open>state_change\<close> row first.\<close>

definition cancel_request_events :: "clock \<Rightarrow> string option \<Rightarrow> job \<Rightarrow> db \<Rightarrow> db" where
  "cancel_request_events clk reason j d =
     (let d1 = (if queued (status j)
                then insert_event (jid j) (clk 2) ''state_change''
                       (state_change_detail (status_text (status j)) ''cancelled'' []) d
                else d)
      in insert_event (jid j) (clk 2) ''cancel_request''
           (jsonb_strip_nulls (jsonb_build_object [(''reason'', json_text reason)])) d1)"

definition cancel_request ::
    "clock \<Rightarrow> string option \<Rightarrow> uuid \<Rightarrow> db \<Rightarrow> (job_status \<times> uuid option) option \<times> db" where
  "cancel_request clk reason i d = (case find_job i d of
       None \<Rightarrow> (None, d)
     | Some j \<Rightarrow>
         if cancel_request_where j
         then (Some (status j, locked_by_worker j),
               cancel_request_events clk reason j (put_job (cancel_request_set clk j) d))
         else (None, d))"

text \<open>
  \<open>write_cancel_request\<close>: the reply, and the worker to notify when a running
  job was asked to stop.
\<close>

definition write_cancel_request ::
    "clock \<Rightarrow> uuid \<Rightarrow> string option \<Rightarrow> db \<Rightarrow> bool \<times> uuid option \<times> db" where
  "write_cancel_request clk i reason d = (case cancel_request clk reason i d of
       (None, d') \<Rightarrow> (False, None, d')
     | (Some (prev, holder_id), d') \<Rightarrow> (True, if queued prev then None else holder_id, d'))"

section \<open>Escalation and poll\<close>

definition cancel_escalation_where :: "uuid \<Rightarrow> uuid \<Rightarrow> job \<Rightarrow> bool" where
  "cancel_escalation_where i w j \<longleftrightarrow>
     jid j = i \<and> status j = Running \<and> sql_eq (locked_by_worker j) (Some w) \<and> cancel_phase j = 1"

definition write_cancel_escalation ::
    "clock \<Rightarrow> uuid \<Rightarrow> uuid \<Rightarrow> int \<Rightarrow> db \<Rightarrow> py_error + (bool \<times> db)" where
  "write_cancel_escalation clk i w phase d =
     (if phase \<noteq> 2 then Inl PyValueError
      else case find_job i d of
          None \<Rightarrow> Inr (False, d)
        | Some j \<Rightarrow>
            if cancel_escalation_where i w j
            then Inr (True, insert_event i (clk 0) ''state_change''
              (state_change_detail ''running'' ''running''
                 [(''worker_id'', JStr (uuid_text w)), (''cancel_phase_from'', JNum 1),
                  (''cancel_phase_to'', JNum 2)])
              (put_job (j\<lparr>cancel_phase := 2\<rparr>) d))
            else Inr (False, d))"

definition poll_cancel_flags :: "uuid \<Rightarrow> db \<Rightarrow> (uuid \<times> int) list" where
  "poll_cancel_flags w d =
     map (\<lambda>j. (jid j, cancel_phase j))
       (filter (\<lambda>j. sql_eq (locked_by_worker j) (Some w) \<and> cancel_requested_at j \<noteq> None
                    \<and> status j = Running) (jobs d))"

section \<open>Administrative retry\<close>

definition raised_ceiling :: "job \<Rightarrow> int" where
  "raised_ceiling j = least (greatest (max_attempts j) (attempt j + 1)) 32767"

definition retry_job_set :: "clock \<Rightarrow> job \<Rightarrow> job" where
  "retry_job_set clk j = j\<lparr>
     status := Pending,
     max_attempts := raised_ceiling j,
     assignment_routed := True,
     cancel_phase := 0,
     cancel_requested_at := None,
     error_class := None,
     error_message := None,
     error_traceback := None,
     scheduled_at := clk 0,
     schedule_to_close := (if sql_le (schedule_to_close j) (Some (clk 1)) then None
                           else schedule_to_close j),
     finished_at := None,
     result := None,
     result_size_bytes := None,
     result_expires_at := None\<rparr>"

definition retry_job_where :: "job \<Rightarrow> bool" where
  "retry_job_where j \<longleftrightarrow>
     status j \<notin> {Running, Pending, Scheduled} \<and> raised_ceiling j > attempt j"

text \<open>
  The partial unique index \<open>jobs_singleton_uniq\<close>: at most one active row per
  actor carries \<open>{"singleton": true}\<close> in its metadata.
\<close>

definition is_singleton :: "job \<Rightarrow> bool" where
  "is_singleton j \<longleftrightarrow> metadata j ''singleton'' = Some (JBool True)"

definition singleton_conflict :: "job \<Rightarrow> db \<Rightarrow> bool" where
  "singleton_conflict r d \<longleftrightarrow> is_singleton r \<and> status r \<in> ACTIVE_STATUSES
     \<and> (\<exists>k\<in>set (jobs d). jid k \<noteq> jid r \<and> actor k = actor r \<and> is_singleton k
          \<and> status k \<in> ACTIVE_STATUSES)"

text \<open>
  The batch of the row is reopened; its id is the text of the metadata key
  \<open>batch_id\<close>, cast to uuid.
\<close>

definition reopened :: "uuid option \<Rightarrow> batch_row \<Rightarrow> bool" where
  "reopened b r \<longleftrightarrow> sql_eq (Some (b_id r)) b \<and> b_status r \<in> {BatchComplete, BatchAborted}"

definition retry_job :: "clock \<Rightarrow> uuid \<Rightarrow> db \<Rightarrow> pg_error + (bool \<times> db)" where
  "retry_job clk i d = (case find_job i d of
       None \<Rightarrow> Inr (False, d)
     | Some j \<Rightarrow>
         if \<not> retry_job_where j then Inr (False, d)
         else if singleton_conflict (retry_job_set clk j) d then Inl UniqueViolation
         else bindE (uuid_key ''batch_id'' (metadata j)) (\<lambda>b.
           Inr (True, (put_job (retry_job_set clk j) d)\<lparr>
                batches := upd_where (reopened b)
                  (\<lambda>r. r\<lparr>b_status := BatchActive, b_completed_at := None\<rparr>) (batches d)\<rparr>)))"

section \<open>Lemmas\<close>

lemma write_cancel_request_cases:
  assumes "find_job i d = Some j"
  shows "write_cancel_request clk i reason d =
    (if cancel_request_where j
     then (True, if queued (status j) then None else locked_by_worker j,
           cancel_request_events clk reason j (put_job (cancel_request_set clk j) d))
     else (False, None, d))"
  using assms by (simp add: write_cancel_request_def cancel_request_def)

lemma find_job_events [simp]: "find_job k (cancel_request_events clk reason j d) = find_job k d"
  by (simp add: cancel_request_events_def Let_def find_job_def)

lemma kinds_cancel_request_events [simp]:
  "map e_kind (job_events (cancel_request_events clk reason j d)) = map e_kind (job_events d) @
     (if queued (status j) then [''state_change'', ''cancel_request''] else [''cancel_request''])"
  by (simp add: cancel_request_events_def insert_event_def Let_def)

lemma jid_cancel_request_set [simp]: "jid (cancel_request_set clk j) = jid j"
  by (simp add: cancel_request_set_def Let_def)

lemma cancel_request_set_cases:
  "queued (status j) \<Longrightarrow> cancel_request_set clk j = j\<lparr>status := Cancelled, finished_at := Some (clk 0),
     error_class := Some CANCEL_ORIGIN_PENDING\<rparr>"
  "status j = Running \<Longrightarrow> cancel_phase j = 0 \<Longrightarrow>
     cancel_request_set clk j = j\<lparr>cancel_requested_at := Some (clk 1), cancel_phase := 1\<rparr>"
  by (rule job.equality; auto simp: cancel_request_set_def queued_def Let_def)+

lemma cancel_request_done: "cancel_request_where j \<Longrightarrow> \<not> cancel_request_where (cancel_request_set clk j)"
  by (auto simp: cancel_request_where_def cancel_request_set_def queued_def Let_def)

section \<open>Properties\<close>

text \<open>
  The effect of a cancel request.  A queued job is cancelled on the spot,
  with the state change and the request in the event stream in that order and
  nobody to notify; a running job without a cancel in flight moves to phase 1,
  keeps running, and its owner is the one to notify; any other job is left
  alone.  A second request, whenever it comes, changes nothing.
\<close>

theorem cancel_request_effect:
  assumes j: "find_job i d = Some j" and e: "write_cancel_request clk i reason d = (ok, notify, d')"
  shows "(queued (status j) \<longrightarrow> ok \<and> notify = None
      \<and> find_job i d' = Some (j\<lparr>status := Cancelled, finished_at := Some (clk 0),
          error_class := Some CANCEL_ORIGIN_PENDING\<rparr>)
      \<and> map e_kind (job_events d') = map e_kind (job_events d) @ [''state_change'', ''cancel_request''])
    \<and> (status j = Running \<and> cancel_phase j = 0 \<longrightarrow> ok \<and> notify = locked_by_worker j
      \<and> find_job i d' = Some (j\<lparr>cancel_requested_at := Some (clk 1), cancel_phase := 1\<rparr>)
      \<and> map e_kind (job_events d') = map e_kind (job_events d) @ [''cancel_request''])
    \<and> (\<not> queued (status j) \<and> \<not> (status j = Running \<and> cancel_phase j = 0) \<longrightarrow>
        \<not> ok \<and> notify = None \<and> d' = d)
    \<and> write_cancel_request clk' i reason' d' = (False, None, d')"
proof -
  have i: "jid j = i" by (rule find_job_jid[OF j])
  have find: "find_job i (put_job (cancel_request_set clk j) d) = Some (cancel_request_set clk j)"
    using i j by (simp add: find_job_put)
  have cases: "ok = cancel_request_where j"
    "notify = (if cancel_request_where j \<and> \<not> queued (status j) then locked_by_worker j else None)"
    "d' = (if cancel_request_where j
           then cancel_request_events clk reason j (put_job (cancel_request_set clk j) d) else d)"
    using e by (auto simp: write_cancel_request_cases[OF j] split: if_splits)
  have again: "write_cancel_request clk' i reason' d' = (False, None, d')"
  proof (cases "cancel_request_where j")
    case True
    then have "find_job i d' = Some (cancel_request_set clk j)" using cases find by simp
    then show ?thesis using cancel_request_done[OF True] by (simp add: write_cancel_request_cases)
  next
    case False
    then show ?thesis using cases j by (simp add: write_cancel_request_cases)
  qed
  consider (q) "queued (status j)" "status j \<noteq> Running"
    | (r) "\<not> queued (status j)" "status j = Running" "cancel_phase j = 0"
    | (n) "\<not> queued (status j)" "\<not> (status j = Running \<and> cancel_phase j = 0)"
    by (cases "status j") (auto simp: queued_def)
  then show ?thesis
  proof cases
    case q
    then show ?thesis using cases again find by (simp add: cancel_request_where_def cancel_request_set_cases)
  next
    case r
    then show ?thesis using cases again find by (simp add: cancel_request_where_def cancel_request_set_cases)
  next
    case n
    then have "\<not> cancel_request_where j" by (simp add: cancel_request_where_def)
    then show ?thesis using n cases again by auto
  qed
qed

lemma cancel_request_effect_witness:
  "\<exists>d'. write_cancel_request sample_clock 4 None sample_db = (True, Some 7, d')
     \<and> write_cancel_request sample_clock 4 None d' = (False, None, d')"
proof -
  obtain ok n d' where e: "write_cancel_request sample_clock 4 None sample_db = (ok, n, d')"
    by (cases "write_cancel_request sample_clock 4 None sample_db")
  show ?thesis using cancel_request_effect[OF sample_find e] e by simp
qed

text \<open>
  The fused cancel statement writes the same job row as the two
  statements it replaced, run one after the other.
\<close>

theorem cancel_request_equals_two_statements:
  "jobs (snd (snd (write_cancel_request clk i reason d))) =
     (case cancel_pending_scheduled clk i d of
        (Some _, d1) \<Rightarrow> jobs d1
      | (None, d1) \<Rightarrow> jobs (snd (cancel_running (\<lambda>k. clk (k + 1)) i d1)))"
proof (cases "find_job i d")
  case None
  then show ?thesis
    by (simp add: write_cancel_request_def cancel_request_def cancel_pending_scheduled_def cancel_running_def)
next
  case (Some j)
  show ?thesis
    by (auto simp: write_cancel_request_cases[OF Some] cancel_pending_scheduled_def cancel_running_def Some
        cancel_request_where_def cancel_request_set_cases cancel_request_events_def queued_def Let_def
        insert_event_def)
qed

text \<open>
  An operator retry hands back a claimable job.  It applies exactly to
  jobs at rest whose attempt number is below the smallint ceiling; the row it
  leaves is due at once, has at least one attempt of budget left, carries no
  cancel, no result and no lapsed deadline, and keeps its attempt number and
  claim epoch; running and queued jobs are refused without a write.
\<close>

theorem retry_job_effect:
  assumes j: "find_job i d = Some j" and e: "retry_job clk i d = Inr (ok, d')" and "attempt j \<le> 32767"
  shows "(ok \<longleftrightarrow> status j \<in> TERMINAL_STATUSES \<and> attempt j < 32767)
    \<and> (\<not> ok \<longrightarrow> d' = d)
    \<and> (ok \<longrightarrow> (\<exists>r. find_job i d' = Some r \<and> status r = Pending \<and> scheduled_at r = clk 0
         \<and> attempt r = attempt j \<and> claim_epoch r = claim_epoch j \<and> attempt r < max_attempts r
         \<and> max_attempts r \<le> greatest (max_attempts j) 32767 \<and> cancel_phase r = 0
         \<and> cancel_requested_at r = None \<and> finished_at r = None \<and> result r = None
         \<and> (schedule_to_close r = None \<or> sql_lt (Some (clk 1)) (schedule_to_close r))))"
proof -
  have i: "jid (retry_job_set clk j) = i" using find_job_jid[OF j] by (simp add: retry_job_set_def)
  have w: "retry_job_where j \<longleftrightarrow> status j \<in> TERMINAL_STATUSES \<and> attempt j < 32767"
    using assms(3) by (cases "status j") (auto simp: retry_job_where_def raised_ceiling_def least_def greatest_def)
  show ?thesis
  proof (cases "retry_job_where j")
    case True
    then have "ok" "jobs d' = jobs (put_job (retry_job_set clk j) d)"
      using e j by (auto simp: retry_job_def bindE_Inr_iff split: if_splits)
    moreover from this(2) have "find_job i d' = Some (retry_job_set clk j)"
      using find_job_put[of i "retry_job_set clk j" d] i j by (simp add: find_job_def)
    moreover have "schedule_to_close (retry_job_set clk j) = None
        \<or> sql_lt (Some (clk 1)) (schedule_to_close (retry_job_set clk j))"
      by (cases "schedule_to_close j") (auto simp: retry_job_set_def)
    ultimately show ?thesis using True w
      by (auto simp: retry_job_set_def raised_ceiling_def least_def greatest_def)
  next
    case False
    then show ?thesis using e j w by (simp add: retry_job_def)
  qed
qed

lemma retry_job_effect_witness:
  "\<exists>d'. retry_job sample_clock 4 (put_job (sample_job\<lparr>status := Failed, finished_at := Some 5\<rparr>) sample_db) = Inr (True, d')
     \<and> map_option status (find_job 4 d') = Some Pending"
proof -
  let ?j = "sample_job\<lparr>status := Failed, finished_at := Some 5\<rparr>"
  let ?d = "put_job ?j sample_db"
  have f: "find_job 4 ?d = Some ?j" by (simp add: find_job_put)
  have "\<not> singleton_conflict (retry_job_set sample_clock ?j) ?d"
    by (simp add: singleton_conflict_def is_singleton_def retry_job_set_def)
  then obtain d' where e: "retry_job sample_clock 4 ?d = Inr (True, d')"
    by (simp add: retry_job_def f retry_job_where_def raised_ceiling_def least_def greatest_def uuid_key_def)
  show ?thesis using retry_job_effect[OF f e] e by auto
qed

end
