(* ===== verification/Dispatch.thy ===== *)
theory Dispatch
  imports Terminal Sample
begin

text \<open>
  The claim at the end of the dispatch statement of
  \<open>backend/_dispatch_sql.py\<close>: the workflow fence, the rotation stamp and the
  UPDATE that hands rows to a worker.  The candidate selection that computes
  the list \<open>eligible\<close> is an argument here; the claim re-checks every row it is
  given, and the lemmas hold for whatever the selection returns.
\<close>

definition WF_LOOP_ESCALATION_STEP_KEY :: string where
  "WF_LOOP_ESCALATION_STEP_KEY = ''loop.escalation''"

definition wf_exec_capable :: "uuid \<Rightarrow> db \<Rightarrow> bool" where
  "wf_exec_capable w d = (case row_by w_id w (workers d) of
       None \<Rightarrow> False
     | Some r \<Rightarrow> (case w_workflow_execution r of Some b \<Rightarrow> b | None \<Rightarrow> False))"

definition flow_id_of :: "job \<Rightarrow> pg_error + uuid option" where
  "flow_id_of j = uuid_key ''flow_id'' (metadata j)"

definition terminal_flow :: "uuid option \<Rightarrow> db \<Rightarrow> bool" where
  "terminal_flow f d \<longleftrightarrow>
     (\<exists>k\<in>set (jobs d). f = Some (jid k) \<and> status k \<in> TERMINAL_STATUSES)"

definition wf_dispatch_fence :: "uuid \<Rightarrow> db \<Rightarrow> job \<Rightarrow> pg_error + bool" where
  "wf_dispatch_fence w d j = (case step_key j of
       None \<Rightarrow> Inr True
     | Some k \<Rightarrow>
         if k = ''__flow__'' \<or> \<not> wf_exec_capable w d then Inr False
         else if k = WF_LOOP_ESCALATION_STEP_KEY then Inr True
         else bindE (flow_id_of j) (\<lambda>f. Inr (\<not> terminal_flow f d)))"

text \<open>The WHERE clause, its conjuncts read from left to right.\<close>

definition claim_where :: "uuid \<Rightarrow> uuid list \<Rightarrow> db \<Rightarrow> job \<Rightarrow> pg_error + bool" where
  "claim_where w eligible d j =
     (if jid j \<in> set eligible \<and> status j = Pending \<and> deps_pending j = 0
      then wf_dispatch_fence w d j else Inr False)"

text \<open>\<open>clk k i\<close> is the k-th occurrence of the clock, evaluated for row \<open>i\<close>.\<close>

definition claim_set :: "(nat \<Rightarrow> uuid \<Rightarrow> timestamptz) \<Rightarrow> uuid \<Rightarrow> interval \<Rightarrow> job \<Rightarrow> job" where
  "claim_set clk w lock_lease j = j\<lparr>
     status := Running,
     started_at := Some (clk 0 (jid j)),
     finished_at := None,
     last_heartbeat_at := Some (clk 1 (jid j)),
     locked_by_worker := Some w,
     lock_expires_at := Some (clk 2 (jid j) + lock_lease),
     error_class := None,
     error_message := None,
     error_traceback := None,
     result := None,
     result_size_bytes := None,
     attempt := least (attempt j + 1) 32767,
     claim_epoch := claim_epoch j + 1\<rparr>"

text \<open>
  The rotation stamp touches the registry rows of the admitted actors, except
  those another transaction holds locked (\<open>skip\<close>).
\<close>

definition stamp_actors ::
    "timestamptz \<Rightarrow> (string \<Rightarrow> bool) \<Rightarrow> string list \<Rightarrow> (string \<Rightarrow> actor_config_row option)
     \<Rightarrow> string \<Rightarrow> actor_config_row option" where
  "stamp_actors stmt_ts skip actors cfg a =
     (if a \<in> set actors \<and> \<not> skip a
      then map_option (\<lambda>r. r\<lparr>ac_last_claimed_at := Some stmt_ts\<rparr>) (cfg a) else cfg a)"

definition dispatch_claim ::
    "timestamptz \<Rightarrow> (nat \<Rightarrow> uuid \<Rightarrow> timestamptz) \<Rightarrow> (string \<Rightarrow> bool) \<Rightarrow> uuid \<Rightarrow> interval
     \<Rightarrow> (uuid \<times> string) list \<Rightarrow> db \<Rightarrow> pg_error + (job list \<times> db)" where
  "dispatch_claim stmt_ts clk skip w lock_lease eligible d =
     (let P = claim_where w (map fst eligible) d;
          Q = (\<lambda>j. P j = Inr True);
          f = claim_set clk w lock_lease in
      if \<exists>j\<in>set (jobs d). P j = Inl InvalidTextRepresentation
      then Inl InvalidTextRepresentation
      else Inr (map f (filter Q (jobs d)),
        d\<lparr>jobs := upd_where Q f (jobs d),
          actor_config := stamp_actors stmt_ts skip (map snd eligible) (actor_config d)\<rparr>))"

text \<open>The claim a worker holds after dispatch: the snapshot of the returned row.\<close>

definition claim_of :: "job \<Rightarrow> uuid \<Rightarrow> claim" where
  "claim_of j w = \<lparr>c_job = jid j, c_worker = w, c_attempt = Some (attempt j),
                   c_epoch = Some (claim_epoch j)\<rparr>"

section \<open>Lemmas\<close>

lemma claim_set_simps [simp]:
  "jid (claim_set clk w l j) = jid j" "status (claim_set clk w l j) = Running"
  "claim_epoch (claim_set clk w l j) = claim_epoch j + 1"
  "locked_by_worker (claim_set clk w l j) = Some w"
  "cancel_phase (claim_set clk w l j) = cancel_phase j"
  by (simp_all add: claim_set_def)

lemma dispatch_claimD:
  assumes "dispatch_claim ts clk skip w l el d = Inr (rs, d')"
  shows "rs = map (claim_set clk w l) (filter (\<lambda>j. claim_where w (map fst el) d j = Inr True) (jobs d))"
    "jobs d' = upd_where (\<lambda>j. claim_where w (map fst el) d j = Inr True) (claim_set clk w l) (jobs d)"
    "job_attempts d' = job_attempts d" "job_events d' = job_events d" "event_seq d' = event_seq d"
    "workers d' = workers d"
  using assms by (auto simp: dispatch_claim_def Let_def split: if_splits)

lemma find_job_claim:
  assumes "dispatch_claim ts clk skip w l el d = Inr (rs, d')"
  shows "find_job i d' = map_option
    (\<lambda>j. if claim_where w (map fst el) d j = Inr True then claim_set clk w l j else j) (find_job i d)"
  by (simp add: find_job_def dispatch_claimD(2)[OF assms] row_by_upd_where)

lemma claim_where_pending:
  assumes "claim_where w is d j = Inr True"
  shows "status j = Pending" "deps_pending j = 0" "jid j \<in> set is"
  using assms by (auto simp: claim_where_def split: if_splits)

lemma claimed_row:
  assumes "dispatch_claim ts clk skip w l el d = Inr (rs, d')" "r \<in> set rs"
    "distinct (map jid (jobs d))"
  obtains j where "find_job (jid r) d = Some j" "claim_where w (map fst el) d j = Inr True"
    "r = claim_set clk w l j" "find_job (jid r) d' = Some r"
proof -
  obtain j where j: "j \<in> set (jobs d)" "claim_where w (map fst el) d j = Inr True"
      "r = claim_set clk w l j"
    using assms(2) by (auto simp: dispatch_claimD(1)[OF assms(1)])
  then have "find_job (jid r) d = Some j"
    using find_job_member[OF assms(3) j(1)] by simp
  then show thesis using that j find_job_claim[OF assms(1), of "jid r"] by simp
qed

section \<open>Properties\<close>

lemma claim_set_fence: "JOB_FENCE (claim_of (claim_set clk w l j) w) (claim_set clk w l j)"
  by (simp add: JOB_FENCE_def claim_of_def)

text \<open>
  C33: what a dispatch claims.  Every row the statement returns was pending with
  no open dependency and named by the selection; it is now running under the
  worker's own claim, whose fence it passes, with an epoch one higher, so no
  claim with an earlier epoch passes the fence any more.  A row of a terminal
  flow is never among them unless it is the loop's escalation step, and no row
  of a flow goes to a worker without workflow execution.  Every row that is not
  returned, and both ledgers, stay as they were.
\<close>

theorem dispatch_claim_effect:
  assumes d: "distinct (map jid (jobs d))"
    and c: "dispatch_claim ts clk skip w l el d = Inr (rs, d')"
  shows "(\<forall>r\<in>set rs. \<exists>j. find_job (jid r) d = Some j \<and> status j = Pending \<and> deps_pending j = 0
      \<and> jid r \<in> fst ` set el \<and> find_job (jid r) d' = Some r \<and> JOB_FENCE (claim_of r w) r
      \<and> claim_epoch r = claim_epoch j + 1 \<and> lock_expires_at r = Some (clk 2 (jid r) + l)
      \<and> (\<forall>c e. c_epoch c = Some e \<and> e \<le> claim_epoch j \<longrightarrow> \<not> JOB_FENCE c r)
      \<and> (step_key j \<noteq> None \<longrightarrow> wf_exec_capable w d \<and> step_key j \<noteq> Some ''__flow__''
           \<and> (step_key j = Some WF_LOOP_ESCALATION_STEP_KEY
              \<or> (\<exists>f. flow_id_of j = Inr f \<and> \<not> terminal_flow f d))))
    \<and> (\<forall>i. i \<notin> jid ` set rs \<longrightarrow> find_job i d' = find_job i d)
    \<and> job_attempts d' = job_attempts d \<and> job_events d' = job_events d"
proof (intro conjI ballI allI impI)
  fix r assume "r \<in> set rs"
  then obtain j where j: "find_job (jid r) d = Some j" "claim_where w (map fst el) d j = Inr True"
      "r = claim_set clk w l j" "find_job (jid r) d' = Some r"
    by (rule claimed_row[OF c _ d])
  have f: "wf_dispatch_fence w d j = Inr True"
    using j(2) by (auto simp: claim_where_def split: if_splits)
  have "step_key j \<noteq> None \<longrightarrow> wf_exec_capable w d \<and> step_key j \<noteq> Some ''__flow__''
           \<and> (step_key j = Some WF_LOOP_ESCALATION_STEP_KEY
              \<or> (\<exists>f. flow_id_of j = Inr f \<and> \<not> terminal_flow f d))"
    using f by (auto simp: wf_dispatch_fence_def bindE_Inr_iff split: option.splits if_splits)
  then show "\<exists>j. find_job (jid r) d = Some j \<and> status j = Pending \<and> deps_pending j = 0
      \<and> jid r \<in> fst ` set el \<and> find_job (jid r) d' = Some r \<and> JOB_FENCE (claim_of r w) r
      \<and> claim_epoch r = claim_epoch j + 1 \<and> lock_expires_at r = Some (clk 2 (jid r) + l)
      \<and> (\<forall>c e. c_epoch c = Some e \<and> e \<le> claim_epoch j \<longrightarrow> \<not> JOB_FENCE c r)
      \<and> (step_key j \<noteq> None \<longrightarrow> wf_exec_capable w d \<and> step_key j \<noteq> Some ''__flow__''
           \<and> (step_key j = Some WF_LOOP_ESCALATION_STEP_KEY
              \<or> (\<exists>f. flow_id_of j = Inr f \<and> \<not> terminal_flow f d)))"
    using j claim_where_pending[OF j(2)] claim_set_fence[of clk w l j]
    by (intro exI[of _ j]) (auto simp: JOB_FENCE_def claim_set_def sql_rel_iff)
next
  fix i assume i: "i \<notin> jid ` set rs"
  have "claim_where w (map fst el) d j \<noteq> Inr True" if "find_job i d = Some j" for j
  proof
    assume "claim_where w (map fst el) d j = Inr True"
    then have "claim_set clk w l j \<in> set rs"
      using find_job_in[OF that] by (simp add: dispatch_claimD(1)[OF c])
    then show False using i find_job_jid[OF that] by (metis claim_set_simps(1) image_eqI)
  qed
  then show "find_job i d' = find_job i d"
    by (cases "find_job i d") (simp_all add: find_job_claim[OF c])
qed (simp_all add: dispatch_claimD[OF c])

definition pending_db :: db where
  "pending_db = sample_db\<lparr>jobs := [sample_job\<lparr>status := Pending, locked_by_worker := None\<rparr>]\<rparr>"

lemma dispatch_claim_effect_witness:
  "\<exists>rs d'. dispatch_claim 0 (\<lambda>_ _. 5) (\<lambda>_. False) 8 30 [(4, ''a'')] pending_db = Inr (rs, d')
     \<and> (\<exists>r\<in>set rs. find_job 4 d' = Some r \<and> JOB_FENCE (claim_of r 8) r \<and> claim_epoch r = 2)"
proof -
  define j where "j = sample_job\<lparr>status := Pending, locked_by_worker := None\<rparr>"
  let ?r = "claim_set (\<lambda>_ _. 5) 8 30 j"
  have w: "claim_where 8 [4] pending_db j = Inr True"
    by (simp add: claim_where_def wf_dispatch_fence_def j_def)
  have "\<exists>d'. dispatch_claim 0 (\<lambda>_ _. 5) (\<lambda>_. False) 8 30 [(4, ''a'')] pending_db = Inr ([?r], d')"
    using w by (simp add: dispatch_claim_def Let_def pending_db_def j_def[symmetric])
  then obtain d' where c: "dispatch_claim 0 (\<lambda>_ _. 5) (\<lambda>_. False) 8 30 [(4, ''a'')] pending_db = Inr ([?r], d')"
    by blast
  have "distinct (map jid (jobs pending_db))" by (simp add: pending_db_def)
  from conjunct1[OF dispatch_claim_effect[OF this c]]
  have "find_job 4 d' = Some ?r" "JOB_FENCE (claim_of ?r 8) ?r"
    by (auto simp: j_def)
  then show ?thesis using c by (intro exI[of _ "[?r]"] exI[of _ d']) (simp add: j_def)
qed

end
