(* ===== verification/Float64.thy ===== *)
theory Float64
  imports Prelude "HOL-Library.Log_Nat"
begin

text \<open>
  Arithmetic of binary64 floating point, as far as the delay computations use
  it.  A float is the rational number it denotes; an operation is the exact
  operation followed by \<open>rnd\<close>.  The locale \<open>float_arith\<close> names what the delay
  computations rely on; \<open>rnd64\<close> is round-to-nearest, ties-to-even, with 53
  bits and gradual underflow.  Magnitudes from 2^1024 on (infinities) do not
  occur in this code and are not represented.
\<close>

section \<open>Rounding to integers\<close>

definition round_half_even :: "rat \<Rightarrow> int" where
  "round_half_even x =
     (let f = \<lfloor>x\<rfloor>; r = x - of_int f in
      if r < 1 / 2 then f else if r > 1 / 2 then f + 1 else if even f then f else f + 1)"

lemma round_half_even_bounds: "\<lfloor>x\<rfloor> \<le> round_half_even x" "round_half_even x \<le> \<lfloor>x\<rfloor> + 1"
  by (auto simp: round_half_even_def Let_def)

lemma round_half_even_mono:
  assumes "x \<le> y" shows "round_half_even x \<le> round_half_even y"
proof (cases "\<lfloor>x\<rfloor> = \<lfloor>y\<rfloor>")
  case True
  then show ?thesis using assms by (auto simp: round_half_even_def Let_def)
next
  case False
  then have "\<lfloor>x\<rfloor> + 1 \<le> \<lfloor>y\<rfloor>" using floor_mono[OF assms] by simp
  then show ?thesis using round_half_even_bounds[of x] round_half_even_bounds[of y] by linarith
qed

lemma round_half_even_of_int [simp]: "round_half_even (of_int n) = n"
  by (simp add: round_half_even_def)

lemma round_half_even_ge: "of_int n \<le> x \<Longrightarrow> n \<le> round_half_even x"
  using round_half_even_mono[of "of_int n" x] by simp

lemma round_half_even_le: "x \<le> of_int n \<Longrightarrow> round_half_even x \<le> n"
  using round_half_even_mono[of x "of_int n"] by simp

section \<open>The binary exponent\<close>

definition pow2 :: "int \<Rightarrow> rat" where
  "pow2 e = (if 0 \<le> e then 2 ^ nat e else 1 / 2 ^ nat (- e))"

lemma pow2_powi: "pow2 e = 2 powi e"
  by (simp add: pow2_def power_int_def power_one_over)

lemma pow2_pos [simp]: "0 < pow2 e"
  by (simp add: pow2_def)

lemma pow2_add: "pow2 (a + b) = pow2 a * pow2 b"
  by (simp add: pow2_powi power_int_add)

lemma pow2_diff: "pow2 (a - b) = pow2 a / pow2 b"
  by (simp add: pow2_powi power_int_diff)

lemma pow2_mono: "a \<le> b \<Longrightarrow> pow2 a \<le> pow2 b"
  by (simp add: pow2_powi power_int_increasing)

lemma pow2_less: "pow2 a < pow2 b \<Longrightarrow> a < b"
  using pow2_mono[of b a] by linarith

lemma pow2_nat: "0 \<le> e \<Longrightarrow> pow2 e = of_int (2 ^ nat e)"
  by (simp add: pow2_def)

lemma pow2_52: "pow2 52 = 2 ^ 52" and pow2_53: "pow2 53 = 2 ^ 53" and pow2_1: "pow2 1 = 2"
  by (simp_all only: pow2_def nat_numeral nat_one_as_int) simp_all

definition ilog2 :: "rat \<Rightarrow> int" where
  "ilog2 x = (let (p, q) = quotient_of x; k = bitlen p - bitlen q
              in if pow2 k \<le> x then k else k - 1)"

lemma bitlen_pow2_bounds:
  assumes "0 < p" shows "pow2 (bitlen p - 1) \<le> of_int p" "of_int p < pow2 (bitlen p)"
proof -
  have b: "2 ^ nat (bitlen p - 1) \<le> p \<and> p < 2 ^ nat (bitlen p)"
    using bitlen_bounds[OF assms] .
  have n: "0 \<le> bitlen p - 1" using assms bitlen_nonneg[of p] bitlen_eq_zero_iff[of p] by linarith
  have "(of_int (2 ^ nat (bitlen p - 1)) :: rat) \<le> of_int p"
    using b by (simp only: of_int_le_iff)
  then show "pow2 (bitlen p - 1) \<le> of_int p" using n by (simp add: pow2_nat)
  have "(of_int p :: rat) < of_int (2 ^ nat (bitlen p))"
    using b by (simp only: of_int_less_iff)
  then show "of_int p < pow2 (bitlen p)" using n by (simp add: pow2_nat)
qed

lemma ilog2_bounds:
  assumes "0 < x" shows "pow2 (ilog2 x) \<le> x" "x < pow2 (ilog2 x + 1)"
proof -
  obtain p q where pq: "quotient_of x = (p, q)" by (cases "quotient_of x")
  have q: "0 < q" using quotient_of_denom_pos[OF pq] .
  have x: "x = of_int p / of_int q" using quotient_of_div[OF pq] .
  have p: "0 < p" using assms q x by (simp add: zero_less_divide_iff)
  let ?k = "bitlen p - bitlen q"
  have lo: "pow2 (?k - 1) < x"
  proof -
    have "pow2 (?k - 1) = pow2 (bitlen p - 1) / pow2 (bitlen q)"
      by (simp add: pow2_diff[symmetric] algebra_simps)
    also have "\<dots> \<le> of_int p / pow2 (bitlen q)"
      using bitlen_pow2_bounds(1)[OF p] by (simp add: divide_right_mono less_imp_le)
    also have "\<dots> < of_int p / of_int q"
      using bitlen_pow2_bounds(2)[OF q] p q by (simp add: divide_strict_left_mono)
    finally show ?thesis using x by simp
  qed
  have hi: "x < pow2 (?k + 1)"
  proof -
    have "of_int p / of_int q \<le> of_int p / pow2 (bitlen q - 1)"
      using bitlen_pow2_bounds(1)[OF q] p q by (simp add: divide_left_mono)
    also have "\<dots> < pow2 (bitlen p) / pow2 (bitlen q - 1)"
      using bitlen_pow2_bounds(2)[OF p] by (simp add: divide_strict_right_mono)
    also have "\<dots> = pow2 (?k + 1)"
      by (simp add: pow2_diff[symmetric] algebra_simps)
    finally show ?thesis using x by simp
  qed
  have "ilog2 x = (if pow2 ?k \<le> x then ?k else ?k - 1)"
    by (simp add: ilog2_def pq)
  then show "pow2 (ilog2 x) \<le> x" "x < pow2 (ilog2 x + 1)"
    using lo hi by (auto split: if_splits)
qed

lemma ilog2_unique:
  assumes "pow2 e \<le> x" "x < pow2 (e + 1)" shows "ilog2 x = e"
proof -
  have x: "0 < x" using assms(1) pow2_pos[of e] by linarith
  have "pow2 (ilog2 x) < pow2 (e + 1)" "pow2 e < pow2 (ilog2 x + 1)"
    using ilog2_bounds[OF x] assms by linarith+
  from pow2_less[OF this(1)] pow2_less[OF this(2)] show ?thesis by linarith
qed

lemma ilog2_mono: "0 < x \<Longrightarrow> x \<le> y \<Longrightarrow> ilog2 x \<le> ilog2 y"
proof -
  assume "0 < x" "x \<le> y"
  then have "pow2 (ilog2 x) < pow2 (ilog2 y + 1)"
    using ilog2_bounds(1)[of x] ilog2_bounds(2)[of y] by linarith
  from pow2_less[OF this] show ?thesis by linarith
qed

section \<open>Rounding to 53 bits\<close>

definition ulp_exp :: "rat \<Rightarrow> int" where
  "ulp_exp x = max (ilog2 x - 52) (- 1074)"

definition rnd_pos :: "rat \<Rightarrow> rat" where
  "rnd_pos x = of_int (round_half_even (x / pow2 (ulp_exp x))) * pow2 (ulp_exp x)"

definition rnd64 :: "rat \<Rightarrow> rat" where
  "rnd64 x = (if x = 0 then 0 else if x < 0 then - rnd_pos (- x) else rnd_pos x)"


lemma ulp_exp_bounds:
  assumes "0 < x"
  shows "x / pow2 (ulp_exp x) \<le> 2 ^ 53"
    and "- 1074 < ulp_exp x \<Longrightarrow> 2 ^ 52 \<le> x / pow2 (ulp_exp x)"
proof -
  have "x < pow2 (ilog2 x + 1)" by (rule ilog2_bounds(2)[OF assms])
  also have "\<dots> \<le> pow2 (ulp_exp x + 53)" by (rule pow2_mono) (simp add: ulp_exp_def)
  also have "\<dots> = 2 ^ 53 * pow2 (ulp_exp x)" by (simp only: pow2_add pow2_53 mult.commute)
  finally show "x / pow2 (ulp_exp x) \<le> 2 ^ 53" by (simp add: pos_divide_le_eq)
  assume "- 1074 < ulp_exp x"
  then have e: "ilog2 x = ulp_exp x + 52" by (auto simp: ulp_exp_def max_def split: if_splits)
  have "2 ^ 52 * pow2 (ulp_exp x) = pow2 (ilog2 x)" by (simp only: e pow2_add pow2_52 mult.commute)
  also have "\<dots> \<le> x" by (rule ilog2_bounds(1)[OF assms])
  finally show "2 ^ 52 \<le> x / pow2 (ulp_exp x)" by (simp add: pos_le_divide_eq)
qed

lemma ulp_exp_mono: "0 < x \<Longrightarrow> x \<le> y \<Longrightarrow> ulp_exp x \<le> ulp_exp y"
  using ilog2_mono[of x y] by (auto simp: ulp_exp_def)

lemma rnd_pos_mono:
  assumes "0 < x" "x \<le> y" shows "rnd_pos x \<le> rnd_pos y"
proof (cases "ulp_exp x = ulp_exp y")
  case True
  have "x / pow2 (ulp_exp y) \<le> y / pow2 (ulp_exp y)"
    using assms by (simp add: divide_right_mono less_imp_le)
  then have "round_half_even (x / pow2 (ulp_exp y)) \<le> round_half_even (y / pow2 (ulp_exp y))"
    by (rule round_half_even_mono)
  then show ?thesis using True by (simp add: rnd_pos_def mult_right_mono less_imp_le)
next
  case False
  then have lt: "ulp_exp x + 1 \<le> ulp_exp y" using ulp_exp_mono[OF assms] by simp
  have y0: "0 < y" using assms by linarith
  have "round_half_even (x / pow2 (ulp_exp x)) \<le> 2 ^ 53"
    using ulp_exp_bounds(1)[OF assms(1)] by (intro round_half_even_le) simp
  then have "(of_int (round_half_even (x / pow2 (ulp_exp x))) :: rat) \<le> of_int (2 ^ 53)"
    by (simp only: of_int_le_iff)
  then have "rnd_pos x \<le> of_int (2 ^ 53) * pow2 (ulp_exp x)"
    unfolding rnd_pos_def by (rule mult_right_mono) (simp add: less_imp_le)
  also have "\<dots> = of_int (2 ^ 52) * pow2 (ulp_exp x + 1)"
    by (simp only: pow2_add pow2_1) simp
  also have "\<dots> \<le> of_int (2 ^ 52) * pow2 (ulp_exp y)"
    using pow2_mono[OF lt] by simp
  also have "\<dots> \<le> rnd_pos y"
  proof -
    have "- 1074 < ulp_exp y" using lt by (simp add: ulp_exp_def)
    then have "2 ^ 52 \<le> round_half_even (y / pow2 (ulp_exp y))"
      using ulp_exp_bounds(2)[OF y0] by (intro round_half_even_ge) simp
    then have "(of_int (2 ^ 52) :: rat) \<le> of_int (round_half_even (y / pow2 (ulp_exp y)))"
      by (simp only: of_int_le_iff)
    then show ?thesis unfolding rnd_pos_def by (rule mult_right_mono) (simp add: less_imp_le)
  qed
  finally show ?thesis .
qed

lemma rnd_pos_nonneg: "0 < x \<Longrightarrow> 0 \<le> rnd_pos x"
proof -
  assume "0 < x"
  then have "0 \<le> round_half_even (x / pow2 (ulp_exp x))"
    by (intro round_half_even_ge) (simp add: less_imp_le)
  then show ?thesis by (simp add: rnd_pos_def less_imp_le)
qed

lemma rnd64_mono: "x \<le> y \<Longrightarrow> rnd64 x \<le> rnd64 y"
proof -
  assume xy: "x \<le> y"
  consider "0 < x" | "x \<le> 0" "0 < y" | "x < 0" "y < 0" | "x \<le> 0" "y = 0" using xy by linarith
  then show ?thesis
  proof cases
    case 1
    then show ?thesis using xy rnd_pos_mono[of x y] by (simp add: rnd64_def)
  next
    case 2
    then have "0 \<le> rnd_pos y" "x < 0 \<Longrightarrow> 0 \<le> rnd_pos (- x)"
      by (simp_all add: rnd_pos_nonneg)
    then show ?thesis using 2 by (cases "x < 0") (simp_all add: rnd64_def)
  next
    case 3
    then show ?thesis using xy rnd_pos_mono[of "- y" "- x"] by (simp add: rnd64_def)
  next
    case 4
    then show ?thesis using rnd_pos_nonneg[of "- x"] by (simp add: rnd64_def)
  qed
qed

text \<open>Numbers with a 53-bit significand are fixed points.\<close>

lemma rnd_pos_exact:
  assumes m: "0 < m" "m < 2 ^ 53" and e: "- 1074 \<le> e"
  shows "rnd_pos (of_int m * pow2 e) = of_int m * pow2 e"
proof -
  let ?x = "of_int m * pow2 e :: rat"
  have x: "0 < ?x" using m by simp
  have "ilog2 ?x = ilog2 (of_int m) + e"
  proof (rule ilog2_unique)
    have mm: "(0::rat) < of_int m" using m by simp
    show "pow2 (ilog2 (of_int m) + e) \<le> ?x"
      using ilog2_bounds(1)[OF mm] by (simp add: pow2_add mult_right_mono less_imp_le)
    have "of_int m * pow2 e < pow2 (ilog2 (of_int m) + 1) * pow2 e"
      using ilog2_bounds(2)[OF mm] by (simp add: mult_strict_right_mono)
    then show "?x < pow2 (ilog2 (of_int m) + e + 1)" by (simp add: pow2_add ac_simps)
  qed
  moreover have "ilog2 (of_int m) \<le> 52"
  proof -
    have "(of_int m :: rat) < of_int (2 ^ 53)" using m(2) by (simp only: of_int_less_iff)
    then have "(of_int m :: rat) < pow2 53" by (simp only: pow2_53 of_int_power of_int_numeral)
    moreover have "pow2 (ilog2 (of_int m)) \<le> of_int m" using m(1) by (intro ilog2_bounds) simp
    ultimately have "pow2 (ilog2 (of_int m)) < pow2 53" by linarith
    from pow2_less[OF this] show ?thesis by linarith
  qed
  ultimately have le: "ulp_exp ?x \<le> e" using e by (simp add: ulp_exp_def)
  have "?x / pow2 (ulp_exp ?x) = of_int m * pow2 (e - ulp_exp ?x)"
    by (simp add: pow2_diff)
  also have "\<dots> = of_int (m * 2 ^ nat (e - ulp_exp ?x))"
    using le by (simp add: pow2_nat)
  finally have "?x / pow2 (ulp_exp ?x) = of_int (m * 2 ^ nat (e - ulp_exp ?x))" .
  then have "rnd_pos ?x = ?x / pow2 (ulp_exp ?x) * pow2 (ulp_exp ?x)"
    unfolding rnd_pos_def by (metis round_half_even_of_int)
  then show ?thesis using pow2_pos[of "ulp_exp ?x"] by simp
qed

lemma rnd64_int:
  assumes "\<bar>n\<bar> < 2 ^ 53" shows "rnd64 (of_int n) = of_int n"
proof -
  have p0: "pow2 0 = 1" by (simp add: pow2_def)
  consider "n = 0" | "0 < n" | "n < 0" by linarith
  then show ?thesis
  proof cases
    case 2
    then show ?thesis using rnd_pos_exact[of n 0] assms by (simp add: rnd64_def p0)
  next
    case 3
    then show ?thesis using rnd_pos_exact[of "- n" 0] assms by (simp add: rnd64_def p0)
  qed (simp add: rnd64_def)
qed


lemma rnd_pos_form:
  assumes "0 < x"
  obtains m e where "rnd_pos x = of_int m * pow2 e" "0 \<le> m" "m < 2 ^ 53" "- 1074 \<le> e"
proof -
  let ?m = "round_half_even (x / pow2 (ulp_exp x))"
  have m0: "0 \<le> ?m" using assms by (intro round_half_even_ge) (simp add: less_imp_le)
  have m1: "?m \<le> 2 ^ 53" using ulp_exp_bounds(1)[OF assms] by (intro round_half_even_le) simp
  have e: "- 1074 \<le> ulp_exp x" by (simp add: ulp_exp_def)
  show thesis
  proof (cases "?m = 2 ^ 53")
    case True
    have "rnd_pos x = of_int (2 ^ 53) * pow2 (ulp_exp x)"
      unfolding rnd_pos_def by (simp only: True)
    also have "\<dots> = of_int (2 ^ 52) * pow2 (ulp_exp x + 1)"
      by (simp only: pow2_add pow2_1) simp
    finally show thesis using e by (intro that[of "2 ^ 52" "ulp_exp x + 1"]) simp_all
  next
    case False
    then show thesis using m0 m1 e by (intro that[of ?m "ulp_exp x"]) (simp_all add: rnd_pos_def)
  qed
qed

lemma rnd_pos_idem:
  assumes "0 < x" shows "rnd64 (rnd_pos x) = rnd_pos x"
  using assms
proof (rule rnd_pos_form)
  fix m e assume h: "rnd_pos x = of_int m * pow2 e" "0 \<le> m" "m < 2 ^ 53" "- 1074 \<le> e"
  show ?thesis
  proof (cases "m = 0")
    case True
    then show ?thesis using h by (simp add: rnd64_def)
  next
    case False
    then show ?thesis
      using h rnd_pos_exact[of m e] rnd_pos_nonneg[OF assms] by (simp add: rnd64_def)
  qed
qed

lemma rnd64_minus: "rnd64 (- x) = - rnd64 x"
  by (simp add: rnd64_def)

lemma rnd64_idem: "rnd64 (rnd64 x) = rnd64 x"
  using rnd_pos_idem[of x] rnd_pos_idem[of "- x"]
  by (auto simp: rnd64_def[of x] rnd64_minus) (simp add: rnd64_def)

section \<open>What the delay computations use\<close>

locale float_arith =
  fixes rnd :: "rat \<Rightarrow> rat"
  assumes rnd_mono: "x \<le> y \<Longrightarrow> rnd x \<le> rnd y"
    and rnd_idem: "rnd (rnd x) = rnd x"
    and rnd_int: "\<bar>n\<bar> < 2 ^ 53 \<Longrightarrow> rnd (of_int n) = of_int n"
begin

lemma rnd_0: "rnd 0 = 0"
  using rnd_int[of 0] by simp

lemma rnd_1: "rnd 1 = 1"
  using rnd_int[of 1] by simp

lemma rnd_nonneg: "0 \<le> x \<Longrightarrow> 0 \<le> rnd x"
  using rnd_mono[of 0 x] by (simp add: rnd_0)

lemma rnd_le_float: "x \<le> y \<Longrightarrow> rnd y = y \<Longrightarrow> rnd x \<le> y"
  using rnd_mono[of x y] by simp

lemma rnd_ge_float: "y \<le> x \<Longrightarrow> rnd y = y \<Longrightarrow> y \<le> rnd x"
  using rnd_mono[of y x] by simp

lemma rnd_min: "rnd x = x \<Longrightarrow> rnd y = y \<Longrightarrow> rnd (min x y) = min x y"
  by (simp add: min_def)

lemma rnd_max: "rnd x = x \<Longrightarrow> rnd y = y \<Longrightarrow> rnd (max x y) = max x y"
  by (simp add: max_def)

end

interpretation f64: float_arith rnd64
  by unfold_locales (fact rnd64_mono rnd64_idem rnd64_int)+

section \<open>The error of one rounding\<close>

lemma round_half_even_near: "\<bar>of_int (round_half_even x) - x\<bar> \<le> 1 / 2"
proof -
  have "of_int \<lfloor>x\<rfloor> \<le> x" "x < of_int \<lfloor>x\<rfloor> + 1" by linarith+
  then show ?thesis
    unfolding round_half_even_def Let_def abs_le_iff
    by (auto split: if_split) (linarith+)?
qed

lemma ulp_le:
  assumes "0 < x" shows "pow2 (ulp_exp x) / 2 \<le> x / 2 ^ 53 + pow2 (- 1075)"
proof -
  have "pow2 (ulp_exp x) \<le> pow2 (ilog2 x - 52) + pow2 (- 1074)"
    using less_imp_le[OF pow2_pos[of "- 1074"]] less_imp_le[OF pow2_pos[of "ilog2 x - 52"]]
    by (simp only: ulp_exp_def max_def split: if_split) linarith
  also have "pow2 (ilog2 x - 52) = pow2 (ilog2 x) / 2 ^ 52"
    by (simp only: pow2_diff pow2_52)
  also have "\<dots> \<le> x / 2 ^ 52"
    using ilog2_bounds(1)[OF assms] by (intro divide_right_mono) simp_all
  also have "pow2 (- 1074) = 2 * pow2 (- 1075)"
    using pow2_add[of "- 1075" 1] by (simp add: pow2_1)
  finally show ?thesis by simp
qed

lemma rnd64_near:
  assumes "0 \<le> x" shows "\<bar>rnd64 x - x\<bar> \<le> x / 2 ^ 53 + pow2 (- 1075)"
proof (cases "x = 0")
  case True
  then show ?thesis using less_imp_le[OF pow2_pos[of "- 1075"]] by (simp add: rnd64_def)
next
  case False
  then have x: "0 < x" using assms by simp
  let ?p = "pow2 (ulp_exp x)"
  have p: "0 < ?p" by simp
  have "rnd64 x - x = (of_int (round_half_even (x / ?p)) - x / ?p) * ?p"
    using x less_imp_neq[OF p] by (simp add: rnd64_def rnd_pos_def left_diff_distrib)
  then have "\<bar>rnd64 x - x\<bar> = \<bar>of_int (round_half_even (x / ?p)) - x / ?p\<bar> * ?p"
    by (simp add: abs_mult abs_of_pos[OF p])
  also have "\<dots> \<le> 1 / 2 * ?p"
    using less_imp_le[OF p] by (intro mult_right_mono round_half_even_near)
  also have "\<dots> \<le> x / 2 ^ 53 + pow2 (- 1075)"
    using ulp_le[OF x] by simp
  finally show ?thesis .
qed

text \<open>
  An arithmetic whose rounding errs by at most \<open>u\<close> of the value and \<open>eta\<close> more.
\<close>

locale float_err = float_arith +
  fixes u eta :: rat
  assumes u_range: "0 \<le> u" "u \<le> 1"
    and eta_nonneg: "0 \<le> eta"
    and rnd_near: "0 \<le> x \<Longrightarrow> \<bar>rnd x - x\<bar> \<le> u * x + eta"
begin

lemma rnd_up: "0 \<le> x \<Longrightarrow> rnd x \<le> x + u * x + eta"
  using rnd_near[of x] by simp

lemma rnd_down: "0 \<le> x \<Longrightarrow> x - u * x - eta \<le> rnd x"
  using rnd_near[of x] by simp

end

interpretation f64e: float_err rnd64 "1 / 2 ^ 53" "pow2 (- 1075)"
  using rnd64_near by unfold_locales (simp_all add: less_imp_le)

end
