(* ===== verification/Backoff.thy ===== *)
theory Backoff
  imports Jobs Float64 Sample
begin

text \<open>
  Retry delays: the policy and its validation, the backoff curve, the jitter
  band, the delay of a failure retry (\<open>compute_backoff\<close>) and of a reclaim, the
  latter in its two implementations, Python (\<open>retry.py\<close>) and SQL
  (\<open>backend/_sweeps.py\<close>).  Every float operation goes through the rounding
  \<open>rnd\<close>; the code runs with \<open>rnd64\<close>.  The hash of the reclaim jitter is the
  parameter \<open>md5\<close>, from text to its hexadecimal digest.
\<close>

section \<open>Policy\<close>

record retry_policy =
  rp_kind :: retry_kind
  rp_max_attempts :: int
  rp_time_budget :: "interval option"
  rp_backoff :: backoff
  rp_base :: interval
  rp_cap :: interval
  rp_jitter :: rat

definition MAX_ENQUEUABLE_MAX_ATTEMPTS :: int where
  "MAX_ENQUEUABLE_MAX_ATTEMPTS = MAX_ATTEMPTS_SMALLINT_CEILING - 1"

definition check_max_attempts_domain :: "int \<Rightarrow> py_error + unit" where
  "check_max_attempts_domain v =
     (if v < 1 then Inl PyValueError
      else if v > MAX_ENQUEUABLE_MAX_ATTEMPTS then Inl PyValueError
      else Inr ())"

definition RetryPolicy :: "retry_policy \<Rightarrow> py_error + retry_policy" where
  "RetryPolicy p =
     bindE (check_max_attempts_domain (rp_max_attempts p)) (\<lambda>_.
       if rp_base p \<le> 0 then Inl PyValueError
       else if \<not> (0 \<le> rp_jitter p \<and> rp_jitter p \<le> 1) then Inl PyValueError
       else if rp_cap p < rp_base p then Inl PyValueError
       else Inr p)"

definition valid_policy :: "retry_policy \<Rightarrow> bool" where
  "valid_policy p \<longleftrightarrow> RetryPolicy p = Inr p"

definition DEFAULT_MAX_RETRY_BACKOFF :: interval where
  "DEFAULT_MAX_RETRY_BACKOFF = seconds (24 * 3600)"

section \<open>Seconds and intervals\<close>

definition total_seconds :: "(rat \<Rightarrow> rat) \<Rightarrow> interval \<Rightarrow> rat" where
  "total_seconds rnd td = rnd (of_int td / of_int usec_per_sec)"

text \<open>
  \<open>timedelta(seconds=s)\<close>: the whole seconds are kept exactly, the fraction is
  scaled in float arithmetic and rounded half to even.
\<close>

definition timedelta_seconds :: "(rat \<Rightarrow> rat) \<Rightarrow> rat \<Rightarrow> interval" where
  "timedelta_seconds rnd s =
     (let whole = (if s \<ge> 0 then \<lfloor>s\<rfloor> else \<lceil>s\<rceil>) in
      whole * usec_per_sec + round_half_even (rnd (of_int usec_per_sec * (s - of_int whole))))"

text \<open>\<open>s * interval '1 second'\<close> in PostgreSQL: one float product, rounded half to even.\<close>

definition pg_seconds :: "(rat \<Rightarrow> rat) \<Rightarrow> rat \<Rightarrow> interval" where
  "pg_seconds rnd s = round_half_even (rnd (of_int usec_per_sec * s))"

section \<open>The curve\<close>

definition MAX_BACKOFF_EXPONENT :: int where
  "MAX_BACKOFF_EXPONENT = 67"

definition raw_backoff_seconds ::
    "(rat \<Rightarrow> rat) \<Rightarrow> rat \<Rightarrow> rat \<Rightarrow> backoff \<Rightarrow> int \<Rightarrow> rat" where
  "raw_backoff_seconds rnd base_s cap_s bk att = (case bk of
       Exponential \<Rightarrow>
         min cap_s (rnd (base_s * 2 ^ nat (min (max (att - 1) 0) MAX_BACKOFF_EXPONENT)))
     | Linear \<Rightarrow> min cap_s (rnd (base_s * of_int att))
     | Fixed \<Rightarrow> base_s)"

definition jittered_seconds :: "(rat \<Rightarrow> rat) \<Rightarrow> rat \<Rightarrow> rat \<Rightarrow> rat \<Rightarrow> rat" where
  "jittered_seconds rnd raw_s jitter u =
     (let lo = rnd (1 - jitter); hi = rnd (1 + jitter);
          uniform = rnd (lo + rnd (rnd (hi - lo) * u))
      in max 0 (rnd (raw_s * uniform)))"

definition capped_jitter_band :: "(rat \<Rightarrow> rat) \<Rightarrow> rat \<Rightarrow> rat \<Rightarrow> rat \<Rightarrow> rat \<times> rat" where
  "capped_jitter_band rnd raw_s cap_s jitter =
     (let capped_raw = min cap_s raw_s;
          lower = rnd (capped_raw * rnd (1 - jitter));
          upper = min (rnd (capped_raw * rnd (1 + jitter))) cap_s
      in (lower, upper))"

definition draw_in_band :: "(rat \<Rightarrow> rat) \<Rightarrow> rat \<Rightarrow> rat \<Rightarrow> rat \<Rightarrow> rat \<Rightarrow> rat" where
  "draw_in_band rnd lower upper fraction cap_s =
     min cap_s (rnd (lower + rnd (rnd (upper - lower) * fraction)))"

definition apply_jitter :: "(rat \<Rightarrow> rat) \<Rightarrow> interval \<Rightarrow> rat \<Rightarrow> rat \<Rightarrow> py_error + interval" where
  "apply_jitter rnd delay jitter u =
     (if \<not> (0 \<le> jitter \<and> jitter \<le> 1) then Inl PyValueError
      else Inr (timedelta_seconds rnd (jittered_seconds rnd (total_seconds rnd delay) jitter u)))"

definition effective_cap :: "(rat \<Rightarrow> rat) \<Rightarrow> retry_policy \<Rightarrow> interval \<Rightarrow> rat" where
  "effective_cap rnd p max_backoff =
     min (total_seconds rnd (rp_cap p)) (total_seconds rnd max_backoff)"

definition compute_backoff_seconds ::
    "(rat \<Rightarrow> rat) \<Rightarrow> retry_policy \<Rightarrow> int \<Rightarrow> rat \<Rightarrow> interval \<Rightarrow> rat" where
  "compute_backoff_seconds rnd p att u max_backoff =
     (let base_s = total_seconds rnd (rp_base p);
          cap_s = effective_cap rnd p max_backoff;
          raw = raw_backoff_seconds rnd base_s cap_s (rp_backoff p) att;
          (lower, upper) = capped_jitter_band rnd raw cap_s (rp_jitter p)
      in draw_in_band rnd lower upper u cap_s)"

definition compute_backoff ::
    "(rat \<Rightarrow> rat) \<Rightarrow> retry_policy \<Rightarrow> int \<Rightarrow> rat \<Rightarrow> interval \<Rightarrow> py_error + interval" where
  "compute_backoff rnd p att u max_backoff =
     (if att < 1 then Inl PyValueError
      else Inr (timedelta_seconds rnd (compute_backoff_seconds rnd p att u max_backoff)))"

section \<open>The reclaim delay\<close>

definition hex_val :: "char \<Rightarrow> nat" where
  "hex_val c = (let n = of_char c :: nat in
     if 48 \<le> n \<and> n \<le> 57 then n - 48 else if 97 \<le> n \<and> n \<le> 102 then n - 87 else 0)"

definition hex_prefix :: "string \<Rightarrow> nat" where
  "hex_prefix digest = foldl (\<lambda>acc c. 16 * acc + hex_val c) 0 (take 8 digest)"

fun decimal_nat :: "nat \<Rightarrow> string" where
  "decimal_nat n = (if n < 10 then [char_of (48 + n)]
                    else decimal_nat (n div 10) @ [char_of (48 + n mod 10)])"

definition decimal_int :: "int \<Rightarrow> string" where
  "decimal_int i = (if i < 0 then ''-'' @ decimal_nat (nat (- i)) else decimal_nat (nat i))"

definition reclaim_jitter_fraction ::
    "(rat \<Rightarrow> rat) \<Rightarrow> (string \<Rightarrow> string) \<Rightarrow> uuid \<Rightarrow> int \<Rightarrow> rat" where
  "reclaim_jitter_fraction rnd md5 i att =
     rnd (of_nat (hex_prefix (md5 (uuid_text i @ '':'' @ decimal_int att))) / 4294967296)"

definition compute_reclaim_backoff_seconds ::
    "(rat \<Rightarrow> rat) \<Rightarrow> (string \<Rightarrow> string) \<Rightarrow> retry_policy \<Rightarrow> int \<Rightarrow> uuid \<Rightarrow> interval \<Rightarrow> rat" where
  "compute_reclaim_backoff_seconds rnd md5 p att i max_backoff =
     (let fraction = reclaim_jitter_fraction rnd md5 i att;
          base_s = total_seconds rnd (rp_base p);
          cap_s = effective_cap rnd p max_backoff;
          raw = raw_backoff_seconds rnd base_s cap_s (rp_backoff p) att;
          (lower, upper) = capped_jitter_band rnd raw cap_s (rp_jitter p)
      in max (draw_in_band rnd lower upper fraction cap_s)
             (total_seconds rnd MIN_DEFERRAL_INTERVAL))"

definition compute_reclaim_backoff ::
    "(rat \<Rightarrow> rat) \<Rightarrow> (string \<Rightarrow> string) \<Rightarrow> retry_policy \<Rightarrow> int \<Rightarrow> uuid \<Rightarrow> interval \<Rightarrow> interval" where
  "compute_reclaim_backoff rnd md5 p att i max_backoff =
     timedelta_seconds rnd (compute_reclaim_backoff_seconds rnd md5 p att i max_backoff)"

text \<open>
  The SQL fragments of the reclaim statement, over the columns the row was
  stamped with at enqueue; \<open>max_s\<close> is the bound \<open>max_backoff_seconds\<close>.
\<close>

definition RECLAIM_EFFECTIVE_CAP_SQL :: "job \<Rightarrow> rat \<Rightarrow> rat" where
  "RECLAIM_EFFECTIVE_CAP_SQL j max_s = min (retry_cap_seconds j) max_s"

definition RECLAIM_RAW_BACKOFF_SQL :: "(rat \<Rightarrow> rat) \<Rightarrow> job \<Rightarrow> rat \<Rightarrow> rat" where
  "RECLAIM_RAW_BACKOFF_SQL rnd j max_s = (case retry_backoff j of
       Exponential \<Rightarrow> min (RECLAIM_EFFECTIVE_CAP_SQL j max_s)
         (rnd (retry_base_seconds j * 2 ^ nat (least (greatest (attempt j - 1) 0) 67)))
     | Linear \<Rightarrow> min (RECLAIM_EFFECTIVE_CAP_SQL j max_s)
         (rnd (retry_base_seconds j * of_int (attempt j)))
     | Fixed \<Rightarrow> retry_base_seconds j)"

definition RECLAIM_JITTER_FRACTION_SQL ::
    "(rat \<Rightarrow> rat) \<Rightarrow> (string \<Rightarrow> string) \<Rightarrow> job \<Rightarrow> rat" where
  "RECLAIM_JITTER_FRACTION_SQL rnd md5 j =
     rnd (of_nat (hex_prefix (md5 (uuid_text (jid j) @ '':'' @ decimal_int (attempt j)))) / 4294967296)"

definition RECLAIM_DELAY_SECONDS_SQL ::
    "(rat \<Rightarrow> rat) \<Rightarrow> (string \<Rightarrow> string) \<Rightarrow> job \<Rightarrow> rat \<Rightarrow> rat" where
  "RECLAIM_DELAY_SECONDS_SQL rnd md5 j max_s =
     (let cap = RECLAIM_EFFECTIVE_CAP_SQL j max_s;
          capped_raw = min cap (RECLAIM_RAW_BACKOFF_SQL rnd j max_s);
          lower = rnd (capped_raw * rnd (1 - retry_jitter j));
          upper = min (rnd (capped_raw * rnd (1 + retry_jitter j))) cap
      in max (min cap (rnd (lower + rnd (rnd (upper - lower) * RECLAIM_JITTER_FRACTION_SQL rnd md5 j))))
             (total_seconds rnd MIN_DEFERRAL_INTERVAL))"

definition RECLAIM_DELAY_SQL ::
    "(rat \<Rightarrow> rat) \<Rightarrow> (string \<Rightarrow> string) \<Rightarrow> job \<Rightarrow> rat \<Rightarrow> interval" where
  "RECLAIM_DELAY_SQL rnd md5 j max_s = pg_seconds rnd (RECLAIM_DELAY_SECONDS_SQL rnd md5 j max_s)"

section \<open>Lemmas over any rounding\<close>

lemma valid_policyD:
  assumes "valid_policy p"
  shows "1 \<le> rp_max_attempts p" "rp_max_attempts p \<le> 32766" "0 < rp_base p"
    "rp_base p \<le> rp_cap p" "0 \<le> rp_jitter p" "rp_jitter p \<le> 1"
  using assms
  by (auto simp: valid_policy_def RetryPolicy_def bindE_Inr_iff check_max_attempts_domain_def
      MAX_ENQUEUABLE_MAX_ATTEMPTS_def MAX_ATTEMPTS_SMALLINT_CEILING_def split: if_splits)

lemma timedelta_pos:
  "0 \<le> s \<Longrightarrow> timedelta_seconds rnd s
     = \<lfloor>s\<rfloor> * usec_per_sec + round_half_even (rnd (of_int usec_per_sec * (s - of_int \<lfloor>s\<rfloor>)))"
  by (simp add: timedelta_seconds_def Let_def)

context float_arith
begin

lemma total_seconds_float: "rnd (total_seconds rnd td) = total_seconds rnd td"
  by (simp add: total_seconds_def rnd_idem)

lemma total_seconds_nonneg: "0 \<le> td \<Longrightarrow> 0 \<le> total_seconds rnd td"
  by (simp add: total_seconds_def rnd_nonneg usec_per_sec_def)

lemma total_seconds_mono: "a \<le> b \<Longrightarrow> total_seconds rnd a \<le> total_seconds rnd b"
  by (simp add: total_seconds_def rnd_mono usec_per_sec_def divide_right_mono)

lemma total_seconds_whole: "\<bar>n\<bar> < 2 ^ 53 \<Longrightarrow> total_seconds rnd (seconds n) = of_int n"
  by (simp add: total_seconds_def seconds_def usec_per_sec_def rnd_int)

lemma timedelta_frac_le: "0 \<le> s \<Longrightarrow> round_half_even (rnd (of_int usec_per_sec * (s - of_int \<lfloor>s\<rfloor>))) \<le> usec_per_sec"
proof (rule round_half_even_le)
  have "s - of_int \<lfloor>s\<rfloor> \<le> 1" by linarith
  then have "of_int usec_per_sec * (s - of_int \<lfloor>s\<rfloor>) \<le> (of_int usec_per_sec :: rat)"
    by (simp add: usec_per_sec_def)
  then show "rnd (of_int usec_per_sec * (s - of_int \<lfloor>s\<rfloor>)) \<le> of_int usec_per_sec"
    using rnd_int[of usec_per_sec] by (intro rnd_le_float) (simp_all add: usec_per_sec_def)
qed

lemma timedelta_frac_ge: "0 \<le> round_half_even (rnd (of_int usec_per_sec * (s - of_int \<lfloor>s\<rfloor>)))"
  by (intro round_half_even_ge) (simp add: rnd_nonneg usec_per_sec_def)

lemma timedelta_seconds_ge: "of_int n \<le> s \<Longrightarrow> 0 \<le> n \<Longrightarrow> seconds n \<le> timedelta_seconds rnd s"
proof -
  assume n: "of_int n \<le> s" "0 \<le> n"
  then have "n \<le> \<lfloor>s\<rfloor>" "0 \<le> s" by (simp_all add: le_floor_iff order_trans[of 0 "of_int n"])
  then show ?thesis
    using timedelta_frac_ge[of s] mult_right_mono[of n "\<lfloor>s\<rfloor>" usec_per_sec]
    by (simp add: timedelta_pos seconds_def) (simp add: usec_per_sec_def)
qed

lemma timedelta_seconds_mono:
  assumes "0 \<le> s" "s \<le> t" shows "timedelta_seconds rnd s \<le> timedelta_seconds rnd t"
proof (cases "\<lfloor>s\<rfloor> = \<lfloor>t\<rfloor>")
  case True
  have "rnd (of_int usec_per_sec * (s - of_int \<lfloor>t\<rfloor>)) \<le> rnd (of_int usec_per_sec * (t - of_int \<lfloor>t\<rfloor>))"
    using assms by (intro rnd_mono) (simp add: usec_per_sec_def)
  from round_half_even_mono[OF this] show ?thesis
    using assms True by (simp add: timedelta_pos)
next
  case False
  then have "\<lfloor>s\<rfloor> + 1 \<le> \<lfloor>t\<rfloor>" using floor_mono[OF assms(2)] by simp
  then have "(\<lfloor>s\<rfloor> + 1) * usec_per_sec \<le> \<lfloor>t\<rfloor> * usec_per_sec"
    by (intro mult_right_mono) (simp_all add: usec_per_sec_def)
  then show ?thesis
    using timedelta_frac_le[OF assms(1)] timedelta_frac_ge[of t] assms
    by (simp add: timedelta_pos algebra_simps)
qed

lemma raw_backoff_nonneg:
  "0 \<le> base \<Longrightarrow> 0 \<le> cap \<Longrightarrow> 1 \<le> att \<Longrightarrow> 0 \<le> raw_backoff_seconds rnd base cap bk att"
  by (cases bk) (simp_all add: raw_backoff_seconds_def rnd_nonneg)

lemma raw_backoff_float:
  "rnd base = base \<Longrightarrow> rnd cap = cap \<Longrightarrow>
     rnd (raw_backoff_seconds rnd base cap bk att) = raw_backoff_seconds rnd base cap bk att"
  by (cases bk) (simp_all add: raw_backoff_seconds_def rnd_min rnd_idem)

lemma raw_backoff_mono:
  assumes "0 \<le> base" "att \<le> att'"
  shows "raw_backoff_seconds rnd base cap bk att \<le> raw_backoff_seconds rnd base cap bk att'"
proof (cases bk)
  case Exponential
  have "nat (min (max (att - 1) 0) MAX_BACKOFF_EXPONENT)
        \<le> nat (min (max (att' - 1) 0) MAX_BACKOFF_EXPONENT)"
    using assms(2) by (intro nat_mono) linarith
  then have "(2::rat) ^ nat (min (max (att - 1) 0) MAX_BACKOFF_EXPONENT)
        \<le> 2 ^ nat (min (max (att' - 1) 0) MAX_BACKOFF_EXPONENT)"
    by (rule power_increasing) simp
  then have "rnd (base * 2 ^ nat (min (max (att - 1) 0) MAX_BACKOFF_EXPONENT))
        \<le> rnd (base * 2 ^ nat (min (max (att' - 1) 0) MAX_BACKOFF_EXPONENT))"
    using assms(1) by (intro rnd_mono mult_left_mono)
  then show ?thesis by (simp add: raw_backoff_seconds_def Exponential min.coboundedI2)
next
  case Linear
  have "rnd (base * of_int att) \<le> rnd (base * of_int att')"
    using assms by (intro rnd_mono mult_left_mono) simp_all
  then show ?thesis by (simp add: raw_backoff_seconds_def Linear min.coboundedI2)
qed (simp add: raw_backoff_seconds_def)

lemma band_bounds:
  assumes band: "capped_jitter_band rnd raw cap j = (lower, upper)"
    and raw: "0 \<le> raw" "rnd raw = raw" and cap: "0 \<le> cap" "rnd cap = cap" and j: "0 \<le> j" "j \<le> 1"
  shows "0 \<le> lower" "lower \<le> min cap raw" "lower \<le> upper" "upper \<le> cap" "rnd lower = lower"
    "rnd upper = upper" "min cap raw \<le> upper"
proof -
  let ?c = "min cap raw"
  have c: "0 \<le> ?c" "rnd ?c = ?c" using raw cap by (simp_all add: rnd_min)
  have lo: "0 \<le> rnd (1 - j)" "rnd (1 - j) \<le> 1" "rnd (1 - j) \<le> rnd (1 + j)" "1 \<le> rnd (1 + j)"
    using j rnd_1 by (simp_all add: rnd_nonneg rnd_le_float rnd_mono rnd_ge_float)
  have l: "lower = rnd (?c * rnd (1 - j))" and u: "upper = min (rnd (?c * rnd (1 + j))) cap"
    using band by (simp_all add: capped_jitter_band_def Let_def)
  show "0 \<le> lower" using c lo by (simp add: l rnd_nonneg)
  have "?c * rnd (1 - j) \<le> ?c * 1" using c(1) lo(2) by (intro mult_left_mono)
  then show lc: "lower \<le> ?c"
    unfolding l using c(2) by (intro rnd_le_float) (simp_all only: mult_1_right)
  have "?c * 1 \<le> ?c * rnd (1 + j)" using c lo(4) by (intro mult_left_mono)
  then have cu: "?c \<le> rnd (?c * rnd (1 + j))" using c(2) by (intro rnd_ge_float) simp_all
  then show uc: "?c \<le> upper" by (simp add: u)
  show "lower \<le> upper" using lc uc by linarith
  show "upper \<le> cap" by (simp add: u)
  show "rnd lower = lower" by (simp add: l rnd_idem)
  show "rnd upper = upper" using cap by (simp add: u rnd_min rnd_idem)
qed

lemma draw_bounds:
  assumes "0 \<le> lower" "lower \<le> upper" "upper \<le> cap" "rnd lower = lower" "0 \<le> f"
  shows "lower \<le> draw_in_band rnd lower upper f cap" "draw_in_band rnd lower upper f cap \<le> cap"
proof -
  have "0 \<le> rnd (rnd (upper - lower) * f)"
    using assms by (simp add: rnd_nonneg)
  then have "lower \<le> rnd (lower + rnd (rnd (upper - lower) * f))"
    using assms by (intro rnd_ge_float) simp_all
  then show "lower \<le> draw_in_band rnd lower upper f cap"
    using assms by (simp add: draw_in_band_def)
  show "draw_in_band rnd lower upper f cap \<le> cap" by (simp add: draw_in_band_def)
qed

lemma draw_degenerate: "rnd x = x \<Longrightarrow> x \<le> cap \<Longrightarrow> draw_in_band rnd x x f cap = x"
  by (simp add: draw_in_band_def rnd_0)

lemma effective_cap_float: "rnd (effective_cap rnd p mb) = effective_cap rnd p mb"
  by (simp add: effective_cap_def rnd_min total_seconds_float)

lemma effective_cap_nonneg: "0 \<le> rp_cap p \<Longrightarrow> 0 \<le> mb \<Longrightarrow> 0 \<le> effective_cap rnd p mb"
  by (simp add: effective_cap_def total_seconds_nonneg)

lemma compute_backoff_seconds_bounds:
  assumes p: "valid_policy p" and att: "1 \<le> att" and mb: "0 \<le> mb" and u: "0 \<le> u"
  shows "0 \<le> compute_backoff_seconds rnd p att u mb"
    "compute_backoff_seconds rnd p att u mb \<le> effective_cap rnd p mb"
proof -
  note v = valid_policyD[OF p]
  define base where "base = total_seconds rnd (rp_base p)"
  define cap where "cap = effective_cap rnd p mb"
  define raw where "raw = raw_backoff_seconds rnd base cap (rp_backoff p) att"
  obtain lower upper where b: "capped_jitter_band rnd raw cap (rp_jitter p) = (lower, upper)"
    by (cases "capped_jitter_band rnd raw cap (rp_jitter p)")
  have base: "0 \<le> base" "rnd base = base"
    using v(3) by (simp_all add: base_def total_seconds_nonneg total_seconds_float)
  have cap: "0 \<le> cap" "rnd cap = cap"
    using v(3,4) mb by (simp_all add: cap_def effective_cap_nonneg effective_cap_float)
  have raw: "0 \<le> raw" "rnd raw = raw"
    using base cap att by (simp_all add: raw_def raw_backoff_nonneg raw_backoff_float)
  note bb = band_bounds[OF b raw cap v(5,6)]
  have "compute_backoff_seconds rnd p att u mb = draw_in_band rnd lower upper u cap"
    using b by (simp add: compute_backoff_seconds_def Let_def base_def cap_def raw_def)
  then show "0 \<le> compute_backoff_seconds rnd p att u mb"
    "compute_backoff_seconds rnd p att u mb \<le> effective_cap rnd p mb"
    using draw_bounds[OF bb(1,3,4,5) u] bb(1) by (simp_all add: cap_def[symmetric])
qed

lemma compute_backoff_no_jitter:
  assumes p: "valid_policy p" and att: "1 \<le> att" and mb: "0 \<le> mb" and j: "rp_jitter p = 0"
  shows "compute_backoff_seconds rnd p att u mb =
    min (effective_cap rnd p mb)
      (raw_backoff_seconds rnd (total_seconds rnd (rp_base p)) (effective_cap rnd p mb) (rp_backoff p) att)"
proof -
  define cap where "cap = effective_cap rnd p mb"
  define raw where "raw = raw_backoff_seconds rnd (total_seconds rnd (rp_base p)) cap (rp_backoff p) att"
  have f: "rnd (min cap raw) = min cap raw"
    by (intro rnd_min) (simp_all add: cap_def raw_def effective_cap_float raw_backoff_float
      total_seconds_float)
  then have "capped_jitter_band rnd raw cap (rp_jitter p) = (min cap raw, min cap raw)"
    by (simp add: capped_jitter_band_def Let_def j rnd_1)
  then show ?thesis
    using f by (simp add: compute_backoff_seconds_def Let_def cap_def raw_def draw_degenerate)
qed

lemma min_deferral_seconds: "total_seconds rnd MIN_DEFERRAL_INTERVAL = 1"
  using total_seconds_whole[of 1] by (simp add: MIN_DEFERRAL_INTERVAL_def)

lemma reclaim_delay_floor: "1 \<le> RECLAIM_DELAY_SECONDS_SQL rnd md5 j m"
  unfolding RECLAIM_DELAY_SECONDS_SQL_def Let_def min_deferral_seconds by (rule max.cobounded2)

lemma reclaim_delay_le:
  assumes "1 \<le> retry_cap_seconds j" "1 \<le> m"
  shows "RECLAIM_DELAY_SECONDS_SQL rnd md5 j m \<le> min (retry_cap_seconds j) m"
  unfolding RECLAIM_DELAY_SECONDS_SQL_def Let_def min_deferral_seconds
    RECLAIM_EFFECTIVE_CAP_SQL_def
  by (rule max.boundedI[OF min.cobounded1 min.boundedI[OF assms]])

lemma pg_seconds_ge: "1 \<le> s \<Longrightarrow> usec_per_sec \<le> pg_seconds rnd s"
proof -
  assume "1 \<le> s"
  then have "of_int usec_per_sec \<le> rnd (of_int usec_per_sec * s)"
    using rnd_int[of usec_per_sec] by (intro rnd_ge_float) (simp_all add: usec_per_sec_def)
  then show ?thesis by (simp add: pg_seconds_def round_half_even_ge)
qed

lemma pg_seconds_mono: "s \<le> t \<Longrightarrow> pg_seconds rnd s \<le> pg_seconds rnd t"
  by (simp add: pg_seconds_def round_half_even_mono rnd_mono usec_per_sec_def)

end


section \<open>Facts about binary64\<close>

lemma rnd64_pow2:
  assumes "- 1074 \<le> e" shows "rnd64 (pow2 e) = pow2 e"
proof -
  have "\<not> pow2 e < 0" using pow2_pos[of e] by linarith
  then show ?thesis using rnd_pos_exact[of 1 e] assms by (simp add: rnd64_def)
qed

lemma base_seconds_lower:
  assumes "0 < base" shows "pow2 (- 20) \<le> total_seconds rnd64 base"
  unfolding total_seconds_def
proof (rule f64.rnd_ge_float)
  have "pow2 (- 20) \<le> 1 / of_int usec_per_sec" by (simp add: pow2_def usec_per_sec_def)
  also have "\<dots> \<le> of_int base / of_int usec_per_sec"
    using assms by (intro divide_right_mono) (simp_all add: usec_per_sec_def)
  finally show "pow2 (- 20) \<le> of_int base / of_int usec_per_sec" .
qed (simp add: rnd64_pow2)

text \<open>The largest \<open>timedelta\<close>, in microseconds.\<close>

definition timedelta_max :: interval where
  "timedelta_max = 86399999999999999999"

lemma cap_seconds_upper:
  assumes "cap \<le> timedelta_max" shows "total_seconds rnd64 cap \<le> 86400000000000"
  unfolding total_seconds_def
proof (rule f64.rnd_le_float)
  show "of_int cap / of_int usec_per_sec \<le> (86400000000000 :: rat)"
    using assms by (simp add: timedelta_max_def usec_per_sec_def divide_le_eq)
  show "rnd64 86400000000000 = 86400000000000"
    using rnd64_int[of 86400000000000] by simp
qed

lemma saturated_exponent:
  assumes "0 < base" "cap \<le> timedelta_max" "67 \<le> k"
  shows "total_seconds rnd64 cap \<le> rnd64 (total_seconds rnd64 base * 2 ^ k)"
proof (rule f64.rnd_ge_float)
  have "total_seconds rnd64 cap \<le> pow2 (- 20) * 2 ^ 67"
    using cap_seconds_upper[OF assms(2)] by (simp add: pow2_def)
  also have "\<dots> \<le> total_seconds rnd64 base * 2 ^ k"
    using base_seconds_lower[OF assms(1)] assms(3)
    by (intro mult_mono power_increasing) (simp_all add: order_trans[OF less_imp_le[OF pow2_pos]])
  finally show "total_seconds rnd64 cap \<le> total_seconds rnd64 base * 2 ^ k" .
qed (rule f64.total_seconds_float)

section \<open>Properties\<close>

text \<open>
  The exponent clamp is invisible.  For every base the policy admits and
  every cap a \<open>timedelta\<close> can hold, the clamped exponential curve in binary64
  equals the unclamped one, for every attempt number.
\<close>

theorem exponent_clamp_invisible:
  assumes "0 < base" "cap \<le> timedelta_max" "1 \<le> att"
  shows "raw_backoff_seconds rnd64 (total_seconds rnd64 base) (total_seconds rnd64 cap) Exponential att
    = min (total_seconds rnd64 cap) (rnd64 (total_seconds rnd64 base * 2 ^ nat (att - 1)))"
proof (cases "att - 1 \<le> 67")
  case True
  then show ?thesis using assms(3) by (simp add: raw_backoff_seconds_def MAX_BACKOFF_EXPONENT_def)
next
  case False
  then have e: "nat (min (max (att - 1) 0) MAX_BACKOFF_EXPONENT) = 67" "67 \<le> nat (att - 1)"
    by (simp_all add: MAX_BACKOFF_EXPONENT_def)
  have "min (total_seconds rnd64 cap) (rnd64 (total_seconds rnd64 base * 2 ^ k)) = total_seconds rnd64 cap"
    if "67 \<le> k" for k
    using saturated_exponent[OF assms(1,2) that] by (rule min.absorb1)
  then show ?thesis using e by (simp only: raw_backoff_seconds_def backoff.case order_refl)
qed

lemma exponent_clamp_invisible_witness:
  "raw_backoff_seconds rnd64 (total_seconds rnd64 1) (total_seconds rnd64 timedelta_max) Exponential 200
    = min (total_seconds rnd64 timedelta_max) (rnd64 (total_seconds rnd64 1 * 2 ^ 199))"
  using exponent_clamp_invisible[of 1 timedelta_max 200] by simp

text \<open>
  Every backoff is within bounds.  For a valid policy, any draw and any
  operator ceiling, \<open>compute_backoff\<close> raises only for an attempt below 1, and
  its delay is not negative and at most the smaller of the policy's cap and
  the ceiling; without jitter the delays do not shrink from one attempt to the
  next.
\<close>

theorem backoff_bounds:
  assumes p: "valid_policy p" and mb: "0 \<le> mb" and u: "0 \<le> u"
  shows "(att < 1 \<longrightarrow> compute_backoff rnd64 p att u mb = Inl PyValueError)
    \<and> (1 \<le> att \<longrightarrow> (\<exists>dl. compute_backoff rnd64 p att u mb = Inr dl \<and> 0 \<le> dl
         \<and> dl \<le> timedelta_seconds rnd64 (effective_cap rnd64 p mb)
         \<and> (rp_jitter p = 0 \<longrightarrow> (\<forall>att' u'. att \<le> att' \<longrightarrow>
              (\<exists>dl'. compute_backoff rnd64 p att' u' mb = Inr dl' \<and> dl \<le> dl')))))"
proof (intro conjI impI)
  show "att < 1 \<Longrightarrow> compute_backoff rnd64 p att u mb = Inl PyValueError"
    by (simp add: compute_backoff_def)
  assume att: "1 \<le> att"
  let ?s = "compute_backoff_seconds rnd64 p att u mb"
  note b = f64.compute_backoff_seconds_bounds[OF p att mb u]
  have lo: "0 \<le> timedelta_seconds rnd64 ?s"
    using f64.timedelta_seconds_ge[of 0 ?s] b(1) by (simp add: seconds_def)
  have hi: "timedelta_seconds rnd64 ?s \<le> timedelta_seconds rnd64 (effective_cap rnd64 p mb)"
    by (rule f64.timedelta_seconds_mono[OF b])
  have "\<exists>dl'. compute_backoff rnd64 p att' u' mb = Inr dl' \<and> timedelta_seconds rnd64 ?s \<le> dl'"
    if j: "rp_jitter p = 0" and a: "att \<le> att'" for att' u'
  proof -
    have "?s \<le> compute_backoff_seconds rnd64 p att' u' mb"
      unfolding f64.compute_backoff_no_jitter[OF p att mb j]
        f64.compute_backoff_no_jitter[OF p order_trans[OF att a] mb j]
      using f64.raw_backoff_mono[OF _ a] valid_policyD[OF p]
      by (intro min.mono order_refl) (simp add: f64.total_seconds_nonneg)
    then show ?thesis
      using f64.timedelta_seconds_mono[OF b(1)] att a by (simp add: compute_backoff_def)
  qed
  then show "\<exists>dl. compute_backoff rnd64 p att u mb = Inr dl \<and> 0 \<le> dl
         \<and> dl \<le> timedelta_seconds rnd64 (effective_cap rnd64 p mb)
         \<and> (rp_jitter p = 0 \<longrightarrow> (\<forall>att' u'. att \<le> att' \<longrightarrow>
              (\<exists>dl'. compute_backoff rnd64 p att' u' mb = Inr dl' \<and> dl \<le> dl')))"
    using att lo hi by (simp add: compute_backoff_def)
qed

definition sample_policy :: retry_policy where
  "sample_policy = \<lparr>rp_kind = Transient, rp_max_attempts = 25, rp_time_budget = None,
     rp_backoff = Exponential, rp_base = 5000000, rp_cap = 3600000000, rp_jitter = 0\<rparr>"

lemma sample_policy_valid: "valid_policy sample_policy"
  by (simp add: valid_policy_def RetryPolicy_def check_max_attempts_domain_def sample_policy_def
      MAX_ENQUEUABLE_MAX_ATTEMPTS_def MAX_ATTEMPTS_SMALLINT_CEILING_def)

lemma backoff_bounds_witness:
  "(\<exists>dl. compute_backoff rnd64 sample_policy 3 0 DEFAULT_MAX_RETRY_BACKOFF = Inr dl \<and> 0 \<le> dl
     \<and> dl \<le> timedelta_seconds rnd64 (effective_cap rnd64 sample_policy DEFAULT_MAX_RETRY_BACKOFF)
     \<and> (\<exists>dl'. compute_backoff rnd64 sample_policy 9 0 DEFAULT_MAX_RETRY_BACKOFF = Inr dl' \<and> dl \<le> dl'))"
proof -
  have "0 \<le> DEFAULT_MAX_RETRY_BACKOFF" and j: "rp_jitter sample_policy = 0"
    by (simp_all add: DEFAULT_MAX_RETRY_BACKOFF_def seconds_def usec_per_sec_def sample_policy_def)
  from conjunct2[OF backoff_bounds[OF sample_policy_valid this(1), of 0 3]]
  obtain dl where dl: "compute_backoff rnd64 sample_policy 3 0 DEFAULT_MAX_RETRY_BACKOFF = Inr dl" "0 \<le> dl"
      "dl \<le> timedelta_seconds rnd64 (effective_cap rnd64 sample_policy DEFAULT_MAX_RETRY_BACKOFF)"
    and m: "\<forall>att' u'. 3 \<le> att' \<longrightarrow>
      (\<exists>dl'. compute_backoff rnd64 sample_policy att' u' DEFAULT_MAX_RETRY_BACKOFF = Inr dl' \<and> dl \<le> dl')"
    using j by (simp only: order_refl one_le_numeral simp_thms) blast
  from spec[OF spec[OF m, of 9], of 0] show ?thesis
    using dl by (rule_tac exI[of _ dl]) simp
qed

text \<open>
  C39: the two spellings of the reclaim delay agree.  On a row whose retry
  columns carry a policy, the sum the reclaim statement computes in SQL is the
  number of seconds \<open>compute_reclaim_backoff\<close> computes for that policy,
  attempt and job id under the same ceiling.
\<close>

theorem reclaim_delay_twins:
  assumes "retry_base_seconds j = total_seconds rnd64 (rp_base p)"
    and "retry_cap_seconds j = total_seconds rnd64 (rp_cap p)"
    and "retry_jitter j = rp_jitter p" and "retry_backoff j = rp_backoff p"
  shows "RECLAIM_DELAY_SECONDS_SQL rnd64 md5 j (total_seconds rnd64 mb)
    = compute_reclaim_backoff_seconds rnd64 md5 p (attempt j) (jid j) mb"
  unfolding RECLAIM_DELAY_SECONDS_SQL_def compute_reclaim_backoff_seconds_def Let_def
    RECLAIM_EFFECTIVE_CAP_SQL_def effective_cap_def RECLAIM_RAW_BACKOFF_SQL_def
    raw_backoff_seconds_def capped_jitter_band_def draw_in_band_def prod.case
    RECLAIM_JITTER_FRACTION_SQL_def reclaim_jitter_fraction_def MAX_BACKOFF_EXPONENT_def
    least_def greatest_def assms ..

lemma reclaim_delay_twins_witness:
  "RECLAIM_DELAY_SECONDS_SQL rnd64 rev
       (sample_job\<lparr>retry_base_seconds := total_seconds rnd64 (rp_base sample_policy),
          retry_cap_seconds := total_seconds rnd64 (rp_cap sample_policy),
          retry_jitter := 0, retry_backoff := Exponential\<rparr>) (total_seconds rnd64 60000000)
     = compute_reclaim_backoff_seconds rnd64 rev sample_policy 1 4 60000000"
  using reclaim_delay_twins[of "sample_job\<lparr>retry_base_seconds := total_seconds rnd64 (rp_base sample_policy),
          retry_cap_seconds := total_seconds rnd64 (rp_cap sample_policy),
          retry_jitter := 0, retry_backoff := Exponential\<rparr>" sample_policy rev 60000000]
  by (simp add: sample_policy_def)

text \<open>
  The reclaim delay is bounded.  Whatever the row's attempt number and
  jitter digest, the interval added to the clock is at least one second, and
  at most what the smaller of the row's cap and the operator's ceiling
  amounts to when both are at least a second.
\<close>

theorem reclaim_delay_bounds:
  "usec_per_sec \<le> RECLAIM_DELAY_SQL rnd64 md5 j m
    \<and> (1 \<le> retry_cap_seconds j \<and> 1 \<le> m \<longrightarrow>
         RECLAIM_DELAY_SQL rnd64 md5 j m \<le> pg_seconds rnd64 (min (retry_cap_seconds j) m))"
  unfolding RECLAIM_DELAY_SQL_def
  by (intro conjI impI f64.pg_seconds_ge f64.reclaim_delay_floor f64.pg_seconds_mono f64.reclaim_delay_le;
      elim conjE)

lemma reclaim_delay_bounds_witness:
  "usec_per_sec \<le> RECLAIM_DELAY_SQL rnd64 rev (sample_job\<lparr>retry_cap_seconds := 3600\<rparr>) 86400
   \<and> RECLAIM_DELAY_SQL rnd64 rev (sample_job\<lparr>retry_cap_seconds := 3600\<rparr>) 86400
     \<le> pg_seconds rnd64 3600"
  using reclaim_delay_bounds[of rev "sample_job\<lparr>retry_cap_seconds := 3600\<rparr>" 86400] by simp

end
