(* ===== verification/Drain.thy ===== *)
theory Drain
  imports Jobs
begin

text \<open>
  The contract every bounded maintenance sweep keeps, and the leader's drain
  loop that relies on it (\<open>_drain_bounded\<close> of \<open>worker/_leader_sweeps.py\<close>): a
  call transitions a bounded batch of the eligible rows, every row it
  transitions leaves the backlog, and a call that finds a backlog makes
  progress on it.
\<close>

section \<open>The drain loop\<close>

text \<open>
  One list element per iteration: whether shutdown is unset and leadership
  held at its start, and the arguments of its call.  The caller passes
  \<open>sweep_drain_batches - 1\<close> elements.  A failed call leaves the state as it
  found it; \<open>transient\<close> is membership in \<open>TRANSIENT_PG_ERRORS\<close>.
\<close>

fun drain_bounded ::
    "(py_error \<Rightarrow> bool) \<Rightarrow> ('p \<Rightarrow> 's \<Rightarrow> py_error + (nat \<times> 's)) \<Rightarrow> (bool \<times> 'p) list \<Rightarrow> 's
     \<Rightarrow> (py_error + bool) \<times> 's" where
  "drain_bounded transient call [] s = (Inr True, s)"
| "drain_bounded transient call ((leading, p) # rest) s =
     (if \<not> leading then (Inr True, s)
      else (case call p s of
         Inl e \<Rightarrow> (if transient e then Inr False else Inl e, s)
       | Inr (rows, s') \<Rightarrow> if rows = 0 then (Inr True, s')
                          else drain_bounded transient call rest s'))"

section \<open>The contract\<close>

locale bounded_sweep =
  fixes call :: "'p \<Rightarrow> 's \<Rightarrow> py_error + (nat \<times> 's)"
    and backlog :: "'p \<Rightarrow> 's \<Rightarrow> nat"
    and batch :: "'p \<Rightarrow> nat"
    and arms :: nat
    and inv :: "'s \<Rightarrow> bool"
  assumes keeps: "inv s \<Longrightarrow> call p s = Inr (k, s') \<Longrightarrow> inv s'"
    and removes: "inv s \<Longrightarrow> call p s = Inr (k, s') \<Longrightarrow> backlog p s = k + backlog p s'"
    and progress: "inv s \<Longrightarrow> call p s = Inr (k, s') \<Longrightarrow> min (batch p) (backlog p s) \<le> k"
    and bounded: "inv s \<Longrightarrow> call p s = Inr (k, s') \<Longrightarrow> k \<le> arms * batch p"
    and positive: "call p s = Inr (k, s') \<Longrightarrow> 0 < batch p"
begin

lemma empty_call:
  assumes "inv s" "call p s = Inr (0, s')" shows "backlog p s = 0" "backlog p s' = 0"
  using progress[OF assms] removes[OF assms] positive[OF assms(2)] by auto

lemma idle_call:
  assumes "inv s" "backlog p s = 0" "call p s = Inr (k, s')" shows "k = 0"
  using removes[OF assms(1,3)] assms(2) by simp

lemma drain_keeps: "inv s \<Longrightarrow> drain_bounded tr call ps s = (r, s') \<Longrightarrow> inv s'"
proof (induction ps arbitrary: s)
  case (Cons x ps)
  show ?case
  proof (cases "call (snd x) s")
    case (Inr y)
    then have "inv (snd y)" using keeps[OF Cons.prems(1)] by (metis prod.collapse)
    then show ?thesis using Inr Cons by (cases x; cases y) (auto split: if_splits)
  qed (use Cons.prems in \<open>cases x; auto split: if_splits\<close>)
qed simp

lemma drain_le: "inv s \<Longrightarrow> drain_bounded tr call (replicate m (True, p)) s = (r, s') \<Longrightarrow>
  backlog p s' \<le> backlog p s"
proof (induction m arbitrary: s)
  case (Suc m)
  show ?case
  proof (cases "call p s")
    case (Inr y)
    obtain k t where y: "y = (k, t)" by (cases y)
    note c = Inr[unfolded y]
    show ?thesis
      using Suc.IH[OF keeps[OF Suc.prems(1) c]] removes[OF Suc.prems(1) c] Suc.prems(2) c
      by (auto split: if_splits)
  qed (use Suc.prems in \<open>auto split: if_splits\<close>)
qed simp

lemma drain_removes:
  "inv s \<Longrightarrow> drain_bounded tr call (replicate m (True, p)) s = (Inr True, s') \<Longrightarrow>
   backlog p s' \<le> backlog p s - m * batch p"
proof (induction m arbitrary: s)
  case (Suc m)
  then obtain k t where c: "call p s = Inr (k, t)"
    by (cases "call p s") (auto split: if_splits)
  note facts = keeps[OF Suc.prems(1) c] removes[OF Suc.prems(1) c] progress[OF Suc.prems(1) c]
  show ?case
  proof (cases "k = 0")
    case True
    then show ?thesis using Suc.prems c empty_call(2)[OF Suc.prems(1), of p] by auto
  next
    case False
    then have "backlog p s' \<le> backlog p t - m * batch p"
      using Suc.IH[OF facts(1)] Suc.prems(2) c by simp
    then show ?thesis using facts(2,3) by auto
  qed
qed simp

end

lemma bounded_sweepI:
  fixes inv :: "'s \<Rightarrow> bool"
  assumes "\<And>p s k s'. inv s \<Longrightarrow> call p s = Inr (k, s') \<Longrightarrow>
      inv s' \<and> backlog p s = k + backlog p s' \<and> min (batch p) (backlog p s) \<le> k \<and> k \<le> arms * batch p"
    and "\<And>p s k s'. call p s = Inr (k, s') \<Longrightarrow> 0 < batch p"
  shows "bounded_sweep call backlog batch arms inv"
  by unfold_locales (use assms in blast)+

lemma drain_total:
  assumes "\<And>s. good s \<Longrightarrow> \<exists>k s'. call p s = Inr (k, s') \<and> good s'" "good s"
  shows "\<exists>s'. drain_bounded tr call (replicate m (True, p)) s = (Inr True, s') \<and> good s'"
  using assms(2)
proof (induction m arbitrary: s)
  case (Suc m)
  obtain k s' where c: "call p s = Inr (k, s')" "good s'" using assms(1)[OF Suc.prems] by blast
  then show ?case using Suc.IH[OF c(2)] by (cases "k = 0") simp_all
qed simp

lemma drain_replicate:
  "drain_bounded tr (\<lambda>_. call p) (replicate m (True, ())) s = drain_bounded tr call (replicate m (True, p)) s"
  by (induction m arbitrary: s) (simp_all split: sum.split)

end
