(* ===== verification/Sweeps.thy ===== *)
theory Sweeps
  imports Terminal Backoff Drain "HOL-Library.Product_Lexorder" Sample
begin

text \<open>
  The maintenance sweeps of \<open>backend/_sweeps.py\<close>.  A sweep is one
  transaction: a snapshot of the eligible rows (ordered and limited, rows
  another transaction has locked stepped over), one UPDATE of exactly those
  rows, and the batched inserts into the ledgers that the Python caller
  builds from the returned rows.  \<open>ts\<close> is \<open>statement_timestamp()\<close>; \<open>clk k i\<close>
  is the k-th occurrence of \<open>clock_timestamp()\<close> in the statements of the
  transaction, evaluated for row \<open>i\<close>.  \<open>md5\<close> is the hash function.
\<close>

section \<open>Snapshots and batched writes\<close>

definition null_ts :: "timestamptz option \<Rightarrow> timestamptz" where
  "null_ts t = (case t of Some x \<Rightarrow> x | None \<Rightarrow> 0)"

text \<open>\<open>SELECT ... WHERE P ORDER BY key LIMIT n FOR UPDATE SKIP LOCKED\<close>.\<close>

definition snapshot ::
    "(job \<Rightarrow> bool) \<Rightarrow> (job \<Rightarrow> timestamptz) \<Rightarrow> (uuid \<Rightarrow> bool) \<Rightarrow> nat \<Rightarrow> job list \<Rightarrow> job list" where
  "snapshot P key skip n js = take n (sort_key key (filter (\<lambda>j. P j \<and> \<not> skip (jid j)) js))"

text \<open>\<open>UPDATE jobs j SET f FROM snap WHERE j.id = snap.id\<close>.\<close>

definition upd_from :: "(job \<times> 'x) list \<Rightarrow> ('x \<Rightarrow> job \<Rightarrow> job) \<Rightarrow> db \<Rightarrow> db" where
  "upd_from snap f d = d\<lparr>jobs := map (\<lambda>j. case row_by (\<lambda>p. jid (fst p)) (jid j) snap of
       None \<Rightarrow> j | Some p \<Rightarrow> f (snd p) j) (jobs d)\<rparr>"

text \<open>\<open>INSERT_EVENTS_DETAIL_BATCH_SQL\<close>: one stamp per row, plus its ordinal.\<close>

definition insert_events_batch ::
    "(uuid \<Rightarrow> timestamptz) \<Rightarrow> string \<Rightarrow> (uuid \<times> jobj) list \<Rightarrow> db \<Rightarrow> db" where
  "insert_events_batch now kind rows d =
     fold (\<lambda>(k, i, det). insert_event i (now i + int k) kind det) (enumerate 0 rows) d"

text \<open>\<open>compute_duration_ms\<close>: Python float arithmetic, truncated by \<open>int\<close>.\<close>

definition py_int :: "rat \<Rightarrow> int" where
  "py_int x = (if x < 0 then - \<lfloor>- x\<rfloor> else \<lfloor>x\<rfloor>)"

definition compute_duration_ms :: "timestamptz option \<Rightarrow> timestamptz option \<Rightarrow> int option" where
  "compute_duration_ms s f = (case (s, f) of
       (Some s', Some f') \<Rightarrow> Some (py_int (rnd64 (total_seconds rnd64 (f' - s') * 1000)))
     | _ \<Rightarrow> None)"

text \<open>A row of the arrays bound to the batched attempt insert.\<close>

record attempt_param =
  ap_job :: uuid
  ap_attempt :: int
  ap_started :: "timestamptz option"
  ap_worker :: "uuid option"
  ap_duration :: "int option"
  ap_message :: string
  ap_due :: timestamptz

text \<open>The driver refuses an array element outside the \<open>int4\<close> range.\<close>

definition encodable_params :: "attempt_param list \<Rightarrow> bool" where
  "encodable_params ps = list_all (\<lambda>p. case ap_duration p of
       None \<Rightarrow> True | Some n \<Rightarrow> int4_min \<le> n \<and> n \<le> int4_max) ps"

definition validate_positive :: "int \<Rightarrow> py_error + unit" where
  "validate_positive v = (if v < 1 then Inl PyValueError else Inr ())"

section \<open>Sweep 1: expired leases and silent holders\<close>

datatype reclaim_reason = LockExpired | HeartbeatTimeout

definition reason_text :: "reclaim_reason \<Rightarrow> string" where
  "reason_text r = (case r of LockExpired \<Rightarrow> ''lock_expired'' | HeartbeatTimeout \<Rightarrow> ''heartbeat_timeout'')"

definition ATTEMPT_MESSAGES :: "reclaim_reason \<Rightarrow> string" where
  "ATTEMPT_MESSAGES r = (case r of
       LockExpired \<Rightarrow> ''lock expired before worker reported terminal state''
     | HeartbeatTimeout \<Rightarrow> ''heartbeat timeout passed before worker reported terminal state'')"

definition RECLAIM_HAS_BUDGET :: "job \<Rightarrow> bool" where
  "RECLAIM_HAS_BUDGET j \<longleftrightarrow>
     retry_kind j = Indefinite \<or> (attempt j < max_attempts j \<and> retry_kind j \<noteq> NonRetryable)"

definition reclaim_disposition :: "job_status \<Rightarrow> string" where
  "reclaim_disposition s = (case s of Pending \<Rightarrow> ''repended'' | Crashed \<Rightarrow> ''crashed''
     | Cancelled \<Rightarrow> ''cancelled'' | _ \<Rightarrow> ''unknown'')"

definition lease_arm :: "timestamptz \<Rightarrow> interval \<Rightarrow> interval \<Rightarrow> job \<Rightarrow> bool" where
  "lease_arm ts cancel_grace cleanup_grace j \<longleftrightarrow>
     status j = Running \<and> sql_lt (lock_expires_at j) (Some ts)
     \<and> (cancel_phase j = 0
        \<or> sql_lt (lock_expires_at j) (Some (ts - cancel_grace - cleanup_grace - seconds 60)))"

definition heartbeat_deadline :: "job \<Rightarrow> timestamptz option" where
  "heartbeat_deadline j = (case (last_heartbeat_at j, heartbeat_timeout j) of
       (Some hb, Some t) \<Rightarrow> Some (hb + t) | _ \<Rightarrow> None)"

definition heartbeat_arm :: "timestamptz \<Rightarrow> interval \<Rightarrow> interval \<Rightarrow> job \<Rightarrow> bool" where
  "heartbeat_arm ts cancel_grace cleanup_grace j \<longleftrightarrow>
     status j = Running \<and> sql_lt (Some 0) (heartbeat_timeout j)
     \<and> sql_le (Some ts) (lock_expires_at j) \<and> sql_lt (last_heartbeat_at j) (Some ts)
     \<and> sql_lt (heartbeat_deadline j) (Some ts)
     \<and> (cancel_phase j = 0
        \<or> sql_lt (heartbeat_deadline j) (Some (ts - cancel_grace - cleanup_grace - seconds 60)))"

definition sweep_1_snap ::
    "timestamptz \<Rightarrow> (uuid \<Rightarrow> bool) \<Rightarrow> interval \<Rightarrow> interval \<Rightarrow> nat \<Rightarrow> db \<Rightarrow> (job \<times> reclaim_reason) list" where
  "sweep_1_snap ts skip cancel_grace cleanup_grace n d =
     map (\<lambda>j. (j, LockExpired))
       (snapshot (lease_arm ts cancel_grace cleanup_grace) (\<lambda>j. null_ts (lock_expires_at j)) skip n (jobs d))
     @ map (\<lambda>j. (j, HeartbeatTimeout))
       (snapshot (heartbeat_arm ts cancel_grace cleanup_grace) (\<lambda>j. null_ts (last_heartbeat_at j)) skip n (jobs d))"

definition sweep_1_set ::
    "(string \<Rightarrow> string) \<Rightarrow> (nat \<Rightarrow> uuid \<Rightarrow> timestamptz) \<Rightarrow> rat \<Rightarrow> reclaim_reason \<Rightarrow> job \<Rightarrow> job" where
  "sweep_1_set md5 clk max_s reason j = j\<lparr>
     status := (if cancel_phase j \<noteq> 0 then Cancelled
                else if RECLAIM_HAS_BUDGET j then Pending else Crashed),
     locked_by_worker := None,
     lock_expires_at := None,
     cancel_phase := (if cancel_phase j \<noteq> 0 then cancel_phase j else 0),
     cancel_requested_at := (if cancel_phase j \<noteq> 0 then cancel_requested_at j else None),
     assignment_routed := True,
     scheduled_at := (if cancel_phase j = 0 \<and> RECLAIM_HAS_BUDGET j
                      then clk 0 (jid j) + RECLAIM_DELAY_SQL rnd64 md5 j max_s else scheduled_at j),
     finished_at := (if cancel_phase j \<noteq> 0 \<or> \<not> RECLAIM_HAS_BUDGET j
                     then Some (clk 1 (jid j)) else finished_at j),
     error_class := (if \<not> RECLAIM_HAS_BUDGET j \<and> cancel_phase j = 0
                     then Some ERROR_CLASS_WORKER_CRASHED else error_class j),
     error_message := (if \<not> RECLAIM_HAS_BUDGET j \<and> cancel_phase j = 0
                       then Some (ATTEMPT_MESSAGES reason) else error_message j)\<rparr>"

text \<open>What the Python loop builds from one returned row: the attempt and the event detail.\<close>

definition sweep_1_param :: "(nat \<Rightarrow> uuid \<Rightarrow> timestamptz) \<Rightarrow> job \<times> reclaim_reason \<Rightarrow> attempt_param" where
  "sweep_1_param clk p = (let j = fst p in
     \<lparr>ap_job = jid j, ap_attempt = attempt j, ap_started = started_at j,
      ap_worker = locked_by_worker j,
      ap_duration = compute_duration_ms (started_at j) (Some (clk 2 (jid j))),
      ap_message = ATTEMPT_MESSAGES (snd p), ap_due = scheduled_at j\<rparr>)"

definition sweep_1_detail :: "job_status \<Rightarrow> job \<times> reclaim_reason \<Rightarrow> jobj" where
  "sweep_1_detail new_status p = state_change_detail ''running'' (status_text new_status)
     ([(''reason'', JStr ''lock_expired''), (''cause'', JStr (reason_text (snd p)))]
      @ (case locked_by_worker (fst p) of
           None \<Rightarrow> [] | Some w \<Rightarrow> [(''worker_id'', JStr (uuid_text w))]))"

text \<open>
  \<open>_SWEEP_1_ATTEMPTS_BATCH_SQL\<close>: rows without a dispatch stamp record no
  attempt, but they count in the ordinals.
\<close>

definition sweep_1_attempt :: "(uuid \<Rightarrow> timestamptz) \<Rightarrow> nat \<times> attempt_param \<Rightarrow> db \<Rightarrow> db" where
  "sweep_1_attempt now kp d = (let p = snd kp in case ap_started p of
       None \<Rightarrow> d
     | Some st \<Rightarrow> d\<lparr>job_attempts := ins_new att_key
         \<lparr>a_job_id = ap_job p, a_attempt = ap_attempt p, a_started_at = st,
          a_finished_at = Some (now (ap_job p) + int (fst kp)), a_outcome = OutCrashed,
          a_error_class = Some ERROR_CLASS_WORKER_CRASHED, a_error_message = Some (ap_message p),
          a_error_traceback = None, a_duration_ms = ap_duration p,
          a_worker_id = holder (ap_worker p) d, a_metadata = Map.empty,
          a_due_at = Some (ap_due p)\<rparr> (job_attempts d)\<rparr>)"

definition sweep_expired_locks ::
    "(string \<Rightarrow> string) \<Rightarrow> timestamptz \<Rightarrow> (nat \<Rightarrow> uuid \<Rightarrow> timestamptz) \<Rightarrow> (uuid \<Rightarrow> bool)
     \<Rightarrow> interval \<Rightarrow> interval \<Rightarrow> int \<Rightarrow> int \<Rightarrow> interval \<Rightarrow> db \<Rightarrow> py_error + (nat \<times> db)" where
  "sweep_expired_locks md5 ts clk skip cancel_grace cleanup_grace batch_size timeout_ms max_backoff d =
     bindE (validate_positive batch_size) (\<lambda>_. bindE (validate_positive timeout_ms) (\<lambda>_.
       let snap = sweep_1_snap ts skip cancel_grace cleanup_grace (nat batch_size) d;
           f = sweep_1_set md5 clk (total_seconds rnd64 max_backoff);
           params = map (sweep_1_param clk) snap;
           details = map (\<lambda>p. (jid (fst p), sweep_1_detail (status (f (snd p) (fst p))) p)) snap in
       if \<not> encodable_params params then Inl PyDataError
       else Inr (length snap,
         insert_events_batch (clk 4) ''state_change'' details
           (fold (sweep_1_attempt (clk 3)) (enumerate 0 params) (upd_from snap f d)))))"

section \<open>Sweep 2: lapsed deadlines\<close>

definition deadline_eligible :: "timestamptz \<Rightarrow> job \<Rightarrow> bool" where
  "deadline_eligible ts j \<longleftrightarrow>
     status j \<in> {Pending, Scheduled} \<and> schedule_to_close j \<noteq> None
     \<and> sql_lt (schedule_to_close j) (Some ts)"

definition sweep_2_set :: "(nat \<Rightarrow> uuid \<Rightarrow> timestamptz) \<Rightarrow> job \<Rightarrow> job" where
  "sweep_2_set clk j = j\<lparr>
     status := Failed,
     finished_at := Some (clk 0 (jid j)),
     error_class := Some ERROR_CLASS_DEADLINE_EXCEEDED,
     error_message := Some DEADLINE_EXCEEDED_MESSAGE\<rparr>"

definition sweep_2_param :: "(nat \<Rightarrow> uuid \<Rightarrow> timestamptz) \<Rightarrow> job \<Rightarrow> attempt_param" where
  "sweep_2_param clk j =
     \<lparr>ap_job = jid j, ap_attempt = attempt j, ap_started = started_at j, ap_worker = None,
      ap_duration = compute_duration_ms (started_at j) (Some (clk 1 (jid j))),
      ap_message = DEADLINE_EXCEEDED_MESSAGE, ap_due = scheduled_at j\<rparr>"

definition sweep_2_detail :: "job \<Rightarrow> jobj" where
  "sweep_2_detail j = state_change_detail (status_text (status j)) ''failed''
     [(''error_class'', JStr ERROR_CLASS_DEADLINE_EXCEEDED)]"

definition sweep_2_attempt ::
    "(nat \<Rightarrow> uuid \<Rightarrow> timestamptz) \<Rightarrow> nat \<times> attempt_param \<Rightarrow> db \<Rightarrow> db" where
  "sweep_2_attempt clk kp d = (let p = snd kp in d\<lparr>job_attempts := ins_new att_key
     \<lparr>a_job_id = ap_job p, a_attempt = ap_attempt p,
      a_started_at = (case ap_started p of Some st \<Rightarrow> st | None \<Rightarrow> clk 2 (ap_job p) + int (fst kp)),
      a_finished_at = Some (clk 3 (ap_job p) + int (fst kp)), a_outcome = OutFailed,
      a_error_class = Some ERROR_CLASS_DEADLINE_EXCEEDED, a_error_message = Some (ap_message p),
      a_error_traceback = None, a_duration_ms = ap_duration p, a_worker_id = None,
      a_metadata = Map.empty, a_due_at = Some (ap_due p)\<rparr> (job_attempts d)\<rparr>)"

definition sweep_deadline_exceeded ::
    "timestamptz \<Rightarrow> (nat \<Rightarrow> uuid \<Rightarrow> timestamptz) \<Rightarrow> (uuid \<Rightarrow> bool) \<Rightarrow> int \<Rightarrow> int \<Rightarrow> db
     \<Rightarrow> py_error + (nat \<times> db)" where
  "sweep_deadline_exceeded ts clk skip batch_size timeout_ms d =
     bindE (validate_positive batch_size) (\<lambda>_. bindE (validate_positive timeout_ms) (\<lambda>_.
       let snap = snapshot (deadline_eligible ts) (\<lambda>j. null_ts (schedule_to_close j)) skip
                    (nat batch_size) (jobs d);
           params = map (sweep_2_param clk) snap in
       if \<not> encodable_params params then Inl PyDataError
       else Inr (length snap,
         insert_events_batch (clk 4) ''state_change'' (map (\<lambda>j. (jid j, sweep_2_detail j)) snap)
           (fold (sweep_2_attempt clk) (enumerate 0 params)
             (upd_from (map (\<lambda>j. (j, ())) snap) (\<lambda>_. sweep_2_set clk) d)))))"

section \<open>Sweep 3: promotion of due jobs\<close>

definition sweep_scheduled_to_pending ::
    "timestamptz \<Rightarrow> (uuid \<Rightarrow> bool) \<Rightarrow> int \<Rightarrow> int \<Rightarrow> db \<Rightarrow> py_error + (nat \<times> db)" where
  "sweep_scheduled_to_pending ts skip batch_size timeout_ms d =
     bindE (validate_positive batch_size) (\<lambda>_. bindE (validate_positive timeout_ms) (\<lambda>_.
       let snap = snapshot (\<lambda>j. status j = Scheduled \<and> scheduled_at j \<le> ts) scheduled_at skip
                    (nat batch_size) (jobs d) in
       Inr (length snap,
            upd_from (map (\<lambda>j. (j, ())) snap) (\<lambda>_ j. j\<lparr>status := Pending\<rparr>) d)))"

section \<open>Sweep 4: leaked reservation slots\<close>

record slot_row =
  s_bucket :: string
  s_index :: int
  s_job_id :: "uuid option"
  s_held_by :: "uuid option"
  s_acquired_at :: "timestamptz option"
  s_lease_expires_at :: "timestamptz option"
  s_keyed :: bool
  s_last_used_at :: timestamptz

definition slot_key :: "slot_row \<Rightarrow> string \<times> int" where
  "slot_key s = (s_bucket s, s_index s)"

definition leaked_slot :: "timestamptz \<Rightarrow> slot_row \<Rightarrow> bool" where
  "leaked_slot ts s \<longleftrightarrow> sql_lt (s_lease_expires_at s) (Some ts) \<and> s_job_id s \<noteq> None"

text \<open>
  The statement with the snapshot its window reads and the rows its UPDATE
  meets: a row another transaction wrote in between is met in its new version,
  and only the outer \<open>job_id IS NOT NULL\<close> is checked on it.
\<close>

definition sweep_4_sql ::
    "timestamptz \<Rightarrow> nat \<Rightarrow> slot_row list \<Rightarrow> slot_row list \<Rightarrow> nat \<times> slot_row list" where
  "sweep_4_sql ts n snap slots =
     (let expired = take n
             (sort_key (\<lambda>s. null_ts (s_lease_expires_at s)) (filter (leaked_slot ts) snap));
          hit = (\<lambda>s. slot_key s \<in> set (map slot_key expired) \<and> s_job_id s \<noteq> None) in
      (length (filter hit slots),
       upd_where hit (\<lambda>s. s\<lparr>s_job_id := None, s_held_by := None, s_acquired_at := None,
                             s_lease_expires_at := None\<rparr>) slots))"

definition sweep_leaked_reservation_slots ::
    "timestamptz \<Rightarrow> int \<Rightarrow> slot_row list \<Rightarrow> py_error + (nat \<times> slot_row list)" where
  "sweep_leaked_reservation_slots ts batch_size slots =
     bindE (validate_positive batch_size) (\<lambda>_. Inr (sweep_4_sql ts (nat batch_size) slots slots))"

section \<open>Expired results\<close>

text \<open>
  \<open>wf_edge\<close> is the workflow edge table as (parent, child) pairs, \<open>None\<close> on a
  schema without it: the guarded statement then fails with UndefinedTable and
  the fallback runs the base statement.
\<close>

definition join_waits_on :: "(uuid \<times> uuid) list \<Rightarrow> db \<Rightarrow> uuid \<Rightarrow> bool" where
  "join_waits_on edges d i \<longleftrightarrow> (\<exists>e\<in>set edges. fst e = i \<and> (\<exists>c\<in>set (jobs d).
     jid c = snd e \<and> status c = Pending \<and> 0 < deps_pending c
     \<and> metadata c ''blocking_reason'' = Some (JStr ''join'')))"

definition result_expired :: "timestamptz \<Rightarrow> (uuid \<times> uuid) list option \<Rightarrow> db \<Rightarrow> job \<Rightarrow> bool" where
  "result_expired ts wf_edge d j \<longleftrightarrow>
     sql_lt (result_expires_at j) (Some ts) \<and> result j \<noteq> None
     \<and> (case wf_edge of None \<Rightarrow> True | Some edges \<Rightarrow> \<not> join_waits_on edges d (jid j))"

definition sweep_expired_results ::
    "timestamptz \<Rightarrow> (uuid \<times> uuid) list option \<Rightarrow> int \<Rightarrow> db \<Rightarrow> py_error + (nat \<times> db)" where
  "sweep_expired_results ts wf_edge batch_size d =
     bindE (validate_positive batch_size) (\<lambda>_.
       let expired = map jid (take (nat batch_size) (filter (result_expired ts wf_edge d) (jobs d)));
           hit = (\<lambda>j. jid j \<in> set expired \<and> result j \<noteq> None) in
       Inr (length (filter hit (jobs d)),
            d\<lparr>jobs := upd_where hit (\<lambda>j. j\<lparr>result := None, result_size_bytes := None\<rparr>) (jobs d)\<rparr>))"

section \<open>Event retention\<close>

definition RECLAIM_OUTBOX_RETENTION_MULTIPLIER :: int where
  "RECLAIM_OUTBOX_RETENTION_MULTIPLIER = 100"

record prune_state =
  pruned_through_id :: int
  prune_updated_at :: timestamptz

definition is_outbox :: "event_row \<Rightarrow> bool" where
  "is_outbox e \<longleftrightarrow> e_kind e = ''state_change'' \<and> e_detail e ''reason'' = Some (JStr ''lock_expired'')"

definition above_floor :: "timestamptz option \<Rightarrow> event_row \<Rightarrow> bool" where
  "above_floor fl e = (case fl of None \<Rightarrow> True | Some f \<Rightarrow> f \<le> e_occurred_at e)"

definition event_window :: "(event_row \<Rightarrow> bool) \<Rightarrow> nat \<Rightarrow> event_row list \<Rightarrow> int list" where
  "event_window P n es =
     map e_id (take n (sort_key (\<lambda>e. (e_occurred_at e, e_id e)) (filter P es)))"

definition events_to_delete ::
    "timestamptz \<Rightarrow> timestamptz option \<Rightarrow> interval \<Rightarrow> nat \<Rightarrow> event_row list \<Rightarrow> int list" where
  "events_to_delete ts fl retention n es =
     event_window (\<lambda>e. e_occurred_at e < ts - retention \<and> above_floor fl e \<and> \<not> is_outbox e) n es
     @ event_window (\<lambda>e. is_outbox e
         \<and> e_occurred_at e < ts - retention * RECLAIM_OUTBOX_RETENTION_MULTIPLIER
         \<and> above_floor fl e) n es"

definition advance_watermark ::
    "timestamptz \<Rightarrow> int list \<Rightarrow> prune_state option \<Rightarrow> prune_state option" where
  "advance_watermark ts del w = (if del = [] then w else
     let top = Max (set del) in
     case w of
       None \<Rightarrow> Some \<lparr>pruned_through_id = top, prune_updated_at = ts\<rparr>
     | Some s \<Rightarrow> Some \<lparr>pruned_through_id = greatest (pruned_through_id s) top, prune_updated_at = ts\<rparr>)"

definition sweep_expired_events ::
    "timestamptz \<Rightarrow> timestamptz option \<Rightarrow> interval \<Rightarrow> int \<Rightarrow> prune_state option \<Rightarrow> db
     \<Rightarrow> py_error + (nat \<times> prune_state option \<times> db)" where
  "sweep_expired_events ts fl retention batch_size w d =
     bindE (validate_positive batch_size) (\<lambda>_.
       if retention \<le> 0 then Inl PyValueError else
       let del = events_to_delete ts fl retention (nat batch_size) (job_events d) in
       Inr (length (filter (\<lambda>e. e_id e \<in> set del) (job_events d)), advance_watermark ts del w,
            d\<lparr>job_events := filter (\<lambda>e. e_id e \<notin> set del) (job_events d)\<rparr>))"

section \<open>Batch sizing\<close>

text \<open>
  \<open>SweepBatchSizer\<close>.  The clock reading is an argument; the age of a stamp is
  a float subtraction, so it is rounded.
\<close>

record sizer =
  sz_default_size :: int
  sz_divisor :: int
  sz_failure_threshold :: int
  sz_window_secs :: rat
  sz_latched :: bool
  sz_recent_failures :: "rat list"

definition SweepBatchSizer :: "int \<Rightarrow> int \<Rightarrow> int \<Rightarrow> rat \<Rightarrow> py_error + sizer" where
  "SweepBatchSizer default_size divisor failure_threshold window_secs =
     (if default_size < 1 then Inl PyValueError
      else if divisor < 2 then Inl PyValueError
      else if failure_threshold < 1 then Inl PyValueError
      else if window_secs \<le> 0 then Inl PyValueError
      else Inr \<lparr>sz_default_size = default_size, sz_divisor = divisor,
                sz_failure_threshold = failure_threshold, sz_window_secs = window_secs,
                sz_latched = False, sz_recent_failures = []\<rparr>)"

definition effective_size :: "sizer \<Rightarrow> int" where
  "effective_size s =
     (if sz_latched s then max 1 (sz_default_size s div sz_divisor s) else sz_default_size s)"

definition on_success :: "sizer \<Rightarrow> sizer" where
  "on_success s = s\<lparr>sz_recent_failures := []\<rparr>"

definition on_timeout :: "rat \<Rightarrow> sizer \<Rightarrow> sizer" where
  "on_timeout now s =
     (let recent = filter (\<lambda>stamp. rnd64 (now - stamp) \<le> sz_window_secs s) (sz_recent_failures s) @ [now] in
      s\<lparr>sz_recent_failures := recent,
        sz_latched := (if sz_failure_threshold s \<le> int (length recent) then True else sz_latched s)\<rparr>)"


section \<open>Lemmas on snapshots and batched updates\<close>

lemma set_snapshot:
  "j \<in> set (snapshot P key skip n js) \<Longrightarrow> j \<in> set js \<and> P j \<and> \<not> skip (jid j)"
  by (auto simp: snapshot_def dest!: in_set_takeD)

lemma length_snapshot:
  "length (snapshot P key skip n js) = min n (length (filter (\<lambda>j. P j \<and> \<not> skip (jid j)) js))"
  by (simp add: snapshot_def min.commute)

lemma distinct_snapshot: "distinct js \<Longrightarrow> distinct (snapshot P key skip n js)"
  by (simp add: snapshot_def)

text \<open>Rows moved out of a predicate are counted out of it.\<close>

lemma length_filter_moved:
  assumes "distinct js" "distinct snap" "\<And>j. j \<in> set snap \<Longrightarrow> j \<in> set js \<and> P j \<and> \<not> P (g j)"
    "\<And>j. j \<in> set js \<Longrightarrow> j \<notin> set snap \<Longrightarrow> g j = j"
  shows "length (filter P js) = length snap + length (filter P (map g js))"
proof -
  let ?A = "{j \<in> set js. P j}"
  have "P (g j) \<longleftrightarrow> P j \<and> j \<notin> set snap" if "j \<in> set js" for j
    using assms(3)[of j] assms(4)[of j] that by (cases "j \<in> set snap") auto
  then have eq: "{j \<in> set js. P (g j)} = ?A - set snap" by blast
  have sub: "set snap \<subseteq> ?A" using assms(3) by blast
  have "length (filter P (map g js)) = card {j \<in> set js. P (g j)}"
    using distinct_card[OF distinct_filter[OF assms(1), of "P \<circ> g"]]
    by (simp add: filter_map comp_def)
  also have "\<dots> = card ?A - card (set snap)"
    unfolding eq by (rule card_Diff_subset[OF _ sub]) simp
  also have "card ?A = length (filter P js)"
    using distinct_card[OF distinct_filter[OF assms(1), of P]] by simp
  finally have "length (filter P (map g js)) = length (filter P js) - length snap"
    by (simp only: distinct_card[OF assms(2)])
  moreover have "length snap \<le> length (filter P js)"
    using card_mono[OF _ sub] distinct_card[OF distinct_filter[OF assms(1), of P]]
    by (simp add: distinct_card[OF assms(2)])
  ultimately show ?thesis by simp
qed

lemma length_filter_arms:
  assumes "\<And>x. x \<in> set xs \<Longrightarrow> \<not> (A x \<and> B x)"
  shows "length (filter (\<lambda>x. A x \<or> B x) xs) = length (filter A xs) + length (filter B xs)"
  using assms by (induction xs) auto

text \<open>Under unique ids \<open>upd_from\<close> touches exactly the rows of the snapshot.\<close>

definition moved :: "(job \<times> 'x) list \<Rightarrow> ('x \<Rightarrow> job \<Rightarrow> job) \<Rightarrow> job \<Rightarrow> job" where
  "moved snap f j = (case row_by (\<lambda>p. jid (fst p)) (jid j) snap of None \<Rightarrow> j | Some p \<Rightarrow> f (snd p) j)"

lemma jobs_upd_from: "jobs (upd_from snap f d) = map (moved snap f) (jobs d)"
  by (simp add: upd_from_def moved_def)

lemma upd_from_same [simp]:
  "job_attempts (upd_from snap f d) = job_attempts d" "job_events (upd_from snap f d) = job_events d"
  "event_seq (upd_from snap f d) = event_seq d" "workers (upd_from snap f d) = workers d"
  "actor_config (upd_from snap f d) = actor_config d"
  by (simp_all add: upd_from_def)

lemma moved_notin:
  assumes "distinct (map jid js)" "\<forall>p\<in>set snap. fst p \<in> set js" "j \<in> set js" "j \<notin> fst ` set snap"
  shows "moved snap f j = j"
proof (cases "row_by (\<lambda>p. jid (fst p)) (jid j) snap")
  case (Some p)
  note p = row_by_SomeD[OF Some]
  have "inj_on jid (set js)" using assms(1) by (simp add: distinct_map)
  then have "fst p = j" by (rule inj_onD) (use p assms(2,3) in simp_all)
  then show ?thesis using p assms(4) by blast
qed (simp add: moved_def)

lemma moved_in:
  assumes "distinct (map (\<lambda>p. jid (fst p)) snap)" "p \<in> set snap"
  shows "moved snap f (fst p) = f (snd p) (fst p)"
  using row_by_distinct[OF assms] by (simp add: moved_def)

lemma jid_moved: "(\<And>x j. jid (f x j) = jid j) \<Longrightarrow> jid (moved snap f j) = jid j"
  by (simp add: moved_def split: option.split)

lemma find_job_upd_from:
  assumes "\<And>x j. jid (f x j) = jid j"
  shows "find_job i (upd_from snap f d) = map_option (moved snap f) (find_job i d)"
proof -
  have "row_by jid i (map (moved snap f) js) = map_option (moved snap f) (row_by jid i js)" for js
    by (induction js) (simp_all add: jid_moved assms)
  then show ?thesis by (simp add: find_job_def jobs_upd_from)
qed

lemma jids_upd_from:
  assumes "\<And>x j. jid (f x j) = jid j"
  shows "map jid (jobs (upd_from snap f d)) = map jid (jobs d)"
  by (simp add: jobs_upd_from jid_moved assms comp_def)

text \<open>The backlog of a sweep built on a snapshot and \<open>upd_from\<close>.\<close>

lemma upd_from_backlog:
  assumes "distinct (map jid (jobs d))" "distinct (map fst snap)"
    "\<And>p. p \<in> set snap \<Longrightarrow> fst p \<in> set (jobs d) \<and> P (fst p) \<and> \<not> P (f (snd p) (fst p))"
  shows "length (filter P (jobs d)) = length snap + length (filter P (jobs (upd_from snap f d)))"
proof -
  have inj: "inj_on jid (set (jobs d))" and dj: "distinct (jobs d)"
    using assms(1) by (simp_all add: distinct_map)
  have "inj_on jid (set (map fst snap))"
    by (rule inj_on_subset[OF inj]) (use assms(3) in auto)
  then have "distinct (map jid (map fst snap))"
    using assms(2) distinct_map by blast
  then have ds: "distinct (map (\<lambda>p. jid (fst p)) snap)" by (simp add: comp_def)
  have "length (filter P (jobs d)) = length (map fst snap) + length (filter P (map (moved snap f) (jobs d)))"
  proof (rule length_filter_moved[OF dj assms(2)])
    fix j assume "j \<in> set (map fst snap)"
    then obtain p where "p \<in> set snap" "j = fst p" by auto
    then show "j \<in> set (jobs d) \<and> P j \<and> \<not> P (moved snap f j)"
      using assms(3) moved_in[OF ds] by auto
  next
    fix j assume "j \<in> set (jobs d)" "j \<notin> set (map fst snap)"
    moreover have "\<forall>p\<in>set snap. fst p \<in> set (jobs d)" using assms(3) by blast
    ultimately show "moved snap f j = j"
      using moved_notin[OF assms(1)] by simp
  qed
  then show ?thesis by (simp add: jobs_upd_from)
qed

text \<open>The batched inserts leave the \<open>jobs\<close> table alone.\<close>

lemma fold_same:
  assumes "\<And>x s. g (f x s) = g s" shows "g (fold f xs s) = g s"
  by (induction xs arbitrary: s) (simp_all add: assms)

lemma jobs_insert_events_batch [simp]: "jobs (insert_events_batch now kind rows d) = jobs d"
  unfolding insert_events_batch_def
  by (rule fold_same) (simp add: insert_event_def split: prod.split)

lemma attempts_insert_events_batch [simp]:
  "job_attempts (insert_events_batch now kind rows d) = job_attempts d"
  unfolding insert_events_batch_def
  by (rule fold_same) (simp add: insert_event_def split: prod.split)

lemma sweep_1_attempt_same [simp]:
  "jobs (sweep_1_attempt now kp d) = jobs d" "job_events (sweep_1_attempt now kp d) = job_events d"
  "event_seq (sweep_1_attempt now kp d) = event_seq d" "workers (sweep_1_attempt now kp d) = workers d"
  by (simp_all add: sweep_1_attempt_def Let_def split: option.split)

lemma sweep_2_attempt_same [simp]:
  "jobs (sweep_2_attempt clk kp d) = jobs d" "job_events (sweep_2_attempt clk kp d) = job_events d"
  "event_seq (sweep_2_attempt clk kp d) = event_seq d" "workers (sweep_2_attempt clk kp d) = workers d"
  by (simp_all add: sweep_2_attempt_def Let_def)

lemma fold_attempts_same [simp]:
  "jobs (fold (sweep_1_attempt now) ks d) = jobs d" "jobs (fold (sweep_2_attempt clk) ks d) = jobs d"
  "job_events (fold (sweep_1_attempt now) ks d) = job_events d"
  "job_events (fold (sweep_2_attempt clk) ks d) = job_events d"
  "event_seq (fold (sweep_1_attempt now) ks d) = event_seq d"
  "event_seq (fold (sweep_2_attempt clk) ks d) = event_seq d"
  by (simp_all add: fold_same)

lemma job_events_batch:
  "job_events (insert_events_batch now kind rows d) = job_events d @
     map (\<lambda>(k, i, det). \<lparr>e_id = event_seq d + int k, e_job_id = i, e_occurred_at = now i + int k,
                        e_kind = kind, e_detail = det\<rparr>) (enumerate 0 rows)"
proof -
  let ?f = "\<lambda>(k, i, det). insert_event i (now i + int k) kind det"
  let ?e = "\<lambda>q (k, i, det). \<lparr>e_id = q + int k, e_job_id = i, e_occurred_at = now i + int k,
                        e_kind = kind, e_detail = det\<rparr>"
  have "job_events (fold ?f (enumerate m rows) e)
      = job_events e @ map (?e (event_seq e - int m)) (enumerate m rows)" for m e
  proof (induction rows arbitrary: m e)
    case (Cons r rows)
    obtain i det where r: "r = (i, det)" by (cases r)
    show ?case
      using Cons[of "Suc m" "insert_event i (now i + int m) kind det e"]
      by (simp add: r insert_event_def)
  qed simp
  from this[of 0 d] show ?thesis by (simp add: insert_events_batch_def)
qed


section \<open>The sweeps keep the bounded-sweep contract\<close>

definition unique_jobs :: "db \<Rightarrow> bool" where
  "unique_jobs d \<longleftrightarrow> distinct (map jid (jobs d))"

text \<open>The rows a sweep owes, those locked by other transactions left out.\<close>

definition owed :: "(job \<Rightarrow> bool) \<Rightarrow> (uuid \<Rightarrow> bool) \<Rightarrow> db \<Rightarrow> nat" where
  "owed P skip d = length (filter (\<lambda>j. P j \<and> \<not> skip (jid j)) (jobs d))"

lemma snapshot_sweep_laws:
  assumes d: "unique_jobs d" and "k = length snap" "snap = snapshot P key skip n (jobs d)"
    "jobs d' = jobs (upd_from (map (\<lambda>j. (j, ())) snap) (\<lambda>_. f) d)"
    and f: "\<And>j. jid (f j) = jid j" "\<And>j. P j \<Longrightarrow> \<not> P (f j)"
  shows "unique_jobs d' \<and> owed P skip d = k + owed P skip d' \<and> min n (owed P skip d) \<le> k \<and> k \<le> 1 * n"
proof (intro conjI)
  show "unique_jobs d'" using d by (simp add: unique_jobs_def assms(4) jids_upd_from f)
  have "distinct (jobs d)" using d by (simp add: unique_jobs_def distinct_map)
  then have ds: "distinct (map fst (map (\<lambda>j. (j, ())) snap))"
    by (simp add: assms(3) distinct_snapshot comp_def)
  let ?P = "\<lambda>j. P j \<and> \<not> skip (jid j)"
  have "fst q \<in> set (jobs d) \<and> ?P (fst q) \<and> \<not> ?P (f (fst q))"
    if "q \<in> set (map (\<lambda>j. (j, ())) snap)" for q
    using that set_snapshot[of "fst q" P key skip n "jobs d"] f(2)[of "fst q"] assms(3) by auto
  from upd_from_backlog[OF d[unfolded unique_jobs_def] ds, of ?P "\<lambda>_. f", OF this]
  show "owed P skip d = k + owed P skip d'"
    by (simp add: owed_def assms(2,4))
  show "min n (owed P skip d) \<le> k" "k \<le> 1 * n"
    by (simp_all add: assms(2,3) length_snapshot owed_def)
qed

lemma validate_positive_Inr [simp]: "validate_positive v = Inr u \<longleftrightarrow> 1 \<le> v"
  by (auto simp: validate_positive_def)

lemma sweep_3_cases:
  assumes "sweep_scheduled_to_pending ts skip n tm d = Inr (k, d')"
  shows "1 \<le> n" "k = length (snapshot (\<lambda>j. status j = Scheduled \<and> scheduled_at j \<le> ts) scheduled_at skip (nat n) (jobs d))"
    "d' = upd_from (map (\<lambda>j. (j, ())) (snapshot (\<lambda>j. status j = Scheduled \<and> scheduled_at j \<le> ts) scheduled_at skip (nat n) (jobs d)))
            (\<lambda>_ j. j\<lparr>status := Pending\<rparr>) d"
  using assms by (auto simp: sweep_scheduled_to_pending_def bindE_Inr_iff Let_def)

lemma promote_laws:
  assumes "unique_jobs d" "sweep_scheduled_to_pending ts skip n tm d = Inr (k, d')"
  defines "P \<equiv> \<lambda>j. status j = Scheduled \<and> scheduled_at j \<le> ts"
  shows "unique_jobs d' \<and> owed P skip d = k + owed P skip d'
    \<and> min (nat n) (owed P skip d) \<le> k \<and> k \<le> 1 * nat n"
  unfolding P_def
  by (rule snapshot_sweep_laws[OF assms(1) sweep_3_cases(2)[OF assms(2)] refl,
        where f = "\<lambda>j. j\<lparr>status := Pending\<rparr>"])
    (simp_all add: sweep_3_cases(3)[OF assms(2)])

interpretation promote: bounded_sweep
  "\<lambda>(ts, skip, n, tm). sweep_scheduled_to_pending ts skip n tm"
  "\<lambda>(ts, skip, n, tm). owed (\<lambda>j. status j = Scheduled \<and> scheduled_at j \<le> ts) skip"
  "\<lambda>(ts, skip, n, tm). nat n" 1 unique_jobs
proof (rule bounded_sweepI, goal_cases)
  case (1 p d k d')
  then show ?case unfolding case_prod_unfold by (rule promote_laws)
next
  case (2 p d k d')
  then show ?case by (cases p) (auto dest: sweep_3_cases(1))
qed


text \<open>Sweep 2.\<close>

lemma sweep_2_cases:
  assumes "sweep_deadline_exceeded ts clk skip n tm d = Inr (k, d')"
  defines "snap \<equiv> snapshot (deadline_eligible ts) (\<lambda>j. null_ts (schedule_to_close j)) skip (nat n) (jobs d)"
  shows "1 \<le> n" "k = length snap"
    "jobs d' = jobs (upd_from (map (\<lambda>j. (j, ())) snap) (\<lambda>_. sweep_2_set clk) d)"
    "encodable_params (map (sweep_2_param clk) snap)"
  using assms(1) unfolding snap_def
  by (auto simp: sweep_deadline_exceeded_def bindE_Inr_iff Let_def split: if_splits)

lemma deadline_laws:
  assumes "unique_jobs d" "sweep_deadline_exceeded ts clk skip n tm d = Inr (k, d')"
  shows "unique_jobs d' \<and> owed (deadline_eligible ts) skip d = k + owed (deadline_eligible ts) skip d'
    \<and> min (nat n) (owed (deadline_eligible ts) skip d) \<le> k \<and> k \<le> 1 * nat n"
  by (rule snapshot_sweep_laws[OF assms(1) sweep_2_cases(2)[OF assms(2)] refl,
        where f = "sweep_2_set clk"])
    (simp_all add: sweep_2_cases(3)[OF assms(2)] sweep_2_set_def deadline_eligible_def)

interpretation deadline: bounded_sweep
  "\<lambda>(ts, clk, skip, n, tm). sweep_deadline_exceeded ts clk skip n tm"
  "\<lambda>(ts, clk, skip, n, tm). owed (deadline_eligible ts) skip"
  "\<lambda>(ts, clk, skip, n, tm). nat n" 1 unique_jobs
proof (rule bounded_sweepI, goal_cases)
  case (1 p d k d')
  then show ?case unfolding case_prod_unfold by (rule deadline_laws)
next
  case (2 p d k d')
  then show ?case by (cases p) (auto dest: sweep_2_cases(1))
qed

text \<open>Sweep 1.  The arms are disjoint, so no row is snapshotted twice.\<close>

definition reclaimable :: "timestamptz \<Rightarrow> interval \<Rightarrow> interval \<Rightarrow> job \<Rightarrow> bool" where
  "reclaimable ts cg ug j \<longleftrightarrow> lease_arm ts cg ug j \<or> heartbeat_arm ts cg ug j"

lemma arms_disjoint: "lease_arm ts cg ug j \<Longrightarrow> \<not> heartbeat_arm ts cg ug j"
  by (auto simp: lease_arm_def heartbeat_arm_def sql_rel_iff)

lemma set_sweep_1_snap:
  assumes "p \<in> set (sweep_1_snap ts skip cg ug n d)"
  shows "fst p \<in> set (jobs d)" "reclaimable ts cg ug (fst p)" "\<not> skip (jid (fst p))"
    "snd p = LockExpired \<longleftrightarrow> lease_arm ts cg ug (fst p)" "status (fst p) = Running"
  using assms arms_disjoint[of ts cg ug "fst p"]
  by (auto simp: sweep_1_snap_def reclaimable_def lease_arm_def heartbeat_arm_def dest!: set_snapshot)

lemma distinct_sweep_1_snap:
  assumes "distinct (jobs d)" shows "distinct (map fst (sweep_1_snap ts skip cg ug n d))"
proof -
  have "set (snapshot (lease_arm ts cg ug) k1 skip n (jobs d))
      \<inter> set (snapshot (heartbeat_arm ts cg ug) k2 skip n (jobs d)) = {}" for k1 k2
    using arms_disjoint by (blast dest: set_snapshot)
  then show ?thesis
    by (simp add: sweep_1_snap_def comp_def distinct_snapshot[OF assms])
qed

lemma length_sweep_1_snap:
  "length (sweep_1_snap ts skip cg ug n d)
   = min n (owed (lease_arm ts cg ug) skip d) + min n (owed (heartbeat_arm ts cg ug) skip d)"
  by (simp add: sweep_1_snap_def length_snapshot owed_def)

lemma owed_reclaimable:
  "owed (reclaimable ts cg ug) skip d
   = owed (lease_arm ts cg ug) skip d + owed (heartbeat_arm ts cg ug) skip d"
proof -
  have "(\<lambda>j. reclaimable ts cg ug j \<and> \<not> skip (jid j))
      = (\<lambda>j. (lease_arm ts cg ug j \<and> \<not> skip (jid j)) \<or> (heartbeat_arm ts cg ug j \<and> \<not> skip (jid j)))"
    by (auto simp: reclaimable_def)
  then show ?thesis
    unfolding owed_def using length_filter_arms[of "jobs d"] arms_disjoint by auto
qed

lemma sweep_1_cases:
  assumes "sweep_expired_locks md5 ts clk skip cg ug n tm mb d = Inr (k, d')"
  defines "snap \<equiv> sweep_1_snap ts skip cg ug (nat n) d"
    and "f \<equiv> sweep_1_set md5 clk (total_seconds rnd64 mb)"
  shows "1 \<le> n" "k = length snap" "jobs d' = jobs (upd_from snap f d)"
    "encodable_params (map (sweep_1_param clk) snap)"
    "job_events d' = job_events (insert_events_batch (clk 4) ''state_change''
       (map (\<lambda>p. (jid (fst p), sweep_1_detail (status (f (snd p) (fst p))) p)) snap) d)"
    "job_attempts d' = job_attempts (fold (sweep_1_attempt (clk 3))
       (enumerate 0 (map (sweep_1_param clk) snap)) (upd_from snap f d))"
  using assms(1) unfolding snap_def f_def
  by (auto simp: sweep_expired_locks_def bindE_Inr_iff Let_def job_events_batch split: if_splits)

lemma sweep_1_set_simps [simp]:
  "jid (sweep_1_set md5 clk m r j) = jid j" "attempt (sweep_1_set md5 clk m r j) = attempt j"
  "cancel_phase (sweep_1_set md5 clk m r j) = cancel_phase j"
  "claim_epoch (sweep_1_set md5 clk m r j) = claim_epoch j"
  "locked_by_worker (sweep_1_set md5 clk m r j) = None"
  "status (sweep_1_set md5 clk m r j) \<noteq> Running"
  by (simp_all add: sweep_1_set_def)

lemma reclaim_laws:
  assumes d: "unique_jobs d" and c: "sweep_expired_locks md5 ts clk skip cg ug n tm mb d = Inr (k, d')"
  defines "P \<equiv> reclaimable ts cg ug"
  shows "unique_jobs d' \<and> owed P skip d = k + owed P skip d'
    \<and> min (nat n) (owed P skip d) \<le> k \<and> k \<le> 2 * nat n"
proof (intro conjI)
  let ?snap = "sweep_1_snap ts skip cg ug (nat n) d"
  let ?f = "sweep_1_set md5 clk (total_seconds rnd64 mb)"
  let ?P = "\<lambda>j. P j \<and> \<not> skip (jid j)"
  show "unique_jobs d'" using d by (simp add: unique_jobs_def sweep_1_cases(3)[OF c] jids_upd_from)
  have ds: "distinct (map fst ?snap)"
    using d by (intro distinct_sweep_1_snap) (simp add: unique_jobs_def distinct_map)
  have "fst q \<in> set (jobs d) \<and> ?P (fst q) \<and> \<not> ?P (?f (snd q) (fst q))" if "q \<in> set ?snap" for q
    using set_sweep_1_snap[OF that] unfolding P_def
    by (auto simp: reclaimable_def lease_arm_def heartbeat_arm_def)
  from upd_from_backlog[OF d[unfolded unique_jobs_def] ds, of ?P ?f, OF this]
  show "owed P skip d = k + owed P skip d'"
    by (simp add: owed_def sweep_1_cases(2,3)[OF c])
  show "min (nat n) (owed P skip d) \<le> k" "k \<le> 2 * nat n"
    by (simp_all add: sweep_1_cases(2)[OF c] length_sweep_1_snap P_def owed_reclaimable)
qed

interpretation reclaim: bounded_sweep
  "\<lambda>(md5, ts, clk, skip, cg, ug, n, tm, mb). sweep_expired_locks md5 ts clk skip cg ug n tm mb"
  "\<lambda>(md5, ts, clk, skip, cg, ug, n, tm, mb). owed (reclaimable ts cg ug) skip"
  "\<lambda>(md5, ts, clk, skip, cg, ug, n, tm, mb). nat n" 2 unique_jobs
proof (rule bounded_sweepI, goal_cases)
  case (1 p d k d')
  then show ?case unfolding case_prod_unfold by (rule reclaim_laws)
next
  case (2 p d k d')
  then show ?case by (cases p) (auto dest: sweep_1_cases(1))
qed


text \<open>
  The single-statement sweeps find their window again through its keys, with
  part of the eligibility predicate re-checked.
\<close>

lemma keyed_update:
  assumes d: "distinct (map key rows)" and snap: "set snap \<subseteq> set (filter P rows)" "distinct snap"
    and P: "\<And>s. P s \<Longrightarrow> Q s" "\<And>s. P s \<Longrightarrow> \<not> P (g s)"
  defines "hit \<equiv> \<lambda>s. key s \<in> set (map key snap) \<and> Q s"
  shows "length (filter hit rows) = length snap"
    "length (filter P rows) = length snap + length (filter P (upd_where hit g rows))"
proof -
  have ds: "distinct rows" "inj_on key (set rows)" using d by (simp_all add: distinct_map)
  have hit: "hit s \<longleftrightarrow> s \<in> set snap" if "s \<in> set rows" for s
  proof
    assume "hit s"
    then obtain t where t: "t \<in> set snap" "key t = key s" by (auto simp: hit_def)
    have "t = s" by (rule inj_onD[OF ds(2) t(2)]) (use t snap that in auto)
    then show "s \<in> set snap" using t by simp
  next
    assume "s \<in> set snap"
    then show "hit s" using snap P(1) by (auto simp: hit_def)
  qed
  have "set (filter hit rows) = set snap" using hit snap by auto
  then show "length (filter hit rows) = length snap"
    using distinct_card[OF snap(2)] distinct_card[OF distinct_filter[OF ds(1), of hit]] by simp
  show "length (filter P rows) = length snap + length (filter P (upd_where hit g rows))"
    unfolding upd_where_def
    by (rule length_filter_moved[OF ds(1) snap(2)]) (use hit snap P(2) in auto)
qed

text \<open>Sweep 4.\<close>

definition freed :: "slot_row \<Rightarrow> slot_row" where
  "freed s = s\<lparr>s_job_id := None, s_held_by := None, s_acquired_at := None, s_lease_expires_at := None\<rparr>"

lemma slots_laws:
  assumes d: "distinct (map slot_key slots)"
    and c: "sweep_leaked_reservation_slots ts n slots = Inr (k, slots')"
  shows "distinct (map slot_key slots')
    \<and> length (filter (leaked_slot ts) slots) = k + length (filter (leaked_slot ts) slots')
    \<and> min (nat n) (length (filter (leaked_slot ts) slots)) \<le> k \<and> k \<le> 1 * nat n"
proof -
  let ?snap = "take (nat n) (sort_key (\<lambda>s. null_ts (s_lease_expires_at s)) (filter (leaked_slot ts) slots))"
  let ?hit = "\<lambda>s. slot_key s \<in> set (map slot_key ?snap) \<and> s_job_id s \<noteq> None"
  have c': "k = length (filter ?hit slots)" "slots' = upd_where ?hit freed slots"
    using c by (auto simp: sweep_leaked_reservation_slots_def sweep_4_sql_def bindE_Inr_iff Let_def freed_def[abs_def])
  have snap: "set ?snap \<subseteq> set (filter (leaked_slot ts) slots)" "distinct ?snap"
    using d set_take_subset[of "nat n"] by (fastforce simp: distinct_map)+
  have laws: "length (filter ?hit slots) = length ?snap"
    "length (filter (leaked_slot ts) slots)
       = length ?snap + length (filter (leaked_slot ts) (upd_where ?hit freed slots))"
    by (rule keyed_update[OF d snap, where g = freed]; simp add: leaked_slot_def freed_def)+
  have "k = min (nat n) (length (filter (leaked_slot ts) slots))"
    unfolding c'(1) laws(1) by (simp add: min.commute)
  moreover have "distinct (map slot_key slots')"
    using d by (simp add: c'(2) keys_upd_where slot_key_def freed_def)
  moreover have "length (filter (leaked_slot ts) slots) = k + length (filter (leaked_slot ts) slots')"
    using laws by (simp only: c')
  ultimately show ?thesis by simp
qed

interpretation slots: bounded_sweep
  "\<lambda>(ts, n). sweep_leaked_reservation_slots ts n" "\<lambda>(ts, n) ss. length (filter (leaked_slot ts) ss)"
  "\<lambda>(ts, n). nat n" 1 "\<lambda>ss. distinct (map slot_key ss)"
proof (rule bounded_sweepI, goal_cases)
  case (1 p ss k ss')
  then show ?case unfolding case_prod_unfold by (rule slots_laws)
next
  case (2 p ss k ss')
  then show ?case by (cases p) (auto simp: sweep_leaked_reservation_slots_def sweep_4_sql_def bindE_Inr_iff)
qed

text \<open>Expired results.\<close>

definition without_result :: "job \<Rightarrow> job" where
  "without_result j = j\<lparr>result := None, result_size_bytes := None\<rparr>"

lemma join_waits_on_same:
  assumes "jobs d' = upd_where hit without_result (jobs d)"
  shows "result_expired ts we d' = result_expired ts we d"
proof -
  have sel: "jid (if hit c then without_result c else c) = jid c"
    "status (if hit c then without_result c else c) = status c"
    "deps_pending (if hit c then without_result c else c) = deps_pending c"
    "metadata (if hit c then without_result c else c) = metadata c" for c
    by (simp_all add: without_result_def)
  have "join_waits_on es d' i = join_waits_on es d i" for es i
    by (simp only: join_waits_on_def assms set_upd_where bex_simps sel)
  then show ?thesis by (intro ext) (simp add: result_expired_def split: option.split)
qed

lemma results_laws:
  assumes d: "unique_jobs d" and c: "sweep_expired_results ts we n d = Inr (k, d')"
  shows "unique_jobs d'
    \<and> length (filter (result_expired ts we d) (jobs d)) = k + length (filter (result_expired ts we d') (jobs d'))
    \<and> min (nat n) (length (filter (result_expired ts we d) (jobs d))) \<le> k \<and> k \<le> 1 * nat n"
proof -
  let ?E = "result_expired ts we d"
  let ?snap = "take (nat n) (filter ?E (jobs d))"
  let ?hit = "\<lambda>j. jid j \<in> set (map jid ?snap) \<and> result j \<noteq> None"
  have c': "k = length (filter ?hit (jobs d))" "d' = d\<lparr>jobs := upd_where ?hit without_result (jobs d)\<rparr>"
    using c by (auto simp: sweep_expired_results_def bindE_Inr_iff Let_def without_result_def[abs_def])
  have jd: "jobs d' = upd_where ?hit without_result (jobs d)" unfolding c'(2) by simp
  have E': "result_expired ts we d' = ?E" by (rule join_waits_on_same[OF jd])
  have snap: "set ?snap \<subseteq> set (filter ?E (jobs d))" "distinct ?snap"
    using d by (simp_all only: set_take_subset unique_jobs_def distinct_map distinct_take distinct_filter)
  have laws: "length (filter ?hit (jobs d)) = length ?snap"
    "length (filter ?E (jobs d)) = length ?snap + length (filter ?E (upd_where ?hit without_result (jobs d)))"
    by (rule keyed_update[OF d[unfolded unique_jobs_def] snap, where g = without_result];
        simp add: result_expired_def without_result_def)+
  have kS: "k = length ?snap" using c'(1) laws(1) by (rule trans)
  then have "k = min (nat n) (length (filter ?E (jobs d)))" by (simp add: min.commute)
  moreover have "unique_jobs d'"
    using d unfolding unique_jobs_def jd
    by (subst keys_upd_where[where key = jid]) (simp_all add: without_result_def)
  moreover have "length (filter ?E (jobs d)) = k + length (filter ?E (jobs d'))"
    using laws(2) unfolding kS jd .
  ultimately show ?thesis unfolding E' by simp
qed

interpretation results: bounded_sweep
  "\<lambda>(ts, we, n). sweep_expired_results ts we n"
  "\<lambda>(ts, we, n) d. length (filter (result_expired ts we d) (jobs d))"
  "\<lambda>(ts, we, n). nat n" 1 unique_jobs
proof (rule bounded_sweepI, goal_cases)
  case (1 p d k d')
  then show ?case unfolding case_prod_unfold by (rule results_laws)
next
  case (2 p d k d')
  then show ?case by (cases p) (auto simp: sweep_expired_results_def bindE_Inr_iff)
qed


text \<open>Event retention: the state is the prune watermark and the tables.\<close>

definition deletable_event :: "timestamptz \<Rightarrow> timestamptz option \<Rightarrow> interval \<Rightarrow> event_row \<Rightarrow> bool" where
  "deletable_event ts fl retention e \<longleftrightarrow> above_floor fl e \<and>
     (if is_outbox e then e_occurred_at e < ts - retention * RECLAIM_OUTBOX_RETENTION_MULTIPLIER
      else e_occurred_at e < ts - retention)"

lemma set_event_window: "i \<in> set (event_window P n es) \<Longrightarrow> \<exists>e\<in>set es. P e \<and> e_id e = i"
  by (auto simp: event_window_def dest!: in_set_takeD)

lemma distinct_event_window: "distinct (map e_id es) \<Longrightarrow> distinct (event_window P n es)"
proof -
  assume d: "distinct (map e_id es)"
  then have "distinct es" "inj_on e_id (set es)" by (simp_all add: distinct_map)
  moreover have "set (take n (sort_key k (filter P es))) \<subseteq> set es" for k :: "event_row \<Rightarrow> int \<times> int"
    by (auto dest!: in_set_takeD)
  ultimately show ?thesis
    by (simp add: event_window_def distinct_map inj_on_subset)
qed

lemma length_event_window: "length (event_window P n es) = min n (length (filter P es))"
  by (simp add: event_window_def min.commute)

lemma events_to_delete_ids:
  assumes "i \<in> set (events_to_delete ts fl ret n es)"
  shows "\<exists>e\<in>set es. deletable_event ts fl ret e \<and> e_id e = i"
  using assms by (fastforce simp: events_to_delete_def deletable_event_def dest!: set_event_window)

lemma distinct_events_to_delete:
  assumes "distinct (map e_id es)" shows "distinct (events_to_delete ts fl ret n es)"
proof -
  have "inj_on e_id (set es)" using assms by (simp add: distinct_map)
  then show ?thesis
    unfolding events_to_delete_def distinct_append
    by (fastforce simp: distinct_event_window[OF assms] dest!: set_event_window dest: inj_onD)
qed

lemma length_events_to_delete:
  "min n (length (filter (deletable_event ts fl ret) es)) \<le> length (events_to_delete ts fl ret n es)"
  "length (events_to_delete ts fl ret n es) \<le> 2 * n"
proof -
  let ?A = "\<lambda>e. e_occurred_at e < ts - ret \<and> above_floor fl e \<and> \<not> is_outbox e"
  let ?B = "\<lambda>e. is_outbox e \<and> e_occurred_at e < ts - ret * RECLAIM_OUTBOX_RETENTION_MULTIPLIER
         \<and> above_floor fl e"
  have "deletable_event ts fl ret = (\<lambda>e. ?A e \<or> ?B e)"
    by (rule ext) (auto simp: deletable_event_def)
  then have "length (filter (deletable_event ts fl ret) es) = length (filter ?A es) + length (filter ?B es)"
    using length_filter_arms[of es ?A ?B] by simp
  then show "min n (length (filter (deletable_event ts fl ret) es)) \<le> length (events_to_delete ts fl ret n es)"
    "length (events_to_delete ts fl ret n es) \<le> 2 * n"
    by (simp_all add: events_to_delete_def length_event_window)
qed

lemma events_laws:
  assumes d: "distinct (map e_id (job_events d))"
    and c: "sweep_expired_events ts fl ret n w d = Inr (k, w', d')"
  shows "distinct (map e_id (job_events d'))
    \<and> length (filter (deletable_event ts fl ret) (job_events d))
        = k + length (filter (deletable_event ts fl ret) (job_events d'))
    \<and> min (nat n) (length (filter (deletable_event ts fl ret) (job_events d))) \<le> k \<and> k \<le> 2 * nat n"
proof -
  let ?es = "job_events d" let ?D = "deletable_event ts fl ret"
  define del where "del = events_to_delete ts fl ret (nat n) ?es"
  have c': "k = length (filter (\<lambda>e. e_id e \<in> set del) ?es)"
      "job_events d' = filter (\<lambda>e. e_id e \<notin> set del) ?es"
    using c by (auto simp: sweep_expired_events_def bindE_Inr_iff Let_def del_def split: if_splits)
  have inj: "inj_on e_id (set ?es)" and ds: "distinct ?es" using d by (simp_all add: distinct_map)
  have D: "?D e" if "e \<in> set ?es" "e_id e \<in> set del" for e
    using events_to_delete_ids[of "e_id e" ts fl ret "nat n" ?es] inj_onD[OF inj] that
    by (auto simp: del_def)
  have "e_id ` set (filter (\<lambda>e. e_id e \<in> set del) ?es) = set del"
    using events_to_delete_ids[of _ ts fl ret "nat n" ?es] by (fastforce simp: del_def)
  then have k: "k = length del"
    using card_image[OF inj_on_subset[OF inj, of "set (filter (\<lambda>e. e_id e \<in> set del) ?es)"]]
      distinct_card[OF distinct_events_to_delete[OF d, of ts fl ret "nat n"]]
      distinct_card[OF distinct_filter[OF ds, of "\<lambda>e. e_id e \<in> set del"]]
    by (auto simp: c' del_def)
  have split: "length (filter ?D xs) = length (filter (\<lambda>e. ?D e \<and> e_id e \<in> set del) xs)
      + length (filter (\<lambda>e. ?D e \<and> e_id e \<notin> set del) xs)" for xs
    by (induction xs) auto
  have "filter (\<lambda>e. ?D e \<and> e_id e \<in> set del) ?es = filter (\<lambda>e. e_id e \<in> set del) ?es"
    using D by (intro filter_cong) auto
  then have "length (filter ?D ?es) = k + length (filter ?D (job_events d'))"
    using split[of ?es] by (simp add: c' conj_commute)
  moreover have "distinct (map e_id (job_events d'))"
    using distinct_map_filter[OF d] by (simp add: c'(2))
  ultimately show ?thesis
    using length_events_to_delete(1)[of "nat n" ts fl ret ?es]
      length_events_to_delete(2)[where n = "nat n" and es = ?es] k by (simp add: del_def)
qed

interpretation events: bounded_sweep
  "\<lambda>(ts, fl, ret, n) s. sweep_expired_events ts fl ret n (fst s) (snd s)"
  "\<lambda>(ts, fl, ret, n) s. length (filter (deletable_event ts fl ret) (job_events (snd s)))"
  "\<lambda>(ts, fl, ret, n). nat n" 2 "\<lambda>s. distinct (map e_id (job_events (snd s)))"
proof (rule bounded_sweepI, goal_cases)
  case (1 p s k s')
  then show ?case unfolding case_prod_unfold
    by (intro events_laws[of "snd s" _ _ _ _ "fst s" k "fst s'" "snd s'"]) simp_all
next
  case (2 p s k s')
  then show ?case by (cases p) (auto simp: sweep_expired_events_def bindE_Inr_iff)
qed

section \<open>Properties\<close>

lemma promote_call:
  "1 \<le> n \<Longrightarrow> 1 \<le> tm \<Longrightarrow> \<exists>k d'. sweep_scheduled_to_pending ts skip n tm d = Inr (k, d')"
  by (simp add: sweep_scheduled_to_pending_def bindE_def validate_positive_def Let_def)

lemma owed_zero: "owed P skip d = 0 \<longleftrightarrow> (\<forall>j\<in>set (jobs d). P j \<longrightarrow> skip (jid j))"
  by (auto simp: owed_def filter_empty_conv)

text \<open>
  The leader's drain promotes every due job.  With a valid batch size and
  timeout the loop ends without an error, and when its calls cover the
  backlog, no job stays scheduled past its time except the rows other
  transactions hold locked.
\<close>

theorem promotion_drains:
  assumes "unique_jobs d" "1 \<le> n" "1 \<le> tm"
    and "owed (\<lambda>j. status j = Scheduled \<and> scheduled_at j \<le> ts) skip d \<le> m * nat n"
  shows "\<exists>d'. drain_bounded transient (\<lambda>_. sweep_scheduled_to_pending ts skip n tm)
        (replicate m (True, ())) d = (Inr True, d')
    \<and> (\<forall>j\<in>set (jobs d'). status j = Scheduled \<and> scheduled_at j \<le> ts \<longrightarrow> skip (jid j))"
proof -
  let ?call = "\<lambda>(ts, skip, n, tm). sweep_scheduled_to_pending ts skip n tm"
  have "\<exists>k s'. ?call (ts, skip, n, tm) s = Inr (k, s') \<and> unique_jobs s'" if "unique_jobs s" for s
    using promote_call[OF assms(2,3), of ts skip s] promote_laws[OF that] by auto
  from drain_total[of unique_jobs ?call, OF this assms(1)]
  obtain d' where r: "drain_bounded transient ?call (replicate m (True, ts, skip, n, tm)) d = (Inr True, d')"
    by blast
  from promote.drain_removes[OF assms(1) r] assms(4)
  have "owed (\<lambda>j. status j = Scheduled \<and> scheduled_at j \<le> ts) skip d' = 0" by simp
  then show ?thesis
    using r drain_replicate[of transient ?call "(ts, skip, n, tm)" m d] by (auto simp: owed_zero)
qed

definition scheduled_db :: db where
  "scheduled_db = sample_db\<lparr>jobs := [sample_job\<lparr>status := Scheduled, locked_by_worker := None\<rparr>]\<rparr>"

lemma promotion_drains_witness:
  "\<exists>d'. drain_bounded (\<lambda>_. True) (\<lambda>_. sweep_scheduled_to_pending 5 (\<lambda>_. False) 1 1)
        [(True, ())] scheduled_db = (Inr True, d')
    \<and> (\<exists>j\<in>set (jobs scheduled_db). status j = Scheduled \<and> scheduled_at j \<le> 5)
    \<and> \<not> (\<exists>j\<in>set (jobs d'). status j = Scheduled \<and> scheduled_at j \<le> 5)"
  using promotion_drains[of scheduled_db 1 1 5 "\<lambda>_. False" "Suc 0" "\<lambda>_. True"]
  by (auto simp: scheduled_db_def unique_jobs_def owed_def)

lemma reclaim_call:
  assumes "1 \<le> n" "1 \<le> tm" "\<forall>j\<in>set (jobs d). encodable_params [sweep_1_param clk (j, LockExpired)]"
  shows "\<exists>k d'. sweep_expired_locks md5 ts clk skip cg ug n tm mb d = Inr (k, d')"
proof -
  let ?snap = "sweep_1_snap ts skip cg ug (nat n) d"
  have "encodable_params (map (sweep_1_param clk) ?snap)"
    using assms(3) set_sweep_1_snap(1)[of _ ts skip cg ug "nat n" d]
    by (fastforce simp: encodable_params_def list_all_iff sweep_1_param_def Let_def)
  then show ?thesis
    using assms(1,2) by (simp add: sweep_expired_locks_def bindE_def validate_positive_def Let_def)
qed

lemma started_at_moved: "started_at (moved snap (sweep_1_set md5 clk m) j) = started_at j"
  by (simp add: moved_def sweep_1_set_def split: option.split)

lemma reclaim_keeps_encodable:
  assumes "sweep_expired_locks md5 ts clk skip cg ug n tm mb d = Inr (k, d')"
    "\<forall>j\<in>set (jobs d). encodable_params [sweep_1_param clk (j, LockExpired)]"
  shows "\<forall>j\<in>set (jobs d'). encodable_params [sweep_1_param clk (j, LockExpired)]"
proof
  fix r assume "r \<in> set (jobs d')"
  then obtain j where j: "j \<in> set (jobs d)" "r = moved (sweep_1_snap ts skip cg ug (nat n) d)
      (sweep_1_set md5 clk (total_seconds rnd64 mb)) j"
    by (auto simp: sweep_1_cases(3)[OF assms(1)] jobs_upd_from)
  then have "started_at r = started_at j \<and> jid r = jid j"
    by (simp add: started_at_moved jid_moved)
  then show "encodable_params [sweep_1_param clk (r, LockExpired)]"
    using assms(2) j(1) by (simp add: encodable_params_def sweep_1_param_def Let_def)
qed

definition expired_db :: db where
  "expired_db = sample_db\<lparr>jobs := [sample_job\<lparr>lock_expires_at := Some 1500000\<rparr>]\<rparr>"

lemma expired_encodable:
  "\<forall>j\<in>set (jobs expired_db). encodable_params [sweep_1_param (\<lambda>_ _. 2001000) (j, LockExpired)]"
proof -
  have "total_seconds rnd64 2000000 = 2"
    using f64.total_seconds_whole[of 2] by (simp add: seconds_def usec_per_sec_def)
  moreover have "rnd64 2000 = 2000" using rnd64_int[of 2000] by simp
  ultimately show ?thesis
    by (simp add: expired_db_def encodable_params_def sweep_1_param_def Let_def compute_duration_ms_def
        py_int_def int4_min_def int4_max_def)
qed

lemma expired_owed: "owed (reclaimable 2001000 0 0) (\<lambda>_. False) expired_db = 1"
  by (simp add: owed_def expired_db_def reclaimable_def lease_arm_def sql_rel_iff)


lemma reclaim_ledger_keys:
  "att_key ` set (job_attempts (fold (sweep_1_attempt now) (enumerate m ps) d))
   = att_key ` set (job_attempts d)
     \<union> (\<lambda>p. (ap_job p, ap_attempt p)) ` {p \<in> set ps. ap_started p \<noteq> None}"
proof (induction ps arbitrary: m d)
  case (Cons p ps)
  have "att_key ` set (job_attempts (sweep_1_attempt now (m, p) d)) = att_key ` set (job_attempts d)
      \<union> (if ap_started p = None then {} else {(ap_job p, ap_attempt p)})"
    by (auto simp: sweep_1_attempt_def Let_def ins_new_def row_by_None_iff att_key_def split: option.split)
  then show ?case by (auto simp: Cons)
qed simp

lemma batch_event:
  assumes "(i, det) \<in> set rows"
  shows "\<exists>e\<in>set (job_events (insert_events_batch now kind rows d)).
    e_job_id e = i \<and> e_kind e = kind \<and> e_detail e = det"
proof -
  have "(i, det) \<in> set (map snd (enumerate 0 rows))" using assms by simp
  then obtain q where "(q, i, det) \<in> set (enumerate 0 rows)" unfolding set_map by auto
  then show ?thesis unfolding job_events_batch by force
qed

lemma is_outbox_reclaimed:
  "e_kind e = ''state_change'' \<Longrightarrow> e_detail e = sweep_1_detail st p \<Longrightarrow> is_outbox e"
  by (simp add: is_outbox_def sweep_1_detail_def state_change_detail_def jsonb_build_object_def
      split: option.split)

lemma reclaim_row:
  assumes d: "unique_jobs d" and c: "sweep_expired_locks md5 ts clk skip cg ug n tm mb d = Inr (k, d')"
    and f: "find_job i d = Some j"
  shows "find_job i d' = Some j \<or> (\<exists>p\<in>set (sweep_1_snap ts skip cg ug (nat n) d). fst p = j
    \<and> find_job i d' = Some (sweep_1_set md5 clk (total_seconds rnd64 mb) (snd p) j))"
proof -
  let ?snap = "sweep_1_snap ts skip cg ug (nat n) d"
  let ?f = "sweep_1_set md5 clk (total_seconds rnd64 mb)"
  have f': "find_job i d' = Some (moved ?snap ?f j)"
    using find_job_upd_from[of ?f i ?snap d] f by (simp add: find_job_def sweep_1_cases(3)[OF c])
  show ?thesis
  proof (cases "j \<in> fst ` set ?snap")
    case False
    have "moved ?snap ?f j = j"
      by (rule moved_notin[OF d[unfolded unique_jobs_def] _ find_job_in[OF f] False])
        (simp add: set_sweep_1_snap(1))
    then show ?thesis using f' by simp
  next
    case True
    then obtain p where p: "p \<in> set ?snap" "j = fst p" by blast
    have inj: "inj_on jid (set (jobs d))" and dj: "distinct (jobs d)"
      using d by (simp_all add: unique_jobs_def distinct_map)
    have "distinct (map jid (map fst ?snap))"
      using distinct_sweep_1_snap[OF dj] set_sweep_1_snap(1)
      by (subst distinct_map) (auto intro!: inj_on_subset[OF inj])
    then have "moved ?snap ?f (fst p) = ?f (snd p) (fst p)"
      by (intro moved_in[OF _ p(1)]) (simp add: comp_def)
    then show ?thesis using f' p by auto
  qed
qed

lemma reclaim_traces:
  assumes c: "sweep_expired_locks md5 ts clk skip cg ug n tm mb d = Inr (k, d')"
    and p: "p \<in> set (sweep_1_snap ts skip cg ug (nat n) d)"
  shows "started_at (fst p) \<noteq> None \<Longrightarrow> (jid (fst p), attempt (fst p)) \<in> att_key ` set (job_attempts d')"
    "\<exists>e\<in>set (job_events d'). e_job_id e = jid (fst p) \<and> is_outbox e"
proof -
  let ?f = "sweep_1_set md5 clk (total_seconds rnd64 mb)"
  assume "started_at (fst p) \<noteq> None"
  then show "(jid (fst p), attempt (fst p)) \<in> att_key ` set (job_attempts d')"
    using p unfolding sweep_1_cases(6)[OF c] reclaim_ledger_keys
    by (intro UnI2 image_eqI[of _ _ "sweep_1_param clk p"]) (simp_all add: sweep_1_param_def Let_def)
next
  let ?f = "sweep_1_set md5 clk (total_seconds rnd64 mb)"
  have "(jid (fst p), sweep_1_detail (status (?f (snd p) (fst p))) p) \<in> set (map (\<lambda>p. (jid (fst p),
      sweep_1_detail (status (?f (snd p) (fst p))) p)) (sweep_1_snap ts skip cg ug (nat n) d))"
    using imageI[OF p, of "\<lambda>p. (jid (fst p), sweep_1_detail (status (?f (snd p) (fst p))) p)"]
    by (simp only: set_map)
  from batch_event[OF this, of "clk 4" "''state_change''" d]
  show "\<exists>e\<in>set (job_events d'). e_job_id e = jid (fst p) \<and> is_outbox e"
    unfolding sweep_1_cases(5)[OF c] using is_outbox_reclaimed by blast
qed

text \<open>
  C35: what a reclaim does to a row.  A row changes only if it ran with an
  expired lease or a lapsed heartbeat and was not locked; a row whose holder is
  alive is left as it was.  A reclaimed row with a cancel request becomes
  cancelled; otherwise it goes back to pending at least a second ahead while
  its budget lasts and is crashed when it is spent.  Its attempt and epoch are
  unchanged and no claim passes its fence; if it was dispatched its attempt is
  in the ledger; and an event tagged for the outbox records the reclaim.
\<close>

theorem reclaim_effect:
  assumes d: "unique_jobs d" and c: "sweep_expired_locks md5 ts clk skip cg ug n tm mb d = Inr (k, d')"
    and f: "find_job i d = Some j"
  shows "find_job i d' = Some j \<or>
    (lease_arm ts cg ug j \<or> heartbeat_arm ts cg ug j) \<and> \<not> skip i \<and> (\<exists>r. find_job i d' = Some r
      \<and> status r = (if cancel_phase j \<noteq> 0 then Cancelled
                    else if RECLAIM_HAS_BUDGET j then Pending else Crashed)
      \<and> (status r = Pending \<longrightarrow> clk 0 i + usec_per_sec \<le> scheduled_at r)
      \<and> attempt r = attempt j \<and> claim_epoch r = claim_epoch j \<and> (\<forall>c. \<not> JOB_FENCE c r)
      \<and> (started_at j \<noteq> None \<longrightarrow> (i, attempt j) \<in> att_key ` set (job_attempts d'))
      \<and> (\<exists>e\<in>set (job_events d'). e_job_id e = i \<and> is_outbox e))"
  using reclaim_row[OF assms]
proof (elim disjE bexE conjE)
  fix p assume p: "p \<in> set (sweep_1_snap ts skip cg ug (nat n) d)" "fst p = j"
    and f': "find_job i d' = Some (sweep_1_set md5 clk (total_seconds rnd64 mb) (snd p) j)" (is "_ = Some ?r")
  have "clk 0 i + usec_per_sec \<le> scheduled_at ?r" if "status ?r = Pending"
    using that find_job_jid[OF f] f64.pg_seconds_ge[OF f64.reclaim_delay_floor]
    by (simp add: sweep_1_set_def RECLAIM_DELAY_SQL_def split: if_splits)
  moreover have "status ?r = (if cancel_phase j \<noteq> 0 then Cancelled
        else if RECLAIM_HAS_BUDGET j then Pending else Crashed)" by (simp add: sweep_1_set_def)
  moreover have "\<not> JOB_FENCE c ?r" for c by (simp add: JOB_FENCE_def)
  ultimately show ?thesis
    using f' set_sweep_1_snap(2,3)[OF p(1)] p(2) find_job_jid[OF f] reclaim_traces[OF c p(1)]
    by (intro disjI2) (simp add: reclaimable_def)
qed simp

lemma reclaim_effect_witness:
  "\<exists>k d'. sweep_expired_locks rev 2001000 (\<lambda>_ _. 2001000) (\<lambda>_. False) 0 0 5 1 60000000 expired_db
        = Inr (k, d')
     \<and> (find_job 4 d' = find_job 4 expired_db
        \<or> (\<exists>r. find_job 4 d' = Some r \<and> status r = Pending \<and> 3001000 \<le> scheduled_at r
             \<and> (4, 1) \<in> att_key ` set (job_attempts d')))"
proof -
  define j where "j = sample_job\<lparr>lock_expires_at := Some 1500000\<rparr>"
  have "unique_jobs expired_db" by (simp add: unique_jobs_def expired_db_def)
  moreover obtain k d' where c: "sweep_expired_locks rev 2001000 (\<lambda>_ _. 2001000) (\<lambda>_. False) 0 0 5 1 60000000
      expired_db = Inr (k, d')" 
    using reclaim_call[OF _ _ expired_encodable, of 5 1 rev 2001000 "\<lambda>_. False" 0 0 60000000] by auto
  moreover have f: "find_job 4 expired_db = Some j" by (simp add: find_job_def expired_db_def j_def)
  ultimately have "find_job 4 d' = Some j \<or> (\<exists>r. find_job 4 d' = Some r \<and> status r = Pending
      \<and> 3001000 \<le> scheduled_at r \<and> (4, 1) \<in> att_key ` set (job_attempts d'))"
    using reclaim_effect[of expired_db rev 2001000 "\<lambda>_ _. 2001000" "\<lambda>_. False" 0 0 5 1 60000000 k d' 4 j]
    by (auto simp: j_def RECLAIM_HAS_BUDGET_def usec_per_sec_def)
  then show ?thesis using c f by auto
qed

text \<open>
  C36: a single stale row stops the deadline sweep.  If a row in the window of
  sweep 2 carries a dispatch stamp so old that the milliseconds since then
  leave \<open>int4\<close>, the call raises and changes nothing, and the leader's drain
  loop then leaves the whole backlog as it found it.
\<close>

theorem deadline_sweep_poisoned:
  assumes "1 \<le> n" "1 \<le> tm"
    and "j \<in> set (snapshot (deadline_eligible ts) (\<lambda>j. null_ts (schedule_to_close j)) skip (nat n) (jobs d))"
    and "compute_duration_ms (started_at j) (Some (clk 1 (jid j))) = Some ms" "int4_max < ms"
  shows "sweep_deadline_exceeded ts clk skip n tm d = Inl PyDataError
    \<and> snd (drain_bounded transient (\<lambda>_. sweep_deadline_exceeded ts clk skip n tm)
         (replicate m (True, ())) d) = d"
proof -
  let ?snap = "snapshot (deadline_eligible ts) (\<lambda>j. null_ts (schedule_to_close j)) skip (nat n) (jobs d)"
  have "ap_duration (sweep_2_param clk j) = Some ms" using assms(4) by (simp add: sweep_2_param_def)
  then have "\<not> encodable_params (map (sweep_2_param clk) ?snap)"
    using assms(3,5) by (auto simp: encodable_params_def list_all_iff intro!: bexI[of _ j])
  then have e: "sweep_deadline_exceeded ts clk skip n tm d = Inl PyDataError"
    using assms(1,2) by (simp add: sweep_deadline_exceeded_def bindE_def validate_positive_def Let_def)
  then show ?thesis by (cases m) simp_all
qed

lemma deadline_sweep_poisoned_witness:
  "\<exists>d. sweep_deadline_exceeded 2147485000001000 (\<lambda>_ _. 2147485000001000) (\<lambda>_. False) 5 1 d = Inl PyDataError
    \<and> length (jobs d) = 1"
proof -
  define j where "j = sample_job\<lparr>status := Pending\<rparr>"
  define d where "d = sample_db\<lparr>jobs := [j]\<rparr>"
  have "total_seconds rnd64 2147485000000000 = 2147485000"
    using f64.total_seconds_whole[of 2147485000] by (simp add: seconds_def usec_per_sec_def)
  moreover have "rnd64 2147485000000 = 2147485000000" using rnd64_int[of 2147485000000] by simp
  ultimately have ms: "compute_duration_ms (started_at j) (Some 2147485000001000) = Some 2147485000000"
    by (simp add: compute_duration_ms_def j_def py_int_def)
  have s: "j \<in> set (snapshot (deadline_eligible 2147485000001000) (\<lambda>j. null_ts (schedule_to_close j))
      (\<lambda>_. False) (nat 5) (jobs d))"
    by (simp add: snapshot_def deadline_eligible_def d_def j_def sql_rel_iff)
  show ?thesis
    using deadline_sweep_poisoned[OF _ _ s ms, of 1] by (intro exI[of _ d]) (simp add: int4_max_def d_def)
qed

text \<open>
  Event retention is bounded and keeps the outbox.  A call deletes at most
  two batches, each event it deletes is older than the retention, an event
  tagged for the outbox only past a hundred times that, and everything else
  stays.  The prune watermark never moves back and afterwards covers every
  deleted event.
\<close>

theorem event_retention:
  assumes d: "distinct (map e_id (job_events d))"
    and c: "sweep_expired_events ts fl ret n w d = Inr (k, w', d')"
  shows "int k \<le> 2 * n \<and> k = length (job_events d) - length (job_events d')
    \<and> set (job_events d') \<subseteq> set (job_events d)
    \<and> (\<forall>e\<in>set (job_events d) - set (job_events d').
         e_occurred_at e < ts - (if is_outbox e then 100 * ret else ret) \<and> above_floor fl e
         \<and> (\<exists>p. w' = Some p \<and> e_id e \<le> pruned_through_id p))
    \<and> (\<forall>p. w = Some p \<longrightarrow> (\<exists>p'. w' = Some p' \<and> pruned_through_id p \<le> pruned_through_id p'))"
proof (intro conjI)
  let ?es = "job_events d"
  define del where "del = events_to_delete ts fl ret (nat n) ?es"
  have n: "1 \<le> n" and w': "w' = advance_watermark ts del w"
    and k: "k = length (filter (\<lambda>e. e_id e \<in> set del) ?es)"
    and es': "job_events d' = filter (\<lambda>e. e_id e \<notin> set del) ?es"
    using c by (auto simp: sweep_expired_events_def bindE_Inr_iff Let_def del_def split: if_splits)
  show "int k \<le> 2 * n" using conjunct2[OF conjunct2[OF conjunct2[OF events_laws[OF d c]]]] n by linarith
  show "k = length ?es - length (job_events d')"
    using sum_length_filter_compl[of "\<lambda>e. e_id e \<in> set del" ?es] by (simp add: k es')
  show "set (job_events d') \<subseteq> set ?es" by (auto simp: es')
  have inj: "inj_on e_id (set ?es)" using d by (simp add: distinct_map)
  show "\<forall>e\<in>set ?es - set (job_events d').
         e_occurred_at e < ts - (if is_outbox e then 100 * ret else ret) \<and> above_floor fl e
         \<and> (\<exists>p. w' = Some p \<and> e_id e \<le> pruned_through_id p)"
  proof
    fix e assume "e \<in> set ?es - set (job_events d')"
    then have e: "e \<in> set ?es" "e_id e \<in> set del" by (auto simp: es')
    then obtain e' where "e' \<in> set ?es" "deletable_event ts fl ret e'" "e_id e' = e_id e"
      using events_to_delete_ids unfolding del_def by blast
    then have "deletable_event ts fl ret e" using inj_onD[OF inj, of e' e] e by simp
    moreover have "\<exists>p. w' = Some p \<and> e_id e \<le> pruned_through_id p"
      using e(2) by (auto simp: w' advance_watermark_def Let_def greatest_def split: option.split intro: le_max_iff_disj[THEN iffD2])
    ultimately show "e_occurred_at e < ts - (if is_outbox e then 100 * ret else ret) \<and> above_floor fl e
         \<and> (\<exists>p. w' = Some p \<and> e_id e \<le> pruned_through_id p)"
      by (auto simp: deletable_event_def RECLAIM_OUTBOX_RETENTION_MULTIPLIER_def mult.commute split: if_splits)
  qed
  show "\<forall>p. w = Some p \<longrightarrow> (\<exists>p'. w' = Some p' \<and> pruned_through_id p \<le> pruned_through_id p')"
    by (auto simp: w' advance_watermark_def Let_def greatest_def)
qed

lemma event_retention_witness:
  "\<exists>k w' d'. sweep_expired_events 1000 None 10 1 None
       (sample_db\<lparr>job_events := [\<lparr>e_id = 1, e_job_id = 4, e_occurred_at = 0, e_kind = ''progress'',
                                 e_detail = Map.empty\<rparr>]\<rparr>) = Inr (k, w', d') \<and> int k \<le> 2"
proof -
  let ?d = "sample_db\<lparr>job_events := [\<lparr>e_id = 1, e_job_id = 4, e_occurred_at = 0, e_kind = ''progress'',
                                 e_detail = Map.empty\<rparr>]\<rparr>"
  obtain k w' d' where c: "sweep_expired_events 1000 None 10 1 None ?d = Inr (k, w', d')"
    by (simp add: sweep_expired_events_def bindE_def validate_positive_def Let_def)
  have "distinct (map e_id (job_events ?d))" by simp
  from event_retention[OF this c] c show ?thesis by auto
qed

text \<open>
  The result sweep clears exactly expired results.  It changes at most a
  batch of rows; a changed row had a result past its expiry on which no
  blocked join waits, and loses the result and its size and nothing else (the
  expiry stamp included).
\<close>

theorem result_sweep_effect:
  assumes d: "unique_jobs d" and c: "sweep_expired_results ts we n d = Inr (k, d')"
    and f: "find_job i d = Some j"
  shows "int k \<le> n \<and> (find_job i d' = Some j \<or>
    sql_lt (result_expires_at j) (Some ts) \<and> result j \<noteq> None
    \<and> (\<forall>edges. we = Some edges \<longrightarrow> \<not> join_waits_on edges d i)
    \<and> find_job i d' = Some (j\<lparr>result := None, result_size_bytes := None\<rparr>))"
proof
  have n: "1 \<le> n" using c by (auto simp: sweep_expired_results_def bindE_Inr_iff)
  then show "int k \<le> n" using results_laws[OF d c] by linarith
  let ?snap = "take (nat n) (filter (result_expired ts we d) (jobs d))"
  let ?hit = "\<lambda>j. jid j \<in> set (map jid ?snap) \<and> result j \<noteq> None"
  have "d' = d\<lparr>jobs := upd_where ?hit without_result (jobs d)\<rparr>"
    using c by (auto simp: sweep_expired_results_def bindE_Inr_iff Let_def without_result_def[abs_def])
  then have f': "find_job i d' = Some (if ?hit j then without_result j else j)"
    using f by (simp add: find_job_def row_by_upd_where without_result_def)
  have "result_expired ts we d j" if hit: "?hit j"
  proof -
    obtain s where s: "s \<in> set (jobs d)" "result_expired ts we d s" "jid s = jid j"
      using hit by (auto dest!: in_set_takeD)
    have "s = j" using d s(1,3) find_job_in[OF f]
      by (auto simp: unique_jobs_def distinct_map dest: inj_onD)
    then show ?thesis using s(2) by simp
  qed
  then show "find_job i d' = Some j \<or>
    sql_lt (result_expires_at j) (Some ts) \<and> result j \<noteq> None
    \<and> (\<forall>edges. we = Some edges \<longrightarrow> \<not> join_waits_on edges d i)
    \<and> find_job i d' = Some (j\<lparr>result := None, result_size_bytes := None\<rparr>)"
    unfolding f' without_result_def[symmetric] using find_job_jid[OF f]
    by (cases "?hit j") (auto simp: result_expired_def)
qed

lemma result_sweep_effect_witness:
  "\<exists>k d'. sweep_expired_results 9 None 5 (sample_db\<lparr>jobs := [sample_job\<lparr>result := Some (JNum 1), result_expires_at := Some 3\<rparr>]\<rparr>)
       = Inr (k, d') \<and> int k \<le> 5"
proof -
  let ?j = "sample_job\<lparr>result := Some (JNum 1), result_expires_at := Some 3\<rparr>"
  let ?d = "sample_db\<lparr>jobs := [?j]\<rparr>"
  obtain k d' where c: "sweep_expired_results 9 None 5 ?d = Inr (k, d')"
    by (simp add: sweep_expired_results_def bindE_def validate_positive_def Let_def)
  have "unique_jobs ?d" "find_job 4 ?d = Some ?j" by (simp_all add: unique_jobs_def find_job_def)
  from result_sweep_effect[OF this(1) c this(2)] c show ?thesis by auto
qed

definition sizer_event :: "rat option \<Rightarrow> sizer \<Rightarrow> sizer" where
  "sizer_event ev s = (case ev of None \<Rightarrow> on_success s | Some now \<Rightarrow> on_timeout now s)"

lemma sizer_event_simps [simp]:
  "sz_default_size (sizer_event ev s) = sz_default_size s" "sz_divisor (sizer_event ev s) = sz_divisor s"
  "sz_failure_threshold (sizer_event ev s) = sz_failure_threshold s"
  "sz_window_secs (sizer_event ev s) = sz_window_secs s"
  "sz_latched s \<Longrightarrow> sz_latched (sizer_event ev s)"
  by (simp_all add: sizer_event_def on_success_def on_timeout_def Let_def split: option.split)

lemma sizer_run:
  "sz_default_size (fold sizer_event evs s) = sz_default_size s"
  "sz_divisor (fold sizer_event evs s) = sz_divisor s"
  "sz_failure_threshold (fold sizer_event evs s) = sz_failure_threshold s"
  "sz_window_secs (fold sizer_event evs s) = sz_window_secs s"
  "sz_latched s \<Longrightarrow> sz_latched (fold sizer_event evs s)"
  by (induction evs arbitrary: s) simp_all

lemma sizer_recent:
  assumes "\<forall>x\<in>set nows. \<forall>y\<in>set nows. rnd64 (x - y) \<le> sz_window_secs s"
  shows "\<exists>older. sz_recent_failures (fold sizer_event (map Some nows) s) = older @ nows"
  using assms
proof (induction nows rule: rev_induct)
  case (snoc now nows)
  then obtain older where "sz_recent_failures (fold sizer_event (map Some nows) s) = older @ nows" by auto
  moreover have "filter (\<lambda>x. rnd64 (now - x) \<le> sz_window_secs s) nows = nows"
    using snoc.prems by (intro filter_True) simp
  ultimately show ?case
    by (simp add: sizer_event_def[of "Some now"] on_timeout_def Let_def sizer_run)
qed simp

lemma sizer_latches:
  assumes "\<forall>x\<in>set nows. \<forall>y\<in>set nows. rnd64 (x - y) \<le> sz_window_secs s"
    and "sz_failure_threshold s \<le> int (length nows)" "nows \<noteq> []"
  shows "sz_latched (fold sizer_event (map Some nows) s)"
proof -
  obtain older where o: "sz_recent_failures (fold sizer_event (map Some nows) s) = older @ nows"
    using sizer_recent[OF assms(1)] by blast
  have l: "sz_latched (on_timeout x t)" if "sz_failure_threshold t \<le> int (length (sz_recent_failures (on_timeout x t)))"
    for x t using that by (simp add: on_timeout_def Let_def)
  obtain pre now where n: "nows = pre @ [now]" using assms(3) by (cases nows rule: rev_cases) auto
  show ?thesis
    using o assms(2) l[of "fold sizer_event (map Some pre) s" now]
    by (simp add: n sizer_event_def[of "Some now"] sizer_run)
qed

text \<open>
  The batch sizer stays in range and its latch is one-way.  Along any run
  of successes and timeouts from a sizer the constructor accepts, the size it
  gives is between 1 and the default.  As many timeouts in a row as the
  threshold, all within the window of each other, reduce it to the default
  divided by the divisor (at least 1), and it stays there whatever happens
  afterwards.
\<close>

theorem sizer_range:
  assumes "SweepBatchSizer default_size divisor failure_threshold window = Inr s"
  shows "1 \<le> effective_size (fold sizer_event evs s)
    \<and> effective_size (fold sizer_event evs s) \<le> default_size
    \<and> (failure_threshold \<le> int (length nows)
       \<and> (\<forall>x\<in>set nows. \<forall>y\<in>set nows. rnd64 (x - y) \<le> window) \<longrightarrow>
         effective_size (fold sizer_event (evs @ map Some nows @ evs') s) = max 1 (default_size div divisor))"
proof -
  have s: "1 \<le> default_size" "2 \<le> divisor" "1 \<le> failure_threshold" "sz_default_size s = default_size"
      "sz_divisor s = divisor" "sz_failure_threshold s = failure_threshold" "sz_window_secs s = window"
    using assms by (auto simp: SweepBatchSizer_def split: if_splits)
  have "default_size div divisor \<le> default_size div 1" using s by (intro zdiv_mono2) auto
  moreover have "sz_latched (fold sizer_event (map Some nows) (fold sizer_event evs s))"
    if "failure_threshold \<le> int (length nows)" "\<forall>x\<in>set nows. \<forall>y\<in>set nows. rnd64 (x - y) \<le> window"
    using that s(3,6,7) by (intro sizer_latches) (auto simp: sizer_run)
  ultimately show ?thesis
    using s sizer_run(5)[of "fold sizer_event (map Some nows) (fold sizer_event evs s)" evs']
    by (simp add: effective_size_def sizer_run)
qed

lemma sizer_range_witness:
  "\<exists>s. SweepBatchSizer 100 4 2 60 = Inr s \<and> effective_size (fold sizer_event [Some 7, Some 7, None] s) = 25"
proof -
  obtain s where s: "SweepBatchSizer 100 4 2 60 = Inr s" by (simp add: SweepBatchSizer_def)
  then show ?thesis
    using sizer_range[OF s, of "[]" "[7, 7]" "[None]"] by (simp add: f64.rnd_0)
qed

end
