(* ===== verification/Enqueue.thy ===== *)
theory Enqueue
  imports Cancel Backoff "HOL-Library.AList" Sample
begin

text \<open>
  Enqueueing: the argument struct \<open>EnqueueArgs\<close> with its validation, the
  INSERT statement, the single-row path \<open>_enqueue_on_conn\<close> of
  \<open>backend/_enqueue.py\<close>, and the pure rules of the batch paths
  (\<open>batch_cap_groups\<close>, \<open>batch_cap_refusal_kernel\<close>, \<open>first_duplicate_idempotency_pair\<close>,
  \<open>duplicate_pair_actor_mismatch\<close> of \<open>backend/_protocol.py\<close>).
  Text is UTF-8, payload and metadata are the JSON objects the encoder accepted.
\<close>

section \<open>Arguments\<close>

record EnqueueArgs =
  arg_id :: uuid
  arg_actor :: string
  arg_queue :: string
  arg_payload :: jobj
  arg_max_attempts :: int
  arg_retry_kind :: retry_kind
  arg_scheduled_at :: "timestamptz option"
  arg_payload_schema_ver :: int
  arg_priority :: int
  arg_max_pending :: "int option"
  arg_schedule_to_close :: "timestamptz option"
  arg_schedule_to_close_interval :: "interval option"
  arg_start_to_close :: "interval option"
  arg_heartbeat_timeout :: "interval option"
  arg_identity_key :: "string option"
  arg_fairness_key :: "string option"
  arg_idempotency_key :: "string option"
  arg_idempotency_scope :: string
  arg_trace_id :: "string option"
  arg_span_id :: "string option"
  arg_result_ttl :: "interval option"
  arg_unique_for :: "interval option"
  arg_unique_states :: "job_status list"
  arg_metadata :: jobj
  arg_tags :: "string list"
  arg_parent_id :: "uuid option"
  arg_retry_base :: interval
  arg_retry_cap :: interval
  arg_retry_backoff :: backoff
  arg_retry_jitter :: rat

definition check_priority_domain :: "int \<Rightarrow> py_error + unit" where
  "check_priority_domain v = (if v < -32768 \<or> 32767 < v then Inl PyValueError else Inr ())"

definition check_column_domains :: "EnqueueArgs \<Rightarrow> py_error + unit" where
  "check_column_domains a =
     bindE (check_max_attempts_domain (arg_max_attempts a)) (\<lambda>_.
     bindE (check_priority_domain (arg_priority a)) (\<lambda>_.
       if \<exists>v\<in>set [arg_start_to_close a, arg_heartbeat_timeout a, arg_result_ttl a,
                 arg_schedule_to_close_interval a, arg_unique_for a,
                 Some (arg_retry_base a), Some (arg_retry_cap a)]. sql_lt v (Some 0)
       then Inl PyValueError else Inr ()))"

definition nul_free :: "string \<Rightarrow> bool" where
  "nul_free s \<longleftrightarrow> CHR 0x00 \<notin> set s"

definition check_no_nul_text :: "EnqueueArgs \<Rightarrow> py_error + unit" where
  "check_no_nul_text a =
     (if nul_free (arg_actor a) \<and> nul_free (arg_queue a) \<and> nul_free (arg_idempotency_scope a)
         \<and> list_all (pred_option nul_free) [arg_identity_key a, arg_fairness_key a,
              arg_idempotency_key a, arg_trace_id a, arg_span_id a]
         \<and> list_all nul_free (arg_tags a)
      then Inr () else Inl PyValueError)"

definition post_init :: "EnqueueArgs \<Rightarrow> py_error + unit" where
  "post_init a =
     (if arg_schedule_to_close a \<noteq> None \<and> arg_schedule_to_close_interval a \<noteq> None
      then Inl PyValueError
      else bindE (check_column_domains a) (\<lambda>_. check_no_nul_text a))"

section \<open>The INSERT statement\<close>

text \<open>\<open>COALESCE(x, y)\<close> with a non-null \<open>y\<close>, and Python's \<open>dict.get(k, y)\<close>.\<close>

definition or_else :: "'a option \<Rightarrow> 'a \<Rightarrow> 'a" where
  "or_else x y = (case x of Some z \<Rightarrow> z | None \<Rightarrow> y)"

definition plus_interval :: "timestamptz \<Rightarrow> interval option \<Rightarrow> timestamptz option" where
  "plus_interval t i = map_option (\<lambda>x. t + x) i"

text \<open>
  The inserted row.  Columns the statement does not name take their defaults;
  \<open>created_at\<close> defaults to \<open>now()\<close>, the start of the transaction.
\<close>

definition enqueue_row :: "timestamptz \<Rightarrow> clock \<Rightarrow> EnqueueArgs \<Rightarrow> job" where
  "enqueue_row now clk a = \<lparr>
     jid = arg_id a, actor = arg_actor a, queue = arg_queue a, payload = arg_payload a,
     payload_schema_ver = arg_payload_schema_ver a,
     status = (if clk 1 < or_else (arg_scheduled_at a) (clk 0) then Scheduled else Pending),
     priority = arg_priority a, attempt = 0, max_attempts = arg_max_attempts a,
     retry_kind = arg_retry_kind a, created_at = now,
     scheduled_at = or_else (arg_scheduled_at a) (clk 3),
     identity_key = arg_identity_key a, fairness_key = arg_fairness_key a,
     schedule_to_close = (case plus_interval (clk 2) (arg_schedule_to_close_interval a) of
         Some t \<Rightarrow> Some t | None \<Rightarrow> arg_schedule_to_close a),
     start_to_close = arg_start_to_close a, heartbeat_timeout = arg_heartbeat_timeout a,
     started_at = None, finished_at = None, last_heartbeat_at = None,
     locked_by_worker = None, lock_expires_at = None,
     cancel_requested_at = None, cancel_phase = 0,
     error_class = None, error_message = None, error_traceback = None,
     progress_state = Some Map.empty, progress_seq = 0,
     result = None, result_size_bytes = None,
     result_expires_at = plus_interval (clk 4) (arg_result_ttl a),
     idempotency_key = arg_idempotency_key a, idempotency_scope = arg_idempotency_scope a,
     trace_id = arg_trace_id a, span_id = arg_span_id a,
     metadata = arg_metadata a, tags = arg_tags a,
     snooze_count = 0, rate_limit_blocked_count = 0, interrupt_count = 0,
     retry_base_seconds = total_seconds rnd64 (arg_retry_base a),
     retry_cap_seconds = total_seconds rnd64 (arg_retry_cap a),
     retry_backoff = arg_retry_backoff a, retry_jitter = arg_retry_jitter a,
     assignment_routed = False, claim_epoch = 0, parent_id = arg_parent_id a,
     deps_pending = 0, step_key = None\<rparr>"

text \<open>The CHECK constraints of the columns an enqueue supplies.\<close>

definition row_checks :: "job \<Rightarrow> bool" where
  "row_checks r \<longleftrightarrow> 1 \<le> max_attempts r \<and> retry_base_seconds r \<le> retry_cap_seconds r
     \<and> 0 \<le> retry_jitter r \<and> retry_jitter r \<le> 1"

text \<open>The key of the partial unique index \<open>jobs_idempotency_scope_key_uniq\<close>.\<close>

definition idem_pair :: "job \<Rightarrow> (string \<times> string) option" where
  "idem_pair j = map_option (Pair (idempotency_scope j)) (idempotency_key j)"

definition enqueue_select_by_key :: "string \<Rightarrow> string option \<Rightarrow> db \<Rightarrow> job option" where
  "enqueue_select_by_key scope key d =
     List.find (\<lambda>j. idempotency_scope j = scope \<and> sql_eq (idempotency_key j) key) (jobs d)"

datatype insert_reply = Inserted job db | Skipped | PkViolation | SingletonViolation | InsertFailed pg_error

text \<open>
  Constraints are checked first, then the arbiter index of ON CONFLICT (a
  conflict there is DO NOTHING), then the other unique indexes.
\<close>

definition enqueue_insert :: "timestamptz \<Rightarrow> clock \<Rightarrow> EnqueueArgs \<Rightarrow> db \<Rightarrow> insert_reply" where
  "enqueue_insert now clk a d = (let r = enqueue_row now clk a in
     if \<not> row_checks r then InsertFailed CheckViolation
     else if idem_pair r \<noteq> None \<and> (\<exists>j\<in>set (jobs d). idem_pair j = idem_pair r) then Skipped
     else if find_job (jid r) d \<noteq> None then PkViolation
     else if singleton_conflict r d then SingletonViolation
     else Inserted r (d\<lparr>jobs := jobs d @ [r]\<rparr>))"

section \<open>The single-row path\<close>

datatype enqueue_error =
    UniqueForLockTimeout
  | MaxPendingLockTimeout
  | IdempotencyKeyLockTimeout
  | SingletonCollision "uuid option" "interval option"
  | MaxPendingExceeded string int int
  | IdempotencyKeyActorMismatch string uuid
  | BatchIdExists uuid
  | EnqueueRuntimeError
  | EnqueuePg pg_error
  | EnqueueDataError

text \<open>
  Python's \<open>UUID(text)\<close>: \<open>urn:\<close>, \<open>uuid:\<close> and dashes are dropped, braces
  stripped from the ends, and 32 hexadecimal digits must remain.
\<close>

function drop_all :: "string \<Rightarrow> string \<Rightarrow> string" where
  "drop_all pat s = (if pat = [] then s else case s of
       [] \<Rightarrow> []
     | c # t \<Rightarrow> if take (length pat) s = pat then drop_all pat (drop (length pat) s)
               else c # drop_all pat t)"
  by pat_completeness auto
termination
  by (relation "measure (\<lambda>(pat, s). length s)") (auto simp: length_greater_0_conv split: list.splits)

definition strip_braces :: "string \<Rightarrow> string" where
  "strip_braces s = (let brace = (\<lambda>c. c = CHR ''{'' \<or> c = CHR ''}'') in
     rev (dropWhile brace (rev (dropWhile brace s))))"

fun hex_number :: "nat \<Rightarrow> string \<Rightarrow> nat option" where
  "hex_number acc [] = Some acc"
| "hex_number acc (c # s) = (case hex_char c of
       None \<Rightarrow> None | Some x \<Rightarrow> hex_number (16 * acc + x) s)"

definition py_uuid :: "string \<Rightarrow> uuid option" where
  "py_uuid s = (let h = drop_all ''-'' (strip_braces (drop_all ''uuid:'' (drop_all ''urn:'' s))) in
     if length h = 32 then hex_number 0 h else None)"

definition batch_uuid :: "EnqueueArgs \<Rightarrow> uuid option" where
  "batch_uuid a = (case arg_metadata a ''batch_id'' of Some (JStr s) \<Rightarrow> py_uuid s | _ \<Rightarrow> None)"

definition lock_batch_membership :: "uuid list \<Rightarrow> db \<Rightarrow> enqueue_error + unit" where
  "lock_batch_membership ids d =
     (case filter (\<lambda>b. b_id b \<in> set ids \<and> b_status b \<noteq> BatchActive) (batches d) of
        [] \<Rightarrow> Inr () | b # _ \<Rightarrow> Inl (BatchIdExists (b_id b)))"

definition unique_for_preflight :: "timestamptz \<Rightarrow> EnqueueArgs \<Rightarrow> db \<Rightarrow> job option" where
  "unique_for_preflight now a d = (case (arg_unique_for a, arg_identity_key a) of
       (Some w, Some k) \<Rightarrow>
         (case sort_key (\<lambda>j. - created_at j)
            (filter (\<lambda>j. actor j = arg_actor a \<and> identity_key j = Some k
                \<and> status j \<in> set (arg_unique_states a) \<and> now - w < created_at j) (jobs d)) of
            [] \<Rightarrow> None | j # _ \<Rightarrow> Some j)
     | _ \<Rightarrow> None)"

definition singleton_preflight :: "string \<Rightarrow> db \<Rightarrow> job option" where
  "singleton_preflight act d =
     List.find (\<lambda>j. actor j = act \<and> status j \<in> {Pending, Scheduled, Running} \<and> is_singleton j) (jobs d)"

definition retry_hint :: "timestamptz \<Rightarrow> job \<Rightarrow> interval option" where
  "retry_hint py_now j = (case schedule_to_close j of
       None \<Rightarrow> None | Some t \<Rightarrow> if 0 < t - py_now then Some (t - py_now) else None)"

definition enqueue_max_pending_count :: "string \<Rightarrow> db \<Rightarrow> int" where
  "enqueue_max_pending_count act d =
     int (length (filter (\<lambda>j. actor j = act \<and> status j \<in> {Pending, Scheduled}) (jobs d)))"

text \<open>
  What the environment contributes to one call: the start of the transaction,
  the clocks, whether each bounded lock wait was granted, and what other
  transactions committed between the INSERT and the follow-up SELECT.
\<close>

record enqueue_env =
  env_now :: timestamptz
  env_clk :: clock
  env_preflight_clk :: timestamptz
  env_py_now :: timestamptz
  env_unique_lock :: bool
  env_pending_lock :: bool
  env_token_lock :: bool
  env_between :: "db \<Rightarrow> db"

datatype enqueue_reply = Enqueued job db | Deduped job db | Refused enqueue_error | Popped db

definition refuse_cross_actor :: "EnqueueArgs \<Rightarrow> job \<Rightarrow> db \<Rightarrow> enqueue_reply" where
  "refuse_cross_actor a j d =
     (if actor j \<noteq> arg_actor a then Refused (IdempotencyKeyActorMismatch (actor j) (jid j))
      else Deduped j d)"

definition enqueue_write ::
    "enqueue_env \<Rightarrow> interval \<Rightarrow> EnqueueArgs \<Rightarrow> db \<Rightarrow> enqueue_reply" where
  "enqueue_write env token_timeout a d =
     (if arg_idempotency_key a \<noteq> None \<and> 0 < token_timeout \<and> \<not> env_token_lock env
      then Refused IdempotencyKeyLockTimeout
      else if arg_payload_schema_ver a < int4_min \<or> int4_max < arg_payload_schema_ver a
      then Refused EnqueueDataError
      else (case enqueue_insert (env_now env) (env_clk env) a d of
          Inserted r d' \<Rightarrow> Enqueued r d'
        | PkViolation \<Rightarrow> Refused (EnqueuePg UniqueViolation)
        | SingletonViolation \<Rightarrow> Refused (SingletonCollision None None)
        | InsertFailed e \<Rightarrow> Refused (EnqueuePg e)
        | Skipped \<Rightarrow> (let d' = env_between env d in
            case enqueue_select_by_key (arg_idempotency_scope a) (arg_idempotency_key a) d' of
              Some j \<Rightarrow> refuse_cross_actor a j d'
            | None \<Rightarrow> Popped d')))"

definition enqueue_pass ::
    "enqueue_env \<Rightarrow> interval \<Rightarrow> EnqueueArgs \<Rightarrow> db \<Rightarrow> enqueue_reply" where
  "enqueue_pass env token_timeout a d =
     (case (case batch_uuid a of None \<Rightarrow> Inr () | Some b \<Rightarrow> lock_batch_membership [b] d) of
        Inl e \<Rightarrow> Refused e
      | Inr _ \<Rightarrow>
          if arg_unique_for a \<noteq> None \<and> arg_identity_key a \<noteq> None \<and> \<not> env_unique_lock env
          then Refused UniqueForLockTimeout
          else (case unique_for_preflight (env_preflight_clk env) a d of
              Some j \<Rightarrow> Deduped j d
            | None \<Rightarrow>
                (case (if arg_metadata a ''singleton'' = Some (JBool True)
                       then singleton_preflight (arg_actor a) d else None) of
                   Some j \<Rightarrow> Refused (SingletonCollision (Some (jid j)) (retry_hint (env_py_now env) j))
                 | None \<Rightarrow>
                     (case arg_max_pending a of
                        None \<Rightarrow> enqueue_write env token_timeout a d
                      | Some m \<Rightarrow>
                          if \<not> env_pending_lock env then Refused MaxPendingLockTimeout
                          else if m \<le> enqueue_max_pending_count (arg_actor a) d
                          then Refused (MaxPendingExceeded (arg_actor a)
                                 (enqueue_max_pending_count (arg_actor a) d) m)
                          else enqueue_write env token_timeout a d))))"

text \<open>
  The whole call.  A conflicting row that is gone when the follow-up SELECT
  runs is retried once, with a second round of the environment.
\<close>

definition enqueue_on_conn ::
    "enqueue_env \<Rightarrow> enqueue_env \<Rightarrow> interval \<Rightarrow> EnqueueArgs \<Rightarrow> db \<Rightarrow> enqueue_error + (job \<times> db)" where
  "enqueue_on_conn env env' token_timeout a d =
     (case enqueue_pass env token_timeout a d of
        Enqueued r d' \<Rightarrow> Inr (r, d')
      | Deduped r d' \<Rightarrow> Inr (r, d')
      | Refused e \<Rightarrow> Inl e
      | Popped d' \<Rightarrow> (case enqueue_pass env' token_timeout a d' of
            Enqueued r d2 \<Rightarrow> Inr (r, d2)
          | Deduped r d2 \<Rightarrow> Inr (r, d2)
          | Refused e \<Rightarrow> Inl e
          | Popped _ \<Rightarrow> Inl EnqueueRuntimeError))"

section \<open>The pure rules of the batch paths\<close>

definition bump :: "string \<Rightarrow> (string \<times> int) list \<Rightarrow> (string \<times> int) list" where
  "bump k m = AList.update k (or_else (map_of m k) 0 + 1) m"

definition tighten :: "string \<Rightarrow> int \<Rightarrow> (string \<times> int) list \<Rightarrow> (string \<times> int) list" where
  "tighten k cap m = (case map_of m k of
       None \<Rightarrow> AList.update k cap m
     | Some c \<Rightarrow> if cap < c then AList.update k cap m else m)"

fun cap_counts :: "EnqueueArgs list \<Rightarrow> (string \<times> int) list \<Rightarrow> (string \<times> int) list" where
  "cap_counts [] m = m"
| "cap_counts (a # as) m =
     cap_counts as (if arg_max_pending a = None then m else bump (arg_actor a) m)"

fun cap_limits :: "EnqueueArgs list \<Rightarrow> (string \<times> int) list \<Rightarrow> (string \<times> int) list" where
  "cap_limits [] m = m"
| "cap_limits (a # as) m =
     cap_limits as (case arg_max_pending a of None \<Rightarrow> m | Some c \<Rightarrow> tighten (arg_actor a) c m)"

definition batch_cap_groups :: "EnqueueArgs list \<Rightarrow> (string \<times> int \<times> int) list" where
  "batch_cap_groups as =
     map (\<lambda>(k, n). (k, n, or_else (map_of (cap_limits as []) k) 0)) (cap_counts as [])"

definition cap_keyed_pairs :: "EnqueueArgs list \<Rightarrow> (string \<times> string \<times> string) list" where
  "cap_keyed_pairs as =
     concat (map (\<lambda>a. case (arg_max_pending a, arg_idempotency_key a) of
        (Some _, Some k) \<Rightarrow> [(arg_actor a, arg_idempotency_scope a, k)] | _ \<Rightarrow> []) as)"

fun deduped_counts ::
    "(string \<times> string \<Rightarrow> bool) \<Rightarrow> (string \<times> string) set \<Rightarrow> (string \<times> string \<times> string) list
     \<Rightarrow> (string \<times> int) list \<Rightarrow> (string \<times> int) list" where
  "deduped_counts stored seen [] m = m"
| "deduped_counts stored seen ((act, pair) # ks) m =
     deduped_counts stored (insert pair seen) ks
       (if stored pair \<or> pair \<in> seen then bump act m else m)"

definition batch_cap_refusal_kernel ::
    "(string \<Rightarrow> int option) \<Rightarrow> (string \<times> string \<Rightarrow> bool) \<Rightarrow> (string \<Rightarrow> int) \<Rightarrow> EnqueueArgs list
     \<Rightarrow> enqueue_error list" where
  "batch_cap_refusal_kernel overrides stored existing as =
     concat (map (\<lambda>(act, n, carried).
        let cap = or_else (overrides act) carried;
            have_n = existing act;
            admitted = n - or_else (map_of (deduped_counts stored {} (cap_keyed_pairs as) []) act) 0
        in if cap < have_n + admitted then [MaxPendingExceeded act have_n cap] else [])
       (batch_cap_groups as))"

fun first_duplicate_idempotency_pair ::
    "(string \<times> string \<Rightarrow> bool) \<Rightarrow> (string \<times> string) set \<Rightarrow> EnqueueArgs list
     \<Rightarrow> (string \<times> string) option" where
  "first_duplicate_idempotency_pair stored seen [] = None"
| "first_duplicate_idempotency_pair stored seen (a # as) = (case arg_idempotency_key a of
       None \<Rightarrow> first_duplicate_idempotency_pair stored seen as
     | Some k \<Rightarrow> (let pair = (arg_idempotency_scope a, k) in
         if pair \<in> seen \<or> stored pair then Some pair
         else first_duplicate_idempotency_pair stored (insert pair seen) as))"

definition duplicate_pair_actor_mismatch ::
    "EnqueueArgs list \<Rightarrow> string \<times> string \<Rightarrow> string option \<Rightarrow> (string \<times> string) option" where
  "duplicate_pair_actor_mismatch as pair stored_actor =
     (let holders = map arg_actor (filter (\<lambda>a. map_option (Pair (arg_idempotency_scope a))
            (arg_idempotency_key a) = Some pair) as) in
      case holders of
        [] \<Rightarrow> None
      | h # hs \<Rightarrow> (case stored_actor of
            Some s \<Rightarrow> if h \<noteq> s then Some (h, s) else None
          | None \<Rightarrow> (case hs of
                [] \<Rightarrow> None
              | h' # _ \<Rightarrow> if h' \<noteq> h then Some (h', h) else None)))"

section \<open>Properties\<close>

subsection \<open>The INSERT\<close>

lemma enqueue_pass_write:
  assumes "enqueue_pass env tt a d = Enqueued r d'"
  shows "enqueue_write env tt a d = Enqueued r d'"
    "arg_max_pending a = Some m \<Longrightarrow> enqueue_max_pending_count (arg_actor a) d < m"
  using assms by (auto simp: enqueue_pass_def split: sum.splits option.splits if_splits)

lemma enqueue_pass_Enqueued:
  "enqueue_pass env tt a d = Enqueued r d' \<Longrightarrow> enqueue_insert (env_now env) (env_clk env) a d = Inserted r d'"
  by (drule enqueue_pass_write(1))
    (auto simp: enqueue_write_def refuse_cross_actor_def Let_def split: if_splits option.splits insert_reply.splits)

lemma enqueue_insertD:
  assumes "enqueue_insert now clk a d = Inserted r d'"
  shows "r = enqueue_row now clk a" "find_job (jid r) d = None" "jobs d' = jobs d @ [r]"
    "job_attempts d' = job_attempts d" "\<not> singleton_conflict r d"
    "idem_pair r = None \<or> (\<forall>j\<in>set (jobs d). idem_pair j \<noteq> idem_pair r)" "d' = d\<lparr>jobs := jobs d @ [r]\<rparr>"
  using assms by (auto simp: enqueue_insert_def Let_def split: if_splits)

lemma idem_pair_row: "idem_pair (enqueue_row now clk a) = map_option (Pair (arg_idempotency_scope a)) (arg_idempotency_key a)"
  by (simp add: idem_pair_def enqueue_row_def)

text \<open>
  Arguments that passed validation, with retry columns from a valid
  policy, never violate a column constraint: the INSERT fails with a check
  violation for none of them, whatever the clocks and the tables hold.  The row
  the INSERT adds is new: not running, not locked, no attempt spent.
\<close>

theorem valid_args_pass_checks:
  assumes "post_init a = Inr ()" "valid_policy p"
    and "arg_retry_base a = rp_base p" "arg_retry_cap a = rp_cap p" "arg_retry_jitter a = rp_jitter p"
  shows "enqueue_insert now clk a d \<noteq> InsertFailed CheckViolation
    \<and> (\<forall>r d'. enqueue_insert now clk a d = Inserted r d' \<longrightarrow>
         status r \<in> {Pending, Scheduled} \<and> attempt r = 0 \<and> claim_epoch r = 0 \<and> locked_by_worker r = None
         \<and> 1 \<le> max_attempts r \<and> max_attempts r < 32767 \<and> -32768 \<le> priority r \<and> priority r \<le> 32767)"
proof -
  note v = valid_policyD[OF assms(2)]
  have m: "1 \<le> arg_max_attempts a" "arg_max_attempts a \<le> 32766" "-32768 \<le> arg_priority a" "arg_priority a \<le> 32767"
    using assms(1)
    by (auto simp: post_init_def check_column_domains_def bindE_Inr_iff check_max_attempts_domain_def
        check_priority_domain_def MAX_ENQUEUABLE_MAX_ATTEMPTS_def MAX_ATTEMPTS_SMALLINT_CEILING_def
        split: if_splits)
  have "row_checks (enqueue_row now clk a)"
    using m v assms(3-5) by (simp add: row_checks_def enqueue_row_def f64.total_seconds_mono)
  then show ?thesis
    using m by (auto simp: enqueue_insert_def Let_def enqueue_row_def split: if_splits)
qed

definition sample_args :: EnqueueArgs where
  "sample_args = \<lparr>arg_id = 9, arg_actor = ''a'', arg_queue = ''q'', arg_payload = Map.empty,
     arg_max_attempts = 3, arg_retry_kind = Transient, arg_scheduled_at = None,
     arg_payload_schema_ver = 1, arg_priority = 0, arg_max_pending = Some 2,
     arg_schedule_to_close = None, arg_schedule_to_close_interval = None,
     arg_start_to_close = None, arg_heartbeat_timeout = None, arg_identity_key = None,
     arg_fairness_key = None, arg_idempotency_key = Some ''k'', arg_idempotency_scope = ''s'',
     arg_trace_id = None, arg_span_id = None, arg_result_ttl = None, arg_unique_for = None,
     arg_unique_states = [], arg_metadata = Map.empty, arg_tags = [], arg_parent_id = None,
     arg_retry_base = 5000000, arg_retry_cap = 3600000000, arg_retry_backoff = Exponential,
     arg_retry_jitter = 0\<rparr>"

lemma sample_args_valid: "post_init sample_args = Inr ()"
  by (simp add: post_init_def sample_args_def check_column_domains_def bindE_def check_max_attempts_domain_def
      check_priority_domain_def MAX_ENQUEUABLE_MAX_ATTEMPTS_def MAX_ATTEMPTS_SMALLINT_CEILING_def
      check_no_nul_text_def nul_free_def sql_rel_iff)

lemma valid_args_pass_checks_witness:
  "enqueue_insert 0 sample_clock sample_args sample_db \<noteq> InsertFailed CheckViolation"
  using valid_args_pass_checks[OF sample_args_valid sample_policy_valid]
  by (simp add: sample_args_def sample_policy_def)

definition keyed_ok :: "db \<Rightarrow> bool" where
  "keyed_ok d \<longleftrightarrow> distinct (map jid (jobs d))
     \<and> (\<forall>i\<in>set (jobs d). \<forall>j\<in>set (jobs d). idem_pair i \<noteq> None \<and> idem_pair i = idem_pair j \<longrightarrow> i = j)
     \<and> (\<forall>i\<in>set (jobs d). \<not> singleton_conflict i d)"

lemma find_job_new: "find_job i d = None \<Longrightarrow> j \<in> set (jobs d) \<Longrightarrow> jid j \<noteq> i"
  by (auto simp: find_job_def row_by_None_iff)

lemma insert_keeps_keyed:
  assumes ok: "keyed_ok d" and i: "enqueue_insert now clk a d = Inserted r d'"
  shows "keyed_ok d'"
proof -
  note D = enqueue_insertD[OF i]
  note new = find_job_new[OF D(2)]
  have "jid r \<notin> jid ` set (jobs d)" using new by (metis imageE)
  then have "distinct (map jid (jobs d'))" using ok by (simp add: D(3) keyed_ok_def)
  moreover have "x = y" if "x \<in> set (jobs d')" "y \<in> set (jobs d')" "idem_pair x \<noteq> None" "idem_pair x = idem_pair y" for x y
  proof -
    have inj: "\<forall>i\<in>set (jobs d). \<forall>j\<in>set (jobs d). idem_pair i \<noteq> None \<and> idem_pair i = idem_pair j \<longrightarrow> i = j"
      using ok unfolding keyed_ok_def by blast
    have "x = r \<or> x \<in> set (jobs d)" "y = r \<or> y \<in> set (jobs d)" using that(1,2) by (simp_all add: D(3))
    then show ?thesis using D(6) inj that(3,4) by metis
  qed
  moreover have "\<not> singleton_conflict x d'" if "x \<in> set (jobs d')" for x
    using that ok D(5) new by (fastforce simp: D(3) keyed_ok_def singleton_conflict_def)
  ultimately show ?thesis unfolding keyed_ok_def by blast
qed

text \<open>
  C40: an enqueue that inserts respects the tables' keys and the actor's cap.
  It adds exactly one row at the end.  Job ids stay unique, no two rows share an
  idempotency pair, no actor has two active singletons, and an actor with a
  pending cap has at most that many pending and scheduled rows afterwards.
\<close>

theorem enqueue_keeps_keys:
  assumes "keyed_ok d" "enqueue_pass env tt a d = Enqueued r d'"
  shows "keyed_ok d' \<and> jobs d' = jobs d @ [r] \<and> jid r = arg_id a
    \<and> (\<forall>m. arg_max_pending a = Some m \<longrightarrow> enqueue_max_pending_count (arg_actor a) d' \<le> m)"
proof -
  note i = enqueue_pass_Enqueued[OF assms(2)]
  note D = enqueue_insertD[OF i]
  have "enqueue_max_pending_count (arg_actor a) d' \<le> enqueue_max_pending_count (arg_actor a) d + 1"
    by (simp add: enqueue_max_pending_count_def D(3))
  then show ?thesis
    using insert_keeps_keyed[OF assms(1) i] D enqueue_pass_write(2)[OF assms(2)]
    by (auto simp: enqueue_row_def)
qed

definition calm_env :: enqueue_env where
  "calm_env = \<lparr>env_now = 0, env_clk = sample_clock, env_preflight_clk = 0, env_py_now = 0,
     env_unique_lock = True, env_pending_lock = True, env_token_lock = True, env_between = (\<lambda>d. d)\<rparr>"

lemma sample_row_checks: "row_checks (enqueue_row 0 sample_clock sample_args)"
  by (simp add: row_checks_def enqueue_row_def sample_args_def f64.total_seconds_mono)

lemma sample_enqueue:
  "enqueue_pass calm_env 0 sample_args sample_db = Enqueued (enqueue_row 0 sample_clock sample_args)
     (sample_db\<lparr>jobs := [sample_job, enqueue_row 0 sample_clock sample_args]\<rparr>)"
proof -
  have k: "arg_idempotency_key sample_args = Some ''k''" "arg_idempotency_scope sample_args = ''s''"
      "arg_metadata sample_args = Map.empty" "arg_unique_for sample_args = None" "arg_id sample_args = 9"
      "arg_max_pending sample_args = Some 2" "arg_actor sample_args = ''a''" "arg_payload_schema_ver sample_args = 1"
    by (simp_all add: sample_args_def)
  have r: "jid (enqueue_row 0 sample_clock sample_args) = 9"
      "\<not> is_singleton (enqueue_row 0 sample_clock sample_args)"
    by (simp_all add: enqueue_row_def k is_singleton_def)
  have "idem_pair sample_job = None" by (simp add: idem_pair_def)
  then have "enqueue_insert 0 sample_clock sample_args sample_db
      = Inserted (enqueue_row 0 sample_clock sample_args)
          (sample_db\<lparr>jobs := [sample_job, enqueue_row 0 sample_clock sample_args]\<rparr>)"
    using sample_row_checks r
    by (simp add: enqueue_insert_def Let_def idem_pair_row k find_job_def singleton_conflict_def)
  then have "enqueue_write calm_env 0 sample_args sample_db = Enqueued (enqueue_row 0 sample_clock sample_args)
      (sample_db\<lparr>jobs := [sample_job, enqueue_row 0 sample_clock sample_args]\<rparr>)"
    by (simp add: enqueue_write_def calm_env_def k int4_min_def int4_max_def)
  then show ?thesis
    by (simp add: enqueue_pass_def k batch_uuid_def unique_for_preflight_def calm_env_def
        enqueue_max_pending_count_def)
qed

lemma enqueue_keeps_keys_witness:
  "\<exists>r d'. enqueue_pass calm_env 0 sample_args sample_db = Enqueued r d' \<and> keyed_ok d'
     \<and> enqueue_max_pending_count ''a'' d' \<le> 2"
proof -
  have "keyed_ok sample_db" by (simp add: keyed_ok_def singleton_conflict_def)
  moreover have "arg_max_pending sample_args = Some 2" "arg_actor sample_args = ''a''"
    by (simp_all add: sample_args_def)
  ultimately show ?thesis using enqueue_keeps_keys[OF _ sample_enqueue] sample_enqueue by auto
qed

text \<open>
  A second enqueue under the same idempotency pair returns the first job.
  After a call inserted a row under a key, a call for the same actor, scope and
  key that reaches the INSERT (no batch, no uniqueness window, no cap, not a
  singleton, its locks granted) and meets no interference returns that very
  row and changes nothing, however its other arguments differ; for another
  actor it is refused and names the stored job.
\<close>

theorem enqueue_idempotent:
  assumes first: "enqueue_pass env tt a d = Enqueued r d'" and key: "arg_idempotency_key a = Some k"
    and again: "arg_idempotency_key b = Some k" "arg_idempotency_scope b = arg_idempotency_scope a"
    and plain: "batch_uuid b = None" "arg_unique_for b = None" "arg_max_pending b = None"
      "arg_metadata b ''singleton'' \<noteq> Some (JBool True)"
      "int4_min \<le> arg_payload_schema_ver b" "arg_payload_schema_ver b \<le> int4_max"
      "row_checks (enqueue_row (env_now env2) (env_clk env2) b)"
    and calm: "env_token_lock env2" "env_between env2 = (\<lambda>d. d)"
  shows "enqueue_on_conn env2 env3 tt b d' =
    (if arg_actor b = arg_actor a then Inr (r, d') else Inl (IdempotencyKeyActorMismatch (arg_actor a) (arg_id a)))"
proof -
  note D = enqueue_insertD[OF enqueue_pass_Enqueued[OF first]]
  have r: "idem_pair r = Some (arg_idempotency_scope a, k)" "actor r = arg_actor a" "jid r = arg_id a"
    using key idem_pair_row[of "env_now env" "env_clk env" a] by (simp_all add: D(1)) (simp_all add: enqueue_row_def)
  have pair: "idem_pair j = Some (s, k) \<longleftrightarrow> idempotency_scope j = s \<and> sql_eq (idempotency_key j) (Some k)" for j s
    by (auto simp: idem_pair_def sql_rel_iff)
  have none: "List.find (\<lambda>j. idem_pair j = Some (arg_idempotency_scope a, k)) (jobs d) = None"
    using D(6) r(1) by (auto simp: find_None_iff)
  have find_app: "List.find P (xs @ ys) = (case List.find P xs of None \<Rightarrow> List.find P ys | Some x \<Rightarrow> Some x)"
    for P and xs ys :: "job list" by (induction xs) simp_all
  have sel: "enqueue_select_by_key (arg_idempotency_scope b) (arg_idempotency_key b) d' = Some r"
    unfolding enqueue_select_by_key_def again pair[symmetric] D(3) find_app using none r(1) by simp
  have "idem_pair (enqueue_row (env_now env2) (env_clk env2) b) = Some (arg_idempotency_scope a, k)"
    by (simp add: idem_pair_row again)
  then have "enqueue_insert (env_now env2) (env_clk env2) b d' = Skipped"
    using plain(7) r(1) by (simp add: enqueue_insert_def Let_def D(3))
  then have "enqueue_write env2 tt b d' = refuse_cross_actor b r d'"
    using calm plain(5,6) sel by (simp add: enqueue_write_def Let_def)
  then have "enqueue_pass env2 tt b d' = refuse_cross_actor b r d'"
    using plain(1-4) by (simp add: enqueue_pass_def unique_for_preflight_def)
  then show ?thesis by (auto simp: enqueue_on_conn_def refuse_cross_actor_def r)
qed

lemma enqueue_idempotent_witness:
  "\<exists>r d'. enqueue_pass calm_env 0 sample_args sample_db = Enqueued r d'
     \<and> enqueue_on_conn calm_env calm_env 0 (sample_args\<lparr>arg_id := 10, arg_max_pending := None\<rparr>) d' = Inr (r, d')"
proof -
  let ?b = "sample_args\<lparr>arg_id := 10, arg_max_pending := None\<rparr>"
  have "row_checks (enqueue_row (env_now calm_env) (env_clk calm_env) ?b)"
    using sample_row_checks by (simp add: row_checks_def enqueue_row_def)
  from enqueue_idempotent[OF sample_enqueue, of "''k''" ?b calm_env calm_env, OF _ _ _ _ _ _ _ _ _ this]
  show ?thesis
    using sample_enqueue by (simp add: sample_args_def batch_uuid_def int4_min_def int4_max_def calm_env_def)
qed

subsection \<open>The batch rules\<close>

lemma map_of_bump: "map_of (bump k m) k' = (if k' = k then Some (or_else (map_of m k) 0 + 1) else map_of m k')"
  by (simp add: bump_def update_conv')

lemma or_else_bump: "or_else (map_of (bump k m) k') 0 = or_else (map_of m k') 0 + (if k' = k then 1 else 0)"
  by (simp add: map_of_bump or_else_def)

definition capped :: "string \<Rightarrow> EnqueueArgs \<Rightarrow> bool" where
  "capped act a \<longleftrightarrow> arg_max_pending a \<noteq> None \<and> arg_actor a = act"

lemma cap_counts_value:
  "or_else (map_of (cap_counts as m) act) 0 = or_else (map_of m act) 0 + int (length (filter (capped act) as))"
  by (induction as arbitrary: m) (simp_all add: or_else_bump capped_def)

lemma cap_counts_dom:
  "fst ` set (cap_counts as m) = fst ` set m \<union> {arg_actor a |a. a \<in> set as \<and> arg_max_pending a \<noteq> None}"
  by (induction as arbitrary: m) (auto simp: bump_def dom_update)

lemma cap_counts_distinct: "distinct (map fst m) \<Longrightarrow> distinct (map fst (cap_counts as m))"
  by (induction as arbitrary: m) (simp_all add: bump_def distinct_update)

text \<open>The rows of a batch that insert against a cap: the keyless ones and the first of each new pair.\<close>

fun batch_writes :: "(string \<times> string \<Rightarrow> bool) \<Rightarrow> (string \<times> string) set \<Rightarrow> EnqueueArgs list \<Rightarrow> EnqueueArgs list" where
  "batch_writes stored seen [] = []"
| "batch_writes stored seen (a # as) = (case (arg_max_pending a, arg_idempotency_key a) of
       (None, _) \<Rightarrow> batch_writes stored seen as
     | (Some _, None) \<Rightarrow> a # batch_writes stored seen as
     | (Some _, Some k) \<Rightarrow> (let pair = (arg_idempotency_scope a, k) in
          if stored pair \<or> pair \<in> seen then batch_writes stored seen as
          else a # batch_writes stored (insert pair seen) as))"

lemma batch_writes_insert: "pair \<in> seen \<or> stored pair \<Longrightarrow>
    batch_writes stored (insert pair seen) as = batch_writes stored seen as"
proof (induction as arbitrary: seen)
  case (Cons a as)
  then show ?case
    by (auto simp: Let_def insert_commute[of _ pair] split: option.splits)
qed simp

lemma deduped_plus_writes:
  "or_else (map_of (deduped_counts stored seen (cap_keyed_pairs as) m) act) 0
     + int (length (filter (capped act) (batch_writes stored seen as)))
   = or_else (map_of m act) 0 + int (length (filter (capped act) as))"
proof (induction as arbitrary: seen m)
  case (Cons a as)
  show ?case
  proof (cases "arg_max_pending a = None \<or> arg_idempotency_key a = None")
    case True
    then show ?thesis
      using Cons.IH[of seen m] by (auto simp: cap_keyed_pairs_def capped_def split: option.splits)
  next
    case False
    then obtain c k where ck: "arg_max_pending a = Some c" "arg_idempotency_key a = Some k" by auto
    let ?pair = "(arg_idempotency_scope a, k)"
    have keyed: "cap_keyed_pairs (a # as) = (arg_actor a, ?pair) # cap_keyed_pairs as"
      by (simp add: cap_keyed_pairs_def ck)
    show ?thesis
    proof (cases "stored ?pair \<or> ?pair \<in> seen")
      case True
      then have "batch_writes stored (insert ?pair seen) as = batch_writes stored seen as"
        by (intro batch_writes_insert) blast
      then show ?thesis
        using True Cons.IH[of "insert ?pair seen" "bump (arg_actor a) m"]
        by (simp add: keyed ck or_else_bump capped_def Let_def)
    next
      case False
      then show ?thesis
        using Cons.IH[of "insert ?pair seen" m] by (simp add: keyed ck capped_def Let_def)
    qed
  qed
qed (simp add: cap_keyed_pairs_def)

definition carried_caps :: "EnqueueArgs list \<Rightarrow> string \<Rightarrow> int set" where
  "carried_caps as act = {c. \<exists>a\<in>set as. arg_actor a = act \<and> arg_max_pending a = Some c}"

lemma map_of_tighten: "map_of (tighten k c m) act = (if act = k
    then Some (case map_of m k of None \<Rightarrow> c | Some x \<Rightarrow> min c x) else map_of m act)"
  by (auto simp: tighten_def update_conv' split: option.split)

lemma cap_limits_value:
  "map_of (cap_limits as m) act = (let C = carried_caps as act \<union> set_option (map_of m act) in
     if C = {} then None else Some (Min C))"
proof (induction as arbitrary: m)
  case Nil
  then show ?case by (cases "map_of m act") (simp_all add: carried_caps_def Let_def)
next
  case (Cons a as)
  have fin: "finite (carried_caps as act)" for as
    by (rule finite_subset[of _ "the ` arg_max_pending ` set as"]) (force simp: carried_caps_def image_iff)+
  show ?case
  proof (cases "arg_max_pending a")
    case None
    then have "carried_caps (a # as) act = carried_caps as act" by (auto simp: carried_caps_def)
    then show ?thesis using None Cons by simp
  next
    case (Some c)
    have cc: "carried_caps (a # as) act = (if arg_actor a = act then insert c (carried_caps as act) else carried_caps as act)"
      using Some by (auto simp: carried_caps_def)
    show ?thesis
    proof (cases "arg_actor a = act")
      case False
      then show ?thesis using Some Cons by (simp add: cc map_of_tighten)
    next
      case True
      have m: "Min (insert c (carried_caps as act \<union> set_option x))
          = Min (carried_caps as act \<union> {case x of None \<Rightarrow> c | Some y \<Rightarrow> min c y})" for x
        using fin[of as] by (cases x; cases "carried_caps as act = {}")
          (simp_all add: min.assoc min.commute min.left_commute)
      show ?thesis using Some Cons True m[of "map_of m act"] by (simp add: cc map_of_tighten Let_def)
    qed
  qed
qed

lemma cap_counts_map:
  "map_of (cap_counts as []) act
   = (if carried_caps as act = {} then None else Some (int (length (filter (capped act) as))))"
proof (cases "map_of (cap_counts as []) act")
  case None
  then have "act \<notin> fst ` set (cap_counts as [])" by (simp add: map_of_eq_None_iff)
  then have "carried_caps as act = {}" by (auto simp: cap_counts_dom carried_caps_def)
  then show ?thesis using None by simp
next
  case (Some x)
  then have "act \<in> fst ` set (cap_counts as [])" by (metis map_of_eq_None_iff option.distinct(1))
  then have "carried_caps as act \<noteq> {}" by (auto simp: cap_counts_dom carried_caps_def)
  then show ?thesis using Some cap_counts_value[of as "[]" act] by (simp add: or_else_def)
qed

lemma batch_cap_groups_mem:
  "(act, k, carried) \<in> set (batch_cap_groups as) \<longleftrightarrow> carried_caps as act \<noteq> {}
      \<and> k = int (length (filter (capped act) as)) \<and> carried = Min (carried_caps as act)"
proof -
  have d: "distinct (map fst (cap_counts as []))" by (simp add: cap_counts_distinct)
  have "(act, k, carried) \<in> set (batch_cap_groups as) \<longleftrightarrow>
      (act, k) \<in> set (cap_counts as []) \<and> carried = or_else (map_of (cap_limits as []) act) 0"
    by (force simp: batch_cap_groups_def)
  then show ?thesis
    unfolding map_of_eq_Some_iff[OF d, symmetric] cap_counts_map
    using cap_limits_value[of as "[]" act] by (auto simp: or_else_def Let_def)
qed

lemma concat_if_mem:
  "x \<in> set (concat (map (\<lambda>(a, n, c). if P a n c then [F a n c] else []) xs)) \<longleftrightarrow>
     (\<exists>a n c. (a, n, c) \<in> set xs \<and> P a n c \<and> x = F a n c)"
proof (induction xs)
  case (Cons y xs)
  obtain a n c where y: "y = (a, n, c)" by (cases y)
  show ?case unfolding y list.map concat.simps set_append Un_iff Cons.IH by auto
qed simp

text \<open>
  The cap refusal counts what the batch would write.  A batch is refused
  for an actor exactly when the actor has a capped row in it and its stored
  pending rows, plus the rows of the batch that would insert (every keyless
  row, and the first row of each idempotency pair not stored yet), exceed the
  cap: the operator's override where there is one, else the tightest of the
  caps its rows carry.  The refusal reports the stored count and that cap.
\<close>

theorem cap_refusal_reference:
  "MaxPendingExceeded act n cap \<in> set (batch_cap_refusal_kernel overrides stored existing as) \<longleftrightarrow>
     carried_caps as act \<noteq> {} \<and> n = existing act
     \<and> cap = or_else (overrides act) (Min (carried_caps as act))
     \<and> cap < existing act + int (length (filter (capped act) (batch_writes stored {} as)))"
proof -
  let ?D = "or_else (map_of (deduped_counts stored {} (cap_keyed_pairs as) []) act) 0"
  have w: "int (length (filter (capped act) as)) - ?D = int (length (filter (capped act) (batch_writes stored {} as)))"
    using deduped_plus_writes[of stored "{}" as "[]" act] by (simp add: or_else_def)
  have "MaxPendingExceeded act n cap \<in> set (batch_cap_refusal_kernel overrides stored existing as) \<longleftrightarrow>
    (\<exists>k carried. (act, k, carried) \<in> set (batch_cap_groups as) \<and> n = existing act
       \<and> cap = or_else (overrides act) carried \<and> cap < existing act + (k - ?D))"
    unfolding batch_cap_refusal_kernel_def Let_def concat_if_mem enqueue_error.inject
    by iprover
  then show ?thesis unfolding batch_cap_groups_mem by (simp add: w)
qed

text \<open>The idempotency pairs of a batch, in batch order.\<close>

definition batch_pairs :: "EnqueueArgs list \<Rightarrow> (string \<times> string) list" where
  "batch_pairs as = concat (map (\<lambda>a. case arg_idempotency_key a of
     None \<Rightarrow> [] | Some k \<Rightarrow> [(arg_idempotency_scope a, k)]) as)"

fun first_repeat :: "('p \<Rightarrow> bool) \<Rightarrow> 'p set \<Rightarrow> 'p list \<Rightarrow> 'p option" where
  "first_repeat stored seen [] = None"
| "first_repeat stored seen (p # ps) =
     (if p \<in> seen \<or> stored p then Some p else first_repeat stored (insert p seen) ps)"

lemma first_duplicate_repeat:
  "first_duplicate_idempotency_pair stored seen as = first_repeat stored seen (batch_pairs as)"
  by (induction as arbitrary: seen) (simp_all add: batch_pairs_def Let_def split: option.split)

lemma first_repeat_None:
  "first_repeat stored seen ps = None \<longleftrightarrow> distinct ps \<and> (\<forall>p\<in>set ps. p \<notin> seen \<and> \<not> stored p)"
  by (induction ps arbitrary: seen) auto

lemma first_repeat_Some:
  "first_repeat stored seen ps = Some p \<Longrightarrow> \<exists>pre post. ps = pre @ p # post \<and> distinct pre
       \<and> (\<forall>q\<in>set pre. q \<notin> seen \<and> \<not> stored q) \<and> (p \<in> seen \<or> stored p \<or> p \<in> set pre)"
proof (induction ps arbitrary: seen)
  case (Cons q ps)
  show ?case
  proof (cases "q \<in> seen \<or> stored q")
    case True
    then show ?thesis using Cons.prems by (intro exI[of _ "[]"] exI[of _ ps]) auto
  next
    case False
    then have "first_repeat stored (insert q seen) ps = Some p" using Cons.prems by simp
    from Cons.IH[OF this] obtain pre post where i: "ps = pre @ p # post" "distinct pre"
        "\<forall>x\<in>set pre. x \<notin> insert q seen \<and> \<not> stored x" "p \<in> insert q seen \<or> stored p \<or> p \<in> set pre"
      by (elim exE conjE)
    have "q # ps = (q # pre) @ p # post" "distinct (q # pre)"
        "\<forall>x\<in>set (q # pre). x \<notin> seen \<and> \<not> stored x" "p \<in> seen \<or> stored p \<or> p \<in> set (q # pre)"
      using False i by auto
    then show ?thesis by (intro exI conjI)
  qed
qed simp

text \<open>
  The pair a batch write is said to abort on.  The search returns nothing
  exactly when the batch's pairs are all different and none is stored;
  otherwise it returns the first pair in batch order that is stored or already
  occurred, with no such pair before it.
\<close>

theorem first_duplicate_reference:
  "case first_duplicate_idempotency_pair stored {} as of
     None \<Rightarrow> distinct (batch_pairs as) \<and> \<not> (\<exists>p\<in>set (batch_pairs as). stored p)
   | Some p \<Rightarrow> \<exists>pre post. batch_pairs as = pre @ p # post \<and> (stored p \<or> p \<in> set pre)
       \<and> distinct pre \<and> \<not> (\<exists>q\<in>set pre. stored q)"
  unfolding first_duplicate_repeat
proof (cases "first_repeat stored {} (batch_pairs as)")
  case None
  then show "case first_repeat stored {} (batch_pairs as) of
     None \<Rightarrow> distinct (batch_pairs as) \<and> \<not> (\<exists>p\<in>set (batch_pairs as). stored p)
   | Some p \<Rightarrow> \<exists>pre post. batch_pairs as = pre @ p # post \<and> (stored p \<or> p \<in> set pre)
       \<and> distinct pre \<and> \<not> (\<exists>q\<in>set pre. stored q)"
    using first_repeat_None[of stored "{}" "batch_pairs as"] by simp
next
  case (Some p)
  then show "case first_repeat stored {} (batch_pairs as) of
     None \<Rightarrow> distinct (batch_pairs as) \<and> \<not> (\<exists>p\<in>set (batch_pairs as). stored p)
   | Some p \<Rightarrow> \<exists>pre post. batch_pairs as = pre @ p # post \<and> (stored p \<or> p \<in> set pre)
       \<and> distinct pre \<and> \<not> (\<exists>q\<in>set pre. stored q)"
    using first_repeat_Some[OF Some] unfolding Some option.case by blast
qed

end
