(* ===== verification/Heartbeat.thy ===== *)
theory Heartbeat
  imports Sweeps
begin

text \<open>
  The heartbeat's statements (\<open>backend/_sql.py\<close>, \<open>worker/heartbeat.py\<close>): lease
  renewal with its threshold, the claim-loss reconcile, and the hand-back of a
  worker that isolates itself.  Clocks as in the sweeps: \<open>ts\<close> is
  \<open>statement_timestamp()\<close>, \<open>clk k i\<close> the k-th \<open>clock_timestamp()\<close> for row \<open>i\<close>.
\<close>

section \<open>Lease renewal\<close>

definition lease_renewal_threshold :: "(rat \<Rightarrow> rat) \<Rightarrow> interval \<Rightarrow> rat \<Rightarrow> int \<Rightarrow> rat \<Rightarrow> interval" where
  "lease_renewal_threshold rnd lock_lease heartbeat_interval max_failures command_timeout =
     (let worst_beat_gap = rnd (heartbeat_interval + command_timeout);
          last_beat_tail = max heartbeat_interval command_timeout;
          safety_floor = timedelta_seconds rnd
            (rnd (last_beat_tail + rnd (of_int (max_failures + 1) * worst_beat_gap)))
      in max safety_floor (round_half_even (of_int lock_lease / 2)))"

definition held_by :: "uuid \<Rightarrow> uuid list \<Rightarrow> job \<Rightarrow> bool" where
  "held_by w disowned j \<longleftrightarrow>
     sql_eq (locked_by_worker j) (Some w) \<and> status j = Running \<and> jid j \<notin> set disowned"

definition renew_set :: "(nat \<Rightarrow> uuid \<Rightarrow> timestamptz) \<Rightarrow> interval \<Rightarrow> job \<Rightarrow> job" where
  "renew_set clk lease j = j\<lparr>last_heartbeat_at := Some (clk 0 (jid j)),
                           lock_expires_at := Some (clk 1 (jid j) + lease)\<rparr>"

definition heartbeat_jobs ::
    "(nat \<Rightarrow> uuid \<Rightarrow> timestamptz) \<Rightarrow> uuid \<Rightarrow> interval \<Rightarrow> uuid list \<Rightarrow> db \<Rightarrow> nat \<times> db" where
  "heartbeat_jobs clk w lease disowned d =
     (length (filter (held_by w disowned) (jobs d)),
      d\<lparr>jobs := upd_where (held_by w disowned) (renew_set clk lease) (jobs d)\<rparr>)"

text \<open>The shortlist \<open>due\<close>: three UNIONed arms, two of them without the holder conjunct.\<close>

definition due :: "timestamptz \<Rightarrow> uuid \<Rightarrow> uuid list \<Rightarrow> interval \<Rightarrow> db \<Rightarrow> uuid list" where
  "due ts w disowned threshold d = remdups (
     map jid (filter (\<lambda>j. status j = Running \<and> sql_eq (locked_by_worker j) (Some w)
        \<and> jid j \<notin> set disowned \<and> heartbeat_timeout j \<noteq> None) (jobs d))
     @ map jid (filter (\<lambda>j. status j = Running \<and> jid j \<notin> set disowned
        \<and> lock_expires_at j = None) (jobs d))
     @ map jid (filter (\<lambda>j. status j = Running \<and> jid j \<notin> set disowned
        \<and> sql_le (lock_expires_at j) (Some (ts + threshold))) (jobs d)))"

definition renew_leases ::
    "timestamptz \<Rightarrow> (nat \<Rightarrow> uuid \<Rightarrow> timestamptz) \<Rightarrow> uuid \<Rightarrow> interval \<Rightarrow> uuid list \<Rightarrow> interval \<Rightarrow> db
     \<Rightarrow> nat \<times> db" where
  "renew_leases ts clk w lease disowned threshold d =
     (let hit = (\<lambda>j. held_by w disowned j \<and> jid j \<in> set (due ts w disowned threshold d)) in
      (length (filter hit (jobs d)), d\<lparr>jobs := upd_where hit (renew_set clk lease) (jobs d)\<rparr>))"

definition extend_reservation_leases ::
    "(slot_row \<Rightarrow> timestamptz) \<Rightarrow> uuid \<Rightarrow> interval \<Rightarrow> uuid list \<Rightarrow> db \<Rightarrow> slot_row list \<Rightarrow> slot_row list" where
  "extend_reservation_leases clk w lease disowned d slots =
     upd_where (\<lambda>s. case s_job_id s of
         None \<Rightarrow> False
       | Some i \<Rightarrow> (\<exists>j\<in>set (jobs d). jid j = i \<and> sql_eq (locked_by_worker j) (Some w) \<and> status j = Running)
            \<and> i \<notin> set disowned)
       (\<lambda>s. s\<lparr>s_lease_expires_at := Some (clk s + lease)\<rparr>) slots"

definition select_still_held :: "uuid list \<Rightarrow> uuid \<Rightarrow> db \<Rightarrow> uuid list" where
  "select_still_held ids w d =
     map jid (filter (\<lambda>j. jid j \<in> set ids \<and> sql_eq (locked_by_worker j) (Some w)
        \<and> status j = Running) (jobs d))"

section \<open>Claim-loss reconcile\<close>

definition reconcile_where ::
    "(nat \<Rightarrow> uuid \<Rightarrow> timestamptz) \<Rightarrow> uuid \<Rightarrow> uuid list \<Rightarrow> interval \<Rightarrow> db \<Rightarrow> job \<Rightarrow> bool" where
  "reconcile_where clk w known lease d j \<longleftrightarrow>
     sql_eq (locked_by_worker j) (Some w) \<and> status j = Running \<and> cancel_phase j = 0
     \<and> jid j \<notin> set known \<and> sql_lt (started_at j) (Some (clk 0 (jid j) - lease))
     \<and> (jid j, attempt j) \<notin> att_key ` set (job_attempts d)"

definition reconcile_lost_claims ::
    "(nat \<Rightarrow> uuid \<Rightarrow> timestamptz) \<Rightarrow> uuid \<Rightarrow> uuid list \<Rightarrow> interval \<Rightarrow> db \<Rightarrow> uuid list \<times> db" where
  "reconcile_lost_claims clk w known lease d =
     (let P = reconcile_where clk w known lease d in
      (map jid (filter P (jobs d)),
       d\<lparr>jobs := upd_where P (\<lambda>j. j\<lparr>attempt := ATTEMPT_REFUND j, started_at := None\<rparr>) (jobs d)\<rparr>))"

section \<open>Isolation\<close>

definition ISOLATE_CRASHED_MESSAGE :: string where
  "ISOLATE_CRASHED_MESSAGE = ''worker heartbeat connection lost before terminal state was reported''"

definition select_running_jobs :: "uuid \<Rightarrow> uuid list \<Rightarrow> db \<Rightarrow> job list" where
  "select_running_jobs w excluded d = filter (held_by w excluded) (jobs d)"

definition isolate_set :: "(string \<Rightarrow> string) \<Rightarrow> clock \<Rightarrow> rat \<Rightarrow> job \<Rightarrow> job" where
  "isolate_set md5 clk max_s j = j\<lparr>
     status := (if cancel_phase j \<noteq> 0 then Cancelled
                else if RECLAIM_HAS_BUDGET j then Pending else Crashed),
     locked_by_worker := None,
     lock_expires_at := None,
     cancel_phase := (if cancel_phase j \<noteq> 0 then cancel_phase j else 0),
     cancel_requested_at := (if cancel_phase j \<noteq> 0 then cancel_requested_at j else None),
     assignment_routed := True,
     scheduled_at := (if cancel_phase j = 0 \<and> RECLAIM_HAS_BUDGET j
                      then clk 0 + RECLAIM_DELAY_SQL rnd64 md5 j max_s else scheduled_at j),
     finished_at := (if cancel_phase j \<noteq> 0 \<or> \<not> RECLAIM_HAS_BUDGET j
                     then Some (clk 1) else finished_at j),
     error_class := (if cancel_phase j = 0 \<and> \<not> RECLAIM_HAS_BUDGET j
                     then Some ERROR_CLASS_HEARTBEAT_LOST else error_class j),
     error_message := (if cancel_phase j = 0 \<and> \<not> RECLAIM_HAS_BUDGET j
                       then Some ISOLATE_CRASHED_MESSAGE else error_message j)\<rparr>"

text \<open>The guarded UPDATE of one row: the row after the write, if it matched.\<close>

definition isolate_job ::
    "(string \<Rightarrow> string) \<Rightarrow> clock \<Rightarrow> rat \<Rightarrow> uuid \<Rightarrow> uuid \<Rightarrow> db \<Rightarrow> (job \<times> db) option" where
  "isolate_job md5 clk max_s i w d = (case find_job i d of
       None \<Rightarrow> None
     | Some j \<Rightarrow> if status j = Running \<and> sql_eq (locked_by_worker j) (Some w)
         then Some (isolate_set md5 clk max_s j, put_job (isolate_set md5 clk max_s j) d) else None)"

definition isolate_attempt :: "timestamptz \<Rightarrow> uuid \<Rightarrow> job \<Rightarrow> job \<Rightarrow> db \<Rightarrow> db" where
  "isolate_attempt now w snap upd d = (case started_at upd of
       None \<Rightarrow> d
     | Some st \<Rightarrow> d\<lparr>job_attempts := ins_new att_key
         \<lparr>a_job_id = jid snap, a_attempt = attempt upd, a_started_at = st, a_finished_at = Some now,
          a_outcome = OutCrashed, a_error_class = Some ERROR_CLASS_HEARTBEAT_LOST,
          a_error_message = None, a_error_traceback = None, a_duration_ms = None,
          a_worker_id = holder (Some w) d, a_metadata = Map.empty,
          a_due_at = Some (scheduled_at snap)\<rparr> (job_attempts d)\<rparr>)"

definition isolate_detail :: "uuid \<Rightarrow> job_status \<Rightarrow> jobj" where
  "isolate_detail w new_status = state_change_detail ''running'' (status_text new_status)
     [(''reason'', JStr ''lock_expired''), (''cause'', JStr ''isolate_self''),
      (''worker_id'', JStr (uuid_text w))]"

record isolate_counts =
  n_pending :: nat
  n_crashed :: nat
  n_cancelled :: nat
  n_lost_race :: nat

definition count_status :: "job_status \<Rightarrow> isolate_counts \<Rightarrow> isolate_counts" where
  "count_status s c = (case s of
       Pending \<Rightarrow> c\<lparr>n_pending := n_pending c + 1\<rparr>
     | Cancelled \<Rightarrow> c\<lparr>n_cancelled := n_cancelled c + 1\<rparr>
     | _ \<Rightarrow> c\<lparr>n_crashed := n_crashed c + 1\<rparr>)"

text \<open>
  The loop over the snapshot.  \<open>between i\<close> is what other transactions commit
  before the UPDATE of row \<open>i\<close>; the events are collected for one batch.
\<close>

fun isolate_rows ::
    "(string \<Rightarrow> string) \<Rightarrow> (uuid \<Rightarrow> clock) \<Rightarrow> (uuid \<Rightarrow> db \<Rightarrow> db) \<Rightarrow> rat \<Rightarrow> uuid \<Rightarrow> job list
     \<Rightarrow> isolate_counts \<times> (uuid \<times> jobj) list \<times> db \<Rightarrow> isolate_counts \<times> (uuid \<times> jobj) list \<times> db" where
  "isolate_rows md5 clk between max_s w [] st = st"
| "isolate_rows md5 clk between max_s w (r # rs) (c, evs, d) =
     isolate_rows md5 clk between max_s w rs
       (case isolate_job md5 (clk (jid r)) max_s (jid r) w (between (jid r) d) of
          None \<Rightarrow> (c\<lparr>n_lost_race := n_lost_race c + 1\<rparr>, evs, between (jid r) d)
        | Some (u, d') \<Rightarrow>
            (count_status (status u) c, evs @ [(jid r, isolate_detail w (status u))],
             isolate_attempt (clk (jid r) 2) w r u d'))"

definition isolate_self ::
    "(string \<Rightarrow> string) \<Rightarrow> (uuid \<Rightarrow> clock) \<Rightarrow> (uuid \<Rightarrow> timestamptz) \<Rightarrow> (uuid \<Rightarrow> db \<Rightarrow> db) \<Rightarrow> interval
     \<Rightarrow> uuid \<Rightarrow> uuid list \<Rightarrow> db \<Rightarrow> isolate_counts \<times> db" where
  "isolate_self md5 clk ev_clk between max_backoff w excluded d =
     (case isolate_rows md5 clk between (total_seconds rnd64 max_backoff) w
             (select_running_jobs w excluded d)
             (\<lparr>n_pending = 0, n_crashed = 0, n_cancelled = 0, n_lost_race = 0\<rparr>, [], d) of
        (c, evs, d') \<Rightarrow> (c, insert_events_batch ev_clk ''state_change'' evs d'))"

section \<open>Lemmas\<close>

lemma in_due:
  assumes "unique_jobs d" "j \<in> set (jobs d)" "held_by w dis j"
  shows "jid j \<in> set (due ts w dis thr d) \<longleftrightarrow>
    heartbeat_timeout j \<noteq> None \<or> lock_expires_at j = None \<or> sql_le (lock_expires_at j) (Some (ts + thr))"
proof -
  have "k = j" if "k \<in> set (jobs d)" "jid k = jid j" for k
    using assms(1,2) that by (auto simp: unique_jobs_def distinct_map dest: inj_onD)
  then show ?thesis
    using assms(2,3) by (auto simp: due_def held_by_def image_iff)
qed

section \<open>Properties\<close>

lemma renew_due:
  assumes "unique_jobs d"
  shows "renew_leases ts clk w lease dis thr d = (let hit = (\<lambda>j. held_by w dis j \<and> (heartbeat_timeout j \<noteq> None
      \<or> lock_expires_at j = None \<or> sql_le (lock_expires_at j) (Some (ts + thr)))) in
    (length (filter hit (jobs d)), d\<lparr>jobs := upd_where hit (renew_set clk lease) (jobs d)\<rparr>))"
proof -
  have "(held_by w dis j \<and> jid j \<in> set (due ts w dis thr d)) = (held_by w dis j \<and> (heartbeat_timeout j \<noteq> None
      \<or> lock_expires_at j = None \<or> sql_le (lock_expires_at j) (Some (ts + thr))))"
    if "j \<in> set (jobs d)" for j
    using in_due[OF assms that, of w dis ts thr] by blast
  then have "filter (\<lambda>j. held_by w dis j \<and> jid j \<in> set (due ts w dis thr d)) (jobs d)
      = filter (\<lambda>j. held_by w dis j \<and> (heartbeat_timeout j \<noteq> None
      \<or> lock_expires_at j = None \<or> sql_le (lock_expires_at j) (Some (ts + thr)))) (jobs d)"
    "upd_where (\<lambda>j. held_by w dis j \<and> jid j \<in> set (due ts w dis thr d)) (renew_set clk lease) (jobs d)
      = upd_where (\<lambda>j. held_by w dis j \<and> (heartbeat_timeout j \<noteq> None
      \<or> lock_expires_at j = None \<or> sql_le (lock_expires_at j) (Some (ts + thr)))) (renew_set clk lease) (jobs d)"
    by (auto simp: upd_where_def intro!: filter_cong map_cong)
  then show ?thesis by (simp only: renew_leases_def Let_def)
qed

lemma held_by_renew [simp]: "held_by w dis (renew_set clk lease j) = held_by w dis j"
  by (simp add: held_by_def renew_set_def)

text \<open>
  C37: a beat keeps what its worker holds.  After the gated renewal (the
  shortlist of three arms) every row the worker holds is out of reach of both
  arms of the lease sweep: of the lease arm for every statement up to the
  renewal threshold ahead, of the heartbeat arm up to the row's own timeout
  after the beat.  Rows of other workers and disowned rows do not change.
\<close>

theorem beat_shields:
  assumes d: "unique_jobs d" and thr: "thr \<le> lease" and clk: "\<And>k i. ts \<le> clk k i"
    and r: "renew_leases ts clk w lease dis thr d = (k, d')" and f: "find_job i d = Some j"
  shows "if held_by w dis j
    then \<exists>u. find_job i d' = Some u \<and> held_by w dis u \<and> attempt u = attempt j \<and> claim_epoch u = claim_epoch j
      \<and> (\<forall>ts' cg ug. ts' \<le> ts + thr \<longrightarrow> \<not> lease_arm ts' cg ug u)
      \<and> (\<forall>ts' cg ug t. heartbeat_timeout j = Some t \<and> ts' \<le> ts + t \<longrightarrow> \<not> heartbeat_arm ts' cg ug u)
    else find_job i d' = Some j"
proof -
  let ?hit = "\<lambda>j. held_by w dis j \<and> (heartbeat_timeout j \<noteq> None
      \<or> lock_expires_at j = None \<or> sql_le (lock_expires_at j) (Some (ts + thr)))"
  have "d' = d\<lparr>jobs := upd_where ?hit (renew_set clk lease) (jobs d)\<rparr>"
    using r unfolding renew_due[OF d] by (simp add: Let_def)
  then have f': "find_job i d' = Some (if ?hit j then renew_set clk lease j else j)"
    using f by (simp add: find_job_def row_by_upd_where renew_set_def)
  have c: "ts + thr \<le> clk 1 (jid j) + lease" "ts \<le> clk 0 (jid j)"
    using thr clk[of 1 "jid j"] clk[of 0 "jid j"] by linarith+
  show ?thesis
  proof (cases "?hit j")
    case True
    then show ?thesis using f' c
      by (auto simp: renew_set_def lease_arm_def heartbeat_arm_def heartbeat_deadline_def sql_rel_iff held_by_def)
  next
    case False
    then show ?thesis using f'
      by (auto simp: lease_arm_def heartbeat_arm_def sql_rel_iff)
  qed
qed

lemma beat_shields_witness:
  "\<exists>k d' u. renew_leases 30000000 (\<lambda>_ _. 30000000) 7 30000000 [] 15000000 sample_db = (k, d')
     \<and> find_job 4 d' = Some u \<and> \<not> lease_arm 45000000 0 0 u"
proof -
  obtain k d' where r: "renew_leases 30000000 (\<lambda>_ _. 30000000) 7 30000000 [] 15000000 sample_db = (k, d')"
    by fastforce
  have d: "unique_jobs sample_db" by (simp add: unique_jobs_def)
  have h: "held_by 7 [] sample_job" by (simp add: held_by_def)
  have "\<exists>u. find_job 4 d' = Some u \<and> \<not> lease_arm 45000000 0 0 u"
    using beat_shields[OF d _ _ r sample_find] h by auto
  then show ?thesis using r by blast
qed

text \<open>
  The isolating worker and the lease sweep write the same row.  For every
  row, clock and ceiling, the hand-back of \<open>isolate_self\<close> and the reclaim of
  sweep 1 set every column alike, the two error columns apart.
\<close>

theorem isolate_matches_reclaim:
  "(isolate_set md5 clk m j)\<lparr>error_class := e, error_message := msg\<rparr>
   = (sweep_1_set md5 (\<lambda>k _. clk k) m r j)\<lparr>error_class := e, error_message := msg\<rparr>"
  by (simp add: isolate_set_def sweep_1_set_def)

definition n_total :: "isolate_counts \<Rightarrow> nat" where
  "n_total c = n_pending c + n_crashed c + n_cancelled c + n_lost_race c"

lemma n_total_count: "n_total (count_status s c) = n_total c + 1" "n_lost_race (count_status s c) = n_lost_race c"
  by (simp_all add: n_total_def count_status_def split: job_status.split)

lemma isolate_rows_total:
  "isolate_rows md5 clk btw m w rs (c, evs, d) = (c', evs', d') \<Longrightarrow>
   n_total c' = n_total c + length rs
   \<and> length evs' + n_lost_race c' = length evs + length rs + n_lost_race c"
proof (induction rs arbitrary: c evs d)
  case (Cons r rs)
  then show ?case
    by (fastforce simp: n_total_count split: option.splits simp: n_total_def[of "_\<lparr>n_lost_race := _\<rparr>"] n_total_def[of c])
qed simp

lemma isolate_attempt_jobs [simp]: "find_job i (isolate_attempt now w s u d) = find_job i d"
  by (simp add: find_job_def isolate_attempt_def split: option.split)

lemma isolate_rows_alone:
  assumes "isolate_rows md5 clk (\<lambda>_ d. d) m w rs (c, evs, d) = (c', evs', d')"
    and "distinct (map jid rs)" "\<forall>r\<in>set rs. find_job (jid r) d = Some r \<and> held_by w [] r"
  shows "n_lost_race c' = n_lost_race c
    \<and> (\<forall>i. find_job i d' = (if i \<in> jid ` set rs then map_option (isolate_set md5 (clk i) m) (find_job i d)
                           else find_job i d))"
  using assms
proof (induction rs arbitrary: c evs d)
  case (Cons r rs)
  let ?u = "isolate_set md5 (clk (jid r)) m r"
  let ?d = "isolate_attempt (clk (jid r) 2) w r ?u (put_job ?u d)"
  have u: "jid ?u = jid r" by (simp add: isolate_set_def)
  have fr: "find_job (jid r) d = Some r" "status r = Running" "sql_eq (locked_by_worker r) (Some w)"
    using Cons.prems(3) by (auto simp: held_by_def)
  have run: "isolate_rows md5 clk (\<lambda>_ d. d) m w rs (count_status (status ?u) c,
      evs @ [(jid r, isolate_detail w (status ?u))], ?d) = (c', evs', d')"
    using Cons.prems(1) fr by (simp add: isolate_job_def)
  have fd: "find_job i ?d = (if i = jid r then Some ?u else find_job i d)" for i
    using fr by (simp add: find_job_put u)
  have "\<forall>x\<in>set rs. find_job (jid x) ?d = Some x \<and> held_by w [] x"
    using Cons.prems(2,3) fd by (auto simp: image_iff)
  from Cons.IH[OF run _ this] show ?case
    using Cons.prems(2) fd fr by (auto simp: n_total_count image_iff)
qed simp

text \<open>
  C38: isolation hands back every row once.  Whatever other transactions do in
  between, every selected row is counted exactly once, as pending, crashed,
  cancelled or lost to a race.  When nothing interferes no race is lost: each
  row the worker held (the excluded ones apart) is released, so that no claim
  passes its fence, is cancelled if a cancel was requested, and otherwise is
  pending or crashed by its budget; every other row stays as it was.
\<close>

theorem isolate_hands_back:
  assumes "unique_jobs d"
  shows "n_total (fst (isolate_self md5 clk ev btw mb w excluded d)) = length (select_running_jobs w excluded d)
    \<and> n_lost_race (fst (isolate_self md5 clk ev (\<lambda>_ d. d) mb w excluded d)) = 0
    \<and> (\<forall>j\<in>set (jobs d). let r = find_job (jid j) (snd (isolate_self md5 clk ev (\<lambda>_ d. d) mb w excluded d)) in
         if held_by w excluded j
         then \<exists>u. r = Some u \<and> (\<forall>c. \<not> JOB_FENCE c u) \<and> status u = (if cancel_phase j \<noteq> 0 then Cancelled
                else if RECLAIM_HAS_BUDGET j then Pending else Crashed)
         else r = Some j)"
proof (intro conjI ballI)
  let ?rs = "select_running_jobs w excluded d"
  let ?c = "\<lparr>n_pending = 0, n_crashed = 0, n_cancelled = 0, n_lost_race = 0\<rparr>"
  let ?m = "total_seconds rnd64 mb"
  obtain c evs d' where r: "isolate_rows md5 clk btw ?m w ?rs (?c, [], d) = (c, evs, d')"
    by (rule prod_cases3)
  show "n_total (fst (isolate_self md5 clk ev btw mb w excluded d)) = length ?rs"
    using isolate_rows_total[OF r] by (simp add: isolate_self_def r n_total_def[of ?c])
  obtain c evs d' where r: "isolate_rows md5 clk (\<lambda>_ d. d) ?m w ?rs (?c, [], d) = (c, evs, d')"
    by (rule prod_cases3)
  have rs: "distinct (map jid ?rs)" "\<forall>r\<in>set ?rs. find_job (jid r) d = Some r \<and> held_by w [] r"
    using assms find_job_member[of d]
    by (auto simp: select_running_jobs_def unique_jobs_def distinct_map_filter held_by_def)
  note alone = isolate_rows_alone[OF r rs]
  show "n_lost_race (fst (isolate_self md5 clk ev (\<lambda>_ d. d) mb w excluded d)) = 0"
    using alone by (simp add: isolate_self_def r)
  fix j assume j: "j \<in> set (jobs d)"
  have fj: "find_job (jid j) d = Some j" using find_job_member j assms by (simp add: unique_jobs_def)
  have mem: "jid j \<in> jid ` set ?rs \<longleftrightarrow> held_by w excluded j"
    using assms j by (auto simp: select_running_jobs_def unique_jobs_def distinct_map dest: inj_onD)
  have "find_job (jid j) (snd (isolate_self md5 clk ev (\<lambda>_ d. d) mb w excluded d)) = find_job (jid j) d'"
    by (simp add: isolate_self_def r find_job_def)
  then show "let r = find_job (jid j) (snd (isolate_self md5 clk ev (\<lambda>_ d. d) mb w excluded d)) in
         if held_by w excluded j
         then \<exists>u. r = Some u \<and> (\<forall>c. \<not> JOB_FENCE c u) \<and> status u = (if cancel_phase j \<noteq> 0 then Cancelled
                else if RECLAIM_HAS_BUDGET j then Pending else Crashed)
         else r = Some j"
    using alone mem fj by (simp add: Let_def isolate_set_def JOB_FENCE_def)
qed

lemma isolate_hands_back_witness:
  "n_total (fst (isolate_self rev (\<lambda>_ _. 5) (\<lambda>_. 5) (\<lambda>_ d. d) 60000000 7 [] sample_db)) = 1
   \<and> (\<exists>u. find_job 4 (snd (isolate_self rev (\<lambda>_ _. 5) (\<lambda>_. 5) (\<lambda>_ d. d) 60000000 7 [] sample_db)) = Some u
         \<and> status u = Pending)"
proof -
  have "unique_jobs sample_db" by (simp add: unique_jobs_def)
  from isolate_hands_back[OF this, of rev "\<lambda>_ _. 5" "\<lambda>_. 5" "\<lambda>_ d. d" 60000000 7 "[]"]
  show ?thesis by (auto simp: select_running_jobs_def held_by_def Let_def RECLAIM_HAS_BUDGET_def)
qed

end
