(* ===== verification/Lifecycle.thy ===== *)
theory Lifecycle
  imports Statemachine Prelude
begin

text \<open>
  The abstract life of one job: its status, attempt number, claim epoch,
  cancel phase and the set of attempt numbers the ledger holds for it, with
  one rule per kind of transition the backend performs.  The theory
  \<open>System\<close> shows that every operation of the model moves every row along one
  of these rules; the invariants are proved here once.
\<close>

section \<open>The abstract machine\<close>

record life =
  l_status :: job_status
  l_attempt :: int
  l_epoch :: int
  l_phase :: int
  l_requested :: bool
  l_started :: bool
  l_finished :: bool
  l_held :: "uuid option"
  l_ledger :: "int set"

definition recorded :: "life \<Rightarrow> int set" where
  "recorded l = insert (l_attempt l) (l_ledger l)"

definition refunded :: "life \<Rightarrow> int" where
  "refunded l = max (l_attempt l - 1) 0"

inductive lstep :: "life \<Rightarrow> life \<Rightarrow> bool" where
  stay: "lstep l l"
| claim: "l_status l = Pending \<Longrightarrow>
    lstep l (l\<lparr>l_status := Running, l_attempt := min (l_attempt l + 1) 32767,
               l_epoch := l_epoch l + 1, l_started := True, l_finished := False, l_held := Some w\<rparr>)"
| finish: "l_status l = Running \<Longrightarrow> s \<in> TERMINAL_STATUSES \<Longrightarrow>
    L = recorded l \<or> (L = l_ledger l \<and> \<not> l_started l) \<Longrightarrow>
    lstep l (l\<lparr>l_status := s, l_finished := True, l_held := h, l_ledger := L\<rparr>)"
| release: "l_status l = Running \<Longrightarrow> l_phase l = 0 \<Longrightarrow> s \<in> {Pending, Scheduled} \<Longrightarrow>
    L \<in> {l_ledger l, recorded l} \<Longrightarrow>
    lstep l (l\<lparr>l_status := s, l_held := None, l_ledger := L\<rparr>)"
| refund: "l_status l = Running \<Longrightarrow> l_phase l = 0 \<Longrightarrow> l_started l \<Longrightarrow> s \<in> {Pending, Scheduled} \<Longrightarrow>
    lstep l (l\<lparr>l_status := s, l_held := None, l_attempt := refunded l\<rparr>)"
| unclaim: "l_status l = Running \<Longrightarrow> l_phase l = 0 \<Longrightarrow> l_started l \<Longrightarrow> l_attempt l \<notin> l_ledger l \<Longrightarrow>
    lstep l (l\<lparr>l_attempt := refunded l, l_started := False\<rparr>)"
| request: "l_status l = Running \<Longrightarrow> l_phase l = 0 \<Longrightarrow>
    lstep l (l\<lparr>l_phase := 1, l_requested := True\<rparr>)"
| escalate: "l_status l = Running \<Longrightarrow> l_phase l = 1 \<Longrightarrow> lstep l (l\<lparr>l_phase := 2\<rparr>)"
| withdraw: "l_status l \<in> {Pending, Scheduled} \<Longrightarrow>
    lstep l (l\<lparr>l_status := Cancelled, l_finished := True\<rparr>)"
| expire: "l_status l \<in> {Pending, Scheduled} \<Longrightarrow>
    lstep l (l\<lparr>l_status := Failed, l_finished := True, l_ledger := recorded l\<rparr>)"
| promote: "l_status l = Scheduled \<Longrightarrow> lstep l (l\<lparr>l_status := Pending\<rparr>)"
| revive: "l_status l \<in> TERMINAL_STATUSES \<Longrightarrow>
    lstep l (l\<lparr>l_status := Pending, l_finished := False, l_phase := 0, l_requested := False\<rparr>)"

inductive_cases lstep_elim: "lstep l l'"

section \<open>Invariants\<close>

definition ceiling_reached :: "life \<Rightarrow> bool" where
  "ceiling_reached l \<longleftrightarrow> 32767 \<in> l_ledger l"

text \<open>
  Until the ledger holds the ceiling number, no recorded number exceeds the
  counter, and a standing claim has a number the ledger does not hold yet.
\<close>

definition ledger_fresh :: "life \<Rightarrow> bool" where
  "ledger_fresh l \<longleftrightarrow> ceiling_reached l \<or>
     ((\<forall>n\<in>l_ledger l. n \<le> l_attempt l)
      \<and> (l_status l = Running \<and> l_started l \<longrightarrow> l_attempt l \<notin> l_ledger l))"

definition columns_ok :: "life \<Rightarrow> bool" where
  "columns_ok l \<longleftrightarrow>
     0 \<le> l_attempt l \<and> l_attempt l \<le> 32767 \<and> 0 \<le> l_epoch l \<and> 0 \<le> l_phase l \<and> l_phase l \<le> 2
     \<and> (l_phase l = 0 \<longleftrightarrow> \<not> l_requested l)
     \<and> (l_finished l \<longleftrightarrow> l_status l \<in> TERMINAL_STATUSES)
     \<and> (l_status l \<in> {Pending, Scheduled} \<longrightarrow> l_phase l = 0)
     \<and> (l_status l = Running \<longrightarrow> l_held l \<noteq> None)
     \<and> (l_status l = Running \<and> l_started l \<longrightarrow> 1 \<le> l_attempt l)"

definition linv :: "life \<Rightarrow> bool" where
  "linv l \<longleftrightarrow> columns_ok l \<and> ledger_fresh l"

lemma lstep_columns_ok: "lstep l l' \<Longrightarrow> columns_ok l \<Longrightarrow> columns_ok l'"
  by (induction rule: lstep.induct) (auto simp: columns_ok_def refunded_def)

lemma lstep_ledger_grows: "lstep l l' \<Longrightarrow> l_ledger l \<subseteq> l_ledger l'"
  by (induction rule: lstep.induct) (auto simp: recorded_def)

lemma below_refund:
  assumes "\<forall>n\<in>l_ledger l. n \<le> l_attempt l" "l_attempt l \<notin> l_ledger l" "n \<in> l_ledger l"
  shows "n \<le> refunded l"
proof -
  have "n \<noteq> l_attempt l" "n \<le> l_attempt l" using assms by auto
  then show ?thesis by (simp add: refunded_def)
qed

lemma lstep_fresh_below:
  assumes "lstep l l'" "columns_ok l" "\<forall>n\<in>l_ledger l. n \<le> l_attempt l"
    "l_status l = Running \<and> l_started l \<longrightarrow> l_attempt l \<notin> l_ledger l" "32767 \<notin> l_ledger l'"
  shows "(\<forall>n\<in>l_ledger l'. n \<le> l_attempt l')
    \<and> (l_status l' = Running \<and> l_started l' \<longrightarrow> l_attempt l' \<notin> l_ledger l')"
  using assms
proof (induction rule: lstep.induct)
  case (claim l w)
  have "n \<le> min (l_attempt l + 1) 32767" if "n \<in> l_ledger l" for n
    using claim that by (fastforce simp: columns_ok_def)
  moreover have "min (l_attempt l + 1) 32767 \<notin> l_ledger l"
  proof
    assume m: "min (l_attempt l + 1) 32767 \<in> l_ledger l"
    then have "min (l_attempt l + 1) 32767 \<le> l_attempt l" using claim(3) by blast
    then have "min (l_attempt l + 1) 32767 = 32767" by linarith
    then show False using m claim(5) by simp
  qed
  ultimately show ?case by simp
next
  case (refund l s)
  then show ?case using below_refund[of l] by auto
next
  case (unclaim l)
  then show ?case using below_refund[of l] by auto
qed (auto simp: recorded_def)

lemma lstep_ledger_fresh:
  assumes "lstep l l'" "columns_ok l" "ledger_fresh l" shows "ledger_fresh l'"
  using lstep_fresh_below[OF assms(1,2)] lstep_ledger_grows[OF assms(1)] assms(3)
  by (auto simp: ledger_fresh_def ceiling_reached_def)

theorem lstep_linv: "lstep l l' \<Longrightarrow> linv l \<Longrightarrow> linv l'"
  by (simp add: linv_def lstep_columns_ok lstep_ledger_fresh)

lemma lstep_transition:
  "lstep l l' \<Longrightarrow> l_status l' = l_status l \<or> l_status l' \<in> VALID_TRANSITIONS (l_status l)
     \<or> (l_status l \<in> TERMINAL_STATUSES \<and> l_status l' = Pending)"
  by (induction rule: lstep.induct) (auto simp: TERMINAL_STATUSES_def)

lemma lstep_cancel:
  "lstep l l' \<Longrightarrow> l_status l = Running \<Longrightarrow> l_phase l \<noteq> 0 \<Longrightarrow>
     l_status l' \<in> insert Running TERMINAL_STATUSES
     \<and> (l_phase l' = l_phase l \<or> l_status l' = Running \<and> l_phase l < l_phase l')"
  by (induction rule: lstep.induct) auto

lemma lstep_epoch:
  "lstep l l' \<Longrightarrow> l_epoch l \<le> l_epoch l' \<and> (l_epoch l' \<noteq> l_epoch l \<longrightarrow> l_status l' = Running)"
  by (induction rule: lstep.induct) auto

text \<open>
  A standing claim loses its standing for good: once the row has left
  \<open>Running\<close> or its stamp is gone, no step brings the pair (epoch, attempt) of
  that claim back with a running row.
\<close>

lemma lstep_same_epoch:
  "lstep l l' \<Longrightarrow> l_epoch l' = l_epoch l \<Longrightarrow> l_status l' = Running \<Longrightarrow>
   l_status l = Running \<and> l_held l' = l_held l \<and> (l_attempt l' = l_attempt l \<and> l_started l' = l_started l
      \<or> l_started l \<and> \<not> l_started l' \<and> l_attempt l' = refunded l)"
  by (induction rule: lstep.induct) (auto simp: TERMINAL_STATUSES_def)

end
