(* ===== verification/Refinement.thy ===== *)
theory Refinement
  imports Lifecycle Deferral Dispatch Cancel Heartbeat
begin

text \<open>
  Every operation of the model moves every job row along a rule of the
  abstract machine of \<open>Lifecycle\<close>: the abstraction of a row, the notion of a
  transition of the tables that refines the machine row by row, and one lemma
  per operation.
\<close>

section \<open>Abstraction\<close>

definition att :: "uuid \<Rightarrow> db \<Rightarrow> int set" where
  "att i d = {n. (i, n) \<in> att_key ` set (job_attempts d)}"

definition life_of :: "db \<Rightarrow> job \<Rightarrow> life" where
  "life_of d j = \<lparr>l_status = status j, l_attempt = attempt j, l_epoch = claim_epoch j,
     l_phase = cancel_phase j, l_requested = (cancel_requested_at j \<noteq> None),
     l_started = (started_at j \<noteq> None), l_finished = (finished_at j \<noteq> None),
     l_held = locked_by_worker j, l_ledger = att (jid j) d\<rparr>"

definition ledger_ids :: "db \<Rightarrow> bool" where
  "ledger_ids d \<longleftrightarrow> a_job_id ` set (job_attempts d) \<subseteq> jid ` set (jobs d)"

definition rows_ok :: "db \<Rightarrow> bool" where
  "rows_ok d \<longleftrightarrow> unique_jobs d \<and> ledger_ids d \<and> distinct (map att_key (job_attempts d))
     \<and> (\<forall>j\<in>set (jobs d). linv (life_of d j))"

text \<open>A transition of the tables that neither adds nor drops jobs refines the machine row by row.\<close>

definition refines :: "db \<Rightarrow> db \<Rightarrow> bool" where
  "refines d d' \<longleftrightarrow>
     map jid (jobs d') = map jid (jobs d) \<and> ledger_ids d' \<and> distinct (map att_key (job_attempts d'))
     \<and> (\<forall>i j. find_job i d = Some j \<longrightarrow>
          (\<exists>j'. find_job i d' = Some j' \<and> lstep (life_of d j) (life_of d' j')))"

lemma find_job_None: "find_job i d = None \<longleftrightarrow> i \<notin> jid ` set (jobs d)"
  by (simp add: find_job_def row_by_None_iff)

lemma refines_rows_ok:
  assumes "rows_ok d" "refines d d'" shows "rows_ok d'"
proof -
  have u: "unique_jobs d'" using assms by (simp add: rows_ok_def refines_def unique_jobs_def)
  have "linv (life_of d' j')" if "j' \<in> set (jobs d')" for j'
  proof -
    have f': "find_job (jid j') d' = Some j'"
      using find_job_member u that by (simp add: unique_jobs_def)
    have "jid j' \<in> jid ` set (jobs d)"
      using that assms(2) by (metis image_eqI refines_def list.set_map)
    then obtain j where j: "find_job (jid j') d = Some j" using find_job_None by fastforce
    then have "linv (life_of d j)" using assms(1) find_job_in by (auto simp: rows_ok_def)
    then show ?thesis using assms(2) j f' lstep_linv unfolding refines_def by (metis option.inject)
  qed
  then show ?thesis using assms u by (simp add: rows_ok_def refines_def)
qed

text \<open>Statements that leave the attempt ledger alone and rewrite rows one by one.\<close>

lemma refines_upd_where:
  assumes ok: "rows_ok d" and tabs: "jobs d' = upd_where P f (jobs d)" "job_attempts d' = job_attempts d"
    and jid: "\<And>j. jid (f j) = jid j"
    and step: "\<And>j. j \<in> set (jobs d) \<Longrightarrow> P j \<Longrightarrow> linv (life_of d j) \<Longrightarrow> lstep (life_of d j) (life_of d (f j))"
  shows "refines d d'"
proof -
  have att: "life_of d' j = life_of d j" for j by (simp add: life_of_def att_def tabs(2))
  have "map jid (jobs d') = map jid (jobs d)" by (simp add: tabs(1) keys_upd_where jid)
  moreover have "ledger_ids d'"
    using ok calculation unfolding rows_ok_def ledger_ids_def tabs(2) by (metis list.set_map)
  moreover have "\<exists>j'. find_job i d' = Some j' \<and> lstep (life_of d j) (life_of d' j')"
    if "find_job i d = Some j" for i j
    using that step[of j] ok find_job_in[OF that]
    by (auto simp: find_job_def tabs(1) row_by_upd_where jid att rows_ok_def intro: lstep.stay)
  ultimately show ?thesis using ok by (simp add: refines_def tabs(2) rows_ok_def)
qed

text \<open>Statements on one row, with whatever they add to that row's ledger.\<close>

lemma refines_put:
  assumes ok: "rows_ok d" and j: "find_job i d = Some j" "jid j' = i"
    and tabs: "jobs d' = jobs (put_job j' d)"
    and led: "set (job_attempts d) \<subseteq> set (job_attempts d')"
      "\<And>k. k \<noteq> i \<Longrightarrow> att k d' = att k d" "distinct (map att_key (job_attempts d'))"
    and step: "linv (life_of d j) \<Longrightarrow> lstep (life_of d j) (life_of d' j')"
  shows "refines d d'"
proof -
  have ids: "map jid (jobs d') = map jid (jobs d)" by (simp add: tabs jids_put)
  have "k \<in> jid ` set (jobs d')" if a: "a \<in> set (job_attempts d')" "a_job_id a = k" for a k
  proof (cases "k = i")
    case True
    then show ?thesis using j ids find_job_None by (metis list.set_map option.distinct(1))
  next
    case False
    have "a_attempt a \<in> att k d'" using a by (force simp: att_def att_key_def)
    then have "a_attempt a \<in> att k d" using led(2) False by simp
    then have "k \<in> a_job_id ` set (job_attempts d)" by (auto simp: att_def att_key_def)
    then show ?thesis using ok ids unfolding rows_ok_def ledger_ids_def by (metis list.set_map subsetD)
  qed
  then have "ledger_ids d'" by (auto simp: ledger_ids_def)
  moreover have "\<exists>q. find_job k d' = Some q \<and> lstep (life_of d r) (life_of d' q)"
    if r: "find_job k d = Some r" for k r
  proof (cases "k = i")
    case True
    then have "find_job k d' = Some j'" using r j(2) by (simp add: find_job_def tabs find_job_put[unfolded find_job_def])
    moreover have "linv (life_of d j)" using ok j(1) find_job_in by (auto simp: rows_ok_def)
    ultimately show ?thesis using step r j True by simp
  next
    case False
    have "find_job k d' = Some r" using r j(2) False by (simp add: find_job_def tabs find_job_put[unfolded find_job_def])
    moreover have "life_of d' r = life_of d r"
      using led(2)[OF False] find_job_jid[OF r] by (simp add: life_of_def)
    ultimately show ?thesis using lstep.stay by simp
  qed
  ultimately show ?thesis using ids led(3) by (simp add: refines_def)
qed

lemma refines_refl: "rows_ok d \<Longrightarrow> refines d d"
  by (auto simp: refines_def rows_ok_def intro: lstep.stay)

text \<open>Statements that touch neither jobs nor attempts.\<close>

lemma refines_same:
  assumes "rows_ok d" "jobs d' = jobs d" "job_attempts d' = job_attempts d"
  shows "refines d d'"
  using refines_refl[OF assms(1)] assms(2,3)
  by (simp add: refines_def ledger_ids_def find_job_def life_of_def att_def)


section \<open>Refinement, operation by operation\<close>

lemma life_of_simps [simp]:
  "l_status (life_of d j) = status j" "l_attempt (life_of d j) = attempt j"
  "l_epoch (life_of d j) = claim_epoch j" "l_phase (life_of d j) = cancel_phase j"
  "l_requested (life_of d j) = (cancel_requested_at j \<noteq> None)"
  "l_started (life_of d j) = (started_at j \<noteq> None)" "l_finished (life_of d j) = (finished_at j \<noteq> None)"
  "l_held (life_of d j) = locked_by_worker j" "l_ledger (life_of d j) = att (jid j) d"
  by (simp_all add: life_of_def)

text \<open>Two rows are the same life when the columns it reads are.\<close>

lemma life_eqI:
  assumes "l_status l = l_status m" "l_attempt l = l_attempt m" "l_epoch l = l_epoch m"
    "l_phase l = l_phase m" "l_requested l = l_requested m" "l_started l = l_started m"
    "l_finished l = l_finished m" "l_held l = l_held m" "l_ledger l = l_ledger m"
  shows "l = (m :: life)"
  using assms by simp

lemma linvD:
  assumes "linv (life_of d j)"
  shows "cancel_phase j = 0 \<Longrightarrow> cancel_requested_at j = None"
    "finished_at j \<noteq> None \<longleftrightarrow> status j \<in> TERMINAL_STATUSES"
    "status j = Running \<Longrightarrow> started_at j \<noteq> None \<Longrightarrow> 1 \<le> attempt j"
    "0 \<le> attempt j" "status j = Running \<Longrightarrow> locked_by_worker j \<noteq> None"
    "status j \<in> {Pending, Scheduled} \<Longrightarrow> cancel_phase j = 0"
  using assms by (auto simp: linv_def columns_ok_def)

lemma att_ledger_ext:
  assumes "ledger_ext i n d d'"
  shows "k \<noteq> i \<Longrightarrow> att k d' = att k d" "att i d' = att i d \<or> att i d' = insert n (att i d)"
    "set (job_attempts d) \<subseteq> set (job_attempts d')"
    "distinct (map att_key (job_attempts d)) \<Longrightarrow> distinct (map att_key (job_attempts d'))"
  using assms by (auto simp: ledger_ext_def att_def)

lemma att_same: "job_attempts d' = job_attempts d \<Longrightarrow> att i d' = att i d"
  by (simp add: att_def)

lemma att_put [simp]: "att i (put_job r d) = att i d"
  by (simp add: att_def)

lemma refines_claim:
  assumes ok: "rows_ok d" and c: "dispatch_claim ts clk skip w l el d = Inr (rs, d')"
  shows "refines d d'"
proof (rule refines_upd_where[OF ok dispatch_claimD(2,3)[OF c]])
  fix j assume "claim_where w (map fst el) d j = Inr True"
  then have "status j = Pending" by (rule claim_where_pending)
  then have "lstep (life_of d j) ((life_of d j)\<lparr>l_status := Running,
      l_attempt := min (l_attempt (life_of d j) + 1) 32767, l_epoch := l_epoch (life_of d j) + 1,
      l_started := True, l_finished := False, l_held := Some w\<rparr>)"
    by (intro lstep.claim) simp
  also have "\<dots> = life_of d (claim_set clk w l j)"
    by (rule life_eqI) (simp_all add: claim_set_def least_def)
  finally show "lstep (life_of d j) (life_of d (claim_set clk w l j))" .
qed simp

lemma lstep_eq: "lstep l m \<Longrightarrow> m = m' \<Longrightarrow> lstep l m'"
  by simp

lemma refines_outcome:
  assumes ok: "rows_ok d" and e: "exec_fenced clk f c d = Inr (res, d')"
    and standing: "\<And>j. find_job (c_job c) d = Some j \<Longrightarrow> JOB_FENCE c j \<Longrightarrow> started_at j \<noteq> None"
  shows "refines d d'"
proof (cases res)
  case None
  then show ?thesis using any.not_applied e refines_refl[OF ok] by blast
next
  case (Some r)
  then obtain j j' where j: "find_job (c_job c) d = Some j" "JOB_FENCE c j" "fenced_step j j'"
    and led: "fenced_ledger j j' (put_job j' d) d'"
    using any.applied e by blast
  note st = standing[OF j(1,2)] and ext = fenced_ledgerD[OF led]
  have i: "jid j = c_job c" "jid j' = c_job c"
    using find_job_jid[OF j(1)] j(3) by (simp_all add: fenced_step_def same_identity_def)
  have running: "status j = Running" using j(2) by (simp add: JOB_FENCE_def)
  show ?thesis
  proof (rule refines_put[OF ok j(1) i(2) ledger_extD(1)[OF ext]])
    show "set (job_attempts d) \<subseteq> set (job_attempts d')" using att_ledger_ext(3)[OF ext] by simp
    show "k \<noteq> c_job c \<Longrightarrow> att k d' = att k d" for k using att_ledger_ext(1)[OF ext] i by simp
    show "distinct (map att_key (job_attempts d'))"
      using att_ledger_ext(4)[OF ext] ok by (simp add: rows_ok_def)
    assume inv: "linv (life_of d j)"
    show "lstep (life_of d j) (life_of d' j')"
    proof (cases "status j' \<in> TERMINAL_STATUSES")
      case True
      then have "attempt j' = attempt j" using j(3) by (simp add: fenced_step_def)
      then have "att (jid j) d' = recorded (life_of d j)"
        using led True att_ledger_ext(2)[OF ext] i
        by (auto simp: fenced_ledger_def recorded_def att_def)
      then show ?thesis using j(3) running True i
        by (intro lstep_eq[OF lstep.finish[of _ "status j'" _ None]])
           (auto simp: fenced_step_def same_identity_def life_of_def)
    next
      case False
      then have s: "status j' \<in> {Pending, Scheduled}" "cancel_phase j = 0"
        using j(3) running by (auto simp: fenced_step_def TERMINAL_STATUSES_def)
      note cols = linvD[OF inv] running
      show ?thesis
      proof (cases "attempt j' = attempt j")
        case True
        then have "att (jid j) d' \<in> {att (jid j) d, recorded (life_of d j)}"
          using att_ledger_ext(2)[OF ext] by (auto simp: recorded_def)
        then show ?thesis using s j(3) cols True False i
          by (intro lstep_eq[OF lstep.release[of _ "status j'" "att (jid j) d'"]])
             (auto simp: fenced_step_def same_identity_def life_of_def)
      next
        case refund: False
        then have "att (jid j) d' = att (jid j) d" "attempt j' = refunded (life_of d j)"
          using led j(3) False
          by (auto simp: fenced_ledger_def fenced_step_def ATTEMPT_REFUND_def refunded_def
              greatest_def att_def)
        then show ?thesis using s j(3) cols False i st
          by (intro lstep_eq[OF lstep.refund[of _ "status j'"]])
             (auto simp: fenced_step_def same_identity_def life_of_def)
      qed
    qed
  qed
qed


lemma refines_abandon:
  assumes ok: "rows_ok d" and e: "mark_abandoned clk p i d = Inr (res, d')"
  shows "refines d d'"
proof (cases "find_job i d")
  case None
  then show ?thesis using e refines_refl[OF ok] by (simp add: mark_abandoned_def run_arms_missing)
next
  case (Some j)
  let ?u = "abandoned_set clk p j"
  show ?thesis
  proof (cases "abandoned_where i j")
    case True
    have post: "abandoned_post clk j ?u (put_job ?u d) = Inr d'"
      using e Some True by (auto simp: mark_abandoned_def run_arms_def bindE_Inr_iff)
    have ext: "ledger_ext i (attempt j) (put_job ?u d) d'" and
      r: "(i, attempt j) \<in> att_key ` set (job_attempts d')"
      using post_ledger[OF post[unfolded abandoned_post_def]] find_job_jid[OF Some]
      by (auto simp: abandoned_set_def PROGRESS_MERGE_def)
    show ?thesis
    proof (rule refines_put[OF ok Some _ ledger_extD(1)[OF ext]])
      show "jid ?u = i" using find_job_jid[OF Some] by (simp add: abandoned_set_def PROGRESS_MERGE_def)
      show "set (job_attempts d) \<subseteq> set (job_attempts d')" using att_ledger_ext(3)[OF ext] by simp
      show "k \<noteq> i \<Longrightarrow> att k d' = att k d" for k using att_ledger_ext(1)[OF ext] by simp
      show "distinct (map att_key (job_attempts d'))"
        using att_ledger_ext(4)[OF ext] ok by (simp add: rows_ok_def)
      have "att i d' = recorded (life_of d j)"
        using att_ledger_ext(2)[OF ext] r find_job_jid[OF Some] by (auto simp: recorded_def att_def)
      then show "lstep (life_of d j) (life_of d' ?u)"
        using True find_job_jid[OF Some]
        by (intro lstep_eq[OF lstep.finish[of _ Abandoned _ "locked_by_worker j"]])
           (auto simp: abandoned_where_def abandoned_set_def PROGRESS_MERGE_def life_of_def)
    qed
  next
    case False
    then show ?thesis using e Some refines_refl[OF ok] by (simp add: mark_abandoned_def run_arms_def)
  qed
qed

lemma refines_put_row:
  assumes "rows_ok d" "find_job i d = Some j" "jid j' = i"
    "jobs d' = jobs (put_job j' d)" "job_attempts d' = job_attempts d"
    "linv (life_of d j) \<Longrightarrow> lstep (life_of d j) (life_of d j')"
  shows "refines d d'"
  using assms(1) refines_put[OF assms(1-4)] assms(5,6)
  by (simp add: att_def life_of_def rows_ok_def)

lemma refines_cancel:
  assumes ok: "rows_ok d" and e: "write_cancel_request clk i reason d = (b, h, d')"
  shows "refines d d'"
proof (cases "find_job i d")
  case None
  then show ?thesis using e refines_refl[OF ok] by (simp add: write_cancel_request_def cancel_request_def)
next
  case (Some j)
  show ?thesis
  proof (cases "cancel_request_where j")
    case True
    then have d': "jobs d' = jobs (put_job (cancel_request_set clk j) d)" "job_attempts d' = job_attempts d"
      using e Some by (auto simp: write_cancel_request_def cancel_request_def
          cancel_request_events_def Let_def split: if_splits)
    have "lstep (life_of d j) (life_of d (cancel_request_set clk j))"
    proof (cases "queued (status j)")
      case True
      then show ?thesis
        by (intro lstep_eq[OF lstep.withdraw])
           (auto simp: queued_def cancel_request_set_def Let_def life_of_def)
    next
      case False
      then show ?thesis using \<open>cancel_request_where j\<close>
        by (intro lstep_eq[OF lstep.request])
           (auto simp: queued_def cancel_request_where_def cancel_request_set_def Let_def life_of_def)
    qed
    then show ?thesis
      using find_job_jid[OF Some]
      by (intro refines_put_row[OF ok Some _ d']) (simp_all add: cancel_request_set_def Let_def)
  next
    case False
    then show ?thesis using e Some refines_refl[OF ok]
      by (simp add: write_cancel_request_def cancel_request_def)
  qed
qed

lemma refines_escalate:
  assumes ok: "rows_ok d" and e: "write_cancel_escalation clk i w ph d = Inr (b, d')"
  shows "refines d d'"
proof (cases "find_job i d")
  case None
  then show ?thesis using e refines_refl[OF ok] by (auto simp: write_cancel_escalation_def split: if_splits)
next
  case (Some j)
  show ?thesis
  proof (cases "cancel_escalation_where i w j")
    case True
    have d': "jobs d' = jobs (put_job (j\<lparr>cancel_phase := 2\<rparr>) d)" "job_attempts d' = job_attempts d"
      using e Some True by (auto simp: write_cancel_escalation_def split: if_splits)
    show ?thesis
      using True find_job_jid[OF Some]
      by (intro refines_put_row[OF ok Some _ d'] lstep_eq[OF lstep.escalate])
         (auto simp: cancel_escalation_where_def life_of_def)
  next
    case False
    then show ?thesis using e Some refines_refl[OF ok]
      by (auto simp: write_cancel_escalation_def split: if_splits)
  qed
qed

lemma refines_retry:
  assumes ok: "rows_ok d" and e: "retry_job clk i d = Inr (b, d')"
  shows "refines d d'"
proof (cases "find_job i d")
  case None
  then show ?thesis using e refines_refl[OF ok] by (simp add: retry_job_def)
next
  case (Some j)
  show ?thesis
  proof (cases "retry_job_where j")
    case True
    then have d': "jobs d' = jobs (put_job (retry_job_set clk j) d)" "job_attempts d' = job_attempts d"
      using e Some by (auto simp: retry_job_def bindE_Inr_iff split: if_splits)
    have "status j \<in> TERMINAL_STATUSES"
      using True by (cases "status j") (auto simp: retry_job_where_def)
    then show ?thesis
      using find_job_jid[OF Some]
      by (intro refines_put_row[OF ok Some _ d'] lstep_eq[OF lstep.revive])
         (auto simp: retry_job_set_def life_of_def)
  next
    case False
    then show ?thesis using e Some refines_refl[OF ok] by (simp add: retry_job_def)
  qed
qed

lemma refines_renew:
  assumes ok: "rows_ok d" and e: "renew_leases ts clk w lease dis thr d = (k, d')"
  shows "refines d d'"
proof (rule refines_upd_where[OF ok, where f = "renew_set clk lease"])
  show "jobs d' = upd_where (\<lambda>j. held_by w dis j \<and> jid j \<in> set (due ts w dis thr d))
      (renew_set clk lease) (jobs d)" "job_attempts d' = job_attempts d"
    using e by (auto simp: renew_leases_def Let_def)
qed (simp_all add: renew_set_def life_of_def lstep.stay)

lemma refines_reconcile:
  assumes ok: "rows_ok d" and e: "reconcile_lost_claims clk w known lease d = (ids, d')"
  shows "refines d d'"
proof (rule refines_upd_where[OF ok, where P = "reconcile_where clk w known lease d"
      and f = "\<lambda>j. j\<lparr>attempt := ATTEMPT_REFUND j, started_at := None\<rparr>"])
  show "jobs d' = upd_where (reconcile_where clk w known lease d)
      (\<lambda>j. j\<lparr>attempt := ATTEMPT_REFUND j, started_at := None\<rparr>) (jobs d)" "job_attempts d' = job_attempts d"
    using e by (auto simp: reconcile_lost_claims_def Let_def)
  fix j assume w: "reconcile_where clk w known lease d j"
  then have "started_at j \<noteq> None" by (auto simp: reconcile_where_def)
  then show "lstep (life_of d j) (life_of d (j\<lparr>attempt := ATTEMPT_REFUND j, started_at := None\<rparr>))"
    using w by (intro lstep_eq[OF lstep.unclaim])
       (auto simp: reconcile_where_def life_of_def refunded_def ATTEMPT_REFUND_def greatest_def att_def)
qed simp

lemma refines_results:
  assumes ok: "rows_ok d" and e: "sweep_expired_results ts we n d = Inr (k, d')"
  shows "refines d d'"
proof (rule refines_upd_where[OF ok, where f = without_result])
  show "jobs d' = upd_where (\<lambda>j. jid j \<in> set (map jid (take (nat n)
      (filter (result_expired ts we d) (jobs d)))) \<and> result j \<noteq> None) without_result (jobs d)"
    "job_attempts d' = job_attempts d"
    using e by (auto simp: sweep_expired_results_def Let_def bindE_Inr_iff without_result_def[abs_def])
qed (simp_all add: without_result_def life_of_def lstep.stay)

lemma refines_events:
  assumes ok: "rows_ok d" and e: "sweep_expired_events ts fl ret n w d = Inr (k, w', d')"
  shows "refines d d'"
  using e by (intro refines_same[OF ok])
    (auto simp: sweep_expired_events_def bindE_Inr_iff Let_def split: if_splits)


text \<open>Batches: the attempt keys a transaction adds, and the rows it moves.\<close>

definition ledger_adds :: "(uuid \<times> int) set \<Rightarrow> db \<Rightarrow> db \<Rightarrow> bool" where
  "ledger_adds K d d' \<longleftrightarrow>
     att_key ` set (job_attempts d') = att_key ` set (job_attempts d) \<union> K
     \<and> (distinct (map att_key (job_attempts d)) \<longrightarrow> distinct (map att_key (job_attempts d')))"

lemma ledger_adds_refl: "job_attempts d' = job_attempts d \<Longrightarrow> ledger_adds {} d d'"
  by (simp add: ledger_adds_def)

lemma ledger_adds_trans:
  "ledger_adds K d d1 \<Longrightarrow> ledger_adds K' d1 d2 \<Longrightarrow> ledger_adds (K \<union> K') d d2"
  by (auto simp: ledger_adds_def)

lemma ledger_adds_ins:
  "att_key a = k \<Longrightarrow> ledger_adds {k} d (d\<lparr>job_attempts := ins_new att_key a (job_attempts d)\<rparr>)"
  by (auto simp: ledger_adds_def ins_new_def row_by_None_iff)

lemma ledger_adds_att: "ledger_adds K d d' \<Longrightarrow> att i d' = att i d \<union> {n. (i, n) \<in> K}"
  by (auto simp: ledger_adds_def att_def)

lemma ledger_adds_fold:
  assumes "\<And>x d. ledger_adds (K x) d (g x d)"
  shows "ledger_adds (\<Union>x\<in>set xs. K x) d (fold g xs d)"
proof (induction xs arbitrary: d)
  case Nil
  then show ?case by (simp add: ledger_adds_def)
next
  case (Cons x xs)
  show ?case using ledger_adds_trans[OF assms Cons.IH[of "g x d"]] by simp
qed

lemma ledger_adds_sweep_1:
  "ledger_adds {(ap_job (snd kp), n) |n. n = ap_attempt (snd kp) \<and> ap_started (snd kp) \<noteq> None} d
     (sweep_1_attempt now kp d)"
proof (cases "ap_started (snd kp)")
  case None
  then show ?thesis by (simp add: sweep_1_attempt_def Let_def ledger_adds_def)
next
  case (Some st)
  then show ?thesis
    by (simp add: sweep_1_attempt_def Let_def) (rule ledger_adds_ins, simp add: att_key_def)
qed

lemma ledger_adds_sweep_2:
  "ledger_adds {(ap_job (snd kp), ap_attempt (snd kp))} d (sweep_2_attempt clk kp d)"
  unfolding sweep_2_attempt_def Let_def by (rule ledger_adds_ins) (simp add: att_key_def)

lemma refines_batch:
  assumes ok: "rows_ok d" and tabs: "jobs d' = map (moved snap f) (jobs d)"
    and jid: "\<And>x j. jid (f x j) = jid j"
    and snap: "\<And>p. p \<in> set snap \<Longrightarrow> fst p \<in> set (jobs d)" "distinct (map fst snap)"
    and K: "ledger_adds K d d'" "fst ` K \<subseteq> (\<lambda>p. jid (fst p)) ` set snap"
    and step: "\<And>p. p \<in> set snap \<Longrightarrow> linv (life_of d (fst p)) \<Longrightarrow>
      lstep (life_of d (fst p)) (life_of d' (f (snd p) (fst p)))"
  shows "refines d d'"
proof -
  have u: "distinct (map jid (jobs d))" and inj: "inj_on jid (set (jobs d))"
    using ok by (simp_all add: rows_ok_def unique_jobs_def distinct_map)
  have "inj_on jid (set (map fst snap))" by (rule inj_on_subset[OF inj]) (use snap(1) in auto)
  then have "distinct (map jid (map fst snap))" using snap(2) distinct_map by blast
  then have ds: "distinct (map (\<lambda>p. jid (fst p)) snap)" by (simp add: comp_def)
  have ids: "map jid (jobs d') = map jid (jobs d)" by (simp add: tabs jid_moved jid comp_def)
  have keys: "a_job_id ` set (job_attempts e) = fst ` att_key ` set (job_attempts e)" for e
    by (simp add: image_image att_key_def)
  have "fst ` K \<subseteq> jid ` set (jobs d)" using K(2) snap(1) by fastforce
  moreover have "a_job_id ` set (job_attempts d') = a_job_id ` set (job_attempts d) \<union> fst ` K"
    using K(1) unfolding keys ledger_adds_def by (simp add: image_Un)
  ultimately have l: "ledger_ids d'"
    using ok arg_cong[OF ids, of set] by (simp add: ledger_ids_def rows_ok_def)
  have "\<exists>j'. find_job i d' = Some j' \<and> lstep (life_of d j) (life_of d' j')"
    if i: "find_job i d = Some j" for i j
  proof -
    have find: "find_job i d' = Some (moved snap f j)"
      using find_job_upd_from[where f = f and snap = snap and d = d and i = i, OF jid] i
      by (simp add: find_job_def jobs_upd_from tabs)
    show ?thesis
    proof (cases "j \<in> fst ` set snap")
      case True
      then obtain p where p: "p \<in> set snap" "j = fst p" by auto
      have "linv (life_of d j)" using ok find_job_in[OF i] by (simp add: rows_ok_def)
      then show ?thesis using find step[OF p(1)] p(2) moved_in[OF ds p(1), of f] by simp
    next
      case False
      have same: "moved snap f j = j"
        by (rule moved_notin[OF u _ find_job_in[OF i] False]) (use snap(1) in blast)
      have "jid j \<notin> fst ` K"
      proof
        assume "jid j \<in> fst ` K"
        then obtain p where p: "p \<in> set snap" "jid (fst p) = jid j" using K(2) by auto
        then have "fst p = j" using inj_onD[OF inj] snap(1) find_job_in[OF i] by blast
        then show False using False p by auto
      qed
      then have "att (jid j) d' = att (jid j) d"
        using ledger_adds_att[OF K(1), of "jid j"] by force
      then show ?thesis using find same by (simp add: life_of_def lstep.stay)
    qed
  qed
  then show ?thesis using ids l K(1) ok by (simp add: refines_def ledger_adds_def rows_ok_def)
qed

lemma UN_enumerate: "(\<Union>kp\<in>set (enumerate n xs). F (snd kp)) = (\<Union>x\<in>set xs. F x)"
proof -
  have "(\<Union>kp\<in>set (enumerate n xs). F (snd kp)) = (\<Union>x\<in>snd ` set (enumerate n xs). F x)" by simp
  also have "snd ` set (enumerate n xs) = set xs" by (metis list.set_map map_snd_enumerate)
  finally show ?thesis .
qed

lemma ledger_adds_member:
  assumes K: "ledger_adds ((\<lambda>j. (jid j, attempt j)) ` A) d d'" and i: "inj_on jid B"
    and A: "A \<subseteq> B" and j: "j \<in> B"
  shows "att (jid j) d' = (if j \<in> A then recorded (life_of d j) else att (jid j) d)"
proof -
  have "{n. (jid j, n) \<in> (\<lambda>j. (jid j, attempt j)) ` A} = (if j \<in> A then {attempt j} else {})"
    using inj_onD[OF i _ j] A by auto
  then show ?thesis using ledger_adds_att[OF K, of "jid j"] by (simp add: recorded_def)
qed

lemma refines_promote:
  assumes ok: "rows_ok d" and e: "sweep_scheduled_to_pending ts skip n tm d = Inr (k, d')"
  shows "refines d d'"
proof -
  let ?snap = "map (\<lambda>j. (j, ())) (snapshot (\<lambda>j. status j = Scheduled \<and> scheduled_at j \<le> ts)
      scheduled_at skip (nat n) (jobs d))"
  let ?f = "\<lambda>_::unit. \<lambda>j. j\<lparr>status := Pending\<rparr>"
  note d' = sweep_3_cases(3)[OF e]
  have dj: "distinct (jobs d)" using ok by (simp add: rows_ok_def unique_jobs_def distinct_map)
  show ?thesis
  proof (rule refines_batch[OF ok, where snap = ?snap and f = ?f and K = "{}"])
    show "jobs d' = map (moved ?snap ?f) (jobs d)" by (simp add: d' jobs_upd_from)
    show "distinct (map fst ?snap)" by (simp add: comp_def distinct_snapshot dj)
    show "ledger_adds {} d d'" by (rule ledger_adds_refl) (simp add: d')
    fix p assume p: "p \<in> set ?snap"
    then show "fst p \<in> set (jobs d)" by (auto dest: set_snapshot)
    have "status (fst p) = Scheduled" using p by (auto dest: set_snapshot)
    then show "lstep (life_of d (fst p)) (life_of d' (?f (snd p) (fst p)))"
      by (intro lstep_eq[OF lstep.promote]) (auto simp: life_of_def d' att_def)
  qed simp_all
qed

lemma refines_expire:
  assumes ok: "rows_ok d" and e: "sweep_deadline_exceeded ts clk skip n tm d = Inr (k, d')"
  shows "refines d d'"
proof -
  define js where "js = snapshot (deadline_eligible ts) (\<lambda>j. null_ts (schedule_to_close j)) skip (nat n) (jobs d)"
  let ?snap = "map (\<lambda>j. (j, ())) js"
  let ?f = "\<lambda>_::unit. sweep_2_set clk"
  let ?ps = "map (sweep_2_param clk) js"
  let ?K = "(\<lambda>j. (jid j, attempt j)) ` set js"
  have inj: "inj_on jid (set (jobs d))" and dj: "distinct (jobs d)"
    using ok by (simp_all add: rows_ok_def unique_jobs_def distinct_map)
  have js: "j \<in> set (jobs d)" "status j \<in> {Pending, Scheduled}" if "j \<in> set js" for j
    using that by (auto simp: js_def deadline_eligible_def dest!: set_snapshot)
  have d': "job_attempts d' = job_attempts (fold (sweep_2_attempt clk) (enumerate 0 ?ps) (upd_from ?snap ?f d))"
    using e by (auto simp: sweep_deadline_exceeded_def bindE_Inr_iff Let_def js_def split: if_splits)
  have "ledger_adds (\<Union>kp\<in>set (enumerate 0 ?ps). {(ap_job (snd kp), ap_attempt (snd kp))}) d d'"
    using ledger_adds_fold[of "\<lambda>kp. {(ap_job (snd kp), ap_attempt (snd kp))}" "sweep_2_attempt clk",
        OF ledger_adds_sweep_2, of "enumerate 0 ?ps" "upd_from ?snap ?f d"] d'
    by (simp add: ledger_adds_def)
  then have adds: "ledger_adds ?K d d'"
    unfolding UN_enumerate[of "\<lambda>p. {(ap_job p, ap_attempt p)}"]
    by (simp add: sweep_2_param_def UNION_singleton_eq_range image_image)
  show ?thesis
  proof (rule refines_batch[OF ok, where snap = ?snap and f = ?f and K = ?K])
    show "jobs d' = map (moved ?snap ?f) (jobs d)"
      using sweep_2_cases(3)[OF e] by (simp add: jobs_upd_from js_def)
    show "distinct (map fst ?snap)" by (simp add: comp_def js_def distinct_snapshot dj)
    show "ledger_adds ?K d d'" by (rule adds)
    show "fst ` ?K \<subseteq> (\<lambda>p. jid (fst p)) ` set ?snap" by (simp add: image_image)
    fix p assume "p \<in> set ?snap"
    then have p: "fst p \<in> set js" by auto
    then show "fst p \<in> set (jobs d)" by (rule js)
    have "att (jid (fst p)) d' = recorded (life_of d (fst p))"
      using ledger_adds_member[OF adds inj _ js(1)[OF p]] p js(1) by auto
    then show "lstep (life_of d (fst p)) (life_of d' (?f (snd p) (fst p)))"
      using js(2)[OF p] by (intro lstep_eq[OF lstep.expire]) (auto simp: life_of_def sweep_2_set_def)
  qed (simp add: sweep_2_set_def)
qed

lemma lstep_reclaimed:
  assumes "linv (life_of d j)" "status j = Running"
    and u: "jid u = jid j" "attempt u = attempt j" "claim_epoch u = claim_epoch j"
      "cancel_phase u = cancel_phase j" "started_at u = started_at j" "locked_by_worker u = None"
      "status u = (if cancel_phase j \<noteq> 0 then Cancelled
                   else if RECLAIM_HAS_BUDGET j then Pending else Crashed)"
      "cancel_requested_at u = (if cancel_phase j \<noteq> 0 then cancel_requested_at j else None)"
      "finished_at u \<noteq> None \<longleftrightarrow> cancel_phase j \<noteq> 0 \<or> \<not> RECLAIM_HAS_BUDGET j"
    and led: "att (jid j) d' = (if started_at j = None then att (jid j) d else recorded (life_of d j))"
  shows "lstep (life_of d j) (life_of d' u)"
proof (cases "status u = Pending")
  case True
  then have "cancel_phase j = 0" "RECLAIM_HAS_BUDGET j" using u(7) by (auto split: if_splits)
  then show ?thesis using assms linvD[OF assms(1)] True
    by (intro lstep_eq[OF lstep.release[of _ Pending "att (jid j) d'"]]) (auto simp: life_of_def)
next
  case False
  then have "status u \<in> TERMINAL_STATUSES" "cancel_phase j \<noteq> 0 \<or> \<not> RECLAIM_HAS_BUDGET j"
    using u(7) by (auto split: if_splits)
  then show ?thesis using assms linvD[OF assms(1)]
    by (intro lstep_eq[OF lstep.finish[of _ "status u" "att (jid j) d'" None]]) (auto simp: life_of_def)
qed

lemma refines_reclaim:
  assumes ok: "rows_ok d" and e: "sweep_expired_locks md5 ts clk skip cg ug n tm mb d = Inr (k, d')"
  shows "refines d d'"
proof -
  define snap where "snap = sweep_1_snap ts skip cg ug (nat n) d"
  let ?f = "sweep_1_set md5 clk (total_seconds rnd64 mb)"
  let ?ps = "map (sweep_1_param clk) snap"
  let ?k = "\<lambda>p. {(ap_job p, m) |m. m = ap_attempt p \<and> ap_started p \<noteq> None}"
  let ?A = "{j \<in> fst ` set snap. started_at j \<noteq> None}"
  let ?K = "(\<lambda>j. (jid j, attempt j)) ` ?A"
  have inj: "inj_on jid (set (jobs d))" and dj: "distinct (jobs d)"
    using ok by (simp_all add: rows_ok_def unique_jobs_def distinct_map)
  note snap = set_sweep_1_snap[of _ ts skip cg ug "nat n" d, folded snap_def]
  have "ledger_adds (\<Union>kp\<in>set (enumerate 0 ?ps). ?k (snd kp)) d d'"
    using ledger_adds_fold[of "\<lambda>kp. ?k (snd kp)" "sweep_1_attempt (clk 3)", OF ledger_adds_sweep_1]
      sweep_1_cases(6)[OF e]
    by (simp add: ledger_adds_def snap_def)
  moreover have "(\<Union>p\<in>set ?ps. ?k p) = ?K"
    by (auto simp: sweep_1_param_def Let_def)
  ultimately have adds: "ledger_adds ?K d d'" unfolding UN_enumerate[of ?k] by simp
  show ?thesis
  proof (rule refines_batch[OF ok, where snap = snap and f = ?f and K = ?K])
    show "jobs d' = map (moved snap ?f) (jobs d)"
      using sweep_1_cases(3)[OF e] by (simp add: jobs_upd_from snap_def)
    show "distinct (map fst snap)" unfolding snap_def by (rule distinct_sweep_1_snap[OF dj])
    show "ledger_adds ?K d d'" by (rule adds)
    show "fst ` ?K \<subseteq> (\<lambda>p. jid (fst p)) ` set snap" by (simp add: image_image) blast
    fix p assume p: "p \<in> set snap"
    then show "fst p \<in> set (jobs d)" by (rule snap)
    assume inv: "linv (life_of d (fst p))"
    have "?A \<subseteq> set (jobs d)" using snap(1) by auto
    then have "att (jid (fst p)) d' = (if started_at (fst p) = None then att (jid (fst p)) d
        else recorded (life_of d (fst p)))"
      using ledger_adds_member[OF adds inj _ snap(1)[OF p]] p by auto
    then show "lstep (life_of d (fst p)) (life_of d' (?f (snd p) (fst p)))"
      using linvD(2)[OF inv] snap(5)[OF p]
      by (intro lstep_reclaimed[OF inv snap(5)[OF p]]) (auto simp: sweep_1_set_def)
  qed simp
qed

text \<open>Isolation is one row after the other.\<close>

lemma refines_isolate_row:
  assumes ok: "rows_ok d" and e: "isolate_job md5 clk m (jid r) w d = Some (u, d1)"
  shows "refines d (isolate_attempt now w r u d1)"
proof -
  obtain j where j: "find_job (jid r) d = Some j" "status j = Running"
    and u: "u = isolate_set md5 clk m j" and d1: "d1 = put_job u d"
    using e by (auto simp: isolate_job_def split: option.splits if_splits)
  have ju: "jid u = jid r" "attempt u = attempt j" "started_at u = started_at j"
    using find_job_jid[OF j(1)] by (simp_all add: u isolate_set_def)
  let ?d = "isolate_attempt now w r u d1"
  have adds: "ledger_adds {(jid r, n) |n. n = attempt j \<and> started_at j \<noteq> None} d ?d"
  proof (cases "started_at j")
    case None
    then show ?thesis by (simp add: isolate_attempt_def ju d1 ledger_adds_def)
  next
    case (Some st)
    have "ledger_adds {(jid r, attempt j)} d1 ?d"
      unfolding isolate_attempt_def ju(3) Some option.case
      by (rule ledger_adds_ins) (simp add: att_key_def ju)
    then show ?thesis by (simp add: ledger_adds_def d1 Some)
  qed
  show ?thesis
  proof (rule refines_put[OF ok j(1) ju(1)])
    show "jobs ?d = jobs (put_job u d)" by (simp add: isolate_attempt_def d1 split: option.split)
    show "set (job_attempts d) \<subseteq> set (job_attempts ?d)"
      using set_ins_new_mono by (fastforce simp: isolate_attempt_def d1 split: option.split)
    show "att k ?d = att k d" if "k \<noteq> jid r" for k
      using ledger_adds_att[OF adds, of k] that by simp
    show "distinct (map att_key (job_attempts ?d))"
      using adds ok by (simp add: ledger_adds_def rows_ok_def)
    assume inv: "linv (life_of d j)"
    have "att (jid j) ?d = (if started_at j = None then att (jid j) d else recorded (life_of d j))"
      using ledger_adds_att[OF adds, of "jid r"] find_job_jid[OF j(1)] by (auto simp: recorded_def)
    then show "lstep (life_of d j) (life_of ?d u)"
      using linvD(2)[OF inv] j(2) by (intro lstep_reclaimed[OF inv j(2)]) (auto simp: u isolate_set_def)
  qed
qed

text \<open>Two transitions that touch different rows compose.\<close>

definition untouched :: "uuid set \<Rightarrow> db \<Rightarrow> db \<Rightarrow> bool" where
  "untouched A d d' \<longleftrightarrow> (\<forall>i. i \<notin> A \<longrightarrow> find_job i d' = find_job i d \<and> att i d' = att i d)"

lemma refines_compose:
  assumes "refines d d1" "untouched A d d1" "refines d1 d2" "untouched B d1 d2" "A \<inter> B = {}"
  shows "refines d d2 \<and> untouched (A \<union> B) d d2"
proof -
  have "\<exists>j'. find_job i d2 = Some j' \<and> lstep (life_of d j) (life_of d2 j')"
    if j: "find_job i d = Some j" for i j
  proof (cases "i \<in> B")
    case True
    then have "find_job i d1 = Some j" "att i d1 = att i d"
      using assms(2,5) j by (auto simp: untouched_def)
    moreover then have "life_of d j = life_of d1 j" using find_job_jid[OF j] by (simp add: life_of_def)
    ultimately show ?thesis using assms(3) by (simp add: refines_def)
  next
    case False
    obtain j' where j': "find_job i d1 = Some j'" "lstep (life_of d j) (life_of d1 j')"
      using assms(1) j by (auto simp: refines_def)
    moreover have "life_of d2 j' = life_of d1 j'"
      using assms(4) False find_job_jid[OF j'(1)] by (simp add: untouched_def life_of_def)
    ultimately show ?thesis using assms(4) False by (simp add: untouched_def)
  qed
  then show ?thesis using assms by (simp add: refines_def untouched_def)
qed

lemma untouched_isolate_row:
  assumes e: "isolate_job md5 clk m (jid r) w d = Some (u, d1)"
  shows "untouched {jid r} d (isolate_attempt now w r u d1)"
proof -
  have "jid u = jid r" "d1 = put_job u d"
    using e find_job_jid by (auto simp: isolate_job_def isolate_set_def split: option.splits if_splits)
  then show ?thesis
    by (auto simp: untouched_def isolate_attempt_def find_job_def att_def ins_new_def att_key_def
        find_job_put[unfolded find_job_def] split: option.split)
qed

lemma refines_isolate_rows:
  assumes "rows_ok d" "isolate_rows md5 clk (\<lambda>_ d. d) m w rs (c, evs, d) = (c', evs', d')"
    "distinct (map jid rs)"
  shows "refines d d' \<and> untouched (jid ` set rs) d d'"
  using assms
proof (induction rs arbitrary: c evs d)
  case Nil
  then show ?case by (simp add: refines_refl untouched_def)
next
  case (Cons r rs)
  show ?case
  proof (cases "isolate_job md5 (clk (jid r)) m (jid r) w d")
    case None
    then show ?thesis using Cons.IH[OF Cons.prems(1)] Cons.prems(2,3) by (auto simp: untouched_def)
  next
    case (Some x)
    obtain u d1 where x: "x = (u, d1)" by (cases x)
    let ?d = "isolate_attempt (clk (jid r) 2) w r u d1"
    note step = refines_isolate_row[OF Cons.prems(1) Some[unfolded x], of "clk (jid r) 2"]
    have rec: "isolate_rows md5 clk (\<lambda>_ d. d) m w rs
        (count_status (status u) c, evs @ [(jid r, isolate_detail w (status u))], ?d) = (c', evs', d')"
      using Cons.prems(2) by (simp add: Some x)
    note rest = Cons.IH[OF refines_rows_ok[OF Cons.prems(1) step] rec]
    show ?thesis
      using refines_compose[OF step untouched_isolate_row[OF Some[unfolded x]] conjunct1[OF rest] conjunct2[OF rest]]
        Cons.prems(3) by simp
  qed
qed

lemma refines_isolate:
  assumes ok: "rows_ok d" and e: "isolate_self md5 clk evc (\<lambda>_ d. d) mb w ex d = (c, d')"
  shows "refines d d'"
proof -
  obtain c' evs d1 where r: "isolate_rows md5 clk (\<lambda>_ d. d) (total_seconds rnd64 mb) w
      (select_running_jobs w ex d) (\<lparr>n_pending = 0, n_crashed = 0, n_cancelled = 0, n_lost_race = 0\<rparr>, [], d)
      = (c', evs, d1)" and d': "d' = insert_events_batch evc ''state_change'' evs d1"
    using e by (auto simp: isolate_self_def split: prod.splits)
  have "distinct (map jid (select_running_jobs w ex d))"
    using ok by (simp add: select_running_jobs_def rows_ok_def unique_jobs_def distinct_map_filter)
  then have "refines d d1" using refines_isolate_rows[OF ok r] by simp
  then show ?thesis by (simp add: refines_def d' find_job_def life_of_def att_def ledger_ids_def)
qed

end
