(* ===== verification/System.thy ===== *)
theory System
  imports Refinement Enqueue
begin

text \<open>
  The whole system as a transition relation: the tables, the claims handed out
  so far, and one rule per statement or transaction of the backend.  By the
  refinement, the invariants of the abstract machine hold in every reachable
  state.
\<close>

section \<open>The system\<close>

record sys =
  tables :: db
  issued :: "claim set"

inductive sys_step :: "sys \<Rightarrow> sys \<Rightarrow> bool" where
  enqueue: "enqueue_pass env tt a (tables s) = Enqueued r d' \<Longrightarrow> sys_step s (s\<lparr>tables := d'\<rparr>)"
| claim: "dispatch_claim ts clks skips w lease el (tables s) = Inr (rs, d') \<Longrightarrow>
    sys_step s (s\<lparr>tables := d', issued := issued s \<union> (\<lambda>r. claim_of r w) ` set rs\<rparr>)"
| outcome: "c \<in> issued s \<Longrightarrow> exec_fenced clk f c (tables s) = Inr (res, d') \<Longrightarrow>
    sys_step s (s\<lparr>tables := d'\<rparr>)"
| abandon: "mark_abandoned clk p i (tables s) = Inr (ab, d') \<Longrightarrow> sys_step s (s\<lparr>tables := d'\<rparr>)"
| cancel: "write_cancel_request clk i reason (tables s) = (b, h, d') \<Longrightarrow> sys_step s (s\<lparr>tables := d'\<rparr>)"
| escalate: "write_cancel_escalation clk i w ph (tables s) = Inr (b, d') \<Longrightarrow>
    sys_step s (s\<lparr>tables := d'\<rparr>)"
| retry: "retry_job clk i (tables s) = Inr (b, d') \<Longrightarrow> sys_step s (s\<lparr>tables := d'\<rparr>)"
| reclaim: "sweep_expired_locks md5 ts clks skip cg ug n tm mb (tables s) = Inr (k, d') \<Longrightarrow>
    sys_step s (s\<lparr>tables := d'\<rparr>)"
| expire: "sweep_deadline_exceeded ts clks skip n tm (tables s) = Inr (k, d') \<Longrightarrow>
    sys_step s (s\<lparr>tables := d'\<rparr>)"
| promote: "sweep_scheduled_to_pending ts skip n tm (tables s) = Inr (k, d') \<Longrightarrow>
    sys_step s (s\<lparr>tables := d'\<rparr>)"
| expire_results: "sweep_expired_results ts we n (tables s) = Inr (k, d') \<Longrightarrow>
    sys_step s (s\<lparr>tables := d'\<rparr>)"
| expire_events: "sweep_expired_events ts fl ret n pw (tables s) = Inr (k, pw', d') \<Longrightarrow>
    sys_step s (s\<lparr>tables := d'\<rparr>)"
| renew: "renew_leases ts clks w lease dis thr (tables s) = (k, d') \<Longrightarrow> sys_step s (s\<lparr>tables := d'\<rparr>)"
| reconcile: "reconcile_lost_claims clks w known lease (tables s) = (ids, d') \<Longrightarrow>
    sys_step s (s\<lparr>tables := d'\<rparr>)"
| isolate: "isolate_self md5 rclk evclk (\<lambda>_ d. d) mb w ex (tables s) = (cnt, d') \<Longrightarrow>
    sys_step s (s\<lparr>tables := d'\<rparr>)"

text \<open>The system starts with no jobs, whatever workers, actors and batches it has.\<close>

definition sys_init :: "sys \<Rightarrow> bool" where
  "sys_init s \<longleftrightarrow> jobs (tables s) = [] \<and> job_attempts (tables s) = [] \<and> issued s = {}"

definition reachable :: "sys \<Rightarrow> bool" where
  "reachable s \<longleftrightarrow> (\<exists>s0. sys_init s0 \<and> sys_step\<^sup>*\<^sup>* s0 s)"

section \<open>The claims in circulation\<close>

text \<open>
  A claim names a row whose epoch has not fallen behind it; if the epoch is
  still the claim's own and the row runs, the row is locked to the claimant,
  and it carries the claimed number exactly as long as the start stamp stands.
\<close>

definition claim_ok :: "db \<Rightarrow> claim \<Rightarrow> bool" where
  "claim_ok d c \<longleftrightarrow> (\<exists>j e n. find_job (c_job c) d = Some j \<and> c_epoch c = Some e \<and> c_attempt c = Some n
     \<and> e \<le> claim_epoch j \<and> 1 \<le> n
     \<and> (e = claim_epoch j \<and> status j = Running \<longrightarrow>
          locked_by_worker j = Some (c_worker c) \<and> (attempt j = n \<longleftrightarrow> started_at j \<noteq> None)))"

definition sys_inv :: "sys \<Rightarrow> bool" where
  "sys_inv s \<longleftrightarrow> rows_ok (tables s) \<and> (\<forall>c\<in>issued s. claim_ok (tables s) c)
     \<and> (\<forall>c1\<in>issued s. \<forall>c2\<in>issued s. c_job c1 = c_job c2 \<and> c_epoch c1 = c_epoch c2 \<longrightarrow> c1 = c2)"

lemma refines_claim_ok:
  assumes "refines d d'" "claim_ok d c" shows "claim_ok d' c"
proof -
  obtain j e n where j: "find_job (c_job c) d = Some j" and c: "c_epoch c = Some e" "c_attempt c = Some n"
    "e \<le> claim_epoch j" "1 \<le> n"
    and cur: "e = claim_epoch j \<Longrightarrow> status j = Running \<Longrightarrow>
      locked_by_worker j = Some (c_worker c) \<and> (attempt j = n \<longleftrightarrow> started_at j \<noteq> None)"
    using assms(2) by (auto simp: claim_ok_def)
  obtain j' where j': "find_job (c_job c) d' = Some j'" "lstep (life_of d j) (life_of d' j')"
    using assms(1) j by (auto simp: refines_def)
  have mono: "claim_epoch j \<le> claim_epoch j'" using lstep_epoch[OF j'(2)] by simp
  have "locked_by_worker j' = Some (c_worker c) \<and> (attempt j' = n \<longleftrightarrow> started_at j' \<noteq> None)"
    if e: "e = claim_epoch j'" and r: "status j' = Running"
  proof -
    have "claim_epoch j' = claim_epoch j" using e c(3) mono by simp
    then have "status j = Running \<and> locked_by_worker j' = locked_by_worker j
      \<and> (attempt j' = attempt j \<and> (started_at j' \<noteq> None) = (started_at j \<noteq> None)
         \<or> started_at j \<noteq> None \<and> started_at j' = None \<and> attempt j' = refunded (life_of d j))"
      using lstep_same_epoch[OF j'(2)] r by auto
    moreover have "refunded (life_of d j) \<noteq> attempt j" if "attempt j = n"
      using that c(4) by (simp add: refunded_def)
    ultimately show ?thesis using cur e \<open>claim_epoch j' = claim_epoch j\<close> by auto
  qed
  then show ?thesis using j'(1) c mono by (auto simp: claim_ok_def)
qed

text \<open>A claim that passes the fence is the row's standing claim.\<close>

lemma claim_ok_standing:
  assumes "claim_ok d c" "find_job (c_job c) d = Some j" "JOB_FENCE c j"
  shows "started_at j \<noteq> None"
  using assms by (auto simp: claim_ok_def JOB_FENCE_def)

section \<open>Preservation\<close>

lemma enqueue_keeps:
  assumes ok: "rows_ok d" and e: "enqueue_insert now clk a d = Inserted r d'"
  shows "rows_ok d'" "claim_ok d c \<Longrightarrow> claim_ok d' c"
proof -
  note D = enqueue_insertD[OF e]
  have fresh: "jid r \<notin> jid ` set (jobs d)" using D(2) find_job_None by blast
  have "\<forall>x\<in>set (job_attempts d). a_job_id x \<noteq> jid r"
    using fresh ok unfolding rows_ok_def ledger_ids_def by (metis image_eqI subsetD)
  then have "(jid r, n) \<notin> att_key ` set (job_attempts d)" for n by (auto simp: att_key_def)
  then have "att (jid r) d' = {}" by (simp add: att_def D(4))
  then have "linv (life_of d' r)"
    by (simp add: linv_def columns_ok_def ledger_fresh_def D(1) enqueue_row_def)
  moreover have "life_of d' j = life_of d j" for j by (simp add: life_of_def att_def D(4))
  ultimately show "rows_ok d'"
    using ok fresh D(3,4) by (auto simp: rows_ok_def unique_jobs_def ledger_ids_def)
  show "claim_ok d' c" if c: "claim_ok d c"
  proof -
    have "find_job (c_job c) d' = find_job (c_job c) d"
      using c by (auto simp: claim_ok_def find_job_def D(3) row_by_append)
    then show ?thesis using c by (simp add: claim_ok_def)
  qed
qed

lemma claim_new:
  assumes inv: "sys_inv s" and e: "dispatch_claim ts clk skip w lease el (tables s) = Inr (rs, d')"
    and r: "r \<in> set rs"
  shows "claim_ok d' (claim_of r w)"
    and "c \<in> issued s \<Longrightarrow> c_job c = jid r \<Longrightarrow> c_epoch c \<noteq> Some (claim_epoch r)"
proof -
  have ok: "rows_ok (tables s)" using inv by (simp add: sys_inv_def)
  then obtain j where j: "find_job (jid r) (tables s) = Some j" "r = claim_set clk w lease j"
      "find_job (jid r) d' = Some r"
    using claimed_row[OF e r] by (auto simp: rows_ok_def unique_jobs_def)
  have "0 \<le> attempt j" using linvD(4) ok find_job_in[OF j(1)] by (auto simp: rows_ok_def)
  then show "claim_ok d' (claim_of r w)"
    using j(3) by (auto simp: claim_ok_def claim_of_def j(2) claim_set_def least_def)
  show "c_epoch c \<noteq> Some (claim_epoch r)" if "c \<in> issued s" "c_job c = jid r"
    using that inv j by (auto simp: sys_inv_def claim_ok_def)
qed

lemma claim_batch_unique:
  assumes inv: "sys_inv s" and e: "dispatch_claim ts clk skip w lease el (tables s) = Inr (rs, d')"
    and r: "r1 \<in> set rs" "r2 \<in> set rs" "jid r1 = jid r2"
  shows "r1 = r2"
proof -
  have u: "distinct (map jid (jobs (tables s)))" using inv by (simp add: sys_inv_def rows_ok_def unique_jobs_def)
  show ?thesis using claimed_row[OF e r(1) u] claimed_row[OF e r(2) u] r(3) by (metis option.inject)
qed

lemma sys_step_refines:
  assumes "sys_step s s'" "sys_inv s"
  shows "issued s' = issued s \<and> refines (tables s) (tables s')
    \<or> (\<exists>env tt a r. enqueue_pass env tt a (tables s) = Enqueued r (tables s') \<and> issued s' = issued s)
    \<or> (\<exists>ts clk skip w lease el rs. dispatch_claim ts clk skip w lease el (tables s) = Inr (rs, tables s')
        \<and> issued s' = issued s \<union> (\<lambda>r. claim_of r w) ` set rs)"
  using assms
proof (induction rule: sys_step.induct)
  case (outcome c s clk f res d')
  then have "claim_ok (tables s) c" by (simp add: sys_inv_def)
  then have "refines (tables s) d'"
    using refines_outcome[OF _ outcome.hyps(2)] outcome.prems claim_ok_standing by (auto simp: sys_inv_def)
  then show ?case by auto
next
  case (claim ts clks skips w lease el s rs d')
  then show ?case by (intro disjI2 exI[of _ ts] exI[of _ clks] exI[of _ skips] exI[of _ w]
        exI[of _ lease] exI[of _ el] exI[of _ rs]) simp
next
  case (enqueue env tt a s r d')
  then show ?case by auto
qed (auto simp: sys_inv_def intro: refines_abandon refines_cancel refines_escalate refines_retry
    refines_reclaim refines_expire refines_promote refines_results refines_events refines_renew
    refines_reconcile refines_isolate)

lemma sys_step_inv:
  assumes step: "sys_step s s'" and inv: "sys_inv s" shows "sys_inv s'"
  using sys_step_refines[OF assms]
proof (elim disjE exE conjE)
  assume "issued s' = issued s" "refines (tables s) (tables s')"
  then show ?thesis using inv refines_rows_ok refines_claim_ok by (auto simp: sys_inv_def)
next
  fix env tt a r assume "enqueue_pass env tt a (tables s) = Enqueued r (tables s')" "issued s' = issued s"
  then show ?thesis
    using inv enqueue_keeps[OF _ enqueue_pass_Enqueued[of env tt a "tables s" r "tables s'"]]
    by (auto simp: sys_inv_def)
next
  fix ts clk skip w lease el rs
  assume e: "dispatch_claim ts clk skip w lease el (tables s) = Inr (rs, tables s')"
    and i: "issued s' = issued s \<union> (\<lambda>r. claim_of r w) ` set rs"
  have ok: "rows_ok (tables s)" using inv by (simp add: sys_inv_def)
  note ref = refines_claim[OF ok e]
  have "claim_ok (tables s') c" if "c \<in> issued s'" for c
    using that i claim_new(1)[OF inv e] refines_claim_ok[OF ref] inv by (auto simp: sys_inv_def)
  moreover have "c1 = c2" if "c1 \<in> issued s'" "c2 \<in> issued s'" "c_job c1 = c_job c2" "c_epoch c1 = c_epoch c2"
    for c1 c2
  proof -
    have old_new: False if "c \<in> issued s" "r \<in> set rs" "c_job c = jid r" "c_epoch c = Some (claim_epoch r)" for c r
      using claim_new(2)[OF inv e] that by blast
    have new_new: "claim_of r1 w = claim_of r2 w" if "r1 \<in> set rs" "r2 \<in> set rs" "jid r1 = jid r2" for r1 r2
      using claim_batch_unique[OF inv e that] by simp
    consider "c1 \<in> issued s" "c2 \<in> issued s"
      | r where "r \<in> set rs" "c1 = claim_of r w" "c2 \<in> issued s"
      | r where "r \<in> set rs" "c2 = claim_of r w" "c1 \<in> issued s"
      | r1 r2 where "r1 \<in> set rs" "r2 \<in> set rs" "c1 = claim_of r1 w" "c2 = claim_of r2 w"
      using \<open>c1 \<in> issued s'\<close> \<open>c2 \<in> issued s'\<close> i by auto
    then show ?thesis
    proof cases
      case 1
      then show ?thesis using inv that(3,4) unfolding sys_inv_def by blast
    next
      case (2 r)
      then show ?thesis using old_new[of c2 r] that(3,4) by (simp add: claim_of_def)
    next
      case (3 r)
      then show ?thesis using old_new[of c1 r] that(3,4) by (simp add: claim_of_def)
    next
      case (4 r1 r2)
      then show ?thesis using new_new[of r1 r2] that(3) by (simp add: claim_of_def)
    qed
  qed
  ultimately show ?thesis using refines_rows_ok[OF ok ref] by (auto simp: sys_inv_def)
qed

lemma reachable_inv: "reachable s \<Longrightarrow> sys_inv s"
proof -
  assume "reachable s"
  then obtain s0 where s0: "sys_init s0" "sys_step\<^sup>*\<^sup>* s0 s" by (auto simp: reachable_def)
  have "sys_inv s0"
    using s0(1) by (simp add: sys_init_def sys_inv_def rows_ok_def unique_jobs_def ledger_ids_def)
  with s0(2) show ?thesis by (induction rule: rtranclp_induct) (auto intro: sys_step_inv)
qed

section \<open>Histories\<close>

text \<open>No step loses a job, and every step moves every job along a rule of the machine.\<close>

lemma sys_step_row:
  assumes "sys_step s s'" "sys_inv s" "find_job i (tables s) = Some j"
  shows "\<exists>j'. find_job i (tables s') = Some j' \<and> lstep (life_of (tables s) j) (life_of (tables s') j')"
  using sys_step_refines[OF assms(1,2)]
proof (elim disjE exE conjE)
  assume "refines (tables s) (tables s')"
  then show ?thesis using assms(3) by (simp add: refines_def)
next
  fix env tt a r assume "enqueue_pass env tt a (tables s) = Enqueued r (tables s')"
  note D = enqueue_insertD[OF enqueue_pass_Enqueued[OF this]]
  have "find_job i (tables s') = Some j" using assms(3) D(3) by (simp add: find_job_def row_by_append)
  moreover have "life_of (tables s') j = life_of (tables s) j" by (simp add: life_of_def att_def D(4))
  ultimately show ?thesis using lstep.stay by simp
next
  fix ts clk skip w lease el rs
  assume "dispatch_claim ts clk skip w lease el (tables s) = Inr (rs, tables s')"
  then show ?thesis using refines_claim assms by (auto simp: sys_inv_def refines_def)
qed

lemma sys_step_issued: "sys_step s s' \<Longrightarrow> issued s \<subseteq> issued s'"
  by (induction rule: sys_step.induct) auto

lemma sys_steps_inv:
  assumes "sys_step\<^sup>*\<^sup>* s s'" "sys_inv s" shows "sys_inv s' \<and> issued s \<subseteq> issued s'"
  using assms by (induction rule: rtranclp_induct) (auto dest: sys_step_inv sys_step_issued)

text \<open>A claim stands while its row passes the fence; a claim that has fallen never stands again.\<close>

definition stands :: "claim \<Rightarrow> db \<Rightarrow> bool" where
  "stands c d \<longleftrightarrow> (\<exists>j. find_job (c_job c) d = Some j \<and> JOB_FENCE c j)"

lemma stands_before:
  assumes "sys_step s s'" "sys_inv s" "c \<in> issued s" "stands c (tables s')"
  shows "stands c (tables s)"
proof -
  have ok: "claim_ok (tables s) c" "claim_ok (tables s') c"
    using assms sys_step_inv[OF assms(1,2)] sys_step_issued[OF assms(1)] by (auto simp: sys_inv_def)
  obtain j e where j: "find_job (c_job c) (tables s) = Some j" "c_epoch c = Some e" "e \<le> claim_epoch j"
    using ok(1) by (auto simp: claim_ok_def)
  obtain j' where j': "find_job (c_job c) (tables s') = Some j'"
      "lstep (life_of (tables s) j) (life_of (tables s') j')"
    using sys_step_row[OF assms(1,2) j(1)] by blast
  have f: "JOB_FENCE c j'" using assms(4) j'(1) by (simp add: stands_def)
  have st: "started_at j' \<noteq> None" by (rule claim_ok_standing[OF ok(2) j'(1) f])
  have "claim_epoch j' = claim_epoch j"
    using f j(2,3) lstep_epoch[OF j'(2)] by (auto simp: JOB_FENCE_def)
  then have "status j = Running \<and> locked_by_worker j' = locked_by_worker j \<and> attempt j' = attempt j"
    using lstep_same_epoch[OF j'(2)] f st by (auto simp: JOB_FENCE_def)
  then have "JOB_FENCE c j"
    using f \<open>claim_epoch j' = claim_epoch j\<close> find_job_jid[OF j(1)] by (simp add: JOB_FENCE_def)
  then show ?thesis using j(1) by (simp add: stands_def)
qed

lemma fallen_forever:
  assumes "sys_step\<^sup>*\<^sup>* s s'" "sys_inv s" "c \<in> issued s" "\<not> stands c (tables s)"
  shows "\<not> stands c (tables s')"
  using assms
proof (induction rule: rtranclp_induct)
  case (step y z)
  then show ?case using stands_before[OF step.hyps(2), of c] sys_steps_inv[OF step.hyps(1)] by blast
qed simp

lemma fallen_no_write: "\<not> stands c d \<Longrightarrow> exec_fenced clk f c d = Inr (None, d)"
  by (cases "find_job (c_job c) d") (auto simp: stands_def any.missing any.fenced_out)

lemma landed_fallen:
  assumes "exec_fenced clk f c d = Inr (Some r, d')" shows "\<not> stands c d'"
  using any.left_running[OF assms] by (auto simp: stands_def JOB_FENCE_def)

end
