(* ===== verification/Example_Run.thy ===== *)
theory Example_Run
  imports System
begin

text \<open>
  One concrete run of the system, evaluated: a job is enqueued, claimed by a
  worker and succeeds.  The properties of reachable states are applied to it.
\<close>

definition ex_clock :: "clock" where
  "ex_clock k = 1000000 + int k"

definition ex_args :: EnqueueArgs where
  "ex_args = \<lparr>arg_id = 1, arg_actor = ''a'', arg_queue = ''q'', arg_payload = Map.empty,
     arg_max_attempts = 3, arg_retry_kind = Transient, arg_scheduled_at = None,
     arg_payload_schema_ver = 1, arg_priority = 0, arg_max_pending = None,
     arg_schedule_to_close = None, arg_schedule_to_close_interval = None,
     arg_start_to_close = None, arg_heartbeat_timeout = None, arg_identity_key = None,
     arg_fairness_key = None, arg_idempotency_key = None, arg_idempotency_scope = [],
     arg_trace_id = None, arg_span_id = None, arg_result_ttl = None, arg_unique_for = None,
     arg_unique_states = [], arg_metadata = Map.empty, arg_tags = [], arg_parent_id = None,
     arg_retry_base = seconds 1, arg_retry_cap = seconds 1, arg_retry_backoff = Fixed,
     arg_retry_jitter = 0\<rparr>"

definition ex_env :: enqueue_env where
  "ex_env = \<lparr>env_now = 999999, env_clk = ex_clock, env_preflight_clk = 999999, env_py_now = 999999,
     env_unique_lock = True, env_pending_lock = True, env_token_lock = True, env_between = (\<lambda>d. d)\<rparr>"

definition ex_tables :: db where
  "ex_tables = \<lparr>jobs = [], job_attempts = [], job_events = [], event_seq = 1,
     workers = [\<lparr>w_id = 7, w_queues = [''q''], w_last_seen_at = 0, w_workflow_execution = None\<rparr>],
     actor_config = Map.empty, batches = []\<rparr>"

definition ex_row :: job where "ex_row = enqueue_row 999999 ex_clock ex_args"

definition ex_enqueued :: db where "ex_enqueued = ex_tables\<lparr>jobs := [ex_row]\<rparr>"

definition ex_claimed_row :: job where
  "ex_claimed_row = claim_set (\<lambda>k _. ex_clock (10 + k)) 7 (seconds 30) ex_row"

definition ex_claimed :: db where "ex_claimed = ex_tables\<lparr>jobs := [ex_claimed_row]\<rparr>"

definition ex_claim :: claim where
  "ex_claim = \<lparr>c_job = 1, c_worker = 7, c_attempt = Some 1, c_epoch = Some 1\<rparr>"

definition ex_binds :: succeeded_binds where
  "ex_binds = \<lparr>sb_result = None, sb_result_size = None, sb_fallback_ttl = None,
     sb_progress = \<lparr>p_seq = 0, p_state = None\<rparr>\<rparr>"

lemmas ex_row_defs = ex_row_def enqueue_row_def ex_args_def ex_clock_def or_else_def plus_interval_def

lemma ex_row_simps [simp]:
  "jid ex_row = 1" "status ex_row = Pending" "attempt ex_row = 0" "claim_epoch ex_row = 0"
  "deps_pending ex_row = 0" "step_key ex_row = None" "actor ex_row = ''a''" "cancel_phase ex_row = 0"
  "scheduled_at ex_row = 1000003" "idempotency_key ex_row = None" "metadata ex_row = Map.empty"
  "schedule_to_close ex_row = None" "max_attempts ex_row = 3" "finished_at ex_row = None"
  by (simp_all add: ex_row_defs)

lemma ex_claimed_row_simps [simp]:
  "jid ex_claimed_row = 1" "status ex_claimed_row = Running" "attempt ex_claimed_row = 1"
  "claim_epoch ex_claimed_row = 1" "locked_by_worker ex_claimed_row = Some 7"
  "started_at ex_claimed_row = Some 1000010" "actor ex_claimed_row = ''a''"
  "cancel_phase ex_claimed_row = 0" "scheduled_at ex_claimed_row = 1000003"
  "schedule_to_close ex_claimed_row = None" "lock_expires_at ex_claimed_row = Some 31000012"
  by (simp_all add: ex_claimed_row_def claim_set_def least_def ex_clock_def seconds_def usec_per_sec_def)

lemma ex_args_simps [simp]:
  "arg_actor ex_args = ''a''" "arg_metadata ex_args = Map.empty" "arg_unique_for ex_args = None"
  "arg_identity_key ex_args = None" "arg_max_pending ex_args = None"
  "arg_idempotency_key ex_args = None" "arg_payload_schema_ver ex_args = 1"
  by (simp_all add: ex_args_def)

lemma ex_env_simps [simp]: "env_now ex_env = 999999" "env_clk ex_env = ex_clock"
  by (simp_all add: ex_env_def)

lemma ex_enqueue: "enqueue_pass ex_env 0 ex_args ex_tables = Enqueued ex_row ex_enqueued"
proof -
  have "row_checks ex_row" by (simp add: row_checks_def ex_row_defs)
  moreover have "idem_pair ex_row = None" "\<not> singleton_conflict ex_row ex_tables"
    by (simp_all add: idem_pair_def singleton_conflict_def ex_tables_def)
  ultimately have "enqueue_insert 999999 ex_clock ex_args ex_tables = Inserted ex_row ex_enqueued"
    by (simp add: enqueue_insert_def Let_def ex_enqueued_def find_job_def flip: ex_row_def)
      (simp add: ex_tables_def)
  then show ?thesis
    by (simp add: enqueue_pass_def enqueue_write_def batch_uuid_def unique_for_preflight_def
        int4_min_def int4_max_def)
qed

lemma ex_dispatch:
  "dispatch_claim 0 (\<lambda>k _. ex_clock (10 + k)) (\<lambda>_. False) 7 (seconds 30) [(1, ''a'')] ex_enqueued
     = Inr ([ex_claimed_row], ex_claimed)"
  by (simp add: dispatch_claim_def Let_def claim_where_def wf_dispatch_fence_def ex_enqueued_def
      ex_claimed_def upd_where_def flip: ex_claimed_row_def)
    (simp add: ex_tables_def stamp_actors_def fun_eq_iff)

lemma ex_fence: "JOB_FENCE ex_claim ex_claimed_row"
  by (simp add: JOB_FENCE_def ex_claim_def)

lemma ex_find: "find_job 1 ex_claimed = Some ex_claimed_row"
  by (simp add: find_job_def ex_claimed_def)

definition ex_start :: sys where "ex_start = \<lparr>tables = ex_tables, issued = {}\<rparr>"

definition ex_running :: sys where "ex_running = \<lparr>tables = ex_claimed, issued = {ex_claim}\<rparr>"

lemma ex_reachable: "reachable ex_running"
proof -
  let ?e = "\<lparr>tables = ex_enqueued, issued = {}\<rparr>"
  have "sys_step ex_start ?e"
    using sys_step.enqueue[of ex_env 0 ex_args ex_start ex_row ex_enqueued] ex_enqueue
    by (simp add: ex_start_def)
  moreover have "sys_step ?e ex_running"
    using sys_step.claim[of 0 "\<lambda>k _. ex_clock (10 + k)" "\<lambda>_. False" 7 "seconds 30" "[(1, ''a'')]" ?e] ex_dispatch
    by (simp add: ex_running_def claim_of_def ex_claim_def)
  ultimately have "sys_step\<^sup>*\<^sup>* ex_start ex_running" by (meson rtranclp.simps)
  moreover have "sys_init ex_start" by (simp add: sys_init_def ex_start_def ex_tables_def)
  ultimately show ?thesis by (auto simp: reachable_def)
qed

text \<open>The worker reports success.\<close>

definition ex_done :: db where
  "ex_done = (case exec_fenced ex_clock (MarkSucceeded ex_binds) ex_claim ex_claimed of
     Inr (_, d) \<Rightarrow> d | Inl _ \<Rightarrow> ex_claimed)"

lemma ex_lands: "\<exists>r. exec_fenced ex_clock (MarkSucceeded ex_binds) ex_claim ex_claimed = Inr (Some r, ex_done)"
proof -
  have f: "find_job (c_job ex_claim) ex_claimed = Some ex_claimed_row"
    using ex_find by (simp add: ex_claim_def)
  show ?thesis
    by (simp add: ex_done_def mark_succeeded_def run_arms_def f ex_fence drop_branch_def
        succeeded_post_def insert_attempt_def duration_ms_def succeeded_set_def PROGRESS_MERGE_def
        to_int4_def trunc_div_def int4_min_def int4_max_def ex_clock_def)
qed

end
