(* ===== verification/Limiter.thy ===== *)
theory Limiter
  imports Backoff
begin

text \<open>
  What the admission limiters share (\<open>ratelimit/decision.py\<close>,
  \<open>ratelimit/_redis_utils.py\<close>, \<open>ratelimit/_lock_budget.py\<close> and the two clamps
  of \<open>ratelimit/token_bucket.py\<close>): floats that may be infinite or not a
  number, the decision a limiter returns, the rows of \<open>rate_limit_buckets\<close>,
  the bounded retry hint, the derived key lifetime, the read of the store's
  clock and the fallback from Redis to PostgreSQL.

  A finite float is a rational; \<open>rnd\<close> is the rounding of one operation and
  \<open>fl\<close> adds the overflow to an infinity.
\<close>

section \<open>Floats\<close>

datatype pyfloat = Fin rat | PInf | NInf | NaN

fun isfinite :: "pyfloat \<Rightarrow> bool" where
  "isfinite (Fin x) = True"
| "isfinite _ = False"

definition float_max :: rat where
  "float_max = (2 - 1 / 2 ^ 52) * 2 ^ 1023"

definition fl :: "(rat \<Rightarrow> rat) \<Rightarrow> rat \<Rightarrow> pyfloat" where
  "fl rnd x = (let y = rnd x in
     if y > float_max then PInf else if y < - float_max then NInf else Fin y)"

text \<open>An operation on a float that propagates the non-finite values it is given.\<close>

primrec on_finite :: "(rat \<Rightarrow> pyfloat) \<Rightarrow> pyfloat \<Rightarrow> pyfloat" where
  "on_finite f (Fin x) = f x"
| "on_finite f PInf = PInf"
| "on_finite f NInf = NInf"
| "on_finite f NaN = NaN"

text \<open>\<open>int(x)\<close> on a finite float.\<close>

definition trunc :: "rat \<Rightarrow> int" where
  "trunc x = (if x \<ge> 0 then \<lfloor>x\<rfloor> else \<lceil>x\<rceil>)"

lemma trunc_nonneg: "0 \<le> x \<Longrightarrow> trunc x = \<lfloor>x\<rfloor>"
  by (simp add: trunc_def)

section \<open>Decisions\<close>

datatype RateLimitBackend = Redis | Postgres | Memory

text \<open>What a decision of the GCRA style carries for its refund, per store.\<close>

datatype prev_state =
    MemTat "rat option" rat int
  | RedisTat rat rat int
  | PgTat rat rat

record RateLimitDecision =
  rd_allowed :: bool
  rd_remaining :: rat
  rd_retry_after :: "interval option"
  rd_bucket_name :: string
  rd_backend :: RateLimitBackend
  rd_request_id :: "uuid option"
  rd_previous_state :: "prev_state option"

definition decision ::
    "string \<Rightarrow> RateLimitBackend \<Rightarrow> bool \<Rightarrow> rat \<Rightarrow> interval option \<Rightarrow> RateLimitDecision" where
  "decision name be ok rem hint =
     \<lparr>rd_allowed = ok, rd_remaining = rem, rd_retry_after = hint, rd_bucket_name = name,
      rd_backend = be, rd_request_id = None, rd_previous_state = None\<rparr>"

lemma decision_simps [simp]:
  "rd_allowed (decision n b ok r h) = ok" "rd_remaining (decision n b ok r h) = r"
  "rd_retry_after (decision n b ok r h) = h" "rd_bucket_name (decision n b ok r h) = n"
  "rd_backend (decision n b ok r h) = b" "rd_request_id (decision n b ok r h) = None"
  "rd_previous_state (decision n b ok r h) = None"
  by (simp_all add: decision_def)

record RateLimitState =
  rs_bucket_name :: string
  rs_backend :: RateLimitBackend
  rs_is_exhausted :: bool
  rs_tokens_remaining :: rat
  rs_remaining :: rat
  rs_retry_after :: "interval option"

text \<open>How an acquire can fail without a decision.\<close>

datatype rl_error =
    RateLimitStoreCorrupt
  | RateLimitDependencyUnavailable
  | RedisConnectionError
  | RedisTimeoutError
  | RedisReadOnlyError
  | RedisOutOfMemoryError
  | RlRuntimeError
  | RlValueError
  | RlLockNotAvailable
  | RlCastError
  | RlZeroDivision
  | RlOther

text \<open>A row of \<open>rate_limit_buckets\<close>.\<close>

record bucket_row =
  k_name :: string
  k_kind :: string
  k_state :: jobj
  k_updated_at :: timestamptz
  k_keyed :: bool
  k_last_used_at :: timestamptz

text \<open>
  \<open>(state->>'key')::float8\<close>: NULL when the key is missing or null, the float
  nearest a number, the value of a text that reads as a number (\<open>txt\<close>), and a
  cast error otherwise.
\<close>

fun json_float8 ::
    "(rat \<Rightarrow> rat) \<Rightarrow> (string \<Rightarrow> rat option) \<Rightarrow> json option \<Rightarrow> rl_error + rat option" where
  "json_float8 rnd txt None = Inr None"
| "json_float8 rnd txt (Some JNull) = Inr None"
| "json_float8 rnd txt (Some (JNum x)) = Inr (Some (rnd x))"
| "json_float8 rnd txt (Some (JStr s)) =
     (case txt s of Some x \<Rightarrow> Inr (Some x) | None \<Rightarrow> Inl RlCastError)"
| "json_float8 rnd txt (Some _) = Inl RlCastError"

text \<open>\<open>float(state.get('key', dflt))\<close> in Python, where null is no number.\<close>

fun py_float ::
    "(rat \<Rightarrow> rat) \<Rightarrow> (string \<Rightarrow> rat option) \<Rightarrow> rat \<Rightarrow> json option \<Rightarrow> rl_error + rat" where
  "py_float rnd txt dflt None = Inr dflt"
| "py_float rnd txt dflt (Some (JNum x)) = Inr (rnd x)"
| "py_float rnd txt dflt (Some (JBool b)) = Inr (if b then 1 else 0)"
| "py_float rnd txt dflt (Some (JStr s)) =
     (case txt s of Some x \<Rightarrow> Inr x | None \<Rightarrow> Inl RateLimitStoreCorrupt)"
| "py_float rnd txt dflt (Some _) = Inl RateLimitStoreCorrupt"

section \<open>The bounded hint and the derived lifetime\<close>

definition MAX_TTL :: interval where
  "MAX_TTL = seconds (365 * 86400)"

definition DEFAULT_FIXED_QUOTA_TTL :: interval where
  "DEFAULT_FIXED_QUOTA_TTL = seconds 86400"

definition retry_after :: "(rat \<Rightarrow> rat) \<Rightarrow> pyfloat \<Rightarrow> interval" where
  "retry_after rnd s = (case s of
       Fin x \<Rightarrow>
         if x \<le> 0 then 0
         else if x \<ge> total_seconds rnd MAX_TTL then MAX_TTL
         else timedelta_seconds rnd x
     | _ \<Rightarrow> MAX_TTL)"

definition default_ttl :: "(rat \<Rightarrow> rat) \<Rightarrow> rat \<Rightarrow> rat \<Rightarrow> interval" where
  "default_ttl rnd cap refill =
     (if refill = 0 then DEFAULT_FIXED_QUOTA_TTL
      else case on_finite (\<lambda>b. fl rnd (b + 60)) (on_finite (\<lambda>a. fl rnd (a * 2)) (fl rnd (cap / refill))) of
             Fin s \<Rightarrow> if s \<ge> total_seconds rnd MAX_TTL then MAX_TTL else seconds \<lceil>s\<rceil>
           | _ \<Rightarrow> MAX_TTL)"

section \<open>The lock budgets\<close>

text \<open>The settings object is read only for the two budgets, in milliseconds.\<close>

record limiter_settings =
  ls_token_bucket_lock_timeout_ms :: rat
  ls_sliding_window_lock_timeout_ms :: rat
  ls_pg_fallback_enabled :: bool

definition resolve_budget ::
    "rat option \<Rightarrow> limiter_settings option \<Rightarrow> (limiter_settings \<Rightarrow> rat) \<Rightarrow> rat \<Rightarrow> rat" where
  "resolve_budget override st field dflt = (case override of
       Some v \<Rightarrow> v
     | None \<Rightarrow> (case st of None \<Rightarrow> dflt | Some s \<Rightarrow> field s))"

definition resolve_token_bucket_lock_timeout_ms ::
    "rat option \<Rightarrow> limiter_settings option \<Rightarrow> rat \<Rightarrow> rat" where
  "resolve_token_bucket_lock_timeout_ms override st dflt =
     resolve_budget override st ls_token_bucket_lock_timeout_ms dflt"

definition resolve_sliding_window_lock_timeout_ms ::
    "rat option \<Rightarrow> limiter_settings option \<Rightarrow> rat \<Rightarrow> rat" where
  "resolve_sliding_window_lock_timeout_ms override st dflt =
     resolve_budget override st ls_sliding_window_lock_timeout_ms dflt"

definition DEFAULT_TOKEN_BUCKET_LOCK_TIMEOUT_MS :: rat where
  "DEFAULT_TOKEN_BUCKET_LOCK_TIMEOUT_MS = 5000"

definition DEFAULT_SLIDING_WINDOW_LOCK_TIMEOUT_MS :: rat where
  "DEFAULT_SLIDING_WINDOW_LOCK_TIMEOUT_MS = 5000"

text \<open>
  What one call is given: which clients are injected, the settings, the
  injected clock, the clocks of the stores (Redis \<open>TIME\<close> at its i-th attempt,
  the epoch of PostgreSQL's statement clock, \<open>clock_timestamp()\<close>), whether the
  row lock is had within its budget, which attempts against Redis fail, after
  the script ran or before, and whether the task has been cancelled by then.
\<close>

record limiter_env =
  le_redis :: bool
  le_pool :: bool
  le_settings :: "limiter_settings option"
  le_clock :: "rat option"
  le_redis_now :: "nat \<Rightarrow> rat"
  le_pg_now :: rat
  le_clk :: clock
  le_lock_free :: bool
  le_fault :: "nat \<Rightarrow> (rl_error \<times> bool) option"
  le_cancelled :: "nat \<Rightarrow> bool"

definition require_pg :: "limiter_env \<Rightarrow> rl_error + unit" where
  "require_pg env =
     (if \<not> le_pool env then Inl RateLimitDependencyUnavailable
      else if le_settings env = None then Inl RlRuntimeError
      else Inr ())"

definition require_redis :: "limiter_env \<Rightarrow> rl_error + unit" where
  "require_redis env =
     (if \<not> le_redis env then Inl RlRuntimeError
      else if le_settings env = None then Inl RlRuntimeError
      else Inr ())"

text \<open>A call that fails on a missing client leaves the state as it is.\<close>

definition guarded :: "rl_error + unit \<Rightarrow> ('s \<Rightarrow> (rl_error + 'd) \<times> 's) \<Rightarrow> 's \<Rightarrow> (rl_error + 'd) \<times> 's" where
  "guarded g call s = (case g of Inl e \<Rightarrow> (Inl e, s) | Inr _ \<Rightarrow> call s)"

text \<open>
  The i-th attempt against Redis, over a call that is given the store's time:
  a failure loses the reply, and with it possibly the write.
\<close>

definition redis_attempt ::
    "limiter_env \<Rightarrow> (rat \<Rightarrow> 's \<Rightarrow> (rl_error + 'd) \<times> 's) \<Rightarrow> nat \<times> 's \<Rightarrow> (rl_error + 'd) \<times> (nat \<times> 's)" where
  "redis_attempt env call is = (case is of (i, s) \<Rightarrow>
     (let (r, s') = guarded (require_redis env) (call (le_redis_now env i)) s in
      case le_fault env i of
        None \<Rightarrow> (r, (Suc i, s'))
      | Some (e, applied) \<Rightarrow> (case require_redis env of
            Inl g \<Rightarrow> (Inl g, (Suc i, s))
          | Inr _ \<Rightarrow> (Inl e, (Suc i, if applied then s' else s)))))"

text \<open>\<open>timedelta(milliseconds=ms)\<close>, computed as \<open>timedelta(seconds=s)\<close> is.\<close>

definition timedelta_ms :: "(rat \<Rightarrow> rat) \<Rightarrow> rat \<Rightarrow> interval" where
  "timedelta_ms rnd ms =
     (let whole = trunc ms in
      whole * 1000 + round_half_even (rnd (1000 * (ms - of_int whole))))"

section \<open>Replies of the store\<close>

text \<open>
  An element of a reply, by what \<open>int()\<close> and \<open>float()\<close> make of it; None
  where the conversion raises.
\<close>

record reply_elem =
  as_int :: "int option"
  as_float :: "pyfloat option"

definition int_elem :: "int \<Rightarrow> reply_elem" where
  "int_elem n = \<lparr>as_int = Some n, as_float = Some (Fin (of_int n))\<rparr>"

text \<open>A decimal string: no integer for \<open>int()\<close> in general, a number for \<open>float()\<close>.\<close>

definition num_elem :: "rat \<Rightarrow> reply_elem" where
  "num_elem x = \<lparr>as_int = (if of_int \<lfloor>x\<rfloor> = x then Some \<lfloor>x\<rfloor> else None), as_float = Some (Fin x)\<rparr>"

text \<open>A reply: a list, or something that is no list at all.\<close>

type_synonym reply = "reply_elem list option"

definition redis_time_seconds :: "(rat \<Rightarrow> rat) \<Rightarrow> reply \<Rightarrow> rl_error + rat" where
  "redis_time_seconds rnd raw = (case raw of
       Some [s, m] \<Rightarrow> (case (as_float s, as_float m) of
           (Some (Fin sec), Some (Fin mic)) \<Rightarrow>
             (case on_finite (\<lambda>d. fl rnd (sec + d)) (fl rnd (mic / 1000000)) of
                Fin t \<Rightarrow> Inr t
              | _ \<Rightarrow> Inl RateLimitStoreCorrupt)
         | _ \<Rightarrow> Inl RateLimitStoreCorrupt)
     | _ \<Rightarrow> Inl RateLimitStoreCorrupt)"

section \<open>The fallback from Redis to PostgreSQL\<close>

definition RATE_LIMIT_REDIS_TRANSIENT_RETRY_ATTEMPTS :: nat where
  "RATE_LIMIT_REDIS_TRANSIENT_RETRY_ATTEMPTS = 3"

definition RATE_LIMIT_REDIS_TRANSIENT_RETRY_BACKOFFS_S :: "rat list" where
  "RATE_LIMIT_REDIS_TRANSIENT_RETRY_BACKOFFS_S = [1 / 4, 3 / 4]"

text \<open>
  One pass through the loop: \<open>redis\<close> and \<open>pg\<close> are the two calls on the
  stores' state, \<open>cancelled i\<close> tells whether the task has been cancelled
  when attempt \<open>i\<close> raises.  The result carries the sleeps taken.
\<close>

definition fail_closed ::
    "('s \<Rightarrow> (rl_error + 'd) \<times> 's) \<Rightarrow> limiter_settings option \<Rightarrow> rl_error \<Rightarrow> 's \<Rightarrow> (rl_error + 'd) \<times> 's" where
  "fail_closed pg st e s = (case st of
       None \<Rightarrow> (Inl e, s)
     | Some cfg \<Rightarrow> if \<not> ls_pg_fallback_enabled cfg then (Inl e, s) else pg s)"

fun fallback_loop ::
    "('s \<Rightarrow> (rl_error + 'd) \<times> 's) \<Rightarrow> ('s \<Rightarrow> (rl_error + 'd) \<times> 's) \<Rightarrow> limiter_settings option
     \<Rightarrow> (nat \<Rightarrow> bool) \<Rightarrow> nat \<Rightarrow> 's \<Rightarrow> ((rl_error + 'd) \<times> 's) \<times> rat list" where
  "fallback_loop redis pg st cancelled left s =
     (let (r, s') = redis s in
      case r of
        Inr d \<Rightarrow> ((Inr d, s'), [])
      | Inl e \<Rightarrow>
          if e = RedisConnectionError \<or> e = RedisTimeoutError then
            (let i = RATE_LIMIT_REDIS_TRANSIENT_RETRY_ATTEMPTS - 1 - left in
             if cancelled i then ((Inl e, s'), [])
             else case left of
                 0 \<Rightarrow> (fail_closed pg st e s', [])
               | Suc n \<Rightarrow>
                   (let (res, sleeps) = fallback_loop redis pg st cancelled n s'
                    in (res, RATE_LIMIT_REDIS_TRANSIENT_RETRY_BACKOFFS_S ! i # sleeps)))
          else if e = RedisReadOnlyError \<or> e = RedisOutOfMemoryError \<or> e = RateLimitStoreCorrupt
          then (fail_closed pg st e s', [])
          else ((Inl e, s'), []))"

declare fallback_loop.simps [simp del]

definition with_pg_fallback ::
    "('s \<Rightarrow> (rl_error + 'd) \<times> 's) \<Rightarrow> ('s \<Rightarrow> (rl_error + 'd) \<times> 's) \<Rightarrow> limiter_settings option
     \<Rightarrow> (nat \<Rightarrow> bool) \<Rightarrow> 's \<Rightarrow> ((rl_error + 'd) \<times> 's) \<times> rat list" where
  "with_pg_fallback redis pg st cancelled s =
     fallback_loop redis pg st cancelled (RATE_LIMIT_REDIS_TRANSIENT_RETRY_ATTEMPTS - 1) s"

section \<open>Bounds of the hint and of the lifetime\<close>

context float_arith
begin

lemma max_ttl_seconds: "total_seconds rnd MAX_TTL = 31536000"
  using total_seconds_whole[of 31536000] by (simp add: MAX_TTL_def)

lemma retry_after_bounds: "0 \<le> retry_after rnd s \<and> retry_after rnd s \<le> MAX_TTL"
proof (cases s)
  case (Fin x)
  have top: "timedelta_seconds rnd 31536000 = MAX_TTL"
    by (simp add: timedelta_seconds_def MAX_TTL_def seconds_def rnd_0 round_half_even_def Let_def)
  have "0 < x \<Longrightarrow> 0 \<le> timedelta_seconds rnd x"
    using timedelta_seconds_ge[of 0 x] by (simp add: seconds_def)
  moreover have "0 < x \<Longrightarrow> x < 31536000 \<Longrightarrow> timedelta_seconds rnd x \<le> MAX_TTL"
    using timedelta_seconds_mono[of x 31536000] by (simp add: top)
  ultimately show ?thesis
    by (auto simp: Fin retry_after_def max_ttl_seconds not_le) (simp_all add: MAX_TTL_def seconds_def usec_per_sec_def)
qed (simp_all add: retry_after_def MAX_TTL_def seconds_def usec_per_sec_def)

lemma fl_finite_ge:
  assumes "fl rnd x = Fin y" "z \<le> x" "rnd z = z" shows "z \<le> y"
  using assms rnd_ge_float[of z x] by (auto simp: fl_def Let_def split: if_splits)

lemma default_ttl_bounds:
  assumes "0 < cap" "0 \<le> refill"
  shows "seconds 60 \<le> default_ttl rnd cap refill \<and> default_ttl rnd cap refill \<le> MAX_TTL"
proof (cases "on_finite (\<lambda>b. fl rnd (b + 60)) (on_finite (\<lambda>a. fl rnd (a * 2)) (fl rnd (cap / refill)))")
  case (Fin s)
  then obtain b where b: "fl rnd (b + 60) = Fin s" "on_finite (\<lambda>a. fl rnd (a * 2)) (fl rnd (cap / refill)) = Fin b"
    by (cases "on_finite (\<lambda>a. fl rnd (a * 2)) (fl rnd (cap / refill))") auto
  then obtain a where a: "fl rnd (a * 2) = Fin b" "fl rnd (cap / refill) = Fin a"
    by (cases "fl rnd (cap / refill)") auto
  have "0 \<le> a" using fl_finite_ge[OF a(2), of 0] assms by (simp add: rnd_0)
  then have "0 \<le> b" using fl_finite_ge[OF a(1), of 0] by (simp add: rnd_0)
  then have "60 \<le> s" using fl_finite_ge[OF b(1), of 60] rnd_int[of 60] by simp
  then have "60 \<le> \<lceil>s\<rceil>" by linarith
  moreover have "s < 31536000 \<Longrightarrow> \<lceil>s\<rceil> \<le> 31536000" by linarith
  ultimately show ?thesis
    by (auto simp: default_ttl_def Fin max_ttl_seconds not_le)
       (auto simp: seconds_def usec_per_sec_def MAX_TTL_def DEFAULT_FIXED_QUOTA_TTL_def)
qed (simp_all add: default_ttl_def seconds_def usec_per_sec_def MAX_TTL_def DEFAULT_FIXED_QUOTA_TTL_def)

end

section \<open>What the fallback does\<close>

definition is_weather :: "rl_error \<Rightarrow> bool" where
  "is_weather e \<longleftrightarrow> e = RedisConnectionError \<or> e = RedisTimeoutError"

definition is_outage :: "rl_error \<Rightarrow> bool" where
  "is_outage e \<longleftrightarrow> e = RedisReadOnlyError \<or> e = RedisOutOfMemoryError \<or> e = RateLimitStoreCorrupt"

text \<open>The state before attempt \<open>i\<close> and the answer it gets, when every attempt is made.\<close>

definition attempt_state :: "('s \<Rightarrow> 'r \<times> 's) \<Rightarrow> nat \<Rightarrow> 's \<Rightarrow> 's" where
  "attempt_state redis i s = ((\<lambda>x. snd (redis x)) ^^ i) s"

definition attempt_reply :: "('s \<Rightarrow> 'r \<times> 's) \<Rightarrow> nat \<Rightarrow> 's \<Rightarrow> 'r" where
  "attempt_reply redis i s = fst (redis (attempt_state redis i s))"

lemma attempt_state_simps:
  "attempt_state redis 0 s = s"
  "attempt_state redis (Suc i) s = attempt_state redis i (snd (redis s))"
  "snd (redis (attempt_state redis i s)) = attempt_state redis (Suc i) s"
  unfolding attempt_state_def
    apply simp
   apply (simp only: funpow_Suc_right comp_apply)
  apply simp
  done

lemma attempt_reply_Suc: "attempt_reply redis (Suc i) s = attempt_reply redis i (snd (redis s))"
  by (simp add: attempt_reply_def attempt_state_simps)

lemma fallback_weather:
  assumes "fst (redis s) = Inl e" "is_weather e" "\<not> cancelled (2 - Suc n)"
  shows "fallback_loop redis pg st cancelled (Suc n) s =
     (let (res, sleeps) = fallback_loop redis pg st cancelled n (snd (redis s))
      in (res, RATE_LIMIT_REDIS_TRANSIENT_RETRY_BACKOFFS_S ! (2 - Suc n) # sleeps))"
  using assms
  by (subst fallback_loop.simps)
     (simp add: is_weather_def RATE_LIMIT_REDIS_TRANSIENT_RETRY_ATTEMPTS_def split_beta numeral_2_eq_2)

lemma fallback_other:
  assumes "\<And>e. fst (redis s) = Inl e \<Longrightarrow> \<not> is_weather e"
  shows "fallback_loop redis pg st cancelled n s =
     (case fst (redis s) of
        Inr d \<Rightarrow> (Inr d, snd (redis s))
      | Inl e \<Rightarrow> if is_outage e then fail_closed pg st e (snd (redis s)) else (Inl e, snd (redis s)), [])"
  using assms
  by (subst fallback_loop.simps)
     (auto simp: is_weather_def is_outage_def split_beta split: sum.splits)

lemma fallback_last:
  assumes "fst (redis s) = Inl e" "is_weather e" "\<not> cancelled 2"
  shows "fallback_loop redis pg st cancelled 0 s = (fail_closed pg st e (snd (redis s)), [])"
  using assms
  by (subst fallback_loop.simps)
     (simp add: is_weather_def RATE_LIMIT_REDIS_TRANSIENT_RETRY_ATTEMPTS_def split_beta)

lemma fallback_loop_settles:
  assumes "k \<le> n" "n \<le> 2"
    and "\<And>i. i < k \<Longrightarrow> \<exists>e. attempt_reply redis i s = Inl e \<and> is_weather e"
    and "\<And>e. attempt_reply redis k s = Inl e \<Longrightarrow> \<not> is_weather e"
  shows "fallback_loop redis pg st (\<lambda>_. False) n s =
     (case attempt_reply redis k s of
        Inr d \<Rightarrow> (Inr d, attempt_state redis (Suc k) s)
      | Inl e \<Rightarrow> if is_outage e then fail_closed pg st e (attempt_state redis (Suc k) s)
                 else (Inl e, attempt_state redis (Suc k) s),
      take k (drop (2 - n) RATE_LIMIT_REDIS_TRANSIENT_RETRY_BACKOFFS_S))"
  using assms
proof (induction k arbitrary: n s)
  case 0
  then show ?case
    by (simp add: fallback_other attempt_reply_def attempt_state_simps(1,2) split: sum.splits)
next
  case (Suc k)
  from Suc.prems(3)[of 0] obtain e where e: "fst (redis s) = Inl e" "is_weather e"
    by (auto simp: attempt_reply_def attempt_state_simps)
  from Suc.prems(1) obtain m where m: "n = Suc m" "k \<le> m" by (cases n) auto
  have IH: "fallback_loop redis pg st (\<lambda>_. False) m (snd (redis s)) =
     (case attempt_reply redis (Suc k) s of
        Inr d \<Rightarrow> (Inr d, attempt_state redis (Suc (Suc k)) s)
      | Inl e \<Rightarrow> if is_outage e then fail_closed pg st e (attempt_state redis (Suc (Suc k)) s)
                 else (Inl e, attempt_state redis (Suc (Suc k)) s),
      take k (drop (2 - m) RATE_LIMIT_REDIS_TRANSIENT_RETRY_BACKOFFS_S))"
    unfolding attempt_state_simps(2)[of redis _ s] attempt_reply_Suc
    using Suc.prems(2) m(1) Suc.prems(3)[of "Suc _"] Suc.prems(4)
    by (intro Suc.IH[OF m(2)]) (auto simp: attempt_reply_Suc[symmetric])
  have "m \<le> 1" using Suc.prems(2) m by simp
  then have "drop (2 - Suc m) RATE_LIMIT_REDIS_TRANSIENT_RETRY_BACKOFFS_S =
      RATE_LIMIT_REDIS_TRANSIENT_RETRY_BACKOFFS_S ! (2 - Suc m)
        # drop (2 - m) RATE_LIMIT_REDIS_TRANSIENT_RETRY_BACKOFFS_S"
    by (auto simp: RATE_LIMIT_REDIS_TRANSIENT_RETRY_BACKOFFS_S_def numeral_2_eq_2 le_Suc_eq)
  then show ?case
    by (simp add: m fallback_weather[of redis s, OF e] IH)
qed

lemma fallback_loop_outage:
  assumes "n \<le> 2"
    and "\<And>i. i < n \<Longrightarrow> \<exists>e. attempt_reply redis i s = Inl e \<and> is_weather e"
    and "attempt_reply redis n s = Inl e" "is_weather e"
  shows "fallback_loop redis pg st (\<lambda>_. False) n s =
     (fail_closed pg st e (attempt_state redis (Suc n) s),
      drop (2 - n) RATE_LIMIT_REDIS_TRANSIENT_RETRY_BACKOFFS_S)"
  using assms(1-3)
proof (induction n arbitrary: s)
  case 0
  then show ?case
    using fallback_last[of redis s e, OF _ assms(4), of "\<lambda>_. False" pg st]
    by (simp add: attempt_reply_def attempt_state_simps(1,2) RATE_LIMIT_REDIS_TRANSIENT_RETRY_BACKOFFS_S_def)
next
  case (Suc m)
  from Suc.prems(2)[of 0] obtain e' where e: "fst (redis s) = Inl e'" "is_weather e'"
    by (auto simp: attempt_reply_def attempt_state_simps)
  have IH: "fallback_loop redis pg st (\<lambda>_. False) m (snd (redis s)) =
     (fail_closed pg st e (attempt_state redis (Suc (Suc m)) s),
      drop (2 - m) RATE_LIMIT_REDIS_TRANSIENT_RETRY_BACKOFFS_S)"
    unfolding attempt_state_simps(2)[of redis _ s]
    using Suc.prems(1) Suc.prems(2)[of "Suc _"] Suc.prems(3)
    by (intro Suc.IH) (auto simp: attempt_reply_Suc[symmetric])
  have "m \<le> 1" using Suc.prems(1) by simp
  then have "drop (2 - Suc m) RATE_LIMIT_REDIS_TRANSIENT_RETRY_BACKOFFS_S =
      RATE_LIMIT_REDIS_TRANSIENT_RETRY_BACKOFFS_S ! (2 - Suc m)
        # drop (2 - m) RATE_LIMIT_REDIS_TRANSIENT_RETRY_BACKOFFS_S"
    by (auto simp: RATE_LIMIT_REDIS_TRANSIENT_RETRY_BACKOFFS_S_def numeral_2_eq_2 le_Suc_eq)
  then show ?case
    by (simp add: fallback_weather[of redis s, OF e] IH)
qed

lemma rnd64_numeral: "rnd64 (numeral w) = numeral w" if "numeral w < (2 ^ 53 :: int)"
  using f64.rnd_int[of "numeral w"] that by simp

lemma rnd64_small [simp]: "rnd64 0 = 0" "rnd64 1 = 1" "rnd64 2 = 2" "rnd64 3 = 3" "rnd64 10 = 10" "rnd64 (- 1) = - 1"
  using f64.rnd_int[of 0] f64.rnd_int[of 1] f64.rnd_int[of 2] f64.rnd_int[of 3] f64.rnd_int[of 10] f64.rnd_int[of "- 1"]
  by simp_all

section \<open>The text of a Lua number\<close>

text \<open>
  \<open>tostring(x)\<close> writes fourteen significant digits (\<open>%.14g\<close>); \<open>tonumber\<close>
  reads the nearest float.  \<open>dec_exp\<close> is the decimal exponent of a positive number.
\<close>

fun digits :: "nat \<Rightarrow> nat" where
  "digits n = (if n = 0 then 0 else Suc (digits (n div 10)))"

declare digits.simps [simp del]

definition dec_exp :: "rat \<Rightarrow> int" where
  "dec_exp x = (if x \<ge> 1 then int (digits (nat \<lfloor>x\<rfloor>)) - 1 else - int (digits (nat (\<lceil>1 / x\<rceil> - 1))))"

definition pow10 :: "int \<Rightarrow> rat" where
  "pow10 e = (if e \<ge> 0 then 10 ^ nat e else 1 / 10 ^ nat (- e))"

definition dec14 :: "rat \<Rightarrow> rat" where
  "dec14 x = (let p = pow10 (13 - dec_exp x) in of_int (round_half_even (x * p)) / p)"

definition lua_tostring :: "rat \<Rightarrow> rat" where
  "lua_tostring x = (if x = 0 then 0 else if x < 0 then - rnd64 (dec14 (- x)) else rnd64 (dec14 x))"

lemma pow10_pos: "0 < pow10 e"
  by (simp add: pow10_def)

lemma lua_tostring_nonneg: "0 \<le> x \<Longrightarrow> 0 \<le> lua_tostring x"
  using pow10_pos[of "13 - dec_exp x"] round_half_even_ge[of 0 "x * pow10 (13 - dec_exp x)"]
  by (auto simp: lua_tostring_def dec14_def Let_def intro!: f64.rnd_nonneg)

lemma lua_tostring_0: "lua_tostring 0 = 0"
  by (simp add: lua_tostring_def)


lemma digits_bounds: "n < 10 ^ digits n" "0 < n \<Longrightarrow> 10 ^ (digits n - 1) \<le> n"
proof (induction n rule: digits.induct)
  case (1 n)
  show "n < 10 ^ digits n"
  proof (cases "n = 0")
    case False
    then have "n div 10 < 10 ^ digits (n div 10)" by (rule 1(1))
    then have "n < 10 ^ Suc (digits (n div 10))" by simp
    then show ?thesis using False by (subst digits.simps) simp
  qed simp
  show "10 ^ (digits n - 1) \<le> n" if "0 < n"
  proof (cases "n div 10 = 0")
    case True
    then show ?thesis using that by (subst digits.simps) (simp add: digits.simps[of 0])
  next
    case False
    then have "10 ^ (digits (n div 10) - 1) \<le> n div 10" using 1(2) that by simp
    moreover have "0 < digits (n div 10)" using False by (subst digits.simps) simp
    ultimately have "10 ^ digits (n div 10) \<le> 10 * (n div 10)"
      by (cases "digits (n div 10)") simp_all
    also have "\<dots> \<le> n" by simp
    finally show ?thesis using that by (subst digits.simps) simp
  qed
qed

lemma pow10_powi: "pow10 e = 10 powi e"
  by (simp add: pow10_def power_int_def power_one_over inverse_eq_divide)

lemma pow10_minus: "pow10 (- e) = 1 / pow10 e"
  unfolding pow10_powi power_int_minus by (simp only: inverse_eq_divide)

lemma dec_exp_le:
  assumes "0 < x" shows "pow10 (dec_exp x) \<le> x"
proof (cases "1 \<le> x")
  case True
  let ?n = "nat \<lfloor>x\<rfloor>"
  have n: "0 < ?n" using True by simp
  have "0 < digits ?n" using n by (subst digits.simps) simp
  then have "dec_exp x = int (digits ?n - 1)" using True by (simp add: dec_exp_def)
  then have "pow10 (dec_exp x) = of_nat (10 ^ (digits ?n - 1))" by (simp add: pow10_def)
  also have "\<dots> \<le> of_nat ?n" using digits_bounds(2)[OF n] by (simp only: of_nat_le_iff)
  also have "\<dots> \<le> x" using True by simp
  finally show ?thesis .
next
  case False
  let ?n = "nat (\<lceil>1 / x\<rceil> - 1)"
  have c: "1 \<le> \<lceil>1 / x\<rceil>" using assms by (simp add: one_le_ceiling)
  have "1 / x \<le> of_int \<lceil>1 / x\<rceil>" by simp
  also have "\<dots> = of_nat (Suc ?n)" using c by simp
  also have "\<dots> \<le> of_nat (10 ^ digits ?n)"
    using digits_bounds(1)[of ?n] by (simp only: of_nat_le_iff Suc_le_eq)
  also have "\<dots> = pow10 (int (digits ?n))" by (simp add: pow10_def)
  finally have "1 / pow10 (int (digits ?n)) \<le> x"
    using assms pow10_pos[of "int (digits ?n)"] by (simp add: field_simps)
  then show ?thesis using False by (simp add: dec_exp_def pow10_minus)
qed

lemma dec14_near:
  assumes "0 < x" shows "\<bar>dec14 x - x\<bar> \<le> x * 5 / 10 ^ 14"
proof -
  let ?p = "pow10 (13 - dec_exp x)"
  have p: "0 < ?p" by (rule pow10_pos)
  have "dec14 x - x = (of_int (round_half_even (x * ?p)) - x * ?p) / ?p"
    using less_imp_neq[OF p] by (simp add: dec14_def Let_def diff_divide_distrib)
  then have "\<bar>dec14 x - x\<bar> = \<bar>of_int (round_half_even (x * ?p)) - x * ?p\<bar> / ?p"
    using p by (simp add: abs_of_pos)
  also have "\<dots> \<le> (1 / 2) / ?p"
    using p by (intro divide_right_mono round_half_even_near) simp
  also have "\<dots> = pow10 (dec_exp x) * 5 / 10 ^ 14"
  proof -
    have "?p = 10 ^ 13 / pow10 (dec_exp x)"
      unfolding pow10_powi by (simp add: power_int_diff)
    then show ?thesis by simp
  qed
  also have "\<dots> \<le> x * 5 / 10 ^ 14" using dec_exp_le[OF assms] by (simp add: divide_right_mono)
  finally show ?thesis .
qed

text \<open>The text of a number is off by at most five units in the fifteenth place, and one rounding.\<close>

definition text_slack :: "rat \<Rightarrow> rat" where
  "text_slack M = M / 10 ^ 13 + pow2 (- 1075)"

lemma lua_tostring_near:
  assumes "0 \<le> x" "x \<le> M" shows "\<bar>lua_tostring x - x\<bar> \<le> text_slack M"
proof (cases "x = 0")
  case True
  then show ?thesis
    using assms less_imp_le[OF pow2_pos[of "- 1075"]] by (simp add: lua_tostring_def text_slack_def)
next
  case False
  then have x: "0 < x" using assms by simp
  then have shown: "lua_tostring x = rnd64 (dec14 x)" by (simp add: lua_tostring_def)
  have d: "\<bar>dec14 x - x\<bar> \<le> x * 5 / 10 ^ 14" by (rule dec14_near[OF x])
  have "x * 5 / 10 ^ 14 \<le> x" using x by simp
  then have d0: "0 \<le> dec14 x" and d2: "dec14 x \<le> 2 * x" using d by linarith+
  have "\<bar>rnd64 (dec14 x) - dec14 x\<bar> \<le> dec14 x / 2 ^ 53 + pow2 (- 1075)" by (rule rnd64_near[OF d0])
  also have "dec14 x / 2 ^ 53 \<le> 2 * x / 2 ^ 53" using d2 by (rule divide_right_mono) simp
  finally have "\<bar>lua_tostring x - x\<bar> \<le> 2 * x / 2 ^ 53 + pow2 (- 1075) + x * 5 / 10 ^ 14"
    using d shown by linarith
  also have "\<dots> \<le> x / 10 ^ 13 + pow2 (- 1075)" using x by simp
  also have "\<dots> \<le> text_slack M" using assms(2) by (simp add: text_slack_def divide_right_mono)
  finally show ?thesis .
qed

lemma lua_tostring_int:
  assumes "0 \<le> n" "n < 10 ^ 14" shows "lua_tostring (of_int n) = of_int n"
proof (cases "n = 0")
  case True
  then show ?thesis by (simp add: lua_tostring_def)
next
  case False
  then have n: "1 \<le> n" using assms by simp
  define k where "k = digits (nat n)"
  have k: "0 < k" using n unfolding k_def by (subst digits.simps) simp
  have "10 ^ (k - 1) \<le> nat n" using digits_bounds(2)[of "nat n"] n by (simp add: k_def)
  moreover have "nat n < 10 ^ 14" using assms by (simp add: nat_less_iff)
  ultimately have "(10::nat) ^ (k - 1) < 10 ^ 14" by (rule le_less_trans)
  then have k14: "k - 1 < 14" by (rule power_less_imp_less_exp[rotated]) simp
  have "dec_exp (of_int n) = int k - 1" using n by (simp add: dec_exp_def k_def)
  then have p: "pow10 (13 - dec_exp (of_int n)) = of_int (10 ^ nat (14 - int k))"
    using k14 by (simp add: pow10_def)
  define q where "q = (10::int) ^ nat (14 - int k)"
  have q: "q \<noteq> 0" by (simp add: q_def)
  have "dec14 (of_int n) = of_int (round_half_even (of_int (n * q))) / of_int q"
    unfolding dec14_def Let_def p by (simp only: q_def of_int_mult)
  also have "\<dots> = of_int n" unfolding round_half_even_of_int using q by simp
  finally have "dec14 (of_int n) = of_int n" .
  moreover have "rnd64 (of_int n) = of_int n" using assms by (intro rnd64_int) simp
  ultimately show ?thesis using n by (simp add: lua_tostring_def)
qed

lemma lua_tostring_1: "lua_tostring 1 = 1"
  using lua_tostring_int[of 1] by simp

end
