(* ===== verification/Token_Bucket.thy ===== *)
theory Token_Bucket
  imports Limiter
begin

text \<open>
  The token bucket (\<open>ratelimit/token_bucket.py\<close>, \<open>ratelimit/_scripts.py\<close>) in
  its three stores.  A bucket holds at most \<open>capacity\<close> tokens and gains
  \<open>refill_per_second\<close> of them per second; an acquire spends \<open>count\<close> or is
  denied with the time its deficit takes.  The memory bucket keeps a pair of
  floats; the Redis bucket keeps the same pair in a hash, written by a Lua
  script through \<open>tostring\<close> (the parameter \<open>fmt\<close>, the number the written
  text denotes); the PostgreSQL bucket keeps it in the \<open>state\<close> document of a
  row of \<open>rate_limit_buckets\<close>, written by one upsert.
\<close>

section \<open>The limiter object\<close>

record TokenBucket =
  tb_name :: string
  tb_capacity :: rat
  tb_refill :: rat
  tb_backend :: RateLimitBackend
  tb_ttl :: interval
  tb_keyed :: bool

definition new_TokenBucket ::
    "(rat \<Rightarrow> rat) \<Rightarrow> string \<Rightarrow> rat \<Rightarrow> rat \<Rightarrow> RateLimitBackend \<Rightarrow> interval option \<Rightarrow> bool
     \<Rightarrow> rl_error + TokenBucket" where
  "new_TokenBucket rnd name cap refill be ttl keyed =
     (if cap \<le> 0 then Inl RlValueError
      else if refill < 0 then Inl RlValueError
      else Inr \<lparr>tb_name = name, tb_capacity = cap, tb_refill = refill, tb_backend = be,
                tb_ttl = (case ttl of Some t \<Rightarrow> t | None \<Rightarrow> default_ttl rnd cap refill),
                tb_keyed = keyed\<rparr>)"

definition compute_ttl_seconds :: "(rat \<Rightarrow> rat) \<Rightarrow> TokenBucket \<Rightarrow> int" where
  "compute_ttl_seconds rnd b = max 1 (trunc (total_seconds rnd (tb_ttl b)))"

section \<open>Memory\<close>

record mem_bucket =
  mb_tokens :: rat
  mb_ts :: "rat option"

definition new_mem_bucket :: "rat \<Rightarrow> mem_bucket" where
  "new_mem_bucket cap = \<lparr>mb_tokens = cap, mb_ts = None\<rparr>"

text \<open>\<open>min(capacity, tokens + max(0, now - ts) * refill)\<close>, the refill of every backend.\<close>

definition refilled :: "(rat \<Rightarrow> rat) \<Rightarrow> rat \<Rightarrow> rat \<Rightarrow> rat \<Rightarrow> rat \<Rightarrow> rat \<Rightarrow> rat" where
  "refilled rnd cap refill tokens ts now =
     (let elapsed = max 0 (rnd (now - ts))
      in min cap (rnd (tokens + rnd (elapsed * refill))))"

definition mem_acquire ::
    "(rat \<Rightarrow> rat) \<Rightarrow> string \<Rightarrow> rat \<Rightarrow> rat \<Rightarrow> rat \<Rightarrow> rat \<Rightarrow> mem_bucket \<Rightarrow> RateLimitDecision \<times> mem_bucket" where
  "mem_acquire rnd name cap refill count now st =
     (let ts = (case mb_ts st of None \<Rightarrow> now | Some t \<Rightarrow> t);
          tokens = refilled rnd cap refill (mb_tokens st) ts now
      in if tokens \<ge> count then
           (let left = rnd (tokens - count)
            in (decision name Memory True left (Some 0), \<lparr>mb_tokens = left, mb_ts = Some now\<rparr>))
         else
           (decision name Memory False tokens
              (if refill = 0 then None
               else Some (retry_after rnd (fl rnd (rnd (count - tokens) / refill)))),
            \<lparr>mb_tokens = tokens, mb_ts = Some now\<rparr>))"

definition mem_refund :: "(rat \<Rightarrow> rat) \<Rightarrow> rat \<Rightarrow> rat \<Rightarrow> mem_bucket \<Rightarrow> mem_bucket" where
  "mem_refund rnd cap count st = st\<lparr>mb_tokens := min cap (rnd (mb_tokens st + count))\<rparr>"

definition tb_state ::
    "(rat \<Rightarrow> rat) \<Rightarrow> string \<Rightarrow> RateLimitBackend \<Rightarrow> rat \<Rightarrow> rat \<Rightarrow> RateLimitState" where
  "tb_state rnd name be refill tokens =
     \<lparr>rs_bucket_name = name, rs_backend = be, rs_is_exhausted = (tokens \<le> 0),
      rs_tokens_remaining = tokens, rs_remaining = 0,
      rs_retry_after = (if tokens \<le> 0 \<and> refill > 0
                        then Some (retry_after rnd (fl rnd (rnd (1 - tokens) / refill))) else None)\<rparr>"

definition mem_peek ::
    "(rat \<Rightarrow> rat) \<Rightarrow> string \<Rightarrow> rat \<Rightarrow> rat \<Rightarrow> rat \<Rightarrow> mem_bucket \<Rightarrow> RateLimitState" where
  "mem_peek rnd name cap refill now st =
     tb_state rnd name Memory refill
       (case mb_ts st of None \<Rightarrow> cap | Some ts \<Rightarrow> refilled rnd cap refill (mb_tokens st) ts now)"

definition mem_reset :: "rat \<Rightarrow> rat \<Rightarrow> mem_bucket \<Rightarrow> mem_bucket" where
  "mem_reset cap now st = \<lparr>mb_tokens = cap, mb_ts = Some now\<rparr>"

text \<open>Whether evicting the registry's entry would hand a spent fixed quota back.\<close>

definition holds_consumed_quota :: "TokenBucket \<Rightarrow> mem_bucket option \<Rightarrow> bool" where
  "holds_consumed_quota b mem =
     (if tb_refill b \<noteq> 0 then False
      else if tb_backend b \<noteq> Memory then False
      else case mem of None \<Rightarrow> False | Some st \<Rightarrow> mb_tokens st < tb_capacity b)"

section \<open>Redis\<close>

text \<open>The hash under the bucket's key; the lifetime is what the last EXPIRE set.\<close>

record redis_hash =
  rh_tokens :: rat
  rh_ts :: rat
  rh_expire :: int

definition TOKEN_BUCKET_SCRIPT ::
    "(rat \<Rightarrow> rat) \<Rightarrow> (rat \<Rightarrow> rat) \<Rightarrow> rat \<Rightarrow> rat \<Rightarrow> rat \<Rightarrow> int \<Rightarrow> rat \<Rightarrow> redis_hash option
     \<Rightarrow> (int \<times> rat \<times> pyfloat) \<times> redis_hash option" where
  "TOKEN_BUCKET_SCRIPT rnd fmt cap refill req ttl now key =
     (let (tokens0, ts) = (case key of None \<Rightarrow> (cap, now) | Some h \<Rightarrow> (rh_tokens h, rh_ts h));
          tokens = refilled rnd cap refill tokens0 ts now;
          ok = (tokens \<ge> req);
          tokens' = (if ok then rnd (tokens - req) else tokens);
          hint = (if ok \<or> \<not> refill > 0 then Fin 0 else fl rnd (rnd (req - tokens) / refill))
      in ((if ok then 1 else 0, fmt tokens', on_finite (\<lambda>x. Fin (fmt x)) hint),
          Some \<lparr>rh_tokens = fmt tokens', rh_ts = fmt now, rh_expire = ttl\<rparr>))"

definition REFUND_SCRIPT ::
    "(rat \<Rightarrow> rat) \<Rightarrow> (rat \<Rightarrow> rat) \<Rightarrow> rat \<Rightarrow> rat \<Rightarrow> rat \<Rightarrow> rat \<Rightarrow> redis_hash option \<Rightarrow> redis_hash option" where
  "REFUND_SCRIPT rnd fmt refund cap refill now key = (case key of
       None \<Rightarrow> None
     | Some h \<Rightarrow>
         (let tokens = refilled rnd cap refill (rh_tokens h) (rh_ts h) now;
              tokens' = min cap (rnd (tokens + refund))
          in Some (h\<lparr>rh_tokens := fmt tokens', rh_ts := fmt now\<rparr>)))"

record LuaResult =
  lr_allowed :: bool
  lr_tokens_remaining :: rat
  lr_retry_after_seconds :: pyfloat

definition decode_lua_result :: "reply \<Rightarrow> rat \<Rightarrow> rl_error + LuaResult" where
  "decode_lua_result raw cap = (case raw of
       Some [a, t, h] \<Rightarrow> (case (as_int a, as_float t, as_float h) of
           (Some v, Some tok, Some hint) \<Rightarrow>
             if v \<noteq> 0 \<and> v \<noteq> 1 then Inl RateLimitStoreCorrupt
             else (case tok of
                 Fin x \<Rightarrow>
                   if \<not> (0 \<le> x \<and> x \<le> cap) then Inl RateLimitStoreCorrupt
                   else if (case hint of Fin s \<Rightarrow> s < 0 | NInf \<Rightarrow> True | _ \<Rightarrow> False)
                   then Inl RateLimitStoreCorrupt
                   else Inr \<lparr>lr_allowed = (v = 1), lr_tokens_remaining = x, lr_retry_after_seconds = hint\<rparr>
               | _ \<Rightarrow> Inl RateLimitStoreCorrupt)
         | _ \<Rightarrow> Inl RateLimitStoreCorrupt)
     | _ \<Rightarrow> Inl RateLimitStoreCorrupt)"

text \<open>The three-element reply of the script: an integer and two decimal strings.\<close>

definition float_elem :: "pyfloat \<Rightarrow> reply_elem" where
  "float_elem x = \<lparr>as_int = None, as_float = Some x\<rparr>"

definition script_reply :: "int \<times> rat \<times> pyfloat \<Rightarrow> reply" where
  "script_reply r = (case r of (a, t, h) \<Rightarrow> Some [int_elem a, num_elem t, float_elem h])"

definition redis_decision ::
    "(rat \<Rightarrow> rat) \<Rightarrow> TokenBucket \<Rightarrow> LuaResult \<Rightarrow> RateLimitDecision" where
  "redis_decision rnd b lua =
     decision (tb_name b) Redis (lr_allowed lua) (lr_tokens_remaining lua)
       (if lr_allowed lua then Some 0
        else if tb_refill b = 0 then None
        else Some (retry_after rnd (lr_retry_after_seconds lua)))"

definition acquire_redis ::
    "(rat \<Rightarrow> rat) \<Rightarrow> (rat \<Rightarrow> rat) \<Rightarrow> TokenBucket \<Rightarrow> rat \<Rightarrow> rat \<Rightarrow> redis_hash option
     \<Rightarrow> (rl_error + RateLimitDecision) \<times> redis_hash option" where
  "acquire_redis rnd fmt b count now key =
     (let (raw, key') = TOKEN_BUCKET_SCRIPT rnd fmt (tb_capacity b) (tb_refill b) count
                          (compute_ttl_seconds rnd b) now key
      in (bindE (decode_lua_result (script_reply raw) (tb_capacity b))
            (\<lambda>lua. Inr (redis_decision rnd b lua)), key'))"

definition refund_redis ::
    "(rat \<Rightarrow> rat) \<Rightarrow> (rat \<Rightarrow> rat) \<Rightarrow> TokenBucket \<Rightarrow> rat \<Rightarrow> rat \<Rightarrow> redis_hash option \<Rightarrow> redis_hash option" where
  "refund_redis rnd fmt b count now key =
     REFUND_SCRIPT rnd fmt count (tb_capacity b) (tb_refill b) now key"

text \<open>
  The two fields a peek reads, as \<open>float()\<close> finds them: absent, a number, or
  no number at all.
\<close>

definition peek_redis ::
    "(rat \<Rightarrow> rat) \<Rightarrow> TokenBucket \<Rightarrow> rat \<Rightarrow> pyfloat option option \<Rightarrow> pyfloat option option
     \<Rightarrow> rl_error + RateLimitState" where
  "peek_redis rnd b now tokens_raw ts_raw =
     (case (tokens_raw, ts_raw) of
        (Some None, _) \<Rightarrow> Inl RateLimitStoreCorrupt
      | (_, Some None) \<Rightarrow> Inl RateLimitStoreCorrupt
      | _ \<Rightarrow>
        (let tok = (case tokens_raw of Some (Some x) \<Rightarrow> x | _ \<Rightarrow> Fin (tb_capacity b));
             ts = (case ts_raw of Some (Some x) \<Rightarrow> x | _ \<Rightarrow> Fin now)
         in case tok of
              Fin x \<Rightarrow>
                if \<not> (0 \<le> x \<and> x \<le> tb_capacity b) then Inl RateLimitStoreCorrupt
                else Inr (tb_state rnd (tb_name b) Redis (tb_refill b)
                       (case ts of
                          Fin t \<Rightarrow> refilled rnd (tb_capacity b) (tb_refill b) x t now
                        | NInf \<Rightarrow> tb_capacity b
                        | _ \<Rightarrow> refilled rnd (tb_capacity b) (tb_refill b) x now now))
            | _ \<Rightarrow> Inl RateLimitStoreCorrupt))"

definition reset_redis :: "redis_hash option \<Rightarrow> redis_hash option" where
  "reset_redis key = None"

section \<open>PostgreSQL\<close>

definition state_payload :: "TokenBucket \<Rightarrow> rat \<Rightarrow> rat \<Rightarrow> jobj" where
  "state_payload b tokens now =
     jsonb_build_object [(''tokens'', JNum tokens), (''ts'', JNum now),
       (''capacity'', JNum (tb_capacity b)), (''refill'', JNum (tb_refill b))]"

text \<open>
  The conflict arm's refill: \<open>$2\<close> is the capacity, \<open>$3\<close> the refill rate, and
  \<open>now_s\<close> the epoch of \<open>statement_timestamp()\<close> as a float.
\<close>

definition pg_refilled ::
    "(rat \<Rightarrow> rat) \<Rightarrow> (string \<Rightarrow> rat option) \<Rightarrow> TokenBucket \<Rightarrow> rat \<Rightarrow> jobj \<Rightarrow> rl_error + rat" where
  "pg_refilled rnd txt b now_s doc =
     bindE (json_float8 rnd txt (doc ''tokens'')) (\<lambda>tok.
     bindE (json_float8 rnd txt (doc ''ts'')) (\<lambda>ts.
       Inr (min (tb_capacity b)
              (rnd ((case tok of Some x \<Rightarrow> x | None \<Rightarrow> tb_capacity b)
                    + rnd (max (rnd (now_s - (case ts of Some t \<Rightarrow> t | None \<Rightarrow> now_s))) 0 * tb_refill b))))))"

definition granted_payload :: "(rat \<Rightarrow> rat) \<Rightarrow> TokenBucket \<Rightarrow> rat \<Rightarrow> rat \<Rightarrow> rat \<Rightarrow> jobj" where
  "granted_payload rnd b tokens count now_s =
     jsonb_build_object
       [(''tokens'', JNum (if tokens \<ge> count then rnd (tokens - count) else tokens)),
        (''ts'', JNum now_s), (''capacity'', JNum (tb_capacity b)), (''refill'', JNum (tb_refill b)),
        (''granted'', JBool (tokens \<ge> count))]"

definition fused_acquire ::
    "(rat \<Rightarrow> rat) \<Rightarrow> (string \<Rightarrow> rat option) \<Rightarrow> clock \<Rightarrow> TokenBucket \<Rightarrow> rat \<Rightarrow> rat \<Rightarrow> bucket_row list
     \<Rightarrow> rl_error + bucket_row \<times> bucket_row list" where
  "fused_acquire rnd txt clk b count now_s rows =
     (case row_by k_name (tb_name b) rows of
        None \<Rightarrow>
          (let r = \<lparr>k_name = tb_name b, k_kind = ''token_bucket'',
                    k_state = granted_payload rnd b (tb_capacity b) count now_s,
                    k_updated_at = clk 0, k_keyed = tb_keyed b, k_last_used_at = clk 1\<rparr>
           in Inr (r, rows @ [r]))
      | Some q \<Rightarrow>
          bindE (pg_refilled rnd txt b now_s (k_state q)) (\<lambda>tokens.
            let r = q\<lparr>k_state := granted_payload rnd b tokens count now_s,
                      k_updated_at := clk 2, k_last_used_at := clk 3, k_keyed := tb_keyed b\<rparr>
            in Inr (r, upd_where (\<lambda>x. k_name x = tb_name b) (\<lambda>_. r) rows)))"

definition pg_decision ::
    "(rat \<Rightarrow> rat) \<Rightarrow> TokenBucket \<Rightarrow> rat \<Rightarrow> bool \<Rightarrow> rat \<Rightarrow> RateLimitDecision" where
  "pg_decision rnd b count granted tokens_after =
     decision (tb_name b) Postgres granted tokens_after
       (if granted then Some 0
        else if tb_refill b = 0 then None
        else Some (retry_after rnd (fl rnd (rnd (count - tokens_after) / tb_refill b))))"

text \<open>
  The acquire: the row lock is waited for only under a positive budget, and a
  wait that runs out is a denial.  RETURNING reads the document back, the
  tokens as a float and the flag as a bool.
\<close>

definition acquire_pg ::
    "(rat \<Rightarrow> rat) \<Rightarrow> (string \<Rightarrow> rat option) \<Rightarrow> limiter_env \<Rightarrow> TokenBucket \<Rightarrow> rat \<Rightarrow> bucket_row list
     \<Rightarrow> (rl_error + RateLimitDecision) \<times> bucket_row list" where
  "acquire_pg rnd txt env b count rows = guarded (require_pg env) (\<lambda>rows.
     (let budget = resolve_token_bucket_lock_timeout_ms None (le_settings env)
                     DEFAULT_TOKEN_BUCKET_LOCK_TIMEOUT_MS
      in if budget > 0 \<and> \<not> le_lock_free env then
           (Inr (decision (tb_name b) Postgres False 0 (Some (timedelta_ms rnd budget))), rows)
         else case fused_acquire rnd txt (le_clk env) b count (le_pg_now env) rows of
           Inl e \<Rightarrow> (Inl e, rows)
         | Inr (r, rows') \<Rightarrow>
             (case (json_float8 rnd txt (k_state r ''tokens''), k_state r ''granted'') of
                (Inr (Some tok), Some (JBool g)) \<Rightarrow> (Inr (pg_decision rnd b count g tok), rows')
              | _ \<Rightarrow> (Inl RlCastError, rows)))) rows"

definition refund_pg ::
    "(rat \<Rightarrow> rat) \<Rightarrow> (string \<Rightarrow> rat option) \<Rightarrow> limiter_env \<Rightarrow> TokenBucket \<Rightarrow> rat \<Rightarrow> bucket_row list
     \<Rightarrow> (rl_error + unit) \<times> bucket_row list" where
  "refund_pg rnd txt env b count rows = guarded (require_pg env) (\<lambda>rows.
     (let budget = resolve_token_bucket_lock_timeout_ms None (le_settings env)
                     DEFAULT_TOKEN_BUCKET_LOCK_TIMEOUT_MS;
          now = le_pg_now env
      in if budget > 0 \<and> \<not> le_lock_free env then (Inl RlLockNotAvailable, rows)
         else case row_by k_name (tb_name b) rows of
           None \<Rightarrow> (Inr (), rows)
         | Some q \<Rightarrow>
             (case (py_float rnd txt (tb_capacity b) (k_state q ''tokens''),
                    py_float rnd txt now (k_state q ''ts'')) of
                (Inr tokens, Inr ts) \<Rightarrow>
                  if \<not> (0 \<le> tokens \<and> tokens \<le> tb_capacity b) then (Inl RateLimitStoreCorrupt, rows)
                  else
                    (let t1 = refilled rnd (tb_capacity b) (tb_refill b) tokens ts now;
                         t2 = min (tb_capacity b) (rnd (t1 + count))
                     in (Inr (), upd_where (\<lambda>x. k_name x = tb_name b)
                           (\<lambda>x. x\<lparr>k_state := state_payload b t2 now, k_updated_at := le_clk env 0,
                                  k_last_used_at := le_clk env 1\<rparr>) rows))
              | _ \<Rightarrow> (Inl RateLimitStoreCorrupt, rows)))) rows"

definition peek_pg ::
    "(rat \<Rightarrow> rat) \<Rightarrow> (string \<Rightarrow> rat option) \<Rightarrow> limiter_env \<Rightarrow> TokenBucket \<Rightarrow> bucket_row list
     \<Rightarrow> rl_error + RateLimitState" where
  "peek_pg rnd txt env b rows = bindE (require_pg env) (\<lambda>_.
     case row_by k_name (tb_name b) rows of
       None \<Rightarrow> Inr (tb_state rnd (tb_name b) Postgres (tb_refill b) (tb_capacity b))
     | Some q \<Rightarrow>
         bindE (py_float rnd txt (tb_capacity b) (k_state q ''tokens'')) (\<lambda>tokens.
           if \<not> (0 \<le> tokens \<and> tokens \<le> tb_capacity b) then Inl RateLimitStoreCorrupt
           else Inr (tb_state rnd (tb_name b) Postgres (tb_refill b) tokens)))"

definition reset_pg :: "TokenBucket \<Rightarrow> bucket_row list \<Rightarrow> bucket_row list" where
  "reset_pg b rows = filter (\<lambda>r. k_name r \<noteq> tb_name b) rows"

section \<open>The limiter over its stores\<close>

record tb_stores =
  ts_mem :: "mem_bucket option"
  ts_hash :: "redis_hash option"
  ts_rows :: "bucket_row list"

definition on_hash ::
    "(redis_hash option \<Rightarrow> 'r \<times> redis_hash option) \<Rightarrow> tb_stores \<Rightarrow> 'r \<times> tb_stores" where
  "on_hash f w = (let (r, h) = f (ts_hash w) in (r, w\<lparr>ts_hash := h\<rparr>))"

definition on_rows ::
    "(bucket_row list \<Rightarrow> 'r \<times> bucket_row list) \<Rightarrow> tb_stores \<Rightarrow> 'r \<times> tb_stores" where
  "on_rows f w = (let (r, rows) = f (ts_rows w) in (r, w\<lparr>ts_rows := rows\<rparr>))"

definition acquire_memory ::
    "(rat \<Rightarrow> rat) \<Rightarrow> limiter_env \<Rightarrow> TokenBucket \<Rightarrow> rat \<Rightarrow> tb_stores \<Rightarrow> (rl_error + RateLimitDecision) \<times> tb_stores" where
  "acquire_memory rnd env b count w = (case (le_clock env, ts_mem w) of
       (Some now, Some m) \<Rightarrow>
         (let (d, m') = mem_acquire rnd (tb_name b) (tb_capacity b) (tb_refill b) count now m
          in (Inr d, w\<lparr>ts_mem := Some m'\<rparr>))
     | _ \<Rightarrow> (Inl RlRuntimeError, w))"

definition acquire_redis_wrapped ::
    "(rat \<Rightarrow> rat) \<Rightarrow> (rat \<Rightarrow> rat) \<Rightarrow> (string \<Rightarrow> rat option) \<Rightarrow> limiter_env \<Rightarrow> TokenBucket \<Rightarrow> rat \<Rightarrow> tb_stores
     \<Rightarrow> (rl_error + RateLimitDecision) \<times> tb_stores" where
  "acquire_redis_wrapped rnd fmt txt env b count w =
     (let ((r, (_, w')), _) =
        with_pg_fallback
          (redis_attempt env (\<lambda>now. on_hash (acquire_redis rnd fmt b count now)))
          (\<lambda>(i, x). let (r, y) = on_rows (acquire_pg rnd txt env b count) x in (r, (i, y)))
          (le_settings env) (le_cancelled env) (0, w)
      in (r, w'))"

definition tb_acquire ::
    "(rat \<Rightarrow> rat) \<Rightarrow> (rat \<Rightarrow> rat) \<Rightarrow> (string \<Rightarrow> rat option) \<Rightarrow> limiter_env \<Rightarrow> TokenBucket \<Rightarrow> rat \<Rightarrow> tb_stores
     \<Rightarrow> (rl_error + RateLimitDecision) \<times> tb_stores" where
  "tb_acquire rnd fmt txt env b count w = (case tb_backend b of
       Memory \<Rightarrow> acquire_memory rnd env b count w
     | Redis \<Rightarrow> acquire_redis_wrapped rnd fmt txt env b count w
     | Postgres \<Rightarrow> on_rows (acquire_pg rnd txt env b count) w)"

text \<open>The refund goes to the store the decision names, not to the configured one.\<close>

definition tb_refund ::
    "(rat \<Rightarrow> rat) \<Rightarrow> (rat \<Rightarrow> rat) \<Rightarrow> (string \<Rightarrow> rat option) \<Rightarrow> limiter_env \<Rightarrow> TokenBucket \<Rightarrow> RateLimitDecision
     \<Rightarrow> rat \<Rightarrow> tb_stores \<Rightarrow> (rl_error + unit) \<times> tb_stores" where
  "tb_refund rnd fmt txt env b d count w = (case rd_backend d of
       Memory \<Rightarrow> (case ts_mem w of
           None \<Rightarrow> (Inl RlRuntimeError, w)
         | Some m \<Rightarrow> (Inr (), w\<lparr>ts_mem := Some (mem_refund rnd (tb_capacity b) count m)\<rparr>))
     | Redis \<Rightarrow> guarded (require_redis env)
         (on_hash (\<lambda>h. (Inr (), refund_redis rnd fmt b count (le_redis_now env 0) h))) w
     | Postgres \<Rightarrow> on_rows (refund_pg rnd txt env b count) w)"

definition tb_reset :: "limiter_env \<Rightarrow> TokenBucket \<Rightarrow> tb_stores \<Rightarrow> (rl_error + unit) \<times> tb_stores" where
  "tb_reset env b w = (case tb_backend b of
       Memory \<Rightarrow> (case (le_clock env, ts_mem w) of
           (Some now, Some m) \<Rightarrow> (Inr (), w\<lparr>ts_mem := Some (mem_reset (tb_capacity b) now m)\<rparr>)
         | _ \<Rightarrow> (Inl RlRuntimeError, w))
     | Redis \<Rightarrow> guarded (require_redis env) (on_hash (\<lambda>h. (Inr (), reset_redis h))) w
     | Postgres \<Rightarrow> guarded (require_pg env) (on_rows (\<lambda>rows. (Inr (), reset_pg b rows))) w)"

section \<open>The balance stays within the capacity\<close>

lemma refilled_le_cap: "refilled rnd cap refill tokens ts now \<le> cap"
  by (simp add: refilled_def Let_def)

context float_arith
begin

lemma refilled_nonneg:
  assumes "0 \<le> cap" "0 \<le> refill" "0 \<le> tokens"
  shows "0 \<le> refilled rnd cap refill tokens ts now"
  using assms by (simp add: refilled_def Let_def rnd_nonneg)

lemma refilled_ge:
  assumes "0 \<le> refill" "tokens \<le> cap" "rnd tokens = tokens"
  shows "tokens \<le> refilled rnd cap refill tokens ts now"
  using assms by (simp add: refilled_def Let_def rnd_nonneg rnd_ge_float)

lemma refilled_same:
  assumes "tokens \<le> cap" "rnd tokens = tokens"
  shows "refilled rnd cap refill tokens now now = tokens"
  using assms by (simp add: refilled_def Let_def rnd_0)

lemma refilled_float:
  assumes "rnd cap = cap" shows "rnd (refilled rnd cap refill tokens ts now) = refilled rnd cap refill tokens ts now"
  using assms by (simp add: refilled_def Let_def rnd_min rnd_idem)

lemma spend_bounds:
  assumes "0 \<le> count" "count \<le> tokens" "tokens \<le> cap" "rnd tokens = tokens"
  shows "0 \<le> rnd (tokens - count) \<and> rnd (tokens - count) \<le> cap"
  using assms rnd_nonneg[of "tokens - count"] rnd_le_float[of "tokens - count" tokens] by simp

end

definition mem_ok :: "(rat \<Rightarrow> rat) \<Rightarrow> rat \<Rightarrow> mem_bucket \<Rightarrow> bool" where
  "mem_ok rnd cap st \<longleftrightarrow> 0 \<le> mb_tokens st \<and> mb_tokens st \<le> cap \<and> rnd (mb_tokens st) = mb_tokens st"

context float_arith
begin

lemma mem_ok_new: "0 \<le> cap \<Longrightarrow> rnd cap = cap \<Longrightarrow> mem_ok rnd cap (new_mem_bucket cap)"
  by (simp add: mem_ok_def new_mem_bucket_def)

lemma mem_ok_acquire:
  assumes "mem_ok rnd cap st" "0 \<le> refill" "0 \<le> count" "rnd cap = cap"
  shows "mem_ok rnd cap (snd (mem_acquire rnd name cap refill count now st))"
proof -
  let ?R = "refilled rnd cap refill (mb_tokens st) (case mb_ts st of None \<Rightarrow> now | Some t \<Rightarrow> t) now"
  have cap: "0 \<le> cap" using assms(1) by (simp add: mem_ok_def)
  have R: "0 \<le> ?R" "?R \<le> cap" "rnd ?R = ?R"
    using refilled_nonneg[OF cap assms(2), of "mb_tokens st"] assms(1)
    by (simp_all add: mem_ok_def refilled_le_cap refilled_float[OF assms(4)])
  show ?thesis
    using R spend_bounds[OF assms(3) _ R(2,3)]
    by (simp add: mem_ok_def mem_acquire_def Let_def rnd_idem)
qed

lemma mem_ok_refund:
  assumes "mem_ok rnd cap st" "0 \<le> count" "rnd cap = cap"
  shows "mem_ok rnd cap (mem_refund rnd cap count st)"
  using assms by (simp add: mem_ok_def mem_refund_def rnd_nonneg rnd_min rnd_idem)

end

section \<open>How much a bucket grants\<close>

datatype tb_op = Acquire rat rat | Refund rat

fun op_time :: "tb_op \<Rightarrow> rat option" where
  "op_time (Acquire c now) = Some now"
| "op_time (Refund c) = None"

text \<open>One operation: the tokens it granted, the tokens it gave back and the bucket after it.\<close>

fun mem_step :: "(rat \<Rightarrow> rat) \<Rightarrow> rat \<Rightarrow> rat \<Rightarrow> tb_op \<Rightarrow> mem_bucket \<Rightarrow> rat \<times> rat \<times> mem_bucket" where
  "mem_step rnd cap refill (Acquire c now) st =
     (let (d, st') = mem_acquire rnd [] cap refill c now st in (if rd_allowed d then c else 0, 0, st'))"
| "mem_step rnd cap refill (Refund c) st = (0, c, mem_refund rnd cap c st)"

fun mem_run :: "(rat \<Rightarrow> rat) \<Rightarrow> rat \<Rightarrow> rat \<Rightarrow> tb_op list \<Rightarrow> mem_bucket \<Rightarrow> rat \<times> rat \<times> mem_bucket" where
  "mem_run rnd cap refill [] st = (0, 0, st)"
| "mem_run rnd cap refill (op # ops) st =
     (let (g, b, st1) = mem_step rnd cap refill op st;
          (gs, bs, st2) = mem_run rnd cap refill ops st1
      in (g + gs, b + bs, st2))"

definition granted :: "rat \<times> rat \<times> mem_bucket \<Rightarrow> rat" where
  "granted r = fst r"

definition refunded :: "rat \<times> rat \<times> mem_bucket \<Rightarrow> rat" where
  "refunded r = fst (snd r)"

fun op_ok :: "tb_op \<Rightarrow> bool" where
  "op_ok (Acquire c now) = (0 \<le> c)"
| "op_ok (Refund c) = (0 \<le> c)"

text \<open>The rounding of one operation moves the balance by at most this much.\<close>

definition op_slack :: "rat \<Rightarrow> rat \<Rightarrow> rat \<Rightarrow> rat \<Rightarrow> rat" where
  "op_slack u eta cap refill = 2 * u * cap + eta * (4 * refill + 4)"

context float_err
begin

lemma refilled_up:
  assumes "0 \<le> refill" "0 \<le> tokens"
  shows "refilled rnd cap refill tokens ts now
       \<le> tokens + u * tokens + (1 + u) ^ 3 * refill * max 0 (now - ts) + eta * (4 * refill + 3)"
proof -
  define D where "D = max 0 (now - ts)"
  define d where "d = max 0 (rnd (now - ts))"
  define p where "p = rnd (d * refill)"
  have D0: "0 \<le> D" by (simp add: D_def)
  have d0: "0 \<le> d" by (simp add: d_def)
  have "d \<le> rnd D"
    unfolding d_def D_def using rnd_mono[of "now - ts" "max 0 (now - ts)"] rnd_mono[of 0 "max 0 (now - ts)"]
    by (simp add: rnd_0)
  then have d: "d \<le> (1 + u) * D + eta" using rnd_up[OF D0] by (simp add: algebra_simps)
  have p0: "0 \<le> p" using d0 assms by (simp add: p_def rnd_nonneg)
  have "p \<le> (1 + u) * (d * refill) + eta"
    using rnd_up[of "d * refill"] d0 assms by (simp add: p_def algebra_simps)
  also have "\<dots> \<le> (1 + u) * (((1 + u) * D + eta) * refill) + eta"
    using d assms u_range by (intro add_right_mono mult_left_mono mult_right_mono) simp_all
  finally have p: "p \<le> (1 + u) * (((1 + u) * D + eta) * refill) + eta" .
  have "rnd (tokens + p) \<le> (1 + u) * (tokens + p) + eta"
    using rnd_up[of "tokens + p"] p0 assms by (simp add: algebra_simps)
  also have "\<dots> \<le> (1 + u) * (tokens + ((1 + u) * (((1 + u) * D + eta) * refill) + eta)) + eta"
    using p u_range by (intro add_right_mono mult_left_mono add_left_mono) simp_all
  also have "\<dots> = tokens + u * tokens + (1 + u) ^ 3 * refill * D + eta * ((1 + u) ^ 2 * refill + (1 + u) + 1)"
    by (simp add: algebra_simps power2_eq_square power3_eq_cube)
  also have "\<dots> \<le> tokens + u * tokens + (1 + u) ^ 3 * refill * D + eta * (4 * refill + 3)"
  proof -
    have "(1 + u) ^ 2 \<le> 4" using u_range power_mono[of "1 + u" 2 2] by simp
    then have "(1 + u) ^ 2 * refill + (1 + u) + 1 \<le> 4 * refill + 3"
      using assms u_range mult_right_mono[of "(1 + u) ^ 2" 4 refill] by simp
    then show ?thesis using eta_nonneg by (intro add_left_mono mult_left_mono)
  qed
  finally show ?thesis
    unfolding refilled_def Let_def d_def[symmetric] p_def[symmetric] D_def by simp
qed

lemma step_balance:
  assumes ok: "mem_ok rnd cap st" and r: "0 \<le> refill" and op: "op_ok op"
    and step: "mem_step rnd cap refill op st = (g, b, st')"
  shows "mb_tokens st' + g
       \<le> mb_tokens st + b
         + (1 + u) ^ 3 * refill * (case (mb_ts st, op_time op) of (Some t, Some n) \<Rightarrow> max 0 (n - t) | _ \<Rightarrow> 0)
         + op_slack u eta cap refill"
proof (cases op)
  case (Acquire c now)
  define ts where "ts = (case mb_ts st of None \<Rightarrow> now | Some t \<Rightarrow> t)"
  define R where "R = refilled rnd cap refill (mb_tokens st) ts now"
  have T: "0 \<le> mb_tokens st" "mb_tokens st \<le> cap" using ok by (simp_all add: mem_ok_def)
  have "u * mb_tokens st \<le> u * cap" using T u_range by (intro mult_left_mono)
  then have R: "R \<le> mb_tokens st + u * cap + (1 + u) ^ 3 * refill * max 0 (now - ts) + eta * (4 * refill + 3)"
    using refilled_up[OF r T(1), of cap ts now] by (simp add: R_def)
  have D: "(case (mb_ts st, op_time op) of (Some t, Some n) \<Rightarrow> max 0 (n - t) | _ \<Rightarrow> 0) = max 0 (now - ts)"
    by (simp add: Acquire ts_def split: option.splits)
  have s: "0 \<le> op_slack u eta cap refill - u * cap - eta * (4 * refill + 3) - u * cap - eta"
    by (simp add: op_slack_def algebra_simps)
  have uc: "0 \<le> u * cap" "0 \<le> eta" using T u_range eta_nonneg by simp_all
  show ?thesis
  proof (cases "c \<le> R")
    case True
    have "0 \<le> R - c" "R - c \<le> cap"
      using True op refilled_le_cap[of rnd cap refill "mb_tokens st" ts now] by (simp_all add: Acquire R_def)
    moreover have "u * (R - c) \<le> u * cap" using calculation u_range by (intro mult_left_mono)
    ultimately have "rnd (R - c) \<le> R - c + u * cap + eta" using rnd_up[of "R - c"] by simp
    moreover have "g = c" "b = 0" "mb_tokens st' = rnd (R - c)"
      using step True by (auto simp: Acquire mem_acquire_def Let_def R_def ts_def)
    ultimately show ?thesis unfolding D using R s by linarith
  next
    case False
    then have "g = 0" "b = 0" "mb_tokens st' = R"
      using step by (auto simp: Acquire mem_acquire_def Let_def R_def ts_def split: if_splits)
    then show ?thesis unfolding D using R s uc by linarith
  qed
next
  case (Refund c)
  have T: "0 \<le> mb_tokens st" "mb_tokens st \<le> cap" using ok by (simp_all add: mem_ok_def)
  have c: "0 \<le> c" using op by (simp add: Refund)
  have st: "g = 0" "b = c" "mb_tokens st' = min cap (rnd (mb_tokens st + c))"
    using step by (auto simp: Refund mem_refund_def)
  have e: "0 \<le> eta * (4 * refill + 3)" "0 \<le> u * cap" using r eta_nonneg T u_range by simp_all
  have "min cap (rnd (mb_tokens st + c)) \<le> mb_tokens st + c + u * cap + eta"
  proof (cases "mb_tokens st + c \<le> cap")
    case True
    have "u * (mb_tokens st + c) \<le> u * cap" using True u_range by (intro mult_left_mono)
    then show ?thesis using rnd_up[of "mb_tokens st + c"] T c by linarith
  next
    case False
    then show ?thesis using e eta_nonneg by linarith
  qed
  then show ?thesis using e unfolding st by (simp add: Refund op_slack_def algebra_simps split: option.splits)
qed

end

text \<open>How far the clock climbs over the readings of a run, steps back not counted.\<close>

fun climb :: "rat \<Rightarrow> tb_op list \<Rightarrow> rat" where
  "climb t [] = 0"
| "climb t (Acquire c now # ops) = max 0 (now - t) + climb now ops"
| "climb t (Refund c # ops) = climb t ops"

fun last_time :: "rat \<Rightarrow> tb_op list \<Rightarrow> rat" where
  "last_time t [] = t"
| "last_time t (Acquire c now # ops) = last_time now ops"
| "last_time t (Refund c # ops) = last_time t ops"

fun clock_monotone :: "rat \<Rightarrow> tb_op list \<Rightarrow> bool" where
  "clock_monotone t [] = True"
| "clock_monotone t (Acquire c now # ops) = (t \<le> now \<and> clock_monotone now ops)"
| "clock_monotone t (Refund c # ops) = clock_monotone t ops"

lemma climb_monotone: "clock_monotone t ops \<Longrightarrow> climb t ops = last_time t ops - t"
  by (induction t ops rule: climb.induct) auto

lemma mem_step_ts:
  "mem_step rnd cap refill (Acquire c now) st = (g, b, st') \<Longrightarrow> mb_ts st' = Some now"
  "mem_step rnd cap refill (Refund c) st = (g, b, st') \<Longrightarrow> mb_ts st' = mb_ts st"
  by (auto simp: mem_acquire_def mem_refund_def Let_def split: if_splits)

context float_arith
begin

lemma mem_ok_step:
  assumes "mem_ok rnd cap st" "0 \<le> refill" "rnd cap = cap" "op_ok op"
    and "mem_step rnd cap refill op st = (g, b, st')"
  shows "mem_ok rnd cap st'"
proof (cases op)
  case (Acquire c now)
  then show ?thesis
    using assms mem_ok_acquire[OF assms(1,2) _ assms(3), of c "[]" now] by (auto simp: split_beta Let_def)
next
  case (Refund c)
  then show ?thesis using assms mem_ok_refund[OF assms(1) _ assms(3), of c] by auto
qed

end

context float_err
begin

lemma run_balance:
  assumes "mem_ok rnd cap st" "0 \<le> refill" "rnd cap = cap" "list_all op_ok ops" "mb_ts st = Some t"
  shows "mb_tokens (snd (snd (mem_run rnd cap refill ops st))) + granted (mem_run rnd cap refill ops st)
       \<le> mb_tokens st + refunded (mem_run rnd cap refill ops st)
         + (1 + u) ^ 3 * refill * climb t ops + of_nat (length ops) * op_slack u eta cap refill"
  using assms(1,4,5)
proof (induction ops arbitrary: st t)
  case Nil
  then show ?case by (simp add: granted_def refunded_def)
next
  case (Cons op ops)
  obtain g b st1 where s: "mem_step rnd cap refill op st = (g, b, st1)" by (cases "mem_step rnd cap refill op st")
  let ?r = "mem_run rnd cap refill ops st1"
  have ok1: "mem_ok rnd cap st1" by (rule mem_ok_step[OF Cons.prems(1) assms(2,3) _ s]) (use Cons.prems in simp)
  define t1 where "t1 = (case op of Acquire c now \<Rightarrow> now | Refund c \<Rightarrow> t)"
  have t1: "mb_ts st1 = Some t1"
    using s mem_step_ts Cons.prems(3) by (cases op) (auto simp: t1_def simp del: mem_step.simps)
  have cl: "climb t (op # ops) = (case (mb_ts st, op_time op) of (Some t, Some n) \<Rightarrow> max 0 (n - t) | _ \<Rightarrow> 0) + climb t1 ops"
    using Cons.prems(3) by (cases op) (simp_all add: t1_def)
  have now: "mb_tokens st1 + g \<le> mb_tokens st + b
         + (1 + u) ^ 3 * refill * (case (mb_ts st, op_time op) of (Some t, Some n) \<Rightarrow> max 0 (n - t) | _ \<Rightarrow> 0)
         + op_slack u eta cap refill"
    by (rule step_balance[OF Cons.prems(1) assms(2) _ s]) (use Cons.prems in simp)
  have rest: "mb_tokens (snd (snd ?r)) + granted ?r \<le> mb_tokens st1 + refunded ?r
         + (1 + u) ^ 3 * refill * climb t1 ops + of_nat (length ops) * op_slack u eta cap refill"
    by (rule Cons.IH[OF ok1 _ t1]) (use Cons.prems in simp)
  have "mem_run rnd cap refill (op # ops) st = (g + granted ?r, b + refunded ?r, snd (snd ?r))"
    by (simp add: s Let_def split_beta granted_def refunded_def)
  then show ?case
    using add_mono[OF now rest]
    unfolding cl by (simp add: granted_def refunded_def algebra_simps)
qed

lemma run_ok:
  assumes "mem_ok rnd cap st" "0 \<le> refill" "rnd cap = cap" "list_all op_ok ops"
  shows "mem_ok rnd cap (snd (snd (mem_run rnd cap refill ops st)))"
  using assms(1,4)
proof (induction ops arbitrary: st)
  case (Cons op ops)
  obtain g b st1 where s: "mem_step rnd cap refill op st = (g, b, st1)" by (cases "mem_step rnd cap refill op st")
  show ?case
    using Cons.IH[of st1] Cons.prems mem_ok_step[OF Cons.prems(1) assms(2,3) _ s] by (simp add: s Let_def split_beta)
qed simp

lemma admission_bound:
  assumes "mem_ok rnd cap st" "0 \<le> refill" "rnd cap = cap" "list_all op_ok ops" "mb_ts st = Some t"
    and "clock_monotone t ops"
  shows "granted (mem_run rnd cap refill ops st) - refunded (mem_run rnd cap refill ops st)
       \<le> cap + (1 + u) ^ 3 * refill * (last_time t ops - t) + of_nat (length ops) * op_slack u eta cap refill"
  using run_balance[OF assms(1-5)] run_ok[OF assms(1-4)] assms(1)
  unfolding climb_monotone[OF assms(6)] by (simp add: mem_ok_def)

end

section \<open>The stores agree\<close>

text \<open>The row, respectively the hash, that holds what a memory bucket holds.\<close>

definition doc_view :: "(rat \<Rightarrow> rat) \<Rightarrow> jobj \<Rightarrow> mem_bucket \<Rightarrow> bool" where
  "doc_view rnd doc st \<longleftrightarrow>
     (case mb_ts st of
        None \<Rightarrow> False
      | Some t \<Rightarrow> doc ''tokens'' = Some (JNum (mb_tokens st)) \<and> doc ''ts'' = Some (JNum t) \<and> rnd t = t)"

definition pg_view :: "(rat \<Rightarrow> rat) \<Rightarrow> TokenBucket \<Rightarrow> bucket_row list \<Rightarrow> mem_bucket \<Rightarrow> bool" where
  "pg_view rnd b rows st \<longleftrightarrow>
     (case row_by k_name (tb_name b) rows of
        None \<Rightarrow> st = new_mem_bucket (tb_capacity b)
      | Some q \<Rightarrow> doc_view rnd (k_state q) st)"

definition redis_view :: "TokenBucket \<Rightarrow> redis_hash option \<Rightarrow> mem_bucket \<Rightarrow> bool" where
  "redis_view b key st \<longleftrightarrow>
     (case key of
        None \<Rightarrow> st = new_mem_bucket (tb_capacity b)
      | Some h \<Rightarrow> mb_tokens st = rh_tokens h \<and> mb_ts st = Some (rh_ts h))"

text \<open>The bucket whose two numbers went through the script's \<open>tostring\<close>.\<close>

definition stored :: "(rat \<Rightarrow> rat) \<Rightarrow> mem_bucket \<Rightarrow> mem_bucket" where
  "stored fmt st = \<lparr>mb_tokens = fmt (mb_tokens st), mb_ts = map_option fmt (mb_ts st)\<rparr>"

definition valid_bucket :: "(rat \<Rightarrow> rat) \<Rightarrow> TokenBucket \<Rightarrow> bool" where
  "valid_bucket rnd b \<longleftrightarrow> 0 < tb_capacity b \<and> 0 \<le> tb_refill b \<and> rnd (tb_capacity b) = tb_capacity b"

abbreviation bucket_acquire ::
    "(rat \<Rightarrow> rat) \<Rightarrow> TokenBucket \<Rightarrow> rat \<Rightarrow> rat \<Rightarrow> mem_bucket \<Rightarrow> RateLimitDecision \<times> mem_bucket" where
  "bucket_acquire rnd b count now st \<equiv>
     mem_acquire rnd (tb_name b) (tb_capacity b) (tb_refill b) count now st"

lemma granted_payload_simps:
  "granted_payload rnd b tokens count now ''tokens''
     = Some (JNum (if count \<le> tokens then rnd (tokens - count) else tokens))"
  "granted_payload rnd b tokens count now ''ts'' = Some (JNum now)"
  "granted_payload rnd b tokens count now ''granted'' = Some (JBool (count \<le> tokens))"
  by (simp_all add: granted_payload_def jsonb_build_object_apply)

lemma row_by_upd_self:
  "row_by key k rows = Some q \<Longrightarrow> key r = k \<Longrightarrow> row_by key k (upd_where (\<lambda>x. key x = k) (\<lambda>_. r) rows) = Some r"
  using row_by_replace[of key k r rows] by simp

context float_arith
begin

lemma pg_refilled_view:
  assumes "doc_view rnd doc st" "mem_ok rnd (tb_capacity b) st"
  shows "pg_refilled rnd txt b now doc
       = Inr (refilled rnd (tb_capacity b) (tb_refill b) (mb_tokens st)
                (case mb_ts st of None \<Rightarrow> now | Some t \<Rightarrow> t) now)"
  using assms
  by (auto simp: doc_view_def mem_ok_def pg_refilled_def refilled_def Let_def max.commute split: option.splits)

text \<open>What the upsert writes, seen as a step of the memory bucket.\<close>

lemma fused_acquire_view:
  assumes v: "pg_view rnd b rows st" "mem_ok rnd (tb_capacity b) st" "valid_bucket rnd b"
    and now: "rnd now = now"
  shows "\<exists>r rows'. fused_acquire rnd txt clk b count now rows = Inr (r, rows')
     \<and> row_by k_name (tb_name b) rows' = Some r
     \<and> doc_view rnd (k_state r) (snd (bucket_acquire rnd b count now st))
     \<and> k_state r ''granted'' = Some (JBool (rd_allowed (fst (bucket_acquire rnd b count now st))))"
proof (cases "row_by k_name (tb_name b) rows")
  case None
  then have st: "st = new_mem_bucket (tb_capacity b)" using v(1) by (simp add: pg_view_def)
  have full: "refilled rnd (tb_capacity b) (tb_refill b) (tb_capacity b) now now = tb_capacity b"
    using v(3) by (intro refilled_same) (simp_all add: valid_bucket_def)
  show ?thesis
    unfolding fused_acquire_def None st
    by (auto simp: Let_def row_by_append None mem_acquire_def new_mem_bucket_def doc_view_def full
        granted_payload_simps now)
next
  case (Some q)
  let ?R = "refilled rnd (tb_capacity b) (tb_refill b) (mb_tokens st) (case mb_ts st of None \<Rightarrow> now | Some t \<Rightarrow> t) now"
  have R: "pg_refilled rnd txt b now (k_state q) = Inr ?R"
    using v Some by (intro pg_refilled_view) (simp_all add: pg_view_def)
  define r where "r = q\<lparr>k_state := granted_payload rnd b ?R count now,
      k_updated_at := clk 2, k_last_used_at := clk 3, k_keyed := tb_keyed b\<rparr>"
  have "k_name q = tb_name b" using Some by (rule row_by_key)
  then have "row_by k_name (tb_name b) (upd_where (\<lambda>x. k_name x = tb_name b) (\<lambda>_. r) rows) = Some r"
    using row_by_upd_self[OF Some, of r] by (simp add: r_def)
  moreover have "doc_view rnd (k_state r) (snd (bucket_acquire rnd b count now st))"
    "k_state r ''granted'' = Some (JBool (rd_allowed (fst (bucket_acquire rnd b count now st))))"
    by (auto simp: r_def doc_view_def granted_payload_simps mem_acquire_def Let_def now)
  moreover have "fused_acquire rnd txt clk b count now rows
      = Inr (r, upd_where (\<lambda>x. k_name x = tb_name b) (\<lambda>_. r) rows)"
    by (simp add: fused_acquire_def Some R Let_def r_def)
  ultimately show ?thesis by blast
qed

lemma mem_acquire_backend:
  "fst (bucket_acquire rnd b count now st)
   = pg_decision rnd b count (rd_allowed (fst (bucket_acquire rnd b count now st)))
       (mb_tokens (snd (bucket_acquire rnd b count now st))) \<lparr>rd_backend := Memory\<rparr>"
  by (simp add: mem_acquire_def pg_decision_def decision_def Let_def)

lemma acquire_pg_view:
  assumes "pg_view rnd b rows st" "mem_ok rnd (tb_capacity b) st" "valid_bucket rnd b" "0 \<le> count"
    and "require_pg env = Inr ()" "le_lock_free env" "rnd (le_pg_now env) = le_pg_now env"
  shows "\<exists>rows'. acquire_pg rnd txt env b count rows
       = (Inr (fst (bucket_acquire rnd b count (le_pg_now env) st)\<lparr>rd_backend := Postgres\<rparr>), rows')
     \<and> pg_view rnd b rows' (snd (bucket_acquire rnd b count (le_pg_now env) st))"
proof -
  let ?now = "le_pg_now env"
  let ?m = "bucket_acquire rnd b count ?now st"
  obtain r rows' where f: "fused_acquire rnd txt (le_clk env) b count ?now rows = Inr (r, rows')"
    "row_by k_name (tb_name b) rows' = Some r" "doc_view rnd (k_state r) (snd ?m)"
    "k_state r ''granted'' = Some (JBool (rd_allowed (fst ?m)))"
    using fused_acquire_view[OF assms(1-3,7)] by blast
  have ok: "mem_ok rnd (tb_capacity b) (snd ?m)"
    using assms by (intro mem_ok_acquire) (simp_all add: valid_bucket_def)
  have tok: "json_float8 rnd txt (k_state r ''tokens'') = Inr (Some (mb_tokens (snd ?m)))"
    using f(3) ok by (auto simp: doc_view_def mem_ok_def split: option.splits)
  have "pg_decision rnd b count (rd_allowed (fst ?m)) (mb_tokens (snd ?m)) = fst ?m\<lparr>rd_backend := Postgres\<rparr>"
    by (subst mem_acquire_backend) (simp add: pg_decision_def decision_def)
  then have "acquire_pg rnd txt env b count rows = (Inr (fst ?m\<lparr>rd_backend := Postgres\<rparr>), rows')"
    by (simp add: acquire_pg_def guarded_def assms(5,6) f(1,4) tok Let_def)
  then show ?thesis using f(2,3) by (auto simp: pg_view_def)
qed

text \<open>The script writes the memory bucket's next state through \<open>tostring\<close>.\<close>

lemma script_view:
  assumes "redis_view b key st" "valid_bucket rnd b"
  shows "\<exists>key'. TOKEN_BUCKET_SCRIPT rnd fmt (tb_capacity b) (tb_refill b) count ttl now key
       = ((if rd_allowed (fst (bucket_acquire rnd b count now st)) then 1 else 0,
           fmt (rd_remaining (fst (bucket_acquire rnd b count now st))),
           (if rd_allowed (fst (bucket_acquire rnd b count now st)) \<or> \<not> 0 < tb_refill b then Fin (fmt 0)
            else on_finite (\<lambda>x. Fin (fmt x))
              (fl rnd (rnd (count - rd_remaining (fst (bucket_acquire rnd b count now st))) / tb_refill b)))), key')
     \<and> redis_view b key' (stored fmt (snd (bucket_acquire rnd b count now st)))"
  using assms
  by (cases key) (auto simp: redis_view_def TOKEN_BUCKET_SCRIPT_def mem_acquire_def stored_def Let_def
      new_mem_bucket_def)

end

section \<open>What the script answers\<close>

lemma on_finite_nonneg:
  assumes "0 \<le> x" "\<And>y. 0 \<le> y \<Longrightarrow> 0 \<le> f y"
  shows "\<not> (case on_finite (\<lambda>z. Fin (f z)) (fl rnd64 x) of Fin s \<Rightarrow> s < 0 | NInf \<Rightarrow> True | _ \<Rightarrow> False)"
proof -
  have y: "0 \<le> rnd64 x" using assms(1) by (rule f64.rnd_nonneg)
  moreover have "(0::rat) < float_max" by (simp add: float_max_def)
  ultimately have "\<not> rnd64 x < - float_max" by linarith
  then show ?thesis using assms(2)[OF y] by (simp add: fl_def Let_def)
qed

lemma decode_honest:
  assumes "v = 0 \<or> v = 1" "0 \<le> tok" "tok \<le> cap"
    "\<not> (case hint of Fin s \<Rightarrow> s < 0 | NInf \<Rightarrow> True | _ \<Rightarrow> False)"
  shows "decode_lua_result (script_reply (v, tok, hint)) cap
       = Inr \<lparr>lr_allowed = (v = 1), lr_tokens_remaining = tok, lr_retry_after_seconds = hint\<rparr>"
  using assms
  by (auto simp: decode_lua_result_def script_reply_def int_elem_def num_elem_def float_elem_def)

lemma mem_acquire_deficit:
  assumes "\<not> rd_allowed (fst (mem_acquire rnd name cap refill count now st))"
  shows "rd_remaining (fst (mem_acquire rnd name cap refill count now st)) < count"
  using assms by (auto simp: mem_acquire_def Let_def split: if_splits)

lemma acquire_redis_view:
  assumes v: "redis_view b key st" "valid_bucket rnd64 b" "mem_ok rnd64 (tb_capacity b) st" "0 \<le> count"
    and fits: "lua_tostring (rd_remaining (fst (bucket_acquire rnd64 b count now st))) \<le> tb_capacity b"
  shows "\<exists>d key'. acquire_redis rnd64 lua_tostring b count now key = (Inr d, key')
     \<and> rd_allowed d = rd_allowed (fst (bucket_acquire rnd64 b count now st))
     \<and> rd_remaining d = lua_tostring (rd_remaining (fst (bucket_acquire rnd64 b count now st)))
     \<and> rd_backend d = Redis
     \<and> redis_view b key' (stored lua_tostring (snd (bucket_acquire rnd64 b count now st)))"
proof -
  let ?m = "bucket_acquire rnd64 b count now st"
  let ?hint = "if rd_allowed (fst ?m) \<or> \<not> 0 < tb_refill b then Fin (lua_tostring 0)
      else on_finite (\<lambda>x. Fin (lua_tostring x)) (fl rnd64 (rnd64 (count - rd_remaining (fst ?m)) / tb_refill b))"
  obtain key' where k: "TOKEN_BUCKET_SCRIPT rnd64 lua_tostring (tb_capacity b) (tb_refill b) count
        (compute_ttl_seconds rnd64 b) now key
      = ((if rd_allowed (fst ?m) then 1 else 0, lua_tostring (rd_remaining (fst ?m)), ?hint), key')"
    "redis_view b key' (stored lua_tostring (snd ?m))"
    using f64.script_view[OF v(1,2), of lua_tostring count "compute_ttl_seconds rnd64 b" now] by blast
  have ok: "mem_ok rnd64 (tb_capacity b) (snd ?m)"
    using v by (intro f64.mem_ok_acquire) (simp_all add: valid_bucket_def)
  have rem: "rd_remaining (fst ?m) = mb_tokens (snd ?m)" by (simp add: mem_acquire_def Let_def)
  then have low: "0 \<le> lua_tostring (rd_remaining (fst ?m))"
    using ok by (simp add: mem_ok_def lua_tostring_nonneg)
  have "0 < tb_refill b \<Longrightarrow> \<not> rd_allowed (fst ?m) \<Longrightarrow> 0 \<le> rnd64 (count - rd_remaining (fst ?m)) / tb_refill b"
    using mem_acquire_deficit[of rnd64 "tb_name b" "tb_capacity b" "tb_refill b" count now st]
    by (simp add: f64.rnd_nonneg)
  then have h: "\<not> (case ?hint of Fin s \<Rightarrow> s < 0 | NInf \<Rightarrow> True | _ \<Rightarrow> False)"
    using on_finite_nonneg[OF _ lua_tostring_nonneg] by (simp add: lua_tostring_0)
  have dec: "decode_lua_result (script_reply (if rd_allowed (fst ?m) then 1 else 0,
        lua_tostring (rd_remaining (fst ?m)), ?hint)) (tb_capacity b)
      = Inr \<lparr>lr_allowed = rd_allowed (fst ?m), lr_tokens_remaining = lua_tostring (rd_remaining (fst ?m)),
             lr_retry_after_seconds = ?hint\<rparr>"
    using decode_honest[OF _ low fits h, of "if rd_allowed (fst ?m) then 1 else 0"] by simp
  show ?thesis
    unfolding acquire_redis_def k(1) Let_def case_prod_conv dec bindE.simps
    using k(2) by (simp add: redis_decision_def)
qed

section \<open>Properties\<close>

text \<open>
  C26: over any stretch of a memory bucket's life in which the clock never steps
  back, the tokens granted, less the tokens refunded, are at most the capacity
  plus what the refill rate yields over the elapsed time, up to the rounding of
  the float arithmetic (three roundings on the refill, a fixed slack per operation).
\<close>

theorem token_admission:
  assumes "mem_ok rnd64 cap st" "0 \<le> refill" "rnd64 cap = cap" "list_all op_ok ops" "mb_ts st = Some t"
    and "clock_monotone t ops"
  shows "granted (mem_run rnd64 cap refill ops st) - refunded (mem_run rnd64 cap refill ops st)
       \<le> cap + (1 + 1 / 2 ^ 53) ^ 3 * refill * (last_time t ops - t)
         + of_nat (length ops) * op_slack (1 / 2 ^ 53) (pow2 (- 1075)) cap refill"
  by (rule f64e.admission_bound[OF assms])

definition sample_ops :: "tb_op list" where
  "sample_ops = [Acquire 1 1, Acquire 1 1, Acquire 1 1, Refund 1, Acquire 1 2]"

theorem token_admission_witness:
  "granted (mem_run rnd64 2 1 sample_ops \<lparr>mb_tokens = 2, mb_ts = Some 0\<rparr>)
     - refunded (mem_run rnd64 2 1 sample_ops \<lparr>mb_tokens = 2, mb_ts = Some 0\<rparr>)
   \<le> 2 + (1 + 1 / 2 ^ 53) ^ 3 * 1 * (last_time 0 sample_ops - 0)
     + of_nat (length sample_ops) * op_slack (1 / 2 ^ 53) (pow2 (- 1075)) 2 1
   \<and> granted (mem_run rnd64 2 1 sample_ops \<lparr>mb_tokens = 2, mb_ts = Some 0\<rparr>) = 3"
proof
  show "granted (mem_run rnd64 2 1 sample_ops \<lparr>mb_tokens = 2, mb_ts = Some 0\<rparr>)
     - refunded (mem_run rnd64 2 1 sample_ops \<lparr>mb_tokens = 2, mb_ts = Some 0\<rparr>)
   \<le> 2 + (1 + 1 / 2 ^ 53) ^ 3 * 1 * (last_time 0 sample_ops - 0)
     + of_nat (length sample_ops) * op_slack (1 / 2 ^ 53) (pow2 (- 1075)) 2 1"
    by (rule token_admission) (simp_all add: mem_ok_def sample_ops_def)
  show "granted (mem_run rnd64 2 1 sample_ops \<lparr>mb_tokens = 2, mb_ts = Some 0\<rparr>) = 3"
    by (simp add: sample_ops_def mem_acquire_def mem_refund_def refilled_def granted_def Let_def)
qed

text \<open>
  C27: the guard against a clock that steps back clamps the elapsed time but
  still moves the refill mark back, so the same second refills the bucket again
  and again: with one token of capacity and one token per second, readings that
  stay within one second grant any number of tokens.
\<close>

theorem stepping_clock_overgrants:
  "granted (mem_run rnd64 1 1 (concat (replicate n [Acquire 1 0, Acquire 1 1])) (new_mem_bucket 1)) = of_nat n + (if n = 0 then 0 else 1)"
proof -
  have loop: "granted (mem_run rnd64 1 1 (concat (replicate m [Acquire 1 0, Acquire 1 1])) \<lparr>mb_tokens = 0, mb_ts = Some 1\<rparr>) = of_nat m" for m
    by (induction m) (simp_all add: granted_def mem_acquire_def refilled_def Let_def split_beta)
  show ?thesis
    using loop[of "n - 1"]
    by (cases n) (simp_all add: granted_def mem_acquire_def refilled_def new_mem_bucket_def Let_def split_beta)
qed

definition sample_env :: limiter_env where
  "sample_env = \<lparr>le_redis = True, le_pool = True,
     le_settings = Some \<lparr>ls_token_bucket_lock_timeout_ms = 5000, ls_sliding_window_lock_timeout_ms = 5000,
                         ls_pg_fallback_enabled = True\<rparr>,
     le_clock = Some 3, le_redis_now = (\<lambda>_. 3), le_pg_now = 3, le_clk = (\<lambda>_. 3000000),
     le_lock_free = True, le_fault = (\<lambda>_. None), le_cancelled = (\<lambda>_. False)\<rparr>"

definition sample_bucket :: TokenBucket where
  "sample_bucket = \<lparr>tb_name = ''api'', tb_capacity = 2, tb_refill = 1, tb_backend = Postgres,
     tb_ttl = seconds 64, tb_keyed = False\<rparr>"



text \<open>
  A capacity cut between two deployments: the row still holds the tokens the old
  capacity allowed, and every peek and every refund calls the store corrupt until
  an acquire rewrites the row.
\<close>

lemma capacity_cut_reads_as_corrupt:
  assumes "row_by k_name (tb_name b) rows = Some q" "doc_view rnd64 (k_state q) st"
    and "mem_ok rnd64 old st" "tb_capacity b < mb_tokens st"
    and "require_pg env = Inr ()" "le_lock_free env" "rnd64 (le_pg_now env) = le_pg_now env"
  shows "peek_pg rnd64 txt env b rows = Inl RateLimitStoreCorrupt
     \<and> refund_pg rnd64 txt env b count rows = (Inl RateLimitStoreCorrupt, rows)"
  using assms
  by (auto simp: peek_pg_def refund_pg_def guarded_def doc_view_def mem_ok_def Let_def split: option.splits)

text \<open>
  A wait of less than half a microsecond is clamped to zero: such a denial
  carries the hint of a grant.
\<close>

lemma short_wait_hint_is_zero:
  assumes "0 < x" "x \<le> 1 / 2000000" shows "retry_after rnd64 (Fin x) = 0"
proof -
  have "rnd64 (1000000 * x) \<le> 1 / 2"
  proof -
    have "rnd64 (1 / 2) = 1 / 2"
      using rnd_pos_exact[of 1 "- 1"] by (simp add: rnd64_def pow2_def)
    then show ?thesis using assms rnd64_mono[of "1000000 * x" "1 / 2"] by simp
  qed
  moreover have "0 \<le> rnd64 (1000000 * x)" using assms by (intro f64.rnd_nonneg) simp
  moreover have "round_half_even (1 / 2) = 0"
  proof -
    have "\<lfloor>1 / 2 :: rat\<rfloor> = 0" by (simp add: floor_eq_iff)
    then show ?thesis by (simp add: round_half_even_def)
  qed
  ultimately have "round_half_even (rnd64 (1000000 * x)) = 0"
    using round_half_even_mono[of "rnd64 (1000000 * x)" "1 / 2"] round_half_even_ge[of 0 "rnd64 (1000000 * x)"]
    by simp
  moreover have "\<lfloor>x\<rfloor> = 0" using assms by (simp add: floor_eq_iff)
  ultimately show ?thesis
    using assms by (simp add: retry_after_def f64.max_ttl_seconds timedelta_seconds_def usec_per_sec_def Let_def)
qed

text \<open>
  In exact arithmetic the memory refund, which leaves the elapsed time for the
  next acquire, and the refund of the stores, which credits it first, leave the
  same balance to every later acquire.
\<close>

lemma refund_parity:
  assumes "0 \<le> refill" "0 \<le> count" "ts \<le> now" "now \<le> later"
  shows "refilled (\<lambda>x. x) cap refill (min cap (tokens + count)) ts later
       = refilled (\<lambda>x. x) cap refill (min cap (refilled (\<lambda>x. x) cap refill tokens ts now + count)) now later"
proof -
  define A where "A = (now - ts) * refill"
  define B where "B = (later - now) * refill"
  have "0 \<le> A" "0 \<le> B" using assms by (simp_all add: A_def B_def)
  moreover have "(later - ts) * refill = A + B" by (simp add: A_def B_def algebra_simps)
  ultimately show ?thesis
    using assms unfolding refilled_def Let_def
    by (simp add: max_absorb2 A_def[symmetric] B_def[symmetric] min_def)
qed

end
