(* ===== verification/Sliding_Window.thy ===== *)
theory Sliding_Window
  imports Limiter
begin

text \<open>
  The sliding window (\<open>ratelimit/sliding_window.py\<close>, its PostgreSQL and Redis
  halves \<open>_sliding_window_pg.py\<close> and \<open>_sliding_window_redis.py\<close>, the scripts of
  \<open>_scripts.py\<close>) in its two styles.  The log style keeps one entry per
  admission and admits while fewer than \<open>limit\<close> of them are in the window; the
  GCRA style keeps one theoretical arrival time.  Times are milliseconds in
  memory and in Redis, microsecond timestamps in the PostgreSQL log, float
  seconds in the PostgreSQL GCRA row.
\<close>

section \<open>The limiter object\<close>

datatype SlidingWindowStyle = LogStyle | GcraStyle

record SlidingWindow =
  sw_name :: string
  sw_limit :: int
  sw_window :: interval
  sw_backend :: RateLimitBackend
  sw_style :: SlidingWindowStyle
  sw_ttl :: interval

definition TTL_SAFETY_MARGIN :: interval where
  "TTL_SAFETY_MARGIN = seconds 60"

definition new_SlidingWindow ::
    "string \<Rightarrow> int \<Rightarrow> interval \<Rightarrow> RateLimitBackend \<Rightarrow> string \<Rightarrow> interval option \<Rightarrow> rl_error + SlidingWindow" where
  "new_SlidingWindow name lmt window be style ttl =
     (if lmt < 1 then Inl RlValueError
      else if window \<le> 0 then Inl RlValueError
      else if style \<noteq> ''log'' \<and> style \<noteq> ''gcra'' then Inl RlValueError
      else let sty = (if style = ''log'' then LogStyle else GcraStyle) in
           Inr \<lparr>sw_name = name, sw_limit = lmt, sw_window = window, sw_backend = be, sw_style = sty,
                sw_ttl = (case ttl of
                            Some t \<Rightarrow> t
                          | None \<Rightarrow> if sty = GcraStyle then window + TTL_SAFETY_MARGIN
                                    else 2 * window + TTL_SAFETY_MARGIN)\<rparr>)"

text \<open>\<open>int(td.total_seconds() * 1000)\<close>.\<close>

definition to_ms :: "(rat \<Rightarrow> rat) \<Rightarrow> interval \<Rightarrow> int" where
  "to_ms rnd td = trunc (rnd (total_seconds rnd td * 1000))"

definition window_ms :: "(rat \<Rightarrow> rat) \<Rightarrow> SlidingWindow \<Rightarrow> int" where
  "window_ms rnd w = to_ms rnd (sw_window w)"

definition sw_state ::
    "string \<Rightarrow> RateLimitBackend \<Rightarrow> bool \<Rightarrow> rat \<Rightarrow> interval option \<Rightarrow> RateLimitState" where
  "sw_state name be ex rem hint =
     \<lparr>rs_bucket_name = name, rs_backend = be, rs_is_exhausted = ex, rs_tokens_remaining = 0,
      rs_remaining = rem, rs_retry_after = hint\<rparr>"

section \<open>Log style in memory\<close>

text \<open>The two deques of timestamps and request ids, kept in lockstep.\<close>

type_synonym mem_log = "(int \<times> uuid) list"

definition mem_log_acquire ::
    "string \<Rightarrow> int \<Rightarrow> int \<Rightarrow> int \<Rightarrow> uuid \<Rightarrow> mem_log \<Rightarrow> RateLimitDecision \<times> mem_log" where
  "mem_log_acquire name lmt win now rid dq =
     (let dq' = dropWhile (\<lambda>e. fst e \<le> now - win) dq
      in if int (length dq') \<ge> lmt then
           (decision name Memory False 0 (Some ((fst (hd dq') + win - now) * 1000)), dq')
         else
           (decision name Memory True (of_int (lmt - int (length dq' + 1))) (Some 0), dq' @ [(now, rid)]))"

fun mem_log_refund :: "uuid \<Rightarrow> mem_log \<Rightarrow> mem_log" where
  "mem_log_refund rid [] = []"
| "mem_log_refund rid (e # dq) = (if snd e = rid then dq else e # mem_log_refund rid dq)"

definition mem_log_peek :: "string \<Rightarrow> int \<Rightarrow> int \<Rightarrow> int \<Rightarrow> mem_log \<Rightarrow> RateLimitState" where
  "mem_log_peek name lmt win now dq =
     (let inside = filter (\<lambda>e. now - win < fst e) dq; n = int (length inside)
      in sw_state name Memory (n \<ge> lmt) (of_int (max 0 (lmt - n)))
           (if n \<ge> lmt \<and> inside \<noteq> [] then Some (max 1 (fst (hd inside) + win - now) * 1000) else None))"

definition mem_log_reset :: "mem_log \<Rightarrow> mem_log" where
  "mem_log_reset dq = []"

section \<open>GCRA style in memory\<close>

record mem_gcra =
  mg_tat :: "rat option"
  mg_log :: "int list"

definition new_mem_gcra :: mem_gcra where
  "new_mem_gcra = \<lparr>mg_tat = None, mg_log = []\<rparr>"

definition emission :: "(rat \<Rightarrow> rat) \<Rightarrow> int \<Rightarrow> int \<Rightarrow> rat" where
  "emission rnd win lmt = rnd (of_int win / of_int lmt)"

definition gcra_remaining :: "(rat \<Rightarrow> rat) \<Rightarrow> rat \<Rightarrow> rat \<Rightarrow> rat \<Rightarrow> rat \<Rightarrow> int" where
  "gcra_remaining rnd tol tat now em = max 0 (trunc (rnd (rnd (tol - rnd (tat - now)) / em)))"

definition mem_gcra_acquire ::
    "(rat \<Rightarrow> rat) \<Rightarrow> string \<Rightarrow> int \<Rightarrow> int \<Rightarrow> int \<Rightarrow> mem_gcra \<Rightarrow> (rl_error + RateLimitDecision) \<times> mem_gcra" where
  "mem_gcra_acquire rnd name lmt win now st =
     (let em = emission rnd win lmt;
          log = dropWhile (\<lambda>t. t \<le> now - win) (mg_log st);
          n = of_int now;
          tat = max (case mg_tat st of Some t \<Rightarrow> t | None \<Rightarrow> n) n;
          new_tat = rnd (tat + em);
          allow_at = rnd (new_tat - of_int win);
          full = (int (length log) \<ge> lmt)
      in if n < allow_at \<or> full then
           (Inr (decision name Memory False 0
              (Some (if full \<and> n \<ge> allow_at then max 1 (hd log + win - now) * 1000
                     else round_half_even (rnd (allow_at - n)) * 1000))),
            st\<lparr>mg_log := log\<rparr>)
         else
           (let st' = \<lparr>mg_tat = Some new_tat, mg_log = log @ [now]\<rparr>
            in if em = 0 then (Inl RlZeroDivision, st')
               else
                 (let rem = min (gcra_remaining rnd (of_int win) new_tat n em) (lmt - int (length log + 1))
                  in (Inr (decision name Memory True (of_int rem) (Some 0)
                        \<lparr>rd_previous_state := Some (MemTat (mg_tat st) new_tat now)\<rparr>), st'))))"

definition mem_gcra_refund :: "prev_state \<Rightarrow> mem_gcra \<Rightarrow> mem_gcra" where
  "mem_gcra_refund p st = (case p of
       MemTat prev new_tat stamp \<Rightarrow>
         if mg_tat st \<noteq> Some new_tat then st
         else \<lparr>mg_tat = prev, mg_log = remove1 stamp (mg_log st)\<rparr>
     | _ \<Rightarrow> st)"

definition mem_gcra_peek ::
    "(rat \<Rightarrow> rat) \<Rightarrow> string \<Rightarrow> int \<Rightarrow> int \<Rightarrow> int \<Rightarrow> mem_gcra \<Rightarrow> rl_error + RateLimitState" where
  "mem_gcra_peek rnd name lmt win now st =
     (let em = emission rnd win lmt;
          inside = filter (\<lambda>t. now - win < t) (mg_log st);
          cnt = int (length inside);
          n = of_int now;
          tat = max (case mg_tat st of Some t \<Rightarrow> t | None \<Rightarrow> n) n
      in if em = 0 then Inl RlZeroDivision
         else
           (let rem = min (gcra_remaining rnd (of_int win) tat n em) (lmt - cnt);
                ex = (rem \<le> 0 \<or> cnt \<ge> lmt);
                allow_at = rnd (rnd (tat + em) - of_int win)
            in Inr (sw_state name Memory ex (of_int rem)
                 (if \<not> ex then None
                  else if cnt \<ge> lmt \<and> inside \<noteq> [] then Some (max 1 (hd inside + win - now) * 1000)
                  else Some (max 1 (round_half_even (rnd (allow_at - n))) * 1000)))))"

definition mem_gcra_reset :: "mem_gcra \<Rightarrow> mem_gcra" where
  "mem_gcra_reset st = new_mem_gcra"

section \<open>Redis\<close>

text \<open>
  The sorted set of the log style, by score; a member occurs once, and adding
  it again moves its score.  The lifetime is what the last PEXPIRE set.
\<close>

type_synonym zset = "(rat \<times> uuid) list"

definition zadd :: "rat \<Rightarrow> uuid \<Rightarrow> zset \<Rightarrow> zset" where
  "zadd score m z = insort_key fst (score, m) (filter (\<lambda>e. snd e \<noteq> m) z)"

record redis_log =
  rz_set :: zset
  rz_pexpire :: "int option"

definition SLIDING_WINDOW_LOG_SCRIPT ::
    "(rat \<Rightarrow> rat) \<Rightarrow> int \<Rightarrow> int \<Rightarrow> uuid \<Rightarrow> int \<Rightarrow> rat \<Rightarrow> redis_log \<Rightarrow> (int \<times> int \<times> int) \<times> redis_log" where
  "SLIDING_WINDOW_LOG_SCRIPT rnd win lmt rid ttl now key =
     (let cut = rnd (now - of_int win);
          z = filter (\<lambda>e. \<not> (0 \<le> fst e \<and> fst e \<le> cut)) (rz_set key);
          count = int (length z)
      in if count \<ge> lmt then
           ((0, count, trunc (rnd (rnd (fst (hd z) + of_int win) - now))),
            \<lparr>rz_set = z, rz_pexpire = Some ttl\<rparr>)
         else ((1, count + 1, 0), \<lparr>rz_set = zadd now rid z, rz_pexpire = Some ttl\<rparr>))"

text \<open>A zero emission interval makes the estimate 0/0; Redis turns the NaN into the least integer.\<close>

definition SLIDING_WINDOW_GCRA_SCRIPT ::
    "(rat \<Rightarrow> rat) \<Rightarrow> (rat \<Rightarrow> rat) \<Rightarrow> rat \<Rightarrow> rat \<Rightarrow> rat \<Rightarrow> rat \<Rightarrow> rat option
     \<Rightarrow> (int \<times> int \<times> int \<times> (rat \<times> rat) option) \<times> rat option" where
  "SLIDING_WINDOW_GCRA_SCRIPT rnd fmt em tol quantity now key =
     (let tat0 = (case key of None \<Rightarrow> now | Some t \<Rightarrow> t);
          tat = (if tat0 < now then now else tat0);
          new_tat = rnd (tat + quantity);
          allow_at = rnd (new_tat - tol)
      in if now < allow_at then ((0, trunc (rnd (allow_at - now)), 0, None), key)
         else
           (let r = (if em = 0 then - (2 ^ 63) else \<lfloor>rnd (rnd (tol - rnd (new_tat - now)) / em)\<rfloor>)
            in ((1, 0, (if r < 0 \<and> em \<noteq> 0 then 0 else r), Some (fmt tat, fmt new_tat)), Some (fmt new_tat))))"

definition GCRA_REFUND_SCRIPT :: "rat \<Rightarrow> rat \<Rightarrow> rat option \<Rightarrow> rat option" where
  "GCRA_REFUND_SCRIPT pre post key = (case key of
       None \<Rightarrow> None
     | Some t \<Rightarrow> if t \<noteq> post then key else Some pre)"

definition validate_script_reply ::
    "reply \<Rightarrow> int \<Rightarrow> int \<Rightarrow> bool \<Rightarrow> rl_error + (bool \<times> int \<times> int)" where
  "validate_script_reply raw lmt ttl_ms gcra = (case raw of
       Some (a # b # c # _) \<Rightarrow> (case (as_int a, as_int b, as_int c) of
           (Some v, Some second, Some third) \<Rightarrow>
             if v \<noteq> 0 \<and> v \<noteq> 1 then Inl RateLimitStoreCorrupt
             else
               (let count = (if gcra then third else second);
                    hint = (if gcra then second else third)
                in if \<not> (0 \<le> count \<and> count \<le> lmt) then Inl RateLimitStoreCorrupt
                   else if \<not> (0 \<le> hint \<and> hint \<le> ttl_ms) then Inl RateLimitStoreCorrupt
                   else Inr (v = 1, count, hint))
         | _ \<Rightarrow> Inl RateLimitStoreCorrupt)
     | _ \<Rightarrow> Inl RateLimitStoreCorrupt)"

definition acquire_redis_log ::
    "(rat \<Rightarrow> rat) \<Rightarrow> SlidingWindow \<Rightarrow> uuid option \<Rightarrow> rat \<Rightarrow> redis_log \<Rightarrow> (rl_error + RateLimitDecision) \<times> redis_log" where
  "acquire_redis_log rnd w request_id now key = (case request_id of
       None \<Rightarrow> (Inl RlRuntimeError, key)
     | Some rid \<Rightarrow>
         (let ttl = to_ms rnd (sw_ttl w);
              ((a, c, h), key') = SLIDING_WINDOW_LOG_SCRIPT rnd (window_ms rnd w) (sw_limit w) rid ttl now key
          in (bindE (validate_script_reply (Some [int_elem a, int_elem c, int_elem h]) (sw_limit w) ttl False)
                (\<lambda>(ok, count, hint). Inr (decision (sw_name w) Redis ok
                    (if ok then of_int (sw_limit w - count) else 0)
                    (Some (if ok then 0 else hint * 1000))\<lparr>rd_request_id := Some rid\<rparr>)), key')))"

definition acquire_redis_gcra ::
    "(rat \<Rightarrow> rat) \<Rightarrow> (rat \<Rightarrow> rat) \<Rightarrow> SlidingWindow \<Rightarrow> rat \<Rightarrow> rat option \<Rightarrow> (rl_error + RateLimitDecision) \<times> rat option" where
  "acquire_redis_gcra rnd fmt w now key =
     (let win = window_ms rnd w; em = emission rnd win (sw_limit w); ttl = to_ms rnd (sw_ttl w);
          ((a, h, rem, echo), key') = SLIDING_WINDOW_GCRA_SCRIPT rnd fmt em (of_int win) em now key
      in (bindE (validate_script_reply
              (Some ([int_elem a, int_elem h, int_elem rem]
                     @ (case echo of None \<Rightarrow> [] | Some (p, q) \<Rightarrow> [num_elem p, num_elem q])))
              (sw_limit w) ttl True)
            (\<lambda>(ok, rest, hint). Inr (decision (sw_name w) Redis ok (if ok then of_int rest else 0)
                (Some (if ok then 0 else hint * 1000))
                \<lparr>rd_previous_state := (if ok then map_option (\<lambda>(p, q). RedisTat p q ttl) echo else None)\<rparr>)),
          key'))"

definition refund_redis_log :: "RateLimitDecision \<Rightarrow> redis_log \<Rightarrow> (rl_error + unit) \<times> redis_log" where
  "refund_redis_log d key = (case rd_request_id d of
       None \<Rightarrow> (Inl RlValueError, key)
     | Some rid \<Rightarrow> (Inr (), key\<lparr>rz_set := filter (\<lambda>e. snd e \<noteq> rid) (rz_set key)\<rparr>))"

definition refund_redis_gcra :: "RateLimitDecision \<Rightarrow> rat option \<Rightarrow> rat option" where
  "refund_redis_gcra d key = (case rd_previous_state d of
       Some (RedisTat pre post ttl) \<Rightarrow> GCRA_REFUND_SCRIPT pre post key
     | _ \<Rightarrow> key)"

text \<open>
  The peeks, over what the store answers: the time it reports in seconds, the
  count, and the oldest entry with its score (None for a reply that is no list).
\<close>

datatype zentry = ZSeq "reply_elem list" | ZBare reply_elem

fun zscore :: "zentry \<Rightarrow> pyfloat option" where
  "zscore (ZSeq [m, s]) = as_float s"
| "zscore (ZSeq _) = None"
| "zscore (ZBare s) = as_float s"

definition peek_redis_log ::
    "(rat \<Rightarrow> rat) \<Rightarrow> SlidingWindow \<Rightarrow> rat \<Rightarrow> reply_elem \<Rightarrow> zentry list option \<Rightarrow> rl_error + RateLimitState" where
  "peek_redis_log rnd w t zcount oldest = (case fl rnd (t * 1000) of
       Fin now \<Rightarrow>
         (let win = window_ms rnd w; cut = rnd (now - of_int win) in
          case as_int zcount of
            None \<Rightarrow> Inl RateLimitStoreCorrupt
          | Some n \<Rightarrow>
              if n < 0 then Inl RateLimitStoreCorrupt
              else
                (let st = sw_state (sw_name w) Redis (n \<ge> sw_limit w) (of_int (max 0 (sw_limit w - n)))
                 in if \<not> (n \<ge> sw_limit w \<and> n > 0) then Inr (st None)
                    else case oldest of
                      None \<Rightarrow> Inl RateLimitStoreCorrupt
                    | Some [] \<Rightarrow> Inr (st None)
                    | Some (e # _) \<Rightarrow>
                        (case zscore e of
                           Some (Fin sc) \<Rightarrow>
                             if \<not> (cut < sc \<and> sc \<le> now) then Inl RateLimitStoreCorrupt
                             else Inr (st (Some (timedelta_ms rnd
                                    (max 1 (rnd (rnd (of_int (trunc sc + win)) - now))))))
                         | _ \<Rightarrow> Inl RateLimitStoreCorrupt)))
     | _ \<Rightarrow> Inl RateLimitStoreCorrupt)"

text \<open>The arrival time as \<open>float()\<close> finds it: absent, a number, or no number at all.\<close>

definition peek_redis_gcra ::
    "(rat \<Rightarrow> rat) \<Rightarrow> SlidingWindow \<Rightarrow> rat \<Rightarrow> pyfloat option option \<Rightarrow> rl_error + RateLimitState" where
  "peek_redis_gcra rnd w t tat_raw = (case fl rnd (t * 1000) of
       Fin now \<Rightarrow>
         (let win = of_int (window_ms rnd w); em = emission rnd (window_ms rnd w) (sw_limit w) in
          case (case tat_raw of None \<Rightarrow> Some (Fin now) | Some v \<Rightarrow> v) of
            Some (Fin t0) \<Rightarrow>
              (let tat = max t0 now in
               if em = 0 then Inl RlZeroDivision
               else case on_finite (\<lambda>d. on_finite (\<lambda>x. fl rnd (x / em)) (fl rnd (win - d))) (fl rnd (tat - now)) of
                 Fin q \<Rightarrow>
                   (let rem = max 0 (trunc q);
                        wait = on_finite (\<lambda>a. fl rnd (a / 1000))
                                 (on_finite (\<lambda>b. fl rnd (b - now))
                                   (on_finite (\<lambda>c. fl rnd (c - win)) (fl rnd (tat + em))))
                    in Inr (sw_state (sw_name w) Redis (rem \<le> 0) (of_int rem)
                         (if rem \<le> 0 then Some (retry_after rnd wait) else None)))
               | _ \<Rightarrow> Inl RateLimitStoreCorrupt)
          | _ \<Rightarrow> Inl RateLimitStoreCorrupt)
     | _ \<Rightarrow> Inl RateLimitStoreCorrupt)"

section \<open>PostgreSQL, log style\<close>

record window_entry =
  we_bucket :: string
  we_ts :: timestamptz
  we_request_id :: uuid

text \<open>
  The fused statement.  Its arms see the entries as they were before it;
  \<open>clock_timestamp()\<close> is read anew for every row a predicate visits, so a
  reading is indexed by the place in the text and by the row.
\<close>

type_synonym row_clock = "nat \<Rightarrow> nat \<Rightarrow> timestamptz"

definition in_window :: "row_clock \<Rightarrow> nat \<Rightarrow> string \<Rightarrow> int \<Rightarrow> window_entry list \<Rightarrow> window_entry list" where
  "in_window clk k name win rows =
     map snd (filter (\<lambda>(i, e). we_bucket e = name \<and> we_ts e \<ge> clk k i - win * 1000) (enumerate 0 rows))"

definition log_fused ::
    "row_clock \<Rightarrow> string \<Rightarrow> int \<Rightarrow> int \<Rightarrow> uuid \<Rightarrow> window_entry list
     \<Rightarrow> (bool \<times> int \<times> timestamptz option \<times> timestamptz) \<times> window_entry list" where
  "log_fused clk name win lmt rid rows =
     (let kept = map snd (filter (\<lambda>(i, e). \<not> (we_bucket e = name \<and> we_ts e < clk 0 i - win * 1000))
                            (enumerate 0 rows));
          fits = (int (length (in_window clk 2 name win rows)) < lmt);
          oldest = in_window clk 4 name win rows
      in ((fits, int (length (in_window clk 3 name win rows)),
           (if oldest = [] then None else Some (Min (we_ts ` set oldest))), clk 5 0),
          (if fits then kept @ [\<lparr>we_bucket = name, we_ts = clk 1 0, we_request_id = rid\<rparr>] else kept)))"

definition acquire_pg_log ::
    "(rat \<Rightarrow> rat) \<Rightarrow> row_clock \<Rightarrow> limiter_env \<Rightarrow> SlidingWindow \<Rightarrow> uuid option \<Rightarrow> window_entry list
     \<Rightarrow> (rl_error + RateLimitDecision) \<times> window_entry list" where
  "acquire_pg_log rnd clk env w request_id rows = guarded (require_pg env) (\<lambda>rows.
     (case request_id of
        None \<Rightarrow> (Inl RlRuntimeError, rows)
      | Some rid \<Rightarrow>
          (let budget = resolve_sliding_window_lock_timeout_ms None (le_settings env)
                          DEFAULT_SLIDING_WINDOW_LOCK_TIMEOUT_MS;
               win = window_ms rnd w
           in if budget > 0 \<and> \<not> le_lock_free env then
                (Inr (decision (sw_name w) Postgres False 0 (Some (timedelta_ms rnd budget))
                      \<lparr>rd_request_id := Some rid\<rparr>), rows)
              else
                (let ((ins, cnt, oldest, server_now), rows') =
                       log_fused clk (sw_name w) win (sw_limit w) rid rows
                 in (Inr (decision (sw_name w) Postgres ins
                        (if ins then of_int (sw_limit w - (cnt + 1)) else 0)
                        (Some (if ins then 0
                               else case oldest of
                                 Some t \<Rightarrow> if t + win * 1000 - server_now \<le> 0 then 1000
                                           else t + win * 1000 - server_now
                               | None \<Rightarrow> 1000))\<lparr>rd_request_id := Some rid\<rparr>), rows'))))) rows"

definition refund_pg_log :: "SlidingWindow \<Rightarrow> RateLimitDecision \<Rightarrow> window_entry list \<Rightarrow> window_entry list" where
  "refund_pg_log w d rows = (case rd_request_id d of
       None \<Rightarrow> rows
     | Some rid \<Rightarrow> filter (\<lambda>e. \<not> (we_bucket e = sw_name w \<and> we_request_id e = rid)) rows)"

definition reset_pg_log :: "SlidingWindow \<Rightarrow> window_entry list \<Rightarrow> window_entry list" where
  "reset_pg_log w rows = filter (\<lambda>e. we_bucket e \<noteq> sw_name w) rows"

definition peek_pg_log ::
    "(rat \<Rightarrow> rat) \<Rightarrow> row_clock \<Rightarrow> SlidingWindow \<Rightarrow> window_entry list \<Rightarrow> RateLimitState" where
  "peek_pg_log rnd clk w rows =
     (let win = window_ms rnd w;
          n = int (length (in_window clk 0 (sw_name w) win rows));
          oldest = in_window clk 2 (sw_name w) win rows;
          hint = Min (we_ts ` set oldest) + win * 1000 - clk 1 0
      in sw_state (sw_name w) Postgres (n \<ge> sw_limit w) (of_int (max 0 (sw_limit w - n)))
           (if n \<ge> sw_limit w \<and> n > 0 \<and> oldest \<noteq> []
            then Some (if hint \<le> 0 then 1000 else hint) else None))"

section \<open>PostgreSQL, GCRA style\<close>

definition gcra_doc :: "rat \<Rightarrow> jobj" where
  "gcra_doc tat = jsonb_build_object [(''tat'', JNum tat)]"

text \<open>
  The upsert: None when the conflict arm's condition fails, so that RETURNING
  yields no row.  \<open>clk 2\<close> is the column default \<open>now()\<close>.
\<close>

definition gcra_fused ::
    "(rat \<Rightarrow> rat) \<Rightarrow> (string \<Rightarrow> rat option) \<Rightarrow> clock \<Rightarrow> string \<Rightarrow> rat \<Rightarrow> rat \<Rightarrow> rat \<Rightarrow> bucket_row list
     \<Rightarrow> rl_error + rat option \<times> bucket_row list" where
  "gcra_fused rnd txt clk name em win now rows =
     (case row_by k_name name rows of
        None \<Rightarrow>
          Inr (Some (rnd (now + em)),
               rows @ [\<lparr>k_name = name, k_kind = ''gcra'', k_state = gcra_doc (rnd (now + em)),
                        k_updated_at = clk 0, k_keyed = False, k_last_used_at = clk 2\<rparr>])
      | Some q \<Rightarrow>
          if k_kind q \<noteq> ''gcra'' then Inr (None, rows)
          else bindE (json_float8 rnd txt (k_state q ''tat'')) (\<lambda>t.
            let base = max now (case t of Some x \<Rightarrow> x | None \<Rightarrow> now);
                new_tat = rnd (base + em)
            in if now \<ge> rnd (new_tat - win) then
                 Inr (Some new_tat, upd_where (\<lambda>x. k_name x = name)
                   (\<lambda>x. x\<lparr>k_state := gcra_doc new_tat, k_updated_at := clk 1\<rparr>) rows)
               else Inr (None, rows)))"

definition acquire_pg_gcra ::
    "(rat \<Rightarrow> rat) \<Rightarrow> (string \<Rightarrow> rat option) \<Rightarrow> limiter_env \<Rightarrow> rat \<Rightarrow> SlidingWindow \<Rightarrow> bucket_row list
     \<Rightarrow> (rl_error + RateLimitDecision) \<times> bucket_row list" where
  "acquire_pg_gcra rnd txt env deny_now w rows = guarded (require_pg env) (\<lambda>rows.
     (let budget = resolve_sliding_window_lock_timeout_ms None (le_settings env)
                     DEFAULT_SLIDING_WINDOW_LOCK_TIMEOUT_MS;
          win = rnd (of_int (window_ms rnd w) / 1000);
          em = rnd (win / of_int (sw_limit w));
          now = le_pg_now env
      in if budget > 0 \<and> \<not> le_lock_free env then
           (Inr (decision (sw_name w) Postgres False 0 (Some (timedelta_ms rnd budget))), rows)
         else case gcra_fused rnd txt (le_clk env) (sw_name w) em win now rows of
           Inl e \<Rightarrow> (Inl e, rows)
         | Inr (Some new_tat, rows') \<Rightarrow>
             if em = 0 then (Inl RlZeroDivision, rows')
             else (Inr (decision (sw_name w) Postgres True (of_int (gcra_remaining rnd win new_tat now em)) (Some 0)
                     \<lparr>rd_previous_state := Some (PgTat (rnd (new_tat - em)) new_tat)\<rparr>), rows')
         | Inr (None, _) \<Rightarrow>
             (case row_by k_name (sw_name w) rows of
                None \<Rightarrow> (Inr (decision (sw_name w) Postgres False 0 (Some 1000)), rows)
              | Some q \<Rightarrow>
                  if k_kind q \<noteq> ''gcra'' then (Inl RlRuntimeError, rows)
                  else (case json_float8 rnd txt (k_state q ''tat'') of
                      Inl _ \<Rightarrow> (Inl RateLimitStoreCorrupt, rows)
                    | Inr t \<Rightarrow>
                        (let tat = (case t of Some x \<Rightarrow> x | None \<Rightarrow> deny_now);
                             allow_at = rnd (rnd (max deny_now tat + em) - win);
                             wait = rnd (allow_at - deny_now)
                         in (Inr (decision (sw_name w) Postgres False 0
                               (Some (retry_after rnd (Fin (if wait \<le> 0 then rnd (1 / 1000) else wait))))), rows)))))) rows"

definition refund_pg_gcra ::
    "(rat \<Rightarrow> rat) \<Rightarrow> (string \<Rightarrow> rat option) \<Rightarrow> clock \<Rightarrow> SlidingWindow \<Rightarrow> RateLimitDecision \<Rightarrow> bucket_row list
     \<Rightarrow> bucket_row list" where
  "refund_pg_gcra rnd txt clk w d rows = (case rd_previous_state d of
       Some (PgTat pre post) \<Rightarrow>
         upd_where (\<lambda>q. k_name q = sw_name w \<and> k_kind q = ''gcra''
                        \<and> json_float8 rnd txt (k_state q ''tat'') = Inr (Some post))
           (\<lambda>q. q\<lparr>k_state := (k_state q)(''tat'' \<mapsto> JNum pre), k_updated_at := clk 0\<rparr>) rows
     | _ \<Rightarrow> rows)"

definition reset_pg_gcra :: "SlidingWindow \<Rightarrow> bucket_row list \<Rightarrow> bucket_row list" where
  "reset_pg_gcra w rows = filter (\<lambda>q. \<not> (k_name q = sw_name w \<and> k_kind q = ''gcra'')) rows"

definition peek_pg_gcra ::
    "(rat \<Rightarrow> rat) \<Rightarrow> (string \<Rightarrow> rat option) \<Rightarrow> rat \<Rightarrow> SlidingWindow \<Rightarrow> bucket_row list \<Rightarrow> rl_error + RateLimitState" where
  "peek_pg_gcra rnd txt now w rows =
     (let win = rnd (of_int (window_ms rnd w) / 1000); em = rnd (win / of_int (sw_limit w)) in
      bindE (case row_by (\<lambda>q. (k_name q, k_kind q)) (sw_name w, ''gcra'') rows of
               None \<Rightarrow> Inr now
             | Some q \<Rightarrow> py_float rnd txt now (k_state q ''tat''))
        (\<lambda>t. let tat = max now t in
             if em = 0 then Inl RlZeroDivision
             else
               (let rem = gcra_remaining rnd win tat now em;
                    wait = rnd (rnd (rnd (tat + em) - win) - now)
                in Inr (sw_state (sw_name w) Postgres (rem \<le> 0) (of_int rem)
                     (if rem \<le> 0 then Some (retry_after rnd (Fin (if wait \<le> 0 then rnd (1 / 1000) else wait)))
                      else None)))))"

section \<open>The limiter over its stores\<close>

record sw_stores =
  ss_mem_log :: "mem_log option"
  ss_mem_gcra :: "mem_gcra option"
  ss_zset :: redis_log
  ss_tat :: "rat option"
  ss_entries :: "window_entry list"
  ss_rows :: "bucket_row list"

definition pass :: "('s \<Rightarrow> 'a) \<Rightarrow> ('a \<Rightarrow> 's \<Rightarrow> 's) \<Rightarrow> ('a \<Rightarrow> 'r \<times> 'a) \<Rightarrow> 's \<Rightarrow> 'r \<times> 's" where
  "pass get put f s = (let (r, a) = f (get s) in (r, put a s))"

definition on_zset :: "(redis_log \<Rightarrow> 'r \<times> redis_log) \<Rightarrow> sw_stores \<Rightarrow> 'r \<times> sw_stores" where
  "on_zset = pass ss_zset (\<lambda>a s. s\<lparr>ss_zset := a\<rparr>)"

definition on_tat :: "(rat option \<Rightarrow> 'r \<times> rat option) \<Rightarrow> sw_stores \<Rightarrow> 'r \<times> sw_stores" where
  "on_tat = pass ss_tat (\<lambda>a s. s\<lparr>ss_tat := a\<rparr>)"

definition on_entries :: "(window_entry list \<Rightarrow> 'r \<times> window_entry list) \<Rightarrow> sw_stores \<Rightarrow> 'r \<times> sw_stores" where
  "on_entries = pass ss_entries (\<lambda>a s. s\<lparr>ss_entries := a\<rparr>)"

definition on_bucket_rows :: "(bucket_row list \<Rightarrow> 'r \<times> bucket_row list) \<Rightarrow> sw_stores \<Rightarrow> 'r \<times> sw_stores" where
  "on_bucket_rows = pass ss_rows (\<lambda>a s. s\<lparr>ss_rows := a\<rparr>)"

text \<open>The rest of what one call is given: the request id drawn for the log style and the readings of its statements.\<close>

record sw_call =
  sc_request_id :: uuid
  sc_row_clock :: row_clock
  sc_deny_now :: rat

definition fallback_to ::
    "limiter_env \<Rightarrow> (rat \<Rightarrow> 's \<Rightarrow> (rl_error + 'd) \<times> 's) \<Rightarrow> ('s \<Rightarrow> (rl_error + 'd) \<times> 's) \<Rightarrow> 's \<Rightarrow> (rl_error + 'd) \<times> 's" where
  "fallback_to env redis pg s =
     (let ((r, (_, s')), _) =
        with_pg_fallback (redis_attempt env redis) (\<lambda>(i, x). let (r, y) = pg x in (r, (i, y)))
          (le_settings env) (le_cancelled env) (0, s)
      in (r, s'))"

definition sw_acquire ::
    "(rat \<Rightarrow> rat) \<Rightarrow> (rat \<Rightarrow> rat) \<Rightarrow> (string \<Rightarrow> rat option) \<Rightarrow> limiter_env \<Rightarrow> sw_call \<Rightarrow> SlidingWindow \<Rightarrow> sw_stores
     \<Rightarrow> (rl_error + RateLimitDecision) \<times> sw_stores" where
  "sw_acquire rnd fmt txt env c w s =
     (let rid = (if sw_style w = LogStyle then Some (sc_request_id c) else None);
          pg_log = on_entries (acquire_pg_log rnd (sc_row_clock c) env w rid);
          pg_gcra = on_bucket_rows (acquire_pg_gcra rnd txt env (sc_deny_now c) w);
          now_ms = map_option (\<lambda>t. trunc (rnd (t * 1000))) (le_clock env)
      in case (sw_backend w, sw_style w) of
           (Memory, LogStyle) \<Rightarrow> (case (now_ms, ss_mem_log s) of
               (Some now, Some dq) \<Rightarrow>
                 (let (d, dq') = mem_log_acquire (sw_name w) (sw_limit w) (window_ms rnd w) now (sc_request_id c) dq
                  in (Inr (d\<lparr>rd_request_id := rid\<rparr>), s\<lparr>ss_mem_log := Some dq'\<rparr>))
             | _ \<Rightarrow> (Inl RlRuntimeError, s))
         | (Memory, GcraStyle) \<Rightarrow> (case (now_ms, ss_mem_gcra s) of
               (Some now, Some g) \<Rightarrow>
                 (let (d, g') = mem_gcra_acquire rnd (sw_name w) (sw_limit w) (window_ms rnd w) now g
                  in (d, s\<lparr>ss_mem_gcra := Some g'\<rparr>))
             | _ \<Rightarrow> (Inl RlRuntimeError, s))
         | (Redis, LogStyle) \<Rightarrow> fallback_to env (\<lambda>now. on_zset (acquire_redis_log rnd w rid now)) pg_log s
         | (Redis, GcraStyle) \<Rightarrow> fallback_to env (\<lambda>now. on_tat (acquire_redis_gcra rnd fmt w now)) pg_gcra s
         | (Postgres, LogStyle) \<Rightarrow> pg_log s
         | (Postgres, GcraStyle) \<Rightarrow> pg_gcra s)"

definition sw_refund ::
    "(rat \<Rightarrow> rat) \<Rightarrow> (string \<Rightarrow> rat option) \<Rightarrow> limiter_env \<Rightarrow> SlidingWindow \<Rightarrow> RateLimitDecision \<Rightarrow> sw_stores
     \<Rightarrow> (rl_error + unit) \<times> sw_stores" where
  "sw_refund rnd txt env w d s = (case (rd_backend d, sw_style w) of
       (Redis, LogStyle) \<Rightarrow>
         if rd_request_id d = None then (Inl RlValueError, s)
         else guarded (require_redis env) (on_zset (refund_redis_log d)) s
     | (Redis, GcraStyle) \<Rightarrow>
         if rd_previous_state d = None then (Inr (), s)
         else guarded (require_redis env) (on_tat (\<lambda>k. (Inr (), refund_redis_gcra d k))) s
     | (Memory, LogStyle) \<Rightarrow> (case ss_mem_log s of
           None \<Rightarrow> (Inl RlRuntimeError, s)
         | Some dq \<Rightarrow> (Inr (), case rd_request_id d of
               None \<Rightarrow> s | Some rid \<Rightarrow> s\<lparr>ss_mem_log := Some (mem_log_refund rid dq)\<rparr>))
     | (Memory, GcraStyle) \<Rightarrow> (case ss_mem_gcra s of
           None \<Rightarrow> (Inl RlRuntimeError, s)
         | Some g \<Rightarrow> (Inr (), case rd_previous_state d of
               None \<Rightarrow> s | Some p \<Rightarrow> s\<lparr>ss_mem_gcra := Some (mem_gcra_refund p g)\<rparr>))
     | (Postgres, LogStyle) \<Rightarrow>
         if rd_request_id d = None then (Inr (), s)
         else guarded (require_pg env) (on_entries (\<lambda>es. (Inr (), refund_pg_log w d es))) s
     | (Postgres, GcraStyle) \<Rightarrow>
         if rd_previous_state d = None then (Inr (), s)
         else guarded (require_pg env) (on_bucket_rows (\<lambda>q. (Inr (), refund_pg_gcra rnd txt (le_clk env) w d q))) s)"

definition sw_reset :: "limiter_env \<Rightarrow> SlidingWindow \<Rightarrow> sw_stores \<Rightarrow> (rl_error + unit) \<times> sw_stores" where
  "sw_reset env w s = (case (sw_backend w, sw_style w) of
       (Memory, LogStyle) \<Rightarrow> (case ss_mem_log s of
           None \<Rightarrow> (Inl RlRuntimeError, s) | Some dq \<Rightarrow> (Inr (), s\<lparr>ss_mem_log := Some (mem_log_reset dq)\<rparr>))
     | (Memory, GcraStyle) \<Rightarrow> (case ss_mem_gcra s of
           None \<Rightarrow> (Inl RlRuntimeError, s) | Some g \<Rightarrow> (Inr (), s\<lparr>ss_mem_gcra := Some (mem_gcra_reset g)\<rparr>))
     | (Redis, LogStyle) \<Rightarrow> guarded (require_redis env)
         (on_zset (\<lambda>k. (Inr (), \<lparr>rz_set = [], rz_pexpire = None\<rparr>))) s
     | (Redis, GcraStyle) \<Rightarrow> guarded (require_redis env) (on_tat (\<lambda>k. (Inr (), None))) s
     | (Postgres, LogStyle) \<Rightarrow> guarded (require_pg env) (on_entries (\<lambda>es. (Inr (), reset_pg_log w es))) s
     | (Postgres, GcraStyle) \<Rightarrow> guarded (require_pg env) (on_bucket_rows (\<lambda>q. (Inr (), reset_pg_gcra w q))) s)"

end
