(* ===== verification/Window_Log.thy ===== *)
theory Window_Log
  imports Sliding_Window "HOL-Library.Multiset"
begin

text \<open>
  What the log style guarantees: the contract of a log limiter as a locale, its
  interpretations on the memory log, on the log the memory GCRA keeps beside its
  arrival time, on the Redis sorted set and on the PostgreSQL entries, and what
  follows for the admissions inside a window; then the replies of the Redis
  script at the trust boundary.
\<close>

section \<open>The contract of a window of admissions\<close>

text \<open>No reading of the clock has more than \<open>lmt\<close> admissions inside its window.\<close>

definition window_ok :: "('t::linorder \<Rightarrow> 't \<Rightarrow> bool) \<Rightarrow> nat \<Rightarrow> 't list \<Rightarrow> bool" where
  "window_ok inside lmt H \<longleftrightarrow> (\<forall>t. length (filter (\<lambda>h. h \<le> t \<and> inside t h) H) \<le> lmt)"

text \<open>
  The stamps a run of calls admits, in order, and that the calls follow each
  other: each reads the clock no earlier than the one before it finished.
\<close>

fun admitted :: "('e \<Rightarrow> 's \<Rightarrow> bool \<times> 's) \<Rightarrow> ('e \<Rightarrow> 't) \<Rightarrow> 'e list \<Rightarrow> 's \<Rightarrow> 't list" where
  "admitted acquire time [] s = []"
| "admitted acquire time (e # es) s =
     (let (ok, s') = acquire e s in (if ok then [time e] else []) @ admitted acquire time es s')"

fun serial ::
    "('e \<Rightarrow> 's \<Rightarrow> bool \<times> 's) \<Rightarrow> ('e \<Rightarrow> 't::linorder) \<Rightarrow> ('e \<Rightarrow> 't) \<Rightarrow> ('e \<Rightarrow> 's \<Rightarrow> bool) \<Rightarrow> 't \<Rightarrow> 'e list \<Rightarrow> 's \<Rightarrow> bool" where
  "serial acquire start fin fresh c [] s = True"
| "serial acquire start fin fresh c (e # es) s =
     (c \<le> start e \<and> fresh e s \<and> serial acquire start fin fresh (fin e) es (snd (acquire e s)))"

lemma length_filter_mono: "(\<And>x. P x \<Longrightarrow> Q x) \<Longrightarrow> length (filter P xs) \<le> length (filter Q xs)"
  by (induction xs) auto

text \<open>
  A log limiter: each call reads the clock between \<open>start\<close> and \<open>fin\<close> and, when
  it admits, stamps \<open>time\<close>; its state represents the admissions so far as far as
  they can still be inside a window; it admits only below the limit.
\<close>

locale window_log =
  fixes acquire :: "'e \<Rightarrow> 's \<Rightarrow> bool \<times> 's"
    and rep :: "'t::linorder list \<Rightarrow> 't \<Rightarrow> 's \<Rightarrow> bool"
    and time start fin :: "'e \<Rightarrow> 't"
    and fresh :: "'e \<Rightarrow> 's \<Rightarrow> bool"
    and inside :: "'t \<Rightarrow> 't \<Rightarrow> bool"
    and lmt :: nat
  assumes inside_anti: "t \<le> t' \<Longrightarrow> inside t' h \<Longrightarrow> inside t h"
    and rep_le: "rep H c s \<Longrightarrow> h \<in> set H \<Longrightarrow> h \<le> c"
    and order: "fresh e s \<Longrightarrow> start e \<le> time e \<and> time e \<le> fin e"
    and step: "rep H c s \<Longrightarrow> c \<le> start e \<Longrightarrow> fresh e s \<Longrightarrow> acquire e s = (ok, s') \<Longrightarrow>
      rep (if ok then H @ [time e] else H) (fin e) s'
      \<and> (ok \<longrightarrow> length (filter (inside (time e)) H) < lmt)"
begin

lemma window_ok_append:
  assumes "window_ok inside lmt H" "\<And>h. h \<in> set H \<Longrightarrow> h \<le> now" "length (filter (inside now) H) < lmt"
  shows "window_ok inside lmt (H @ [now])"
  unfolding window_ok_def
proof
  fix t
  show "length (filter (\<lambda>h. h \<le> t \<and> inside t h) (H @ [now])) \<le> lmt"
  proof (cases "now \<le> t")
    case True
    have "length (filter (\<lambda>h. h \<le> t \<and> inside t h) H) \<le> length (filter (inside now) H)"
      using inside_anti[OF True] by (intro length_filter_mono) blast
    then show ?thesis using assms(3) by simp
  next
    case False
    then show ?thesis using assms(1) by (simp add: window_ok_def)
  qed
qed

lemma run_window_ok:
  assumes "rep H c s" "window_ok inside lmt H" "serial acquire start fin fresh c es s"
  shows "window_ok inside lmt (H @ admitted acquire time es s)"
  using assms
proof (induction es arbitrary: H c s)
  case Nil
  then show ?case by simp
next
  case (Cons e es)
  obtain ok s' where a: "acquire e s = (ok, s')" by (cases "acquire e s")
  have pre: "c \<le> start e" "fresh e s" "serial acquire start fin fresh (fin e) es s'" using Cons.prems(3) by (simp_all add: a)
  note st = step[OF Cons.prems(1) pre(1,2) a]
  let ?H = "if ok then H @ [time e] else H"
  have "window_ok inside lmt ?H"
  proof (cases ok)
    case True
    have "h \<in> set H \<Longrightarrow> h \<le> time e" for h
      using rep_le[OF Cons.prems(1)] pre(1) order[OF pre(2)] by fastforce
    then show ?thesis using True st Cons.prems(2) by (simp add: window_ok_append)
  next
    case False
    then show ?thesis using Cons.prems(2) by simp
  qed
  from Cons.IH[OF conjunct1[OF st] this pre(3)] show ?case by (cases ok) (simp_all add: a)
qed

end

section \<open>The log in memory\<close>

abbreviation after_cut :: "int \<Rightarrow> int \<Rightarrow> int \<Rightarrow> bool" where
  "after_cut win t h \<equiv> t - win < h"

definition mem_log_call :: "int \<Rightarrow> int \<Rightarrow> int \<times> uuid \<Rightarrow> mem_log \<Rightarrow> bool \<times> mem_log" where
  "mem_log_call lmt win e dq = (let (d, dq') = mem_log_acquire [] lmt win (fst e) (snd e) dq in (rd_allowed d, dq'))"

text \<open>The deque holds every admission but those a reading up to \<open>c\<close> has put out of the window.\<close>

definition log_rep :: "int \<Rightarrow> int list \<Rightarrow> int \<Rightarrow> int list \<Rightarrow> bool" where
  "log_rep win H c dq \<longleftrightarrow>
     (\<forall>h \<in> set H. h \<le> c) \<and> (\<exists>gone. H = gone @ dq \<and> (\<forall>h \<in> set gone. h \<le> c - win))"

lemma log_rep_evict:
  assumes "log_rep win H c dq" "c \<le> now"
  shows "log_rep win H now (dropWhile (\<lambda>t. t \<le> now - win) dq)"
proof -
  obtain gone where g: "H = gone @ dq" "\<forall>h \<in> set gone. h \<le> c - win" using assms(1) by (auto simp: log_rep_def)
  let ?out = "takeWhile (\<lambda>t. t \<le> now - win) dq"
  have "H = (gone @ ?out) @ dropWhile (\<lambda>t. t \<le> now - win) dq" using g(1) by simp
  moreover have "\<forall>h \<in> set (gone @ ?out). h \<le> now - win"
    using g(2) assms(2) by (auto dest: set_takeWhileD)
  ultimately show ?thesis using assms unfolding log_rep_def by (metis order_trans)
qed

lemma log_rep_live:
  assumes "log_rep win H now dq"
  shows "length (filter (after_cut win now) H) \<le> length dq"
proof -
  obtain gone where g: "H = gone @ dq" "\<forall>h \<in> set gone. h \<le> now - win" using assms by (auto simp: log_rep_def)
  have "filter (after_cut win now) gone = []" using g(2) by (auto simp: filter_empty_conv)
  then show ?thesis using g(1) length_filter_le[of "after_cut win now" dq] by simp
qed

lemma log_rep_push: "log_rep win H now dq \<Longrightarrow> log_rep win (H @ [now]) now (dq @ [now])"
  by (auto simp: log_rep_def)

lemma map_fst_dropWhile: "map fst (dropWhile (\<lambda>e. fst e \<le> k) dq) = dropWhile (\<lambda>t. t \<le> k) (map fst dq)"
  by (simp add: dropWhile_map comp_def)

interpretation mlog: window_log "mem_log_call (int lmt) win" "\<lambda>H c dq. log_rep win H c (map fst dq)" fst fst fst
  "\<lambda>_ _. True" "after_cut win" lmt
proof (unfold_locales, goal_cases)
  case (4 H c s e ok s')
  let ?dq = "dropWhile (\<lambda>x. fst x \<le> fst e - win) s"
  have r: "log_rep win H (fst e) (map fst ?dq)"
    unfolding map_fst_dropWhile using 4(1,2) by (intro log_rep_evict)
  have ok: "ok \<longleftrightarrow> length ?dq < lmt" and s': "s' = (if ok then ?dq @ [e] else ?dq)"
    using 4(4) by (auto simp: mem_log_call_def mem_log_acquire_def Let_def split: if_splits)
  show ?case
    using r log_rep_push[OF r] log_rep_live[OF r] by (auto simp: ok s')
qed (auto simp: log_rep_def)

section \<open>GCRA in memory keeps a log too\<close>

definition mem_gcra_call :: "(rat \<Rightarrow> rat) \<Rightarrow> int \<Rightarrow> int \<Rightarrow> int \<Rightarrow> mem_gcra \<Rightarrow> bool \<times> mem_gcra" where
  "mem_gcra_call rnd lmt win now st =
     (let (r, st') = mem_gcra_acquire rnd [] lmt win now st
      in (case r of Inr d \<Rightarrow> rd_allowed d | Inl _ \<Rightarrow> False, st'))"

lemma mem_gcra_call_log:
  assumes "mem_gcra_call rnd lmt win now st = (ok, st')" "emission rnd win lmt \<noteq> 0"
  shows "mg_log st' = dropWhile (\<lambda>t. t \<le> now - win) (mg_log st) @ (if ok then [now] else [])"
    and "ok \<Longrightarrow> int (length (dropWhile (\<lambda>t. t \<le> now - win) (mg_log st))) < lmt"
  using assms by (auto simp: mem_gcra_call_def mem_gcra_acquire_def Let_def split: if_splits)

interpretation mgcra: window_log "mem_gcra_call rnd (int lmt) win" "\<lambda>H c st. log_rep win H c (mg_log st)" id id id
  "\<lambda>_ _. emission rnd win (int lmt) \<noteq> 0" "after_cut win" lmt
proof (unfold_locales, goal_cases)
  case (4 H c s e ok s')
  have r: "log_rep win H e (dropWhile (\<lambda>t. t \<le> e - win) (mg_log s))"
    using 4(1,2) by (intro log_rep_evict) simp_all
  show ?case
    using r log_rep_push[OF r] log_rep_live[OF r] mem_gcra_call_log[OF 4(4,3)] by auto
qed (auto simp: log_rep_def)

section \<open>The log in Redis\<close>

definition redis_inside :: "int \<Rightarrow> rat \<Rightarrow> rat \<Rightarrow> bool" where
  "redis_inside win t h \<longleftrightarrow> rnd64 (t - of_int win) < h"

definition redis_log_call :: "int \<Rightarrow> int \<Rightarrow> int \<Rightarrow> rat \<times> uuid \<Rightarrow> redis_log \<Rightarrow> bool \<times> redis_log" where
  "redis_log_call win lmt ttl e key =
     (let ((a, _, _), key') = SLIDING_WINDOW_LOG_SCRIPT rnd64 win lmt (snd e) ttl (fst e) key in (a = 1, key'))"

definition zset_rep :: "int \<Rightarrow> rat list \<Rightarrow> rat \<Rightarrow> redis_log \<Rightarrow> bool" where
  "zset_rep win H c key \<longleftrightarrow>
     (\<forall>h \<in> set H. h \<le> c) \<and> (\<forall>e \<in> set (rz_set key). 0 \<le> fst e)
     \<and> (\<exists>gone. mset H = gone + mset (map fst (rz_set key)) \<and> (\<forall>h \<in># gone. \<not> redis_inside win c h))"

definition zset_fresh :: "rat \<times> uuid \<Rightarrow> redis_log \<Rightarrow> bool" where
  "zset_fresh e key \<longleftrightarrow> 0 \<le> fst e \<and> snd e \<notin> snd ` set (rz_set key)"

lemma redis_inside_anti: "t \<le> t' \<Longrightarrow> redis_inside win t' h \<Longrightarrow> redis_inside win t h"
  unfolding redis_inside_def using rnd64_mono[of "t - of_int win" "t' - of_int win"] by simp

lemma mset_filter_split:
  "mset (map f xs) = mset (map f (filter P xs)) + mset (map f (filter (\<lambda>x. \<not> P x) xs))"
  by (induction xs) auto

lemma live_le:
  assumes "mset H = gone + mset zs" "\<forall>h \<in># gone. \<not> P h"
  shows "length (filter P H) \<le> length zs"
proof -
  have "length (filter P H) = size (filter_mset P (mset H))"
    by (simp flip: mset_filter size_mset)
  also have "\<dots> = size (filter_mset P (mset zs))"
    using assms(2) by (simp add: assms(1) filter_mset_eq_mempty_iff[THEN iffD2])
  also have "\<dots> \<le> length zs" by (metis size_filter_mset_lesseq size_mset)
  finally show ?thesis .
qed

lemma zset_rep_evict:
  assumes "zset_rep win H c key" "c \<le> now"
  shows "zset_rep win H now (key\<lparr>rz_set := filter (\<lambda>e. \<not> (0 \<le> fst e \<and> fst e \<le> rnd64 (now - of_int win))) (rz_set key)\<rparr>)"
proof -
  obtain gone where g: "mset H = gone + mset (map fst (rz_set key))" "\<forall>h \<in># gone. \<not> redis_inside win c h"
    using assms(1) by (auto simp: zset_rep_def)
  define P where "P = (\<lambda>e :: rat \<times> uuid. 0 \<le> fst e \<and> fst e \<le> rnd64 (now - of_int win))"
  let ?out = "mset (map fst (filter P (rz_set key)))"
  have 1: "mset H = (gone + ?out) + mset (map fst (filter (\<lambda>e. \<not> P e) (rz_set key)))"
    unfolding g(1) mset_filter_split[of fst "rz_set key" P] by (simp only: union_assoc)
  have old: "\<not> redis_inside win now h" if "h \<in># gone" for h
    using that g(2) redis_inside_anti[OF assms(2), of win h] by blast
  have out: "\<not> redis_inside win now h" if "h \<in># ?out" for h
    using that by (auto simp: redis_inside_def P_def)
  have 2: "\<forall>h \<in># gone + ?out. \<not> redis_inside win now h"
  proof
    fix h assume "h \<in># gone + ?out"
    then show "\<not> redis_inside win now h" using old out unfolding union_iff by blast
  qed
  have 3: "\<forall>h \<in> set H. h \<le> now"
    using assms(1) order_trans[OF _ assms(2)] unfolding zset_rep_def by blast
  have 4: "\<forall>e \<in> set (filter (\<lambda>e. \<not> P e) (rz_set key)). 0 \<le> fst e"
    using assms(1) by (simp add: zset_rep_def)
  have "zset_rep win H now (key\<lparr>rz_set := filter (\<lambda>e. \<not> P e) (rz_set key)\<rparr>)"
  proof -
    have rz: "rz_set (key\<lparr>rz_set := filter (\<lambda>e. \<not> P e) (rz_set key)\<rparr>) = filter (\<lambda>e. \<not> P e) (rz_set key)"
      by simp
    show ?thesis unfolding zset_rep_def rz using 1 2 3 4 by blast
  qed
  then show ?thesis unfolding P_def .
qed

lemma zset_rep_push:
  assumes "zset_rep win H now key" "zset_fresh (now, rid) key"
  shows "zset_rep win (H @ [now]) now (key\<lparr>rz_set := zadd now rid (rz_set key), rz_pexpire := p\<rparr>)"
proof -
  have "filter (\<lambda>e. snd e \<noteq> rid) (rz_set key) = rz_set key"
    using assms(2) by (auto simp: zset_fresh_def filter_id_conv)
  then have z: "zadd now rid (rz_set key) = insort_key fst (now, rid) (rz_set key)" by (simp add: zadd_def)
  obtain gone where "mset H = gone + mset (map fst (rz_set key))" "\<forall>h \<in># gone. \<not> redis_inside win now h"
    using assms(1) by (auto simp: zset_rep_def)
  then show ?thesis
    using assms by (auto simp: zset_rep_def z zset_fresh_def set_insort_key intro!: exI[of _ gone])
qed

lemma zset_rep_live:
  assumes "zset_rep win H now key" shows "length (filter (redis_inside win now) H) \<le> length (rz_set key)"
  using assms live_le[of H _ "map fst (rz_set key)" "redis_inside win now"] by (auto simp: zset_rep_def)

lemma zset_rep_pexpire: "zset_rep win H c key \<Longrightarrow> zset_rep win H c (key\<lparr>rz_pexpire := p\<rparr>)"
  by (simp add: zset_rep_def)

interpretation rlog: window_log "redis_log_call win (int lmt) ttl" "zset_rep win" fst fst fst
  zset_fresh "redis_inside win" lmt
proof (unfold_locales, goal_cases)
  case (1 t t' h)
  then show ?case by (rule redis_inside_anti)
next
  case (4 H c s e ok s')
  let ?z = "filter (\<lambda>x. \<not> (0 \<le> fst x \<and> fst x \<le> rnd64 (fst e - of_int win))) (rz_set s)"
  let ?key = "s\<lparr>rz_set := ?z\<rparr>"
  have r: "zset_rep win H (fst e) ?key" using 4(1,2) by (rule zset_rep_evict)
  have f: "zset_fresh (fst e, snd e) ?key" using 4(3) by (auto simp: zset_fresh_def)
  have ok: "ok \<longleftrightarrow> length ?z < lmt"
    and s': "s' = (if ok then ?key\<lparr>rz_set := zadd (fst e) (snd e) (rz_set ?key), rz_pexpire := Some ttl\<rparr>
                   else ?key\<lparr>rz_pexpire := Some ttl\<rparr>)"
    using 4(4) by (auto simp: redis_log_call_def SLIDING_WINDOW_LOG_SCRIPT_def Let_def split: if_splits)
  show ?case
    using zset_rep_push[OF r f, of "Some ttl"] zset_rep_live[OF r] zset_rep_pexpire[OF r, of "Some ttl"]
    by (cases ok) (simp_all add: ok s')
qed (auto simp: zset_rep_def)

section \<open>The log in PostgreSQL\<close>

text \<open>
  One call, under the bucket's advisory lock: the readings of its statement lie
  between \<open>pe_start\<close> and \<open>pe_fin\<close>, and the count that decides the insert is
  taken before the inserted stamp is read.
\<close>

record pg_event =
  pe_clk :: row_clock
  pe_start :: timestamptz
  pe_fin :: timestamptz
  pe_rid :: uuid

definition pg_stamp :: "pg_event \<Rightarrow> timestamptz" where
  "pg_stamp e = pe_clk e 1 0"

definition pg_readings :: "pg_event \<Rightarrow> bool" where
  "pg_readings e \<longleftrightarrow> (\<forall>k i. pe_start e \<le> pe_clk e k i \<and> pe_clk e k i \<le> pe_fin e)
     \<and> (\<forall>i. pe_clk e 2 i \<le> pg_stamp e)"

definition pg_inside :: "int \<Rightarrow> timestamptz \<Rightarrow> timestamptz \<Rightarrow> bool" where
  "pg_inside win t h \<longleftrightarrow> t - win * 1000 \<le> h"

definition pg_log_call :: "string \<Rightarrow> int \<Rightarrow> int \<Rightarrow> pg_event \<Rightarrow> window_entry list \<Rightarrow> bool \<times> window_entry list" where
  "pg_log_call name win lmt e rows =
     (let ((ins, _), rows') = log_fused (pe_clk e) name win lmt (pe_rid e) rows in (ins, rows'))"

definition stamps_of :: "string \<Rightarrow> window_entry list \<Rightarrow> timestamptz list" where
  "stamps_of name rows = map we_ts (filter (\<lambda>e. we_bucket e = name) rows)"

definition entries_rep :: "string \<Rightarrow> int \<Rightarrow> timestamptz list \<Rightarrow> timestamptz \<Rightarrow> window_entry list \<Rightarrow> bool" where
  "entries_rep name win H c rows \<longleftrightarrow>
     (\<forall>h \<in> set H. h \<le> c)
     \<and> (\<exists>gone. mset H = gone + mset (stamps_of name rows) \<and> (\<forall>h \<in># gone. \<not> pg_inside win c h))"

lemma enumerate_count:
  assumes "\<And>i x. Q x \<Longrightarrow> P i x"
  shows "length (filter Q rows) \<le> length (filter (\<lambda>(i, x). P i x) (enumerate n rows))"
proof (induction rows arbitrary: n)
  case (Cons a rows)
  then show ?case using assms[of a n] le_SucI[OF Cons.IH[of "Suc n"]] by auto
qed simp

lemma enumerate_split:
  "mset (map f (filter Q rows))
   = mset (map f (filter Q (map snd (filter (\<lambda>(i, x). P i x) (enumerate n rows)))))
     + mset (map f (filter Q (map snd (filter (\<lambda>(i, x). \<not> P i x) (enumerate n rows)))))"
  by (induction rows arbitrary: n) auto

definition pruned :: "row_clock \<Rightarrow> string \<Rightarrow> int \<Rightarrow> window_entry list \<Rightarrow> window_entry list" where
  "pruned clk name win rows =
     map snd (filter (\<lambda>(i, e). \<not> (we_bucket e = name \<and> we_ts e < clk 0 i - win * 1000)) (enumerate 0 rows))"

lemma entries_rep_prune:
  assumes "entries_rep name win H c rows" "c \<le> pe_start e" "pg_readings e"
  shows "entries_rep name win H (pe_fin e) (pruned (pe_clk e) name win rows)"
proof -
  obtain gone where g: "mset H = gone + mset (stamps_of name rows)" "\<forall>h \<in># gone. \<not> pg_inside win c h"
    using assms(1) by (auto simp: entries_rep_def)
  have cf: "c \<le> pe_fin e" using assms(2,3) unfolding pg_readings_def by (meson order_trans)
  define P where "P = (\<lambda>i (x :: window_entry). \<not> (we_bucket x = name \<and> we_ts x < pe_clk e 0 i - win * 1000))"
  let ?out = "mset (stamps_of name (map snd (filter (\<lambda>(i, x). \<not> P i x) (enumerate 0 rows))))"
  have kept: "pruned (pe_clk e) name win rows = map snd (filter (\<lambda>(i, x). P i x) (enumerate 0 rows))"
    by (simp add: pruned_def P_def)
  have 1: "mset H = (gone + ?out) + mset (stamps_of name (pruned (pe_clk e) name win rows))"
    unfolding g(1) kept stamps_of_def
    using enumerate_split[of we_ts "\<lambda>x. we_bucket x = name" rows P 0] by simp
  have old: "\<not> pg_inside win (pe_fin e) h" if "h \<in># gone" for h
    using that g(2) cf by (auto simp: pg_inside_def)
  have out: "\<not> pg_inside win (pe_fin e) h" if h: "h \<in># ?out" for h
  proof -
    obtain i x where "(i, x) \<in> set (enumerate 0 rows)" "\<not> P i x" "h = we_ts x"
      using h by (auto simp: stamps_of_def)
    then have "h < pe_clk e 0 i - win * 1000" by (simp add: P_def)
    moreover have "pe_clk e 0 i \<le> pe_fin e" using assms(3) by (simp add: pg_readings_def)
    ultimately show ?thesis by (simp add: pg_inside_def)
  qed
  have 2: "\<forall>h \<in># gone + ?out. \<not> pg_inside win (pe_fin e) h"
  proof
    fix h assume "h \<in># gone + ?out"
    then show "\<not> pg_inside win (pe_fin e) h" using old out unfolding union_iff by blast
  qed
  have 3: "\<forall>h \<in> set H. h \<le> pe_fin e"
    using assms(1) order_trans[OF _ cf] unfolding entries_rep_def by blast
  show ?thesis unfolding entries_rep_def using 1 2 3 by blast
qed

lemma entries_rep_live:
  assumes "entries_rep name win H c rows" "c \<le> pe_start e" "pg_readings e"
  shows "length (filter (pg_inside win (pg_stamp e)) H) \<le> length (in_window (pe_clk e) 2 name win rows)"
proof -
  obtain gone where g: "mset H = gone + mset (stamps_of name rows)" "\<forall>h \<in># gone. \<not> pg_inside win c h"
    using assms(1) by (auto simp: entries_rep_def)
  have cs: "c \<le> pg_stamp e" using assms(2,3) unfolding pg_readings_def pg_stamp_def by (meson order_trans)
  let ?P = "pg_inside win (pg_stamp e)"
  have dead: "filter_mset ?P gone = {#}"
    using g(2) cs by (auto simp: filter_mset_eq_mempty_iff pg_inside_def)
  have "length (filter ?P H) = size (filter_mset ?P (mset H))" by (simp flip: mset_filter size_mset)
  also have "\<dots> = length (filter ?P (stamps_of name rows))"
    unfolding g(1) by (simp add: dead flip: mset_filter)
  also have "\<dots> = length (filter (\<lambda>x. we_bucket x = name \<and> ?P (we_ts x)) rows)"
    by (simp add: stamps_of_def filter_map comp_def conj_commute)
  also have "\<dots> \<le> length (filter (\<lambda>(i, x). we_bucket x = name \<and> pe_clk e 2 i - win * 1000 \<le> we_ts x) (enumerate 0 rows))"
  proof (rule enumerate_count)
    fix i x assume "we_bucket x = name \<and> ?P (we_ts x)"
    moreover have "pe_clk e 2 i \<le> pg_stamp e" using assms(3) by (simp add: pg_readings_def)
    ultimately show "we_bucket x = name \<and> pe_clk e 2 i - win * 1000 \<le> we_ts x" by (simp add: pg_inside_def)
  qed
  finally show ?thesis by (simp add: in_window_def)
qed

lemma entries_rep_push:
  assumes "entries_rep name win H c rows" "t \<le> c"
  shows "entries_rep name win (H @ [t]) c (rows @ [\<lparr>we_bucket = name, we_ts = t, we_request_id = rid\<rparr>])"
proof -
  obtain gone where "mset H = gone + mset (stamps_of name rows)" "\<forall>h \<in># gone. \<not> pg_inside win c h"
    using assms(1) by (auto simp: entries_rep_def)
  then show ?thesis using assms by (auto simp: entries_rep_def stamps_of_def intro!: exI[of _ gone])
qed

interpretation plog: window_log "pg_log_call name win (int lmt)" "entries_rep name win" pg_stamp pe_start pe_fin
  "\<lambda>e _. pg_readings e" "pg_inside win" lmt
proof (unfold_locales, goal_cases)
  case (3 e s)
  then show ?case by (simp add: pg_readings_def pg_stamp_def)
next
  case (4 H c s e ok s')
  have r: "entries_rep name win H (pe_fin e) (pruned (pe_clk e) name win s)"
    using 4(1-3) by (rule entries_rep_prune)
  have live: "length (filter (pg_inside win (pg_stamp e)) H) \<le> length (in_window (pe_clk e) 2 name win s)"
    using 4(1-3) by (rule entries_rep_live)
  have ok: "ok \<longleftrightarrow> length (in_window (pe_clk e) 2 name win s) < lmt"
    and s': "s' = (if ok then pruned (pe_clk e) name win s
                     @ [\<lparr>we_bucket = name, we_ts = pg_stamp e, we_request_id = pe_rid e\<rparr>]
                   else pruned (pe_clk e) name win s)"
    using 4(4) by (auto simp: pg_log_call_def log_fused_def pruned_def pg_stamp_def Let_def split: if_splits)
  have "pg_stamp e \<le> pe_fin e" using 4(3) by (simp add: pg_readings_def pg_stamp_def)
  from entries_rep_push[OF r this, of "pe_rid e"] show ?case
    using r live by (cases ok) (simp_all add: ok s')
qed (auto simp: entries_rep_def pg_inside_def)

section \<open>Properties\<close>

definition empty_zset :: redis_log where
  "empty_zset = \<lparr>rz_set = [], rz_pexpire = None\<rparr>"

lemma window_ok_Nil: "window_ok inside lmt []"
  by (simp add: window_ok_def)


definition sample_event :: "timestamptz \<Rightarrow> uuid \<Rightarrow> pg_event" where
  "sample_event t r = \<lparr>pe_clk = (\<lambda>_ _. t), pe_start = t, pe_fin = t, pe_rid = r\<rparr>"


section \<open>The reply of the script\<close>

text \<open>The entries the script leaves after its eviction.\<close>

lemma script_live:
  assumes "\<forall>e \<in> set (rz_set key). 0 \<le> fst e"
  shows "filter (\<lambda>e. \<not> (0 \<le> fst e \<and> fst e \<le> rnd64 (now - of_int win))) (rz_set key)
       = filter (\<lambda>e. redis_inside win now (fst e)) (rz_set key)"
  using assms by (intro filter_cong) (auto simp: redis_inside_def)

lemma lowered_limit_reply:
  assumes "\<forall>e \<in> set (rz_set key). 0 \<le> fst e"
    and over: "sw_limit w < int (length (filter (\<lambda>e. redis_inside (window_ms rnd64 w) now (fst e)) (rz_set key)))"
  shows "fst (acquire_redis_log rnd64 w (Some rid) now key) = Inl RateLimitStoreCorrupt"
proof -
  let ?n = "int (length (filter (\<lambda>e. redis_inside (window_ms rnd64 w) now (fst e)) (rz_set key)))"
  obtain h k where "SLIDING_WINDOW_LOG_SCRIPT rnd64 (window_ms rnd64 w) (sw_limit w) rid (to_ms rnd64 (sw_ttl w)) now key
      = ((0, ?n, h), k)"
    using over unfolding SLIDING_WINDOW_LOG_SCRIPT_def Let_def script_live[OF assms(1)] by simp
  then show ?thesis
    using over by (simp add: acquire_redis_log_def Let_def validate_script_reply_def int_elem_def)
qed

lemma pg_log_admits_empty:
  assumes "require_pg env = Inr ()" "le_lock_free env" "1 \<le> sw_limit w"
  shows "\<exists>d rows. acquire_pg_log rnd clk env w (Some rid) [] = (Inr d, rows) \<and> rd_allowed d \<and> rd_backend d = Postgres"
  using assms by (simp add: acquire_pg_log_def guarded_def log_fused_def in_window_def Let_def)

lemma fallback_to_outage:
  assumes "require_redis env = Inr ()" "le_fault env 0 = None" "le_settings env = Some cfg"
    "ls_pg_fallback_enabled cfg" "redis (le_redis_now env 0) s = (Inl e, s')" "is_outage e"
  shows "fallback_to env redis pg s = pg s'"
proof -
  have a: "redis_attempt env redis (0, s) = (Inl e, (Suc 0, s'))"
    using assms(1,2,5) by (simp add: redis_attempt_def guarded_def)
  have "\<not> is_weather e" using assms(6) by (auto simp: is_weather_def is_outage_def)
  then show ?thesis
    unfolding fallback_to_def with_pg_fallback_def
    using fallback_other[of "redis_attempt env redis" "(0, s)"] assms(3,4,6)
    by (simp add: a fail_closed_def split_beta Let_def)
qed

text \<open>
  C30: a limit lowered while the Redis window still holds more entries than the new
  limit makes the store's honest denial unreadable: the reply's count lies above
  the limit, the validation calls the store corrupt, and the fallback asks a
  PostgreSQL window that knows none of those admissions, which admits.
\<close>

theorem lowered_limit_overadmits:
  assumes w: "sw_backend w = Redis" "sw_style w = LogStyle" "1 \<le> sw_limit w"
    and env: "require_redis env = Inr ()" "require_pg env = Inr ()" "le_settings env = Some cfg"
      "ls_pg_fallback_enabled cfg" "le_lock_free env" "le_fault env 0 = None"
    and zset: "\<forall>e \<in> set (rz_set (ss_zset s)). 0 \<le> fst e"
      "sw_limit w < int (length (filter (\<lambda>e. redis_inside (window_ms rnd64 w) (le_redis_now env 0) (fst e))
                                   (rz_set (ss_zset s))))"
    and entries: "ss_entries s = []"
  shows "\<exists>d s'. sw_acquire rnd64 lua_tostring txt env c w s = (Inr d, s') \<and> rd_allowed d \<and> rd_backend d = Postgres"
proof -
  let ?rid = "Some (sc_request_id c)"
  define z where "z = snd (acquire_redis_log rnd64 w ?rid (le_redis_now env 0) (ss_zset s))"
  have corrupt: "acquire_redis_log rnd64 w ?rid (le_redis_now env 0) (ss_zset s) = (Inl RateLimitStoreCorrupt, z)"
    using lowered_limit_reply[OF zset, of "sc_request_id c"] by (simp add: z_def prod_eq_iff)
  then have bad: "on_zset (acquire_redis_log rnd64 w ?rid (le_redis_now env 0)) s
      = (Inl RateLimitStoreCorrupt, s\<lparr>ss_zset := z\<rparr>)"
    by (simp add: on_zset_def pass_def)
  from fallback_to_outage[OF env(1,6,3,4), of "\<lambda>now. on_zset (acquire_redis_log rnd64 w ?rid now)", OF bad]
  have "sw_acquire rnd64 lua_tostring txt env c w s
      = on_entries (acquire_pg_log rnd64 (sc_row_clock c) env w ?rid) (s\<lparr>ss_zset := z\<rparr>)"
    by (simp add: sw_acquire_def w is_outage_def Let_def)
  moreover obtain d rows where "acquire_pg_log rnd64 (sc_row_clock c) env w ?rid [] = (Inr d, rows)"
    "rd_allowed d" "rd_backend d = Postgres"
    using pg_log_admits_empty[OF env(2,5) w(3), of rnd64 "sc_row_clock c" "sc_request_id c"] by blast
  ultimately show ?thesis by (simp add: on_entries_def pass_def entries)
qed

definition sample_window :: SlidingWindow where
  "sample_window = \<lparr>sw_name = ''w'', sw_limit = 1, sw_window = 10000, sw_backend = Redis, sw_style = LogStyle,
     sw_ttl = seconds 61\<rparr>"

definition sample_limiter_env :: limiter_env where
  "sample_limiter_env = \<lparr>le_redis = True, le_pool = True,
     le_settings = Some \<lparr>ls_token_bucket_lock_timeout_ms = 5000, ls_sliding_window_lock_timeout_ms = 5000,
                         ls_pg_fallback_enabled = True\<rparr>,
     le_clock = None, le_redis_now = (\<lambda>_. 3), le_pg_now = 3, le_clk = (\<lambda>_. 3000),
     le_lock_free = True, le_fault = (\<lambda>_. None), le_cancelled = (\<lambda>_. False)\<rparr>"

definition sample_stores :: sw_stores where
  "sample_stores = \<lparr>ss_mem_log = None, ss_mem_gcra = None,
     ss_zset = \<lparr>rz_set = [(1, 5), (2, 6)], rz_pexpire = Some 61000\<rparr>, ss_tat = None, ss_entries = [], ss_rows = []\<rparr>"

lemma sample_window_ms: "window_ms rnd64 sample_window = 10"
proof -
  have e: "rnd64 (rnd64 (1 / 100) * 1000) = 10" by code_simp
  show ?thesis
    by (simp add: window_ms_def to_ms_def total_seconds_def sample_window_def usec_per_sec_def e trunc_def)
qed

theorem lowered_limit_overadmits_witness:
  "\<exists>d s'. sw_acquire rnd64 lua_tostring (\<lambda>_. None) sample_limiter_env
      \<lparr>sc_request_id = 9, sc_row_clock = (\<lambda>_ _. 3000), sc_deny_now = 3\<rparr> sample_window sample_stores = (Inr d, s')
     \<and> rd_allowed d \<and> rd_backend d = Postgres"
proof -
  have r: "rnd64 (- 7) = - 7" using f64.rnd_int[of "- 7"] by simp
  show ?thesis
    by (rule lowered_limit_overadmits[where cfg = "\<lparr>ls_token_bucket_lock_timeout_ms = 5000,
          ls_sliding_window_lock_timeout_ms = 5000, ls_pg_fallback_enabled = True\<rparr>"])
      (simp_all add: sample_window_ms, simp_all add: sample_window_def sample_limiter_env_def sample_stores_def
        require_redis_def require_pg_def redis_inside_def r)
qed

section \<open>Windows below a millisecond\<close>

text \<open>
  A window shorter than a millisecond passes the constructor but counts as no
  window at all: the log style in memory never denies while its clock stands or
  advances, and the GCRA style divides by zero on its first grant.
\<close>

lemma zero_window_never_denies:
  assumes "\<forall>e \<in> set dq. fst e \<le> now" "1 \<le> lmt"
  shows "rd_allowed (fst (mem_log_acquire name lmt 0 now rid dq))"
proof -
  have e: "dropWhile (\<lambda>e. fst e \<le> now - 0) dq = []" using assms(1) by simp
  show ?thesis using assms(2) unfolding mem_log_acquire_def Let_def e by simp
qed

lemma zero_window_gcra_raises:
  assumes "1 \<le> lmt" "\<bar>now\<bar> < 2 ^ 53"
  shows "fst (mem_gcra_acquire rnd64 name lmt 0 now new_mem_gcra) = Inl RlZeroDivision"
  using assms rnd64_int[of now] by (simp add: mem_gcra_acquire_def new_mem_gcra_def emission_def Let_def)

end
