(* ===== verification/Gcra.thy ===== *)
theory Gcra
  imports Sliding_Window
begin

text \<open>
  What the GCRA style guarantees: the step the Redis script and the PostgreSQL
  upsert share, the bound on the calls they grant over a span of time, whatever
  the clock does inside it, and the burst that comes close to that bound.
\<close>

section \<open>The rate GCRA admits\<close>

text \<open>The step the Redis script and the PostgreSQL upsert share.\<close>

definition gcra_core ::
    "(rat \<Rightarrow> rat) \<Rightarrow> (rat \<Rightarrow> rat) \<Rightarrow> rat \<Rightarrow> rat \<Rightarrow> rat \<Rightarrow> rat option \<Rightarrow> bool \<times> rat option" where
  "gcra_core rnd fmt em tol now key =
     (let base = max (case key of None \<Rightarrow> now | Some t \<Rightarrow> t) now; new_tat = rnd (base + em)
      in if now < rnd (new_tat - tol) then (False, key) else (True, Some (fmt new_tat)))"

lemma gcra_script_core:
  "(case SLIDING_WINDOW_GCRA_SCRIPT rnd fmt em tol em now key of ((a, _), key') \<Rightarrow> (a = 1, key'))
   = gcra_core rnd fmt em tol now key"
  by (auto simp: SLIDING_WINDOW_GCRA_SCRIPT_def gcra_core_def Let_def max_def)

text \<open>The upsert takes the same step on the row of a bucket that holds an arrival time.\<close>

lemma gcra_fused_core:
  assumes "row_by k_name name rows = Some q" "k_kind q = ''gcra''" "k_state q ''tat'' = Some (JNum t)" "rnd t = t"
  shows "\<exists>rows'. gcra_fused rnd txt clk name em win now rows
        = Inr (if fst (gcra_core rnd (\<lambda>x. x) em win now (Some t)) then snd (gcra_core rnd (\<lambda>x. x) em win now (Some t)) else None, rows')
     \<and> (\<exists>q'. row_by k_name name rows' = Some q' \<and> k_kind q' = ''gcra''
          \<and> k_state q' ''tat'' = map_option JNum (snd (gcra_core rnd (\<lambda>x. x) em win now (Some t))))"
proof (cases "now < rnd (rnd (max t now + em) - win)")
  case True
  then show ?thesis
    using assms by (simp add: gcra_fused_def gcra_core_def Let_def max.commute)
next
  case False
  let ?f = "\<lambda>x. x\<lparr>k_state := gcra_doc (rnd (max t now + em)), k_updated_at := clk 1\<rparr>"
  have "row_by k_name name (upd_where (\<lambda>x. k_name x = name) ?f rows) = Some (?f q)"
    using assms(1) row_by_key[OF assms(1)] by (simp add: row_by_upd_where)
  then show ?thesis
    using False assms
    by (simp add: gcra_fused_def gcra_core_def Let_def max.commute gcra_doc_def jsonb_build_object_apply)
qed

text \<open>How many of a list of calls the script grants, and the arrival time it leaves.\<close>

fun gcra_run ::
    "(rat \<Rightarrow> rat) \<Rightarrow> (rat \<Rightarrow> rat) \<Rightarrow> rat \<Rightarrow> rat \<Rightarrow> rat list \<Rightarrow> rat option \<Rightarrow> nat \<times> rat option" where
  "gcra_run rnd fmt em tol [] key = (0, key)"
| "gcra_run rnd fmt em tol (now # ts) key =
     (let ((a, _), key') = SLIDING_WINDOW_GCRA_SCRIPT rnd fmt em tol em now key;
          (n, key'') = gcra_run rnd fmt em tol ts key'
      in ((if a = 1 then Suc n else n), key''))"

lemma gcra_run_core:
  "gcra_run rnd fmt em tol (now # ts) key =
     (let (ok, key') = gcra_core rnd fmt em tol now key; (n, key'') = gcra_run rnd fmt em tol ts key'
      in ((if ok then Suc n else n), key''))"
  unfolding gcra_script_core[symmetric] by (simp add: Let_def split_beta)

lemma gcra_run_none: "gcra_run rnd fmt em tol ts key = (0, key') \<Longrightarrow> key' = key"
proof (induction ts arbitrary: key)
  case (Cons now ts)
  have "\<not> fst (gcra_core rnd fmt em tol now key)"
    using Cons.prems unfolding gcra_run_core by (auto simp: Let_def split_beta split: if_splits)
  then have "gcra_core rnd fmt em tol now key = (False, key)"
    by (auto simp: gcra_core_def Let_def split: if_splits)
  then show ?case
    using Cons.IH[of key] Cons.prems unfolding gcra_run_core by (simp add: Let_def split_beta prod_eq_iff)
qed simp

text \<open>Roundings and texts that are off by at most \<open>eps\<close> up to \<open>M\<close>.\<close>

locale gcra_range = float_arith +
  fixes fmt :: "rat \<Rightarrow> rat" and M eps :: rat
  assumes near: "0 \<le> x \<Longrightarrow> x \<le> M \<Longrightarrow> \<bar>rnd x - x\<bar> \<le> eps"
    and text_near: "0 \<le> x \<Longrightarrow> x \<le> M \<Longrightarrow> \<bar>fmt x - x\<bar> \<le> eps"
begin

lemma grant_bounds:
  assumes range: "0 \<le> lo" "0 \<le> em" "0 \<le> tol" "hi + tol + 2 * eps < M" "0 \<le> eps"
    and now: "lo \<le> now" "now \<le> hi" and step: "gcra_core rnd fmt em tol now key = (True, key')"
  shows "\<exists>t. key' = Some t \<and> t \<le> hi + tol + 2 * eps
     \<and> max (case key of None \<Rightarrow> now | Some t \<Rightarrow> t) now + em - 2 * eps \<le> t"
proof -
  define b where "b = max (case key of None \<Rightarrow> now | Some t \<Rightarrow> t) now"
  have b0: "0 \<le> b" using now range by (simp add: b_def)
  let ?n = "rnd (b + em)"
  have le: "rnd (?n - tol) \<le> now" and k: "key' = Some (fmt ?n)"
    using step by (auto simp: gcra_core_def b_def Let_def split: if_splits)
  have M: "b + em \<le> M"
  proof (rule ccontr)
    assume "\<not> b + em \<le> M"
    then have "rnd M \<le> ?n" by (intro rnd_mono) simp
    moreover have "0 \<le> M" using range now by linarith
    ultimately have "M - eps - tol \<le> ?n - tol" using near[of M] by linarith
    from rnd_mono[OF this] have "rnd (M - eps - tol) \<le> now" using le by simp
    moreover have "0 \<le> M - eps - tol" "M - eps - tol \<le> M" using range now by linarith+
    ultimately show False using near[of "M - eps - tol"] range now by linarith
  qed
  have n: "\<bar>?n - (b + em)\<bar> \<le> eps" using near[of "b + em"] M b0 range by simp
  have n0: "0 \<le> ?n" using b0 range by (intro rnd_nonneg) simp
  have nM: "?n \<le> hi + tol + eps"
  proof (rule ccontr)
    assume "\<not> ?n \<le> hi + tol + eps"
    then have h: "hi + eps < ?n - tol" by simp
    have "?n - tol \<le> M \<or> M \<le> ?n - tol" by linarith
    then show False
    proof
      assume "?n - tol \<le> M"
      moreover have "0 \<le> ?n - tol" using h range now by linarith
      ultimately show False using near[of "?n - tol"] h le now by linarith
    next
      assume "M \<le> ?n - tol"
      from rnd_mono[OF this] show False using near[of M] le range now by linarith
    qed
  qed
  have f: "\<bar>fmt ?n - ?n\<bar> \<le> eps" using text_near[OF n0] nM range by linarith
  show ?thesis unfolding b_def[symmetric] using k n f nM by (intro exI[of _ "fmt ?n"] conjI) (linarith | simp)+
qed

lemma run_bound:
  assumes range: "0 \<le> lo" "0 \<le> em" "0 \<le> tol" "hi + tol + 2 * eps < M" "0 \<le> eps"
    and "\<forall>t \<in> set ts. lo \<le> t \<and> t \<le> hi"
    and "gcra_run rnd fmt em tol ts key = (n, key')" "0 < n"
  shows "\<exists>t. key' = Some t \<and> t \<le> hi + tol + 2 * eps
     \<and> max (case key of None \<Rightarrow> lo | Some t \<Rightarrow> t) lo + of_nat n * (em - 2 * eps) \<le> t"
  using assms(6-)
proof (induction ts arbitrary: key n)
  case Nil
  then show ?case by simp
next
  case (Cons now ts)
  obtain ok k1 where c: "gcra_core rnd fmt em tol now key = (ok, k1)" by (cases "gcra_core rnd fmt em tol now key")
  obtain m k2 where r: "gcra_run rnd fmt em tol ts k1 = (m, k2)" by (cases "gcra_run rnd fmt em tol ts k1")
  have run: "n = (if ok then Suc m else m)" "key' = k2"
    using Cons.prems(2) unfolding gcra_run_core c Let_def case_prod_conv r by auto
  have now: "lo \<le> now" "now \<le> hi" and rest: "\<forall>t \<in> set ts. lo \<le> t \<and> t \<le> hi" using Cons.prems(1) by simp_all
  show ?case
  proof (cases ok)
    case False
    then have "k1 = key" using c by (auto simp: gcra_core_def Let_def split: if_splits)
    then show ?thesis using Cons.IH[OF rest, of key m] r run False Cons.prems(3) by simp
  next
    case True
    obtain t1 where t1: "k1 = Some t1" "t1 \<le> hi + tol + 2 * eps"
      "max (case key of None \<Rightarrow> now | Some t \<Rightarrow> t) now + em - 2 * eps \<le> t1"
      using grant_bounds[OF range now, of key k1] c True by auto
    have base: "max (case key of None \<Rightarrow> lo | Some t \<Rightarrow> t) lo \<le> max (case key of None \<Rightarrow> now | Some t \<Rightarrow> t) now"
      using now by (cases key) auto
    have n: "of_nat n * (em - 2 * eps) = (em - 2 * eps) + of_nat m * (em - 2 * eps)"
      using run True by (simp add: algebra_simps)
    show ?thesis
    proof (cases "m = 0")
      case True
      have "k2 = k1" using r[unfolded True] by (rule gcra_run_none)
      moreover have "of_nat n * (em - 2 * eps) = em - 2 * eps" using n True by simp
      ultimately show ?thesis using t1 base run(2) by (intro exI[of _ t1] conjI) (linarith | simp)+
    next
      case False
      then obtain t2 where t2: "k2 = Some t2" "t2 \<le> hi + tol + 2 * eps"
        "max t1 lo + of_nat m * (em - 2 * eps) \<le> t2"
        using Cons.IH[OF rest r[folded run(2)]] t1(1) run(2) by auto
      moreover have "t1 \<le> max t1 lo" by simp
      ultimately show ?thesis using t1 base n run(2) by (intro exI[of _ t2] conjI) (linarith | simp)+
    qed
  qed
qed

lemma rate_bound:
  assumes range: "0 \<le> lo" "0 \<le> em" "0 \<le> tol" "hi + tol + 2 * eps < M" "0 \<le> eps"
    and "\<forall>t \<in> set ts. lo \<le> t \<and> t \<le> hi" and "gcra_run rnd fmt em tol ts key = (n, key')" "lo \<le> hi"
  shows "of_nat n * (em - 2 * eps) \<le> tol + (hi - lo) + 2 * eps"
proof (cases "0 < n")
  case True
  from run_bound[OF range assms(6,7) True] show ?thesis by (cases key) auto
next
  case False
  then show ?thesis using range assms(8) by simp
qed

end

lemma rnd64_text_near:
  assumes "0 \<le> x" "x \<le> M" shows "\<bar>rnd64 x - x\<bar> \<le> text_slack M"
proof -
  have "x / 2 ^ 53 \<le> M / 10 ^ 13"
    using assms by (intro frac_le) simp_all
  then show ?thesis using rnd64_near[OF assms(1)] by (simp add: text_slack_def)
qed

interpretation rgcra: gcra_range rnd64 lua_tostring M "text_slack M"
  by unfold_locales (fact rnd64_text_near lua_tostring_near)+

interpretation pgcra: gcra_range rnd64 "\<lambda>x. x" M "text_slack M"
proof unfold_locales
  fix x assume x: "0 \<le> x" "x \<le> M"
  show "\<bar>rnd64 x - x\<bar> \<le> text_slack M" using x by (rule rnd64_text_near)
  show "\<bar>x - x\<bar> \<le> text_slack M"
    using x less_imp_le[OF pow2_pos[of "- 1075"]] by (simp add: text_slack_def)
qed

section \<open>Properties\<close>

text \<open>
  What the GCRA script admits.  Whatever the clock does between two
  readings \<open>lo\<close> and \<open>hi\<close>, the calls granted, counted in emission intervals, span
  at most the window plus the elapsed time, up to the rounding of the arithmetic
  and of the stored text.  The bound \<open>M\<close> is any time beyond what a grant can store.
\<close>

theorem gcra_admission:
  assumes "0 \<le> lo" "lo \<le> hi" "0 \<le> em" "0 \<le> tol" "hi + tol + 2 * text_slack M < M"
    and "\<forall>t \<in> set ts. lo \<le> t \<and> t \<le> hi"
    and "gcra_run rnd64 lua_tostring em tol ts key = (n, key')"
  shows "of_nat n * (em - 2 * text_slack M) \<le> tol + (hi - lo) + 2 * text_slack M"
proof -
  have "0 \<le> M \<Longrightarrow> 0 \<le> text_slack M"
    using less_imp_le[OF pow2_pos[of "- 1075"]] by (simp add: text_slack_def)
  moreover have "0 \<le> M"
  proof -
    define p q where "p = pow2 (- 1075)" and "q = M / 10 ^ 13"
    have "0 \<le> p" by (simp add: p_def less_imp_le)
    moreover have "0 \<le> hi" using assms(1,2) by (rule order_trans)
    ultimately have "2 * q \<le> hi + tol + 2 * (q + p)" using assms(4) by simp
    also have "\<dots> < M" using assms(5) unfolding text_slack_def p_def q_def .
    finally have "2 * q < M" .
    then show ?thesis by (simp add: q_def)
  qed
  ultimately show ?thesis using rgcra.rate_bound[OF assms(1,3-5) _ assms(6,7,2)] by simp
qed

theorem gcra_admission_witness:
  "of_nat (fst (gcra_run rnd64 lua_tostring 5 10 [0, 0, 5] None)) * (5 - 2 * text_slack 100)
   \<le> 10 + (5 - 0) + 2 * text_slack (100 :: rat)"
proof -
  have "pow2 (- 1075) \<le> pow2 0" by (rule pow2_mono) simp
  then have "0 + 5 + 10 + 2 * text_slack 100 < 100" by (simp add: text_slack_def pow2_def)
  then show ?thesis
    by (intro gcra_admission[of 0 5 5 10 100 "[0, 0, 5]" None _ "snd (gcra_run rnd64 lua_tostring 5 10 [0, 0, 5] None)"])
      simp_all
qed

text \<open>The calls of a burst: \<open>L\<close> at once, then one per emission interval.\<close>

definition burst :: "int \<Rightarrow> nat \<Rightarrow> int \<Rightarrow> rat list" where
  "burst t0 L e = replicate L (of_int t0) @ map (\<lambda>k. of_int (t0 + int k * e)) [1..<L]"

lemma gcra_core_int:
  assumes "0 \<le> now" "0 \<le> t" "0 \<le> e" "0 \<le> tol" "max t now + e < 10 ^ 14" "tol < 10 ^ 14" "max t now + e - tol \<le> now"
  shows "gcra_core rnd64 lua_tostring (of_int e) (of_int tol) (of_int now) (Some (of_int t))
       = (True, Some (of_int (max t now + e)))"
proof -
  have m: "max (of_int t) (of_int now) + of_int e = (of_int (max t now + e) :: rat)" by simp
  have r: "rnd64 (of_int (max t now + e)) = of_int (max t now + e)"
    using assms by (intro rnd64_int) simp
  have s: "rnd64 (of_int (max t now + e) - of_int tol) = of_int (max t now + e - tol)"
    using rnd64_int[of "max t now + e - tol"] assms by simp
  have f: "lua_tostring (of_int (max t now + e)) = of_int (max t now + e)"
    using assms by (intro lua_tostring_int) simp_all
  show ?thesis
    unfolding gcra_core_def Let_def option.case m r s f using assms(7) by simp
qed

lemma gcra_core_int_cold:
  assumes "0 \<le> now" "0 \<le> e" "e \<le> tol" "now + e < 10 ^ 14" "tol < 10 ^ 14"
  shows "gcra_core rnd64 lua_tostring (of_int e) (of_int tol) (of_int now) None = (True, Some (of_int (now + e)))"
proof -
  have "gcra_core rnd64 lua_tostring (of_int e) (of_int tol) (of_int now) (Some (of_int now)) = (True, Some (of_int (now + e)))"
    using gcra_core_int[of now now e tol] assms by simp
  then show ?thesis unfolding gcra_core_def Let_def option.case by (simp split: if_splits)
qed

lemma burst_head:
  assumes "0 \<le> t0" "0 < e" "int L * e < 10 ^ 14" "t0 + int L * e < 10 ^ 14" "i + m \<le> L"
  shows "gcra_run rnd64 lua_tostring (of_int e) (of_int (int L * e)) (replicate m (of_int t0) @ ts)
           (Some (of_int (t0 + int i * e)))
       = (case gcra_run rnd64 lua_tostring (of_int e) (of_int (int L * e)) ts (Some (of_int (t0 + int (i + m) * e)))
          of (n, k) \<Rightarrow> (m + n, k))"
  using assms(5)
proof (induction m arbitrary: i)
  case (Suc m)
  have le: "(int i + 1) * e \<le> int L * e" using Suc.prems assms(2) by (intro mult_right_mono) simp_all
  have mx: "max (t0 + int i * e) t0 = t0 + int i * e" using assms(2) by simp
  have step: "gcra_core rnd64 lua_tostring (of_int e) (of_int (int L * e)) (of_int t0) (Some (of_int (t0 + int i * e)))
      = (True, Some (of_int (t0 + int (Suc i) * e)))"
    using gcra_core_int[of t0 "t0 + int i * e" e "int L * e"] assms le unfolding mx
    by (simp add: algebra_simps)
  show ?case
    using Suc.IH[of "Suc i"] Suc.prems
    by (simp add: gcra_run_core step split_beta del: of_int_add of_int_mult gcra_run.simps)
qed (simp split: prod.split)

lemma burst_tail:
  assumes "0 \<le> t0" "0 < e" "0 < L" "t0 + 2 * (int L * e) < 10 ^ 14" "1 \<le> j" "j + m \<le> L"
  shows "fst (gcra_run rnd64 lua_tostring (of_int e) (of_int (int L * e))
      (map (\<lambda>k. of_int (t0 + int k * e)) [j..<j + m]) (Some (of_int (t0 + (int L + int j - 1) * e)))) = m"
  using assms(5,6)
proof (induction m arbitrary: j)
  case (Suc m)
  have le: "int j * e + e \<le> int L * e"
    using mult_right_mono[of "int j + 1" "int L" e] Suc.prems assms(2) by (simp add: algebra_simps)
  have Le: "e \<le> int L * e" using mult_right_mono[of 1 "int L" e] assms(2,3) by simp
  have j0: "0 \<le> int j * e" using assms(2) by simp
  have step: "gcra_core rnd64 lua_tostring (of_int e) (of_int (int L * e)) (of_int (t0 + int j * e))
      (Some (of_int (t0 + (int L + int j - 1) * e))) = (True, Some (of_int (t0 + (int L + int (Suc j) - 1) * e)))"
  proof -
    define A B where "A = int L * e" and "B = int j * e"
    have eq: "t0 + (int L + int j - 1) * e = t0 + A + B - e" "t0 + (int L + int (Suc j) - 1) * e = t0 + A + B"
      by (simp_all add: A_def B_def algebra_simps)
    have h: "0 \<le> B" "B + e \<le> A" "t0 + 2 * A < 10 ^ 14" using j0 le assms(4) by (simp_all add: A_def B_def)
    then have "gcra_core rnd64 lua_tostring (of_int e) (of_int A) (of_int (t0 + B)) (Some (of_int (t0 + A + B - e)))
        = (True, Some (of_int (max (t0 + A + B - e) (t0 + B) + e)))"
      using assms(1,2) by (intro gcra_core_int) linarith+
    moreover have "max (t0 + A + B - e) (t0 + B) + e = t0 + A + B" using h by simp
    ultimately show ?thesis unfolding eq A_def[symmetric] B_def[symmetric] by (simp only:)
  qed
  have ts: "[j..<j + Suc m] = j # [Suc j..<Suc j + m]" by (simp add: upt_conv_Cons)
  show ?case
    using Suc.IH[of "Suc j"] Suc.prems
    unfolding ts list.map gcra_run_core step Let_def case_prod_conv by (simp add: split_beta)
qed simp

text \<open>
  GCRA with the window as its tolerance admits nearly twice its limit.  A
  burst of \<open>limit\<close> calls at one instant followed by one call per emission interval
  has all its \<open>2 * limit - 1\<close> calls granted, within less than one window.
\<close>

theorem gcra_double_burst:
  assumes "0 \<le> t0" "0 < e" "0 < L" "t0 + 2 * (int L * e) < 10 ^ 14"
  shows "fst (gcra_run rnd64 lua_tostring (of_int e) (of_int (int L * e)) (burst t0 L e) None) = 2 * L - 1
       \<and> (\<forall>t \<in> set (burst t0 L e). of_int t0 \<le> t \<and> t < of_int (t0 + int L * e))"
proof
  have Le: "e \<le> int L * e" using mult_right_mono[of 1 "int L" e] assms(2,3) by simp
  obtain l where L: "L = Suc l" using assms(3) by (cases L) simp_all
  have cold: "gcra_core rnd64 lua_tostring (of_int e) (of_int (int L * e)) (of_int t0) None
      = (True, Some (of_int (t0 + int 1 * e)))"
  proof -
    have "t0 + e < 10 ^ 14" "int L * e < 10 ^ 14" using assms Le by linarith+
    then show ?thesis using gcra_core_int_cold[of t0 e "int L * e"] assms Le by simp
  qed
  let ?tail = "map (\<lambda>k. of_int (t0 + int k * e) :: rat) [1..<L]"
  have head: "gcra_run rnd64 lua_tostring (of_int e) (of_int (int L * e)) (burst t0 L e) None
      = (case gcra_run rnd64 lua_tostring (of_int e) (of_int (int L * e)) (replicate l (of_int t0) @ ?tail)
                (Some (of_int (t0 + int 1 * e))) of (n, k) \<Rightarrow> (Suc n, k))"
  proof -
    have "burst t0 L e = of_int t0 # (replicate l (of_int t0) @ ?tail)" by (simp add: burst_def L)
    then show ?thesis by (simp only: gcra_run_core cold) (simp add: split_beta Let_def)
  qed
  have mid: "gcra_run rnd64 lua_tostring (of_int e) (of_int (int L * e)) (replicate l (of_int t0) @ ?tail)
        (Some (of_int (t0 + int 1 * e)))
      = (case gcra_run rnd64 lua_tostring (of_int e) (of_int (int L * e)) ?tail (Some (of_int (t0 + int (1 + l) * e)))
         of (n, k) \<Rightarrow> (l + n, k))"
  proof (rule burst_head)
    show "int L * e < 10 ^ 14" "t0 + int L * e < 10 ^ 14" using assms Le by linarith+
  qed (use assms L in simp_all)
  have tail: "fst (gcra_run rnd64 lua_tostring (of_int e) (of_int (int L * e)) ?tail
      (Some (of_int (t0 + (int L + int 1 - 1) * e)))) = l"
    using burst_tail[OF assms(1-4), of 1 l] by (simp only: L) simp
  have "t0 + int (1 + l) * e = t0 + (int L + int 1 - 1) * e" by (simp add: L)
  then show "fst (gcra_run rnd64 lua_tostring (of_int e) (of_int (int L * e)) (burst t0 L e) None) = 2 * L - 1"
    using tail unfolding head mid by (simp only: split_beta fst_conv) (simp add: L)
  show "\<forall>t \<in> set (burst t0 L e). of_int t0 \<le> t \<and> t < of_int (t0 + int L * e)"
  proof
    fix t assume "t \<in> set (burst t0 L e)"
    then have "t = of_int (t0 + int 0 * e) \<or> (\<exists>k. t = of_int (t0 + int k * e) \<and> k < L)"
      by (auto simp: burst_def simp del: of_int_add of_int_mult)
    then obtain k where k: "t = of_int (t0 + int k * e)" "k < L" using assms(3) by blast
    have "int k * e < int L * e" using k(2) assms(2) by (intro mult_strict_right_mono) simp_all
    then show "of_int t0 \<le> t \<and> t < of_int (t0 + int L * e)"
      unfolding k(1) of_int_less_iff of_int_le_iff using assms(2) by simp
  qed
qed

theorem gcra_double_burst_witness:
  "fst (gcra_run rnd64 lua_tostring 100 1000 (burst 1700000000000 10 100) None) = 19"
  using gcra_double_burst[of 1700000000000 100 10] by simp

end
