(* ===== verification/Reservation.thy ===== *)
theory Reservation
  imports Limiter Heartbeat
begin

text \<open>
  Concurrency reservations (\<open>ratelimit/reservation.py\<close>): a bucket is a fixed
  set of slot rows, a job holds a slot under a lease, and a slot is free when no
  job holds it or its lease has run out.  First the statements on
  \<open>reservation_slots\<close>, then the in-memory table the tests use, then the sweep
  of idle keyed rows (\<open>backend/_sweeps.py\<close>).  A clock of a statement is indexed
  by the place in its text and by the row it is read for.
\<close>

type_synonym slot_clock = "nat \<Rightarrow> slot_row \<Rightarrow> timestamptz"

section \<open>The reservation object\<close>

record ConcurrencyReservation =
  cr_name :: string
  cr_slots :: int
  cr_lease :: interval
  cr_lock_lease :: "interval option"
  cr_keyed :: bool
  cr_schema :: string
  cr_memory :: bool

text \<open>\<open>cr_memory\<close>: a clock was given, so that the object has a table in memory.  A lease
  is given as a \<open>timedelta\<close> or as a number of seconds.\<close>

datatype lease_arg = LeaseTd interval | LeaseSeconds rat

definition new_ConcurrencyReservation ::
    "(rat \<Rightarrow> rat) \<Rightarrow> string \<Rightarrow> int \<Rightarrow> lease_arg \<Rightarrow> interval option \<Rightarrow> bool \<Rightarrow> string \<Rightarrow> bool
     \<Rightarrow> rl_error + ConcurrencyReservation" where
  "new_ConcurrencyReservation rnd name slots lease lock_lease clock schema keyed =
     (if slots < 1 then Inl RlValueError
      else bindE (case lease of
                    LeaseTd td \<Rightarrow> if td \<le> 0 then Inl RlValueError else Inr td
                  | LeaseSeconds x \<Rightarrow> if x \<le> 0 then Inl RlValueError else Inr (timedelta_seconds rnd x))
             (\<lambda>td. Inr \<lparr>cr_name = name, cr_slots = slots, cr_lease = td, cr_lock_lease = lock_lease,
                        cr_keyed = keyed, cr_schema = schema, cr_memory = clock\<rparr>))"

text \<open>A copy at another schema, which shares the table in memory.\<close>

definition rebind_schema :: "string \<Rightarrow> ConcurrencyReservation \<Rightarrow> ConcurrencyReservation" where
  "rebind_schema schema r = r\<lparr>cr_schema := schema\<rparr>"

definition DEFAULT_RESERVATION_BACKOFF :: interval where
  "DEFAULT_RESERVATION_BACKOFF = seconds 5"

definition RESERVATION_RETRY_HINT_MARGIN :: interval where
  "RESERVATION_RETRY_HINT_MARGIN = 500000"

text \<open>The slot index an acquire returns, with the stamp that identifies the lease; a bare index has none.\<close>

record SlotLease =
  sl_index :: int
  sl_fence :: "timestamptz option"

definition fence_of :: "SlotLease \<Rightarrow> timestamptz option" where
  "fence_of l = sl_fence l"

section \<open>Statements\<close>

text \<open>\<open>job_id IS NULL OR lease_expires_at < now\<close>: the definition of a free slot.\<close>

definition slot_free :: "timestamptz \<Rightarrow> slot_row \<Rightarrow> bool" where
  "slot_free now s \<longleftrightarrow> s_job_id s = None \<or> sql_lt (s_lease_expires_at s) (Some now)"

definition new_slot :: "string \<Rightarrow> bool \<Rightarrow> timestamptz \<Rightarrow> int \<Rightarrow> slot_row" where
  "new_slot name keyed used i =
     \<lparr>s_bucket = name, s_index = i, s_job_id = None, s_held_by = None, s_acquired_at = None,
      s_lease_expires_at = None, s_keyed = keyed, s_last_used_at = used\<rparr>"

text \<open>The rows of \<open>generate_series(0, n - 1)\<close>, inserted or merged into those present.\<close>

definition upsert_slot :: "slot_clock \<Rightarrow> slot_row \<Rightarrow> slot_row list \<Rightarrow> slot_row list" where
  "upsert_slot clk r slots =
     (if row_by slot_key (slot_key r) slots = None then slots @ [r]
      else upd_where (\<lambda>s. slot_key s = slot_key r)
             (\<lambda>s. s\<lparr>s_keyed := (s_keyed s \<and> s_keyed r), s_last_used_at := clk 1 s\<rparr>) slots)"

definition ensure_slots ::
    "slot_clock \<Rightarrow> (int \<Rightarrow> timestamptz) \<Rightarrow> ConcurrencyReservation \<Rightarrow> slot_row list \<Rightarrow> slot_row list" where
  "ensure_slots clk born r slots =
     fold (\<lambda>i. upsert_slot clk (new_slot (cr_name r) (cr_keyed r) (born i) i)) [0..cr_slots r - 1] slots"

definition slot_rows_exist :: "ConcurrencyReservation \<Rightarrow> slot_row list \<Rightarrow> bool" where
  "slot_rows_exist r slots \<longleftrightarrow> (\<exists>s \<in> set slots. s_bucket s = cr_name r)"

text \<open>The free slot the acquire locks: the lowest one no other transaction has locked.\<close>

definition free_slot ::
    "slot_clock \<Rightarrow> (slot_row \<Rightarrow> bool) \<Rightarrow> string \<Rightarrow> slot_row list \<Rightarrow> slot_row option" where
  "free_slot clk skip name slots =
     (case sort_key s_index (filter (\<lambda>s. s_bucket s = name \<and> slot_free (clk 0 s) s \<and> \<not> skip s) slots) of
        [] \<Rightarrow> None
      | s # _ \<Rightarrow> Some s)"

definition earliest_held :: "slot_clock \<Rightarrow> string \<Rightarrow> slot_row list \<Rightarrow> timestamptz option" where
  "earliest_held clk name slots =
     (let held = filter (\<lambda>s. s_bucket s = name \<and> s_job_id s \<noteq> None
                             \<and> sql_le (Some (clk 4 s)) (s_lease_expires_at s)) slots
      in case held of
           [] \<Rightarrow> None
         | _ \<Rightarrow> Some (Min (set (map (\<lambda>s. null_ts (s_lease_expires_at s)) held))))"

definition take_slot :: "slot_clock \<Rightarrow> uuid \<Rightarrow> uuid \<Rightarrow> interval \<Rightarrow> slot_row \<Rightarrow> slot_row" where
  "take_slot clk job w lease s =
     s\<lparr>s_job_id := Some job, s_held_by := Some w, s_acquired_at := Some (clk 1 s),
       s_lease_expires_at := Some (clk 2 s + lease), s_last_used_at := clk 3 s\<rparr>"

text \<open>The acquire: the slot and its stamp, or the hint of the refusal; \<open>server_now\<close> is the reading of the outer SELECT.\<close>

definition acquire_slot ::
    "(rat \<Rightarrow> rat) \<Rightarrow> slot_clock \<Rightarrow> timestamptz \<Rightarrow> (slot_row \<Rightarrow> bool) \<Rightarrow> ConcurrencyReservation \<Rightarrow> uuid \<Rightarrow> uuid
     \<Rightarrow> slot_row list \<Rightarrow> (interval + SlotLease) \<times> slot_row list" where
  "acquire_slot rnd clk server_now skip r job w slots =
     (case free_slot clk skip (cr_name r) slots of
        Some f \<Rightarrow>
          (Inr \<lparr>sl_index = s_index f, sl_fence = Some (clk 1 f)\<rparr>,
           upd_where (\<lambda>s. slot_key s = slot_key f)
             (take_slot clk job w (pg_seconds rnd (total_seconds rnd (cr_lease r)))) slots)
      | None \<Rightarrow>
          (Inl (case earliest_held clk (cr_name r) slots of
                  None \<Rightarrow> DEFAULT_RESERVATION_BACKOFF
                | Some e \<Rightarrow> timedelta_seconds rnd (rnd (of_int (max (e - server_now) 0) / of_int usec_per_sec))
                            + RESERVATION_RETRY_HINT_MARGIN),
           slots))"

definition free_row :: "slot_row \<Rightarrow> slot_row" where
  "free_row s = s\<lparr>s_job_id := None, s_held_by := None, s_acquired_at := None, s_lease_expires_at := None\<rparr>"

definition release_slot ::
    "slot_clock \<Rightarrow> ConcurrencyReservation \<Rightarrow> SlotLease \<Rightarrow> uuid \<Rightarrow> slot_row list \<Rightarrow> slot_row list" where
  "release_slot clk r l w slots =
     upd_where (\<lambda>s. s_bucket s = cr_name r \<and> s_index s = sl_index l \<and> sql_eq (s_held_by s) (Some w)
                    \<and> (case fence_of l of None \<Rightarrow> True | Some f \<Rightarrow> sql_eq (s_acquired_at s) (Some f)))
       (\<lambda>s. (free_row s)\<lparr>s_last_used_at := clk 0 s\<rparr>) slots"

definition peek_slots :: "slot_clock \<Rightarrow> ConcurrencyReservation \<Rightarrow> slot_row list \<Rightarrow> nat \<times> nat \<times> nat" where
  "peek_slots clk r slots =
     (let mine = filter (\<lambda>s. s_bucket s = cr_name r) slots
      in (length (filter (\<lambda>s. slot_free (clk 0 s) s) mine), length mine,
          length (filter (\<lambda>s. s_job_id s \<noteq> None \<and> sql_le (Some (clk 1 s)) (s_lease_expires_at s)) mine)))"

record SyncResult =
  sy_inserted :: "(string \<times> int) list"
  sy_deleted :: "(string \<times> int) list"
  sy_skipped_held :: "(string \<times> int) list"

text \<open>One reservation of \<open>sync_slots\<close>: fill the gaps, report the held excess, delete the free excess.\<close>

definition sync_one ::
    "slot_clock \<Rightarrow> timestamptz \<Rightarrow> ConcurrencyReservation \<Rightarrow> slot_row list \<Rightarrow> SyncResult \<times> slot_row list" where
  "sync_one clk tx_now r slots =
     (let name = cr_name r;
          existing = map s_index (filter (\<lambda>s. s_bucket s = name) slots);
          missing = filter (\<lambda>i. i \<notin> set existing) [0..cr_slots r - 1];
          slots1 = slots @ map (new_slot name False tx_now) missing;
          excess = (\<lambda>s. s_bucket s = name \<and> s_index s \<in> set existing \<and> \<not> (0 \<le> s_index s \<and> s_index s < cr_slots r));
          held = filter (\<lambda>s. excess s \<and> s_job_id s \<noteq> None
                           \<and> (sql_le (Some (clk 0 s)) (s_lease_expires_at s) \<or> s_lease_expires_at s = None)) slots1;
          gone = (\<lambda>s. excess s \<and> slot_free (clk 1 s) s)
      in (\<lparr>sy_inserted = map (Pair name) missing,
           sy_deleted = map slot_key (filter gone slots1),
           sy_skipped_held = map slot_key (sort_key s_index held)\<rparr>,
          filter (\<lambda>s. \<not> gone s) slots1))"

definition add_sync :: "SyncResult \<Rightarrow> SyncResult \<Rightarrow> SyncResult" where
  "add_sync a b = \<lparr>sy_inserted = sy_inserted a @ sy_inserted b, sy_deleted = sy_deleted a @ sy_deleted b,
                   sy_skipped_held = sy_skipped_held a @ sy_skipped_held b\<rparr>"

fun sync_slots ::
    "slot_clock \<Rightarrow> timestamptz \<Rightarrow> ConcurrencyReservation list \<Rightarrow> slot_row list \<Rightarrow> SyncResult \<times> slot_row list" where
  "sync_slots clk tx_now [] slots = (\<lparr>sy_inserted = [], sy_deleted = [], sy_skipped_held = []\<rparr>, slots)"
| "sync_slots clk tx_now (r # rs) slots =
     (let (a, s1) = sync_one clk tx_now r slots; (b, s2) = sync_slots clk tx_now rs s1
      in (add_sync a b, s2))"

text \<open>The eviction drain of a worker's own registry, one slice of bucket names.\<close>

definition reclaim_slice_delete ::
    "slot_clock \<Rightarrow> string list \<Rightarrow> slot_row list \<Rightarrow> (string \<times> int) list \<times> slot_row list" where
  "reclaim_slice_delete clk names slots =
     (let gone = (\<lambda>s. s_bucket s \<in> set names \<and> slot_free (clk 0 s) s)
      in (map slot_key (filter gone slots), filter (\<lambda>s. \<not> gone s) slots))"

definition reclaim_slice_existing :: "string list \<Rightarrow> slot_row list \<Rightarrow> string list" where
  "reclaim_slice_existing names slots = remdups (map s_bucket (filter (\<lambda>s. s_bucket s \<in> set names) slots))"

section \<open>The table in memory\<close>

record SlotState =
  m_job_id :: "uuid option"
  m_worker_id :: "uuid option"
  m_acquired_at :: "timestamptz option"
  m_lease_expires_at :: "timestamptz option"
  m_keyed :: bool

definition empty_state :: "bool \<Rightarrow> SlotState" where
  "empty_state keyed = \<lparr>m_job_id = None, m_worker_id = None, m_acquired_at = None,
     m_lease_expires_at = None, m_keyed = keyed\<rparr>"

text \<open>A bucket maps slot indices to states, here an association list; the table maps names to buckets.\<close>

type_synonym mem_slots = "(int \<times> SlotState) list"
type_synonym mem_table = "string \<Rightarrow> mem_slots option"

definition state_free :: "timestamptz \<Rightarrow> SlotState \<Rightarrow> bool" where
  "state_free now st \<longleftrightarrow> m_job_id st = None \<or> (case m_lease_expires_at st of None \<Rightarrow> False | Some e \<Rightarrow> e < now)"

definition put_state :: "int \<Rightarrow> SlotState \<Rightarrow> mem_slots \<Rightarrow> mem_slots" where
  "put_state i st b = map (\<lambda>(k, v). (k, if k = i then st else v)) b"

definition mem_ensure_slots :: "string \<Rightarrow> int \<Rightarrow> bool \<Rightarrow> mem_table \<Rightarrow> mem_table" where
  "mem_ensure_slots name n keyed t =
     (let b = (case t name of None \<Rightarrow> [] | Some b \<Rightarrow> b)
      in t(name \<mapsto> b @ map (\<lambda>i. (i, empty_state keyed)) (filter (\<lambda>i. i \<notin> fst ` set b) [0..n - 1])))"

definition mem_acquire_slot ::
    "timestamptz \<Rightarrow> string \<Rightarrow> uuid \<Rightarrow> uuid \<Rightarrow> interval \<Rightarrow> mem_table \<Rightarrow> (interval + SlotLease) \<times> mem_table" where
  "mem_acquire_slot now name job w lease t = (case t name of
       None \<Rightarrow> (Inl DEFAULT_RESERVATION_BACKOFF, t)
     | Some b \<Rightarrow>
         (case filter (\<lambda>(i, st). state_free now st) (sort_key fst b) of
            (i, st) # _ \<Rightarrow>
              (Inr \<lparr>sl_index = i, sl_fence = Some now\<rparr>,
               t(name \<mapsto> put_state i \<lparr>m_job_id = Some job, m_worker_id = Some w, m_acquired_at = Some now,
                                      m_lease_expires_at = Some (now + lease), m_keyed = m_keyed st\<rparr> b))
          | [] \<Rightarrow>
              (let live = map (\<lambda>(i, st). null_ts (m_lease_expires_at st))
                            (filter (\<lambda>(i, st). m_job_id st \<noteq> None
                               \<and> (case m_lease_expires_at st of None \<Rightarrow> False | Some e \<Rightarrow> e \<ge> now)) b)
               in (Inl (if live = [] then DEFAULT_RESERVATION_BACKOFF
                        else Min (set live) - now + RESERVATION_RETRY_HINT_MARGIN), t))))"

definition mem_release_slot :: "string \<Rightarrow> SlotLease \<Rightarrow> uuid \<Rightarrow> mem_table \<Rightarrow> bool \<times> mem_table" where
  "mem_release_slot name l w t = (case t name of
       None \<Rightarrow> (False, t)
     | Some b \<Rightarrow>
         (case map_of b (sl_index l) of
            None \<Rightarrow> (False, t)
          | Some st \<Rightarrow>
              if m_worker_id st \<noteq> Some w then (False, t)
              else if fence_of l \<noteq> None \<and> m_acquired_at st \<noteq> fence_of l then (False, t)
              else (True, t(name \<mapsto> put_state (sl_index l) (empty_state (m_keyed st)) b))))"

definition mem_extend_leases :: "timestamptz \<Rightarrow> uuid \<Rightarrow> interval \<Rightarrow> mem_table \<Rightarrow> mem_table" where
  "mem_extend_leases now w lock_lease t =
     (\<lambda>name. map_option (map (\<lambda>(i, st).
        (i, if m_worker_id st = Some w \<and> m_job_id st \<noteq> None
            then st\<lparr>m_lease_expires_at := Some (now + lock_lease)\<rparr> else st))) (t name))"

definition mem_peek_slots :: "timestamptz \<Rightarrow> string \<Rightarrow> mem_table \<Rightarrow> nat \<times> nat" where
  "mem_peek_slots now name t = (case t name of
       None \<Rightarrow> (0, 0)
     | Some b \<Rightarrow> (length (filter (\<lambda>(i, st). state_free now st) b),
                  length (filter (\<lambda>(i, st). \<not> state_free now st) b)))"

definition mem_sync_slots :: "timestamptz \<Rightarrow> string \<Rightarrow> int \<Rightarrow> mem_table \<Rightarrow> SyncResult \<times> mem_table" where
  "mem_sync_slots now name n t =
     (let b = (case t name of None \<Rightarrow> [] | Some b \<Rightarrow> b);
          missing = filter (\<lambda>i. i \<notin> fst ` set b) [0..n - 1];
          b1 = b @ map (\<lambda>i. (i, empty_state False)) missing;
          excess = filter (\<lambda>(i, st). \<not> i < n) (sort_key fst b1)
      in (\<lparr>sy_inserted = map (Pair name) missing,
           sy_deleted = map (\<lambda>(i, st). (name, i)) (filter (\<lambda>(i, st). state_free now st) excess),
           sy_skipped_held = map (\<lambda>(i, st). (name, i)) (filter (\<lambda>(i, st). \<not> state_free now st) excess)\<rparr>,
          t(name \<mapsto> filter (\<lambda>(i, st). i < n \<or> \<not> state_free now st) b1)))"

text \<open>The acquire of a reservation with no pool: the rows are materialised first.\<close>

definition acquire_in_memory ::
    "timestamptz \<Rightarrow> ConcurrencyReservation \<Rightarrow> uuid \<Rightarrow> uuid \<Rightarrow> mem_table \<Rightarrow> (interval + SlotLease) \<times> mem_table" where
  "acquire_in_memory now r job w t =
     mem_acquire_slot now (cr_name r) job w (cr_lease r) (mem_ensure_slots (cr_name r) (cr_slots r) (cr_keyed r) t)"

section \<open>Sweep of idle keyed rows\<close>

text \<open>
  \<open>_no_consumed_quota_sql\<close>: a row is deletable when it carries no token count,
  when its refill is not zero, or when it is a fixed quota still at capacity; a
  missing key proves nothing.
\<close>

definition no_consumed_quota :: "(rat \<Rightarrow> rat) \<Rightarrow> (string \<Rightarrow> rat option) \<Rightarrow> jobj \<Rightarrow> rl_error + bool" where
  "no_consumed_quota rnd txt doc =
     (if (case doc ''tokens'' of None \<Rightarrow> True | Some v \<Rightarrow> v = JNull) then Inr True
      else bindE (json_float8 rnd txt (doc ''refill'')) (\<lambda>refill.
        case refill of
          None \<Rightarrow> Inr False
        | Some x \<Rightarrow>
            if x \<noteq> 0 then Inr True
            else bindE (json_float8 rnd txt (doc ''tokens'')) (\<lambda>tok.
                 bindE (json_float8 rnd txt (doc ''capacity'')) (\<lambda>cap.
                   Inr (sql_le cap tok)))))"

definition idle_bucket ::
    "(rat \<Rightarrow> rat) \<Rightarrow> (string \<Rightarrow> rat option) \<Rightarrow> timestamptz \<Rightarrow> interval \<Rightarrow> bucket_row \<Rightarrow> rl_error + bool" where
  "idle_bucket rnd txt ts horizon b =
     (if k_keyed b \<and> k_last_used_at b < ts - horizon then no_consumed_quota rnd txt (k_state b) else Inr False)"

text \<open>
  Either arm reads its window from the snapshot \<open>snap\<close> and deletes from the
  latest row versions.  \<open>coll\<close> ranks bucket names as the collation does.
\<close>

definition sweep_idle_keyed_buckets ::
    "(rat \<Rightarrow> rat) \<Rightarrow> (string \<Rightarrow> rat option) \<Rightarrow> (string \<Rightarrow> int) \<Rightarrow> timestamptz \<Rightarrow> interval \<Rightarrow> nat
     \<Rightarrow> bucket_row list \<Rightarrow> bucket_row list \<Rightarrow> rl_error + nat \<times> bucket_row list" where
  "sweep_idle_keyed_buckets rnd txt coll ts horizon n snap rows =
     bindE (filterE (idle_bucket rnd txt ts horizon) snap) (\<lambda>idle.
       let expired = map k_name (take n (sort_key k_last_used_at (sort_key (\<lambda>b. coll (k_name b)) idle)));
           gone = (\<lambda>b. if k_name b \<in> set expired then idle_bucket rnd txt ts horizon b else Inr False)
       in bindE (filterE gone rows) (\<lambda>del.
          Inr (length del, filter (\<lambda>b. gone b \<noteq> Inr True) rows)))"

text \<open>The candidate buckets, oldest first, none with a fresh row.\<close>

definition stale_row :: "timestamptz \<Rightarrow> interval \<Rightarrow> slot_row list \<Rightarrow> slot_row \<Rightarrow> bool" where
  "stale_row ts horizon slots s \<longleftrightarrow> s_keyed s \<and> s_last_used_at s < ts - horizon
     \<and> \<not> (\<exists>f \<in> set slots. s_bucket f = s_bucket s \<and> s_last_used_at f \<ge> ts - horizon)"

definition stale_buckets ::
    "(string \<Rightarrow> int) \<Rightarrow> timestamptz \<Rightarrow> interval \<Rightarrow> nat \<Rightarrow> slot_row list \<Rightarrow> string list" where
  "stale_buckets coll ts horizon n slots =
     (let rows = filter (stale_row ts horizon slots) slots;
          age = (\<lambda>name. Min (set (map s_last_used_at (filter (\<lambda>s. s_bucket s = name) rows))))
      in take n (sort_key age (sort_key coll (remdups (map s_bucket rows)))))"

definition reclaimable_bucket :: "timestamptz \<Rightarrow> interval \<Rightarrow> slot_row list \<Rightarrow> string \<Rightarrow> bool" where
  "reclaimable_bucket ts horizon locked name \<longleftrightarrow>
     (let mine = filter (\<lambda>s. s_bucket s = name) locked
      in mine \<noteq> [] \<and> Max (set (map s_last_used_at mine)) < ts - horizon
         \<and> (\<forall>s \<in> set mine. s_keyed s) \<and> (\<forall>s \<in> set mine. slot_free ts s))"

text \<open>
  The slot arm locks the latest version of every row the snapshot shows of a
  candidate bucket, takes the verdict over them and deletes by ctid: a row
  with a version newer than the snapshot (\<open>newer\<close>) has another ctid and stays.
\<close>

definition sweep_idle_keyed_slots ::
    "(string \<Rightarrow> int) \<Rightarrow> timestamptz \<Rightarrow> interval \<Rightarrow> nat \<Rightarrow> slot_row list \<Rightarrow> (slot_row \<Rightarrow> bool) \<Rightarrow> slot_row list
     \<Rightarrow> nat \<times> slot_row list" where
  "sweep_idle_keyed_slots coll ts horizon n snap newer slots =
     (let cand = stale_buckets coll ts horizon n snap;
          lockable = (\<lambda>s. s_bucket s \<in> set cand \<and> slot_key s \<in> set (map slot_key snap));
          locked = filter lockable slots;
          gone = (\<lambda>s. lockable s \<and> reclaimable_bucket ts horizon locked (s_bucket s) \<and> \<not> newer s)
      in (length (filter gone slots), filter (\<lambda>s. \<not> gone s) slots))"

text \<open>Both arms in turn; a failing cast leaves the call as a driver error.\<close>

definition sweep_idle_keyed_rows ::
    "(rat \<Rightarrow> rat) \<Rightarrow> (string \<Rightarrow> rat option) \<Rightarrow> (string \<Rightarrow> int) \<Rightarrow> timestamptz \<Rightarrow> timestamptz \<Rightarrow> interval \<Rightarrow> int
     \<Rightarrow> bucket_row list \<times> slot_row list \<Rightarrow> rl_error + nat \<times> (bucket_row list \<times> slot_row list)" where
  "sweep_idle_keyed_rows rnd txt coll ts1 ts2 horizon batch_size w =
     (if batch_size < 1 then Inl RlValueError
      else if horizon \<le> 0 then Inl RlValueError
      else bindE (sweep_idle_keyed_buckets rnd txt coll ts1 horizon (nat batch_size) (fst w) (fst w)) (\<lambda>(a, rows).
        let (b, slots) = sweep_idle_keyed_slots coll ts2 horizon (nat batch_size) (snd w) (\<lambda>_. False) (snd w)
        in Inr (a + b, (rows, slots))))"

end
