(* ===== verification/Leases.thy ===== *)
theory Leases
  imports Reservation
begin

text \<open>
  What the statements on \<open>reservation_slots\<close> keep.  A run interleaves whole
  operations of any number of workers; beside the table it carries, for every
  lease granted and not given back, the view its holder has of it.
\<close>

section \<open>Runs\<close>

datatype slot_op =
    OpEnsure slot_clock "int \<Rightarrow> timestamptz" ConcurrencyReservation
  | OpAcquire slot_clock timestamptz "slot_row \<Rightarrow> bool" ConcurrencyReservation uuid uuid
  | OpRelease slot_clock ConcurrencyReservation SlotLease uuid
  | OpExtend "slot_row \<Rightarrow> timestamptz" uuid interval "uuid list" db
  | OpSync slot_clock timestamptz "ConcurrencyReservation list"
  | OpLeak timestamptz nat
  | OpDrain slot_clock "string list"
  | OpIdle "string \<Rightarrow> int" timestamptz interval nat "slot_row list" "slot_row \<Rightarrow> bool"

primrec slot_step :: "(rat \<Rightarrow> rat) \<Rightarrow> slot_op \<Rightarrow> slot_row list \<Rightarrow> slot_row list" where
  "slot_step rnd (OpEnsure clk born r) slots = ensure_slots clk born r slots"
| "slot_step rnd (OpAcquire clk now skip r job w) slots = snd (acquire_slot rnd clk now skip r job w slots)"
| "slot_step rnd (OpRelease clk r l w) slots = release_slot clk r l w slots"
| "slot_step rnd (OpExtend clk w lease disowned d) slots = extend_reservation_leases clk w lease disowned d slots"
| "slot_step rnd (OpSync clk now rs) slots = snd (sync_slots clk now rs slots)"
| "slot_step rnd (OpLeak ts n) slots = snd (sweep_4_sql ts n slots slots)"
| "slot_step rnd (OpDrain clk names) slots = snd (reclaim_slice_delete clk names slots)"
| "slot_step rnd (OpIdle coll ts horizon n snap newer) slots =
     snd (sweep_idle_keyed_slots coll ts horizon n snap newer slots)"

text \<open>Every clock the operation reads shows at most \<open>hi\<close>.\<close>

primrec op_by :: "timestamptz \<Rightarrow> slot_op \<Rightarrow> bool" where
  "op_by hi (OpEnsure clk born r) = True"
| "op_by hi (OpAcquire clk now skip r job w) = (\<forall>k s. clk k s \<le> hi)"
| "op_by hi (OpRelease clk r l w) = True"
| "op_by hi (OpExtend clk w lease disowned d) = True"
| "op_by hi (OpSync clk now rs) = (\<forall>k s. clk k s \<le> hi)"
| "op_by hi (OpLeak ts n) = (ts \<le> hi)"
| "op_by hi (OpDrain clk names) = (\<forall>k s. clk k s \<le> hi)"
| "op_by hi (OpIdle coll ts horizon n snap newer) = (ts \<le> hi)"

text \<open>Whoever declares the bucket \<open>b\<close> declares it with \<open>n\<close> slots.\<close>

primrec op_declares :: "string \<Rightarrow> int \<Rightarrow> slot_op \<Rightarrow> bool" where
  "op_declares b n (OpEnsure clk born r) = (cr_name r = b \<longrightarrow> cr_slots r = n)"
| "op_declares b n (OpAcquire clk now skip r job w) = True"
| "op_declares b n (OpRelease clk r l w) = True"
| "op_declares b n (OpExtend clk w lease disowned d) = True"
| "op_declares b n (OpSync clk now rs) = (\<forall>r \<in> set rs. cr_name r = b \<longrightarrow> cr_slots r = n)"
| "op_declares b n (OpLeak ts k) = True"
| "op_declares b n (OpDrain clk names) = True"
| "op_declares b n (OpIdle coll ts horizon k snap newer) = True"

record lease_view =
  h_bucket :: string
  h_index :: int
  h_fence :: timestamptz
  h_worker :: uuid
  h_until :: timestamptz

definition lease_at :: "string \<times> int \<Rightarrow> slot_row list \<Rightarrow> timestamptz option" where
  "lease_at k slots = (case row_by slot_key k slots of None \<Rightarrow> None | Some s \<Rightarrow> s_lease_expires_at s)"

text \<open>
  A grant adds a holder, its own release removes it, and after a heartbeat, which
  may set an earlier expiry, a holder relies on the earlier of the two.
\<close>

primrec holders_step :: "(rat \<Rightarrow> rat) \<Rightarrow> slot_op \<Rightarrow> slot_row list \<Rightarrow> lease_view list \<Rightarrow> lease_view list" where
  "holders_step rnd (OpEnsure clk born r) slots hs = hs"
| "holders_step rnd (OpAcquire clk now skip r job w) slots hs =
     (case acquire_slot rnd clk now skip r job w slots of
        (Inl _, _) \<Rightarrow> hs
      | (Inr l, slots') \<Rightarrow>
          hs @ [\<lparr>h_bucket = cr_name r, h_index = sl_index l, h_fence = null_ts (sl_fence l), h_worker = w,
                 h_until = null_ts (lease_at (cr_name r, sl_index l) slots')\<rparr>])"
| "holders_step rnd (OpRelease clk r l w) slots hs =
     filter (\<lambda>h. \<not> (h_bucket h = cr_name r \<and> h_index h = sl_index l \<and> h_worker h = w
                    \<and> (sl_fence l = None \<or> sl_fence l = Some (h_fence h)))) hs"
| "holders_step rnd (OpExtend clk w lease disowned d) slots hs =
     map (\<lambda>h. h\<lparr>h_until := min (h_until h)
                  (null_ts (lease_at (h_bucket h, h_index h) (slot_step rnd (OpExtend clk w lease disowned d) slots)))\<rparr>) hs"
| "holders_step rnd (OpSync clk now rs) slots hs = hs"
| "holders_step rnd (OpLeak ts n) slots hs = hs"
| "holders_step rnd (OpDrain clk names) slots hs = hs"
| "holders_step rnd (OpIdle coll ts horizon n snap newer) slots hs = hs"

fun slot_run ::
    "(rat \<Rightarrow> rat) \<Rightarrow> (timestamptz \<times> slot_op) list \<Rightarrow> slot_row list \<times> lease_view list \<Rightarrow> slot_row list \<times> lease_view list" where
  "slot_run rnd [] w = w"
| "slot_run rnd ((hi, op) # ops) (slots, hs) =
     slot_run rnd ops (slot_step rnd op slots, holders_step rnd op slots hs)"

section \<open>A live lease stands\<close>

definition same_hold :: "slot_row \<Rightarrow> slot_row \<Rightarrow> bool" where
  "same_hold s s' \<longleftrightarrow> slot_key s' = slot_key s \<and> s_job_id s' = s_job_id s \<and> s_held_by s' = s_held_by s
     \<and> s_acquired_at s' = s_acquired_at s"

definition live_row :: "timestamptz \<Rightarrow> slot_row \<Rightarrow> bool" where
  "live_row hi s \<longleftrightarrow> s_job_id s \<noteq> None \<and> sql_le (Some hi) (s_lease_expires_at s)"

lemma same_hold_refl [simp]: "same_hold s s"
  by (simp add: same_hold_def)

lemma same_hold_trans: "same_hold a b \<Longrightarrow> same_hold b c \<Longrightarrow> same_hold a c"
  by (simp add: same_hold_def)

lemma live_not_free: "live_row hi s \<Longrightarrow> t \<le> hi \<Longrightarrow> \<not> slot_free t s"
  by (auto simp: live_row_def slot_free_def sql_rel_iff)

lemma slot_key_bucket: "slot_key s = slot_key s' \<Longrightarrow> s_bucket s = s_bucket s'"
  by (simp add: slot_key_def)

definition keeps_live :: "timestamptz \<Rightarrow> slot_row list \<Rightarrow> slot_row list \<Rightarrow> bool" where
  "keeps_live hi a b \<longleftrightarrow> (\<forall>s \<in> set a. live_row hi s \<longrightarrow>
     (\<exists>s' \<in> set b. same_hold s s' \<and> s_lease_expires_at s' = s_lease_expires_at s))"

lemma keeps_live_refl [simp]: "keeps_live hi a a"
  using same_hold_refl unfolding keeps_live_def by blast

lemma keeps_liveD:
  "keeps_live hi a b \<Longrightarrow> s \<in> set a \<Longrightarrow> live_row hi s
   \<Longrightarrow> \<exists>s' \<in> set b. same_hold s s' \<and> s_lease_expires_at s' = s_lease_expires_at s"
  by (simp add: keeps_live_def)

lemma live_row_cong:
  "same_hold s s' \<Longrightarrow> s_lease_expires_at s' = s_lease_expires_at s \<Longrightarrow> live_row hi s' = live_row hi s"
  by (simp add: live_row_def same_hold_def)

lemma keeps_live_trans:
  assumes "keeps_live hi a b" "keeps_live hi b c"
  shows "keeps_live hi a c"
  unfolding keeps_live_def
proof (intro ballI impI)
  fix s assume s: "s \<in> set a" "live_row hi s"
  obtain s' where s': "s' \<in> set b" "same_hold s s'" "s_lease_expires_at s' = s_lease_expires_at s"
    using keeps_liveD[OF assms(1) s] by blast
  obtain s'' where "s'' \<in> set c" "same_hold s' s''" "s_lease_expires_at s'' = s_lease_expires_at s'"
    using keeps_liveD[OF assms(2) s'(1)] live_row_cong[OF s'(2,3)] s(2) by blast
  then show "\<exists>s'' \<in> set c. same_hold s s'' \<and> s_lease_expires_at s'' = s_lease_expires_at s"
    using s' same_hold_trans by metis
qed

lemma keeps_live_upd:
  assumes "\<And>s. s \<in> set a \<Longrightarrow> live_row hi s \<Longrightarrow> P s \<Longrightarrow> same_hold s (f s) \<and> s_lease_expires_at (f s) = s_lease_expires_at s"
  shows "keeps_live hi a (upd_where P f a)"
  unfolding keeps_live_def set_upd_where
proof (intro ballI impI)
  fix s assume s: "s \<in> set a" "live_row hi s"
  show "\<exists>s' \<in> (\<lambda>r. if P r then f r else r) ` set a. same_hold s s' \<and> s_lease_expires_at s' = s_lease_expires_at s"
    using assms[OF s] s(1) by (intro bexI[of _ "if P s then f s else s"]) auto
qed

lemma keeps_live_filter:
  assumes "\<And>s. s \<in> set a \<Longrightarrow> live_row hi s \<Longrightarrow> P s"
  shows "keeps_live hi a (filter P a)"
  using assms same_hold_refl unfolding keeps_live_def by auto

lemma keeps_live_append: "keeps_live hi a (a @ b)"
  unfolding keeps_live_def set_append using same_hold_refl by blast

lemma keeps_live_fold:
  "(\<And>x a. keeps_live hi a (f x a)) \<Longrightarrow> keeps_live hi a (fold f xs a)"
  by (induction xs arbitrary: a) (auto intro: keeps_live_trans)

lemma upsert_keeps_live: "keeps_live hi a (upsert_slot clk r a)"
  unfolding upsert_slot_def
  by (auto intro!: keeps_live_append keeps_live_upd simp: same_hold_def slot_key_def)

lemma ensure_keeps_live: "keeps_live hi a (ensure_slots clk born r a)"
  unfolding ensure_slots_def by (rule keeps_live_fold) (rule upsert_keeps_live)

lemma free_slot_SomeD:
  "free_slot clk skip b slots = Some f
   \<Longrightarrow> f \<in> set slots \<and> s_bucket f = b \<and> slot_free (clk 0 f) f \<and> \<not> skip f"
proof -
  assume a: "free_slot clk skip b slots = Some f"
  let ?F = "filter (\<lambda>s. s_bucket s = b \<and> slot_free (clk 0 s) s \<and> \<not> skip s) slots"
  obtain rest where "sort_key s_index ?F = f # rest"
    using a by (auto simp: free_slot_def split: list.splits)
  then have "f \<in> set (sort_key s_index ?F)" by simp
  then show ?thesis by simp
qed

lemma distinct_key_eq:
  "distinct (map key xs) \<Longrightarrow> a \<in> set xs \<Longrightarrow> b \<in> set xs \<Longrightarrow> key a = key b \<Longrightarrow> a = b"
  by (metis row_by_distinct option.inject)

lemma acquire_keeps_live:
  assumes "distinct (map slot_key a)" "\<And>k s. clk k s \<le> hi"
  shows "keeps_live hi a (snd (acquire_slot rnd clk now skip r job w a))"
proof (cases "free_slot clk skip (cr_name r) a")
  case None
  then show ?thesis by (simp add: acquire_slot_def)
next
  case (Some f)
  have "\<not> live_row hi s" if "s \<in> set a" "slot_key s = slot_key f" for s
  proof -
    have "s = f" using distinct_key_eq[OF assms(1) that(1) _ that(2)] free_slot_SomeD[OF Some] by blast
    then show ?thesis using live_not_free[of hi s] free_slot_SomeD[OF Some] assms(2) by blast
  qed
  then show ?thesis using Some by (auto simp: acquire_slot_def intro!: keeps_live_upd)
qed

lemma sync_one_keeps_live:
  assumes "\<And>k s. clk k s \<le> hi"
  shows "keeps_live hi a (snd (sync_one clk now r a))"
  unfolding sync_one_def Let_def snd_conv
  by (rule keeps_live_trans[OF keeps_live_append keeps_live_filter]) (use live_not_free assms in blast)

lemma sync_keeps_live:
  assumes "\<And>k s. clk k s \<le> hi"
  shows "keeps_live hi a (snd (sync_slots clk now rs a))"
proof (induction rs arbitrary: a)
  case (Cons r rs)
  show ?case
    using keeps_live_trans[OF sync_one_keeps_live[OF assms, where now = now and r = r and a = a] Cons.IH]
    by (simp add: Let_def case_prod_unfold)
qed simp

lemma leak_keeps_live:
  assumes d: "distinct (map slot_key a)" and t: "ts \<le> hi"
  shows "keeps_live hi a (snd (sweep_4_sql ts n a a))"
proof -
  let ?E = "take n (sort_key (\<lambda>s. null_ts (s_lease_expires_at s)) (filter (leaked_slot ts) a))"
  have "\<not> live_row hi s" if s: "s \<in> set a" "slot_key s \<in> slot_key ` set ?E" for s
  proof -
    obtain e where e: "e \<in> set ?E" "slot_key s = slot_key e" using s(2) by blast
    have "e \<in> set a" "leaked_slot ts e" using set_take_subset[of n] e(1) by fastforce+
    then have "leaked_slot ts s" using distinct_key_eq[OF d s(1) _ e(2)] by simp
    then show ?thesis using t by (auto simp: leaked_slot_def live_row_def sql_rel_iff)
  qed
  then show ?thesis unfolding sweep_4_sql_def Let_def snd_conv
    by (intro keeps_live_upd) (auto simp del: set_sort set_filter)
qed

lemma drain_keeps_live:
  assumes "\<And>k s. clk k s \<le> hi"
  shows "keeps_live hi a (snd (reclaim_slice_delete clk names a))"
  unfolding reclaim_slice_delete_def Let_def snd_conv
  by (rule keeps_live_filter) (use live_not_free assms in blast)

lemma idle_keeps_live:
  assumes "ts \<le> hi"
  shows "keeps_live hi a (snd (sweep_idle_keyed_slots coll ts horizon n snap newer a))"
proof -
  let ?L = "\<lambda>s. s_bucket s \<in> set (stale_buckets coll ts horizon n snap) \<and> slot_key s \<in> set (map slot_key snap)"
  have "slot_free ts s" if "s \<in> set a" "?L s" "reclaimable_bucket ts horizon (filter ?L a) (s_bucket s)" for s
    using that unfolding reclaimable_bucket_def Let_def by auto
  then show ?thesis unfolding sweep_idle_keyed_slots_def Let_def snd_conv
    by (intro keeps_live_filter) (use live_not_free[OF _ assms] in blast)
qed

lemmas step_keeps_live = ensure_keeps_live acquire_keeps_live sync_keeps_live leak_keeps_live
  drain_keeps_live idle_keeps_live

section \<open>Never more holders than slots\<close>

definition in_range :: "string \<Rightarrow> int \<Rightarrow> slot_row list \<Rightarrow> bool" where
  "in_range b n slots \<longleftrightarrow> distinct (map slot_key slots)
     \<and> (\<forall>s \<in> set slots. s_bucket s = b \<longrightarrow> 0 \<le> s_index s \<and> s_index s < n)"

lemma in_range_upd:
  "(\<And>s. slot_key (f s) = slot_key s) \<Longrightarrow> in_range b n a \<Longrightarrow> in_range b n (upd_where P f a)"
  by (auto simp: in_range_def keys_upd_where set_upd_where slot_key_def)

lemma in_range_filter: "in_range b n a \<Longrightarrow> in_range b n (filter P a)"
  by (auto simp: in_range_def distinct_map_filter)

lemma in_range_new:
  assumes "in_range b n a" "distinct is" "\<forall>i \<in> set is. (name, i) \<notin> slot_key ` set a"
    "name = b \<longrightarrow> (\<forall>i \<in> set is. 0 \<le> i \<and> i < n)"
  shows "in_range b n (a @ map (new_slot name keyed t) is)"
proof -
  have "map slot_key (map (new_slot name keyed t) is) = map (Pair name) is"
    by (simp add: slot_key_def new_slot_def)
  then show ?thesis using assms
    by (auto simp: in_range_def distinct_map new_slot_def inj_on_def slot_key_def)
qed

lemma in_range_upsert:
  assumes a: "in_range b n a" and i: "name = b \<longrightarrow> 0 \<le> i \<and> i < n"
  shows "in_range b n (upsert_slot clk (new_slot name keyed t i) a)"
proof (cases "row_by slot_key (slot_key (new_slot name keyed t i)) a = None")
  case True
  then have "(name, i) \<notin> slot_key ` set a"
    by (simp add: row_by_None_iff slot_key_def new_slot_def)
  with True in_range_new[OF a, of "[i]" name keyed t] i show ?thesis by (simp add: upsert_slot_def)
next
  case False
  then show ?thesis using a by (auto simp: upsert_slot_def slot_key_def intro!: in_range_upd)
qed

lemma in_range_ensure:
  assumes "in_range b n a" "cr_name r = b \<longrightarrow> cr_slots r = n"
  shows "in_range b n (ensure_slots clk born r a)"
proof -
  have "in_range b n (fold (\<lambda>i. upsert_slot clk (new_slot (cr_name r) (cr_keyed r) (born i) i)) is a)"
    if "\<forall>i \<in> set is. cr_name r = b \<longrightarrow> 0 \<le> i \<and> i < n" "in_range b n a" for "is" a
    using that by (induction "is" arbitrary: a) (auto intro: in_range_upsert)
  then show ?thesis using assms by (simp add: ensure_slots_def)
qed

lemma in_range_sync_one:
  assumes a: "in_range b n a" and r: "cr_name r = b \<longrightarrow> cr_slots r = n"
  shows "in_range b n (snd (sync_one clk now r a))"
  unfolding sync_one_def Let_def snd_conv
  by (intro in_range_filter in_range_new[OF a]) (use r in \<open>auto simp: slot_key_def\<close>)

lemma in_range_sync:
  "in_range b n a \<Longrightarrow> \<forall>r \<in> set rs. cr_name r = b \<longrightarrow> cr_slots r = n
   \<Longrightarrow> in_range b n (snd (sync_slots clk now rs a))"
proof (induction rs arbitrary: a)
  case (Cons r rs)
  then show ?case using in_range_sync_one[of b n a r clk now] by (simp add: Let_def case_prod_unfold)
qed simp

lemma in_range_step:
  assumes "in_range b n a" "op_declares b n op"
  shows "in_range b n (slot_step rnd op a)"
proof (cases op)
  case OpAcquire
  then show ?thesis using assms by (auto simp: acquire_slot_def take_slot_def slot_key_def intro!: in_range_upd split: option.splits)
next
  case OpExtend
  then show ?thesis using assms(1) by (simp add: extend_reservation_leases_def in_range_upd slot_key_def)
next
  case OpLeak
  then show ?thesis using assms(1) by (simp add: sweep_4_sql_def Let_def in_range_upd slot_key_def)
qed (use assms in \<open>simp_all add: in_range_ensure in_range_sync release_slot_def in_range_upd slot_key_def free_row_def
  reclaim_slice_delete_def sweep_idle_keyed_slots_def Let_def in_range_filter\<close>)

text \<open>The row behind a holder, and the holders of a table at time \<open>hi\<close>.\<close>

definition backs :: "slot_row \<Rightarrow> lease_view \<Rightarrow> bool" where
  "backs s h \<longleftrightarrow> slot_key s = (h_bucket h, h_index h) \<and> s_job_id s \<noteq> None \<and> s_held_by s = Some (h_worker h)
     \<and> s_acquired_at s = Some (h_fence h) \<and> sql_le (Some (h_until h)) (s_lease_expires_at s)"

definition holders_ok :: "timestamptz \<Rightarrow> slot_row list \<Rightarrow> lease_view list \<Rightarrow> bool" where
  "holders_ok hi slots hs \<longleftrightarrow>
     (\<forall>h \<in> set hs. hi \<le> h_until h \<longrightarrow> (\<exists>s \<in> set slots. backs s h))
     \<and> distinct (map (\<lambda>h. (h_bucket h, h_index h)) (filter (\<lambda>h. hi \<le> h_until h) hs))"

lemma backs_live: "backs s h \<Longrightarrow> hi \<le> h_until h \<Longrightarrow> live_row hi s"
  by (auto simp: backs_def live_row_def sql_rel_iff)

lemma backs_cong:
  "backs s h \<Longrightarrow> same_hold s s' \<Longrightarrow> s_lease_expires_at s' = s_lease_expires_at s \<Longrightarrow> backs s' h"
  by (simp add: backs_def same_hold_def)

lemma distinct_map_filter_mono:
  assumes "distinct (map f (filter P xs))" "\<And>x. x \<in> set xs \<Longrightarrow> Q x \<Longrightarrow> P x"
  shows "distinct (map f (filter Q xs))"
  using assms by (induction xs) (auto split: if_splits)

lemma holders_ok_later:
  assumes "holders_ok hi slots hs" "hi \<le> hi'"
  shows "holders_ok hi' slots hs"
  using assms unfolding holders_ok_def
  by (auto elim: distinct_map_filter_mono)

lemma holders_ok_keeps:
  assumes "holders_ok hi slots hs" "keeps_live hi slots slots'"
  shows "holders_ok hi slots' hs"
  unfolding holders_ok_def
proof (intro conjI ballI impI)
  fix h assume h: "h \<in> set hs" "hi \<le> h_until h"
  obtain s where s: "s \<in> set slots" "backs s h" using assms(1) h unfolding holders_ok_def by blast
  show "\<exists>s \<in> set slots'. backs s h"
    using keeps_liveD[OF assms(2) s(1) backs_live[OF s(2) h(2)]] backs_cong[OF s(2)] by blast
qed (use assms(1) in \<open>simp add: holders_ok_def\<close>)

lemma holders_ok_release:
  assumes ok: "holders_ok hi slots hs"
  shows "holders_ok hi (release_slot clk r l w slots) (holders_step rnd (OpRelease clk r l w) slots hs)"
  unfolding holders_ok_def
proof (intro conjI ballI impI)
  fix h assume h: "h \<in> set (holders_step rnd (OpRelease clk r l w) slots hs)" "hi \<le> h_until h"
  then obtain s where s: "s \<in> set slots" "backs s h" using ok by (auto simp: holders_ok_def)
  have "\<not> (s_bucket s = cr_name r \<and> s_index s = sl_index l \<and> sql_eq (s_held_by s) (Some w)
           \<and> (case fence_of l of None \<Rightarrow> True | Some f \<Rightarrow> sql_eq (s_acquired_at s) (Some f)))"
    using h(1) s(2) by (auto simp: backs_def slot_key_def fence_of_def split: option.splits)
  then show "\<exists>s \<in> set (release_slot clk r l w slots). backs s h"
    unfolding release_slot_def set_upd_where using s by (intro bexI[of _ s] image_eqI[of _ _ s]) auto
next
  show "distinct (map (\<lambda>h. (h_bucket h, h_index h))
          (filter (\<lambda>h. hi \<le> h_until h) (holders_step rnd (OpRelease clk r l w) slots hs)))"
    using ok by (auto simp: holders_ok_def elim: distinct_map_filter_mono)
qed

lemma holders_ok_extend:
  assumes ok: "holders_ok hi slots hs" and d: "distinct (map slot_key slots)"
  shows "holders_ok hi (extend_reservation_leases clk w lease dis d' slots)
           (holders_step rnd (OpExtend clk w lease dis d') slots hs)"
proof -
  let ?t = "extend_reservation_leases clk w lease dis d' slots"
  let ?g = "\<lambda>h. h\<lparr>h_until := min (h_until h) (null_ts (lease_at (h_bucket h, h_index h) ?t))\<rparr>"
  have "\<exists>s' \<in> set ?t. backs s' (?g h)" if h: "h \<in> set hs" "hi \<le> h_until (?g h)" for h
  proof -
    obtain s where s: "s \<in> set slots" "backs s h" using ok h by (auto simp: holders_ok_def)
    obtain P f where t: "?t = upd_where P f slots" "\<And>s. slot_key (f s) = slot_key s"
      "\<And>s. s_lease_expires_at (f s) \<noteq> None" "\<And>s. same_hold s (f s)"
      by (rule that[OF extend_reservation_leases_def]) (simp_all add: slot_key_def same_hold_def)
    let ?s = "if P s then f s else s"
    have m: "?s \<in> set ?t" using s(1) by (auto simp: t(1) set_upd_where)
    have "row_by slot_key (h_bucket h, h_index h) slots = Some s"
      using row_by_distinct[OF d s(1)] s(2) by (simp add: backs_def)
    then have "lease_at (h_bucket h, h_index h) ?t = s_lease_expires_at ?s"
      by (simp add: lease_at_def t(1) row_by_upd_where[of slot_key f, OF t(2)])
    moreover have "s_lease_expires_at ?s \<noteq> None" "same_hold s ?s"
      using t(3,4) s(2) by (auto simp: backs_def sql_rel_iff)
    ultimately have "backs ?s (?g h)"
      using s(2) by (auto simp: backs_def same_hold_def null_ts_def)
    with m show ?thesis by blast
  qed
  moreover have "distinct (map (\<lambda>h. (h_bucket h, h_index h)) (filter (\<lambda>h. hi \<le> h_until h) (map ?g hs)))"
    using ok by (auto simp: holders_ok_def filter_map o_def elim: distinct_map_filter_mono)
  ultimately show ?thesis by (simp add: holders_ok_def)
qed

lemma holders_ok_acquire:
  assumes ok: "holders_ok hi slots hs" and d: "distinct (map slot_key slots)" and c: "\<And>k s. clk k s \<le> hi"
  shows "holders_ok hi (snd (acquire_slot rnd clk now skip r job w slots))
           (holders_step rnd (OpAcquire clk now skip r job w) slots hs)"
proof (cases "free_slot clk skip (cr_name r) slots")
  case None
  then show ?thesis using ok by (simp add: acquire_slot_def)
next
  case (Some f)
  note f = free_slot_SomeD[OF Some]
  let ?g = "take_slot clk job w (pg_seconds rnd (total_seconds rnd (cr_lease r)))"
  let ?t = "upd_where (\<lambda>s. slot_key s = slot_key f) ?g slots"
  let ?h = "\<lparr>h_bucket = cr_name r, h_index = s_index f, h_fence = clk 1 f, h_worker = w,
             h_until = null_ts (lease_at (cr_name r, s_index f) ?t)\<rparr>"
  have e: "acquire_slot rnd clk now skip r job w slots = (Inr \<lparr>sl_index = s_index f, sl_fence = Some (clk 1 f)\<rparr>, ?t)"
    using Some by (simp add: acquire_slot_def)
  have key: "slot_key f = (cr_name r, s_index f)" using f by (simp add: slot_key_def)
  have "row_by slot_key (slot_key f) slots = Some f" using row_by_distinct[OF d] f by blast
  then have "row_by slot_key (slot_key f) ?t = Some (?g f)"
    by (subst row_by_upd_where) (simp_all add: take_slot_def slot_key_def)
  then have "lease_at (cr_name r, s_index f) ?t = s_lease_expires_at (?g f)"
    by (simp add: lease_at_def key)
  then have new: "backs (?g f) ?h" using key by (simp add: backs_def take_slot_def slot_key_def null_ts_def)
  have mem: "?g f \<in> set ?t" using f by (auto simp: set_upd_where)
  have old: "holders_ok hi ?t hs"
    using holders_ok_keeps[OF ok acquire_keeps_live[where clk = clk and hi = hi, OF d c, where rnd = rnd and now = now and skip = skip and r = r and job = job and w = w]] e by simp
  have nf: "(h_bucket h, h_index h) \<noteq> slot_key f" if h: "h \<in> set hs" "hi \<le> h_until h" for h
  proof
    assume k: "(h_bucket h, h_index h) = slot_key f"
    obtain s where s: "s \<in> set slots" "backs s h" using ok h by (auto simp: holders_ok_def)
    have "s = f" using distinct_key_eq[OF d s(1)] f s(2) k by (simp add: backs_def)
    then show False using live_not_free[OF backs_live[OF s(2) h(2)] c] f by blast
  qed
  have "slot_key f \<notin> (\<lambda>h. (h_bucket h, h_index h)) ` set (filter (\<lambda>h. hi \<le> h_until h) hs)"
  proof
    assume "slot_key f \<in> (\<lambda>h. (h_bucket h, h_index h)) ` set (filter (\<lambda>h. hi \<le> h_until h) hs)"
    then obtain h where "h \<in> set hs" "hi \<le> h_until h" "slot_key f = (h_bucket h, h_index h)" by auto
    then show False using nf[of h] by simp
  qed
  then have "distinct (map (\<lambda>h. (h_bucket h, h_index h)) (filter (\<lambda>h. hi \<le> h_until h) (hs @ [?h])))"
    using old key by (simp add: holders_ok_def)
  then have "holders_ok hi ?t (hs @ [?h])" using old new mem by (auto simp: holders_ok_def)
  then show ?thesis using e by (simp add: null_ts_def)
qed

lemma holders_ok_step:
  assumes ok: "holders_ok hi slots hs" and d: "distinct (map slot_key slots)" and o: "op_by hi op"
  shows "holders_ok hi (slot_step rnd op slots) (holders_step rnd op slots hs)"
  using o holders_ok_keeps[OF ok] holders_ok_release[OF ok] holders_ok_extend[OF ok d] holders_ok_acquire[OF ok d]
  by (cases op) (simp_all add: step_keeps_live d)

lemma slot_run_ok:
  assumes "sorted (hi # map fst ops)" "\<forall>(t, op) \<in> set ops. op_by t op \<and> op_declares b n op"
    "in_range b n slots" "holders_ok hi slots hs" "slot_run rnd ops (slots, hs) = (slots', hs')"
  shows "in_range b n slots' \<and> holders_ok (last (hi # map fst ops)) slots' hs'"
  using assms
proof (induction ops arbitrary: hi slots hs)
  case (Cons p ops)
  obtain t op where p: "p = (t, op)" by fastforce
  have o: "op_by t op" "op_declares b n op" "hi \<le> t" using Cons.prems(1,2) p by auto
  have "holders_ok t slots hs" using holders_ok_later[OF Cons.prems(4) o(3)] .
  then have "holders_ok t (slot_step rnd op slots) (holders_step rnd op slots hs)"
    using holders_ok_step[OF _ _ o(1)] Cons.prems(3) by (simp add: in_range_def)
  then show ?case
    using Cons.IH[OF _ _ in_range_step[OF Cons.prems(3) o(2), of rnd], of t "holders_step rnd op slots hs"]
      Cons.prems(1,2,5) p by simp
qed simp


definition demo_reservation :: "string \<Rightarrow> int \<Rightarrow> ConcurrencyReservation" where
  "demo_reservation name n =
     \<lparr>cr_name = name, cr_slots = n, cr_lease = seconds 10, cr_lock_lease = None, cr_keyed = True,
      cr_schema = ''taskq'', cr_memory = False\<rparr>"

text \<open>
  One slot; the lease of the first job runs out, the second job takes the slot
  and the first job's late release changes nothing.
\<close>

definition demo_ops :: "(timestamptz \<times> slot_op) list" where
  "demo_ops =
     [(0, OpEnsure (\<lambda>_ _. 0) (\<lambda>_. 0) (demo_reservation ''gpu'' 1)),
      (0, OpAcquire (\<lambda>_ _. 0) 0 (\<lambda>_. False) (demo_reservation ''gpu'' 1) 1 7),
      (seconds 11, OpAcquire (\<lambda>_ _. seconds 11) (seconds 11) (\<lambda>_. False) (demo_reservation ''gpu'' 1) 2 7),
      (seconds 12, OpRelease (\<lambda>_ _. seconds 12) (demo_reservation ''gpu'' 1) \<lparr>sl_index = 0, sl_fence = Some 0\<rparr> 7)]"


section \<open>Interleaved sweeps\<close>

lemma acquire_grants_row:
  assumes d: "distinct (map slot_key snap)" and g: "acquire_slot rnd clk now skip r job w snap = (Inr l, slots)"
  obtains s where "s \<in> set snap" "slot_key s = (cr_name r, sl_index l)" "slot_free (clk 0 s) s"
    "row_by slot_key (slot_key s) slots
       = Some (take_slot clk job w (pg_seconds rnd (total_seconds rnd (cr_lease r))) s)"
proof -
  obtain s where s: "free_slot clk skip (cr_name r) snap = Some s" "sl_index l = s_index s"
    "slots = upd_where (\<lambda>x. slot_key x = slot_key s)
               (take_slot clk job w (pg_seconds rnd (total_seconds rnd (cr_lease r)))) snap"
    using g by (auto simp: acquire_slot_def split: option.splits)
  note f = free_slot_SomeD[OF s(1)]
  show ?thesis
  proof (rule that[of s])
    have "row_by slot_key (slot_key s) snap = Some s" using row_by_distinct[OF d] f by blast
    then show "row_by slot_key (slot_key s) slots
       = Some (take_slot clk job w (pg_seconds rnd (total_seconds rnd (cr_lease r))) s)"
      unfolding s(3) by (subst row_by_upd_where) (simp_all add: take_slot_def slot_key_def)
  qed (use f s(2) in \<open>simp_all add: slot_key_def\<close>)
qed

text \<open>
  C10: the leaked-slot sweep can free a live lease.  Its window is read from
  the statement's snapshot and its UPDATE re-checks only \<open>job_id IS NOT NULL\<close>.
  When an acquire takes an expired slot between the two, the row the UPDATE meets
  carries the new job with its new lease, and the sweep clears it: the slot is
  free again while its holder is at work.
\<close>

theorem leak_sweep_frees_live_lease:
  assumes d: "distinct (map slot_key snap)"
    and win: "length (filter (leaked_slot ts) snap) \<le> n"
    and g: "acquire_slot rnd clk now skip r job w snap = (Inr l, slots)"
    and leak: "\<forall>s \<in> set snap. slot_key s = (cr_name r, sl_index l) \<longrightarrow> leaked_slot ts s"
  shows "\<exists>s g f. row_by slot_key (cr_name r, sl_index l) snap = Some s
      \<and> row_by slot_key (cr_name r, sl_index l) slots = Some g
      \<and> s_job_id g = Some job \<and> s_lease_expires_at g = Some (clk 2 s + pg_seconds rnd (total_seconds rnd (cr_lease r)))
      \<and> row_by slot_key (cr_name r, sl_index l) (snd (sweep_4_sql ts n snap slots)) = Some f
      \<and> s_job_id f = None \<and> s_lease_expires_at f = None"
proof -
  obtain s where s: "s \<in> set snap" "slot_key s = (cr_name r, sl_index l)"
    "row_by slot_key (slot_key s) slots
       = Some (take_slot clk job w (pg_seconds rnd (total_seconds rnd (cr_lease r))) s)"
    using acquire_grants_row[OF d g] by metis
  let ?k = "(cr_name r, sl_index l)"
  let ?E = "take n (sort_key (\<lambda>s. null_ts (s_lease_expires_at s)) (filter (leaked_slot ts) snap))"
  have "?k \<in> slot_key ` set ?E" using s(1,2) leak win by (auto intro!: rev_image_eqI)
  then have "row_by slot_key ?k (snd (sweep_4_sql ts n snap slots))
     = Some ((take_slot clk job w (pg_seconds rnd (total_seconds rnd (cr_lease r))) s)
          \<lparr>s_job_id := None, s_held_by := None, s_acquired_at := None, s_lease_expires_at := None\<rparr>)"
    unfolding sweep_4_sql_def Let_def snd_conv
    by (subst row_by_upd_where) (use s in \<open>simp_all add: slot_key_def take_slot_def\<close>)
  then show ?thesis using s row_by_distinct[OF d s(1)] by (simp add: take_slot_def)
qed

text \<open>One slot, lease of ten seconds run out at second 10, both jobs acquire at second 11.\<close>

definition demo_slot :: "uuid option \<Rightarrow> timestamptz option \<Rightarrow> int \<Rightarrow> slot_row" where
  "demo_slot job expiry i =
     \<lparr>s_bucket = ''gpu'', s_index = i, s_job_id = job, s_held_by = job, s_acquired_at = map_option (\<lambda>_. 0) job,
      s_lease_expires_at = expiry, s_keyed = True, s_last_used_at = 0\<rparr>"

abbreviation demo_acquire :: "uuid \<Rightarrow> slot_row list \<Rightarrow> (interval + SlotLease) \<times> slot_row list" where
  "demo_acquire job slots \<equiv> acquire_slot rnd64 (\<lambda>_ _. seconds 11) (seconds 11) (\<lambda>_. False)
     (demo_reservation ''gpu'' 1) job 7 slots"

theorem leak_sweep_frees_live_lease_witness:
  "\<exists>slots f. demo_acquire 2 [demo_slot (Some 1) (Some (seconds 10)) 0]
        = (Inr \<lparr>sl_index = 0, sl_fence = Some (seconds 11)\<rparr>, slots)
     \<and> lease_at (''gpu'', 0) slots = Some (seconds 21)
     \<and> row_by slot_key (''gpu'', 0) (snd (sweep_4_sql (seconds 11) 5 [demo_slot (Some 1) (Some (seconds 10)) 0] slots)) = Some f
     \<and> s_job_id f = None"
proof -
  let ?snap = "[demo_slot (Some 1) (Some (seconds 10)) 0]"
  let ?slots = "[(demo_slot (Some 2) (Some (seconds 21)) 0)
     \<lparr>s_held_by := Some 7, s_acquired_at := Some (seconds 11), s_last_used_at := seconds 11\<rparr>]"
  have g: "demo_acquire 2 ?snap = (Inr \<lparr>sl_index = 0, sl_fence = Some (seconds 11)\<rparr>, ?slots)" by code_simp
  have l: "lease_at (''gpu'', 0) ?slots = Some (seconds 21)" by code_simp
  have "\<exists>f. row_by slot_key (''gpu'', 0) (snd (sweep_4_sql (seconds 11) 5 ?snap ?slots)) = Some f \<and> s_job_id f = None"
    using leak_sweep_frees_live_lease[OF _ _ g, of "seconds 11" 5]
    by (auto simp: demo_slot_def demo_reservation_def leaked_slot_def seconds_def usec_per_sec_def)
  with g l show ?thesis by blast
qed

end
