(* ===== verification/Keyed_Rows.thy ===== *)
theory Keyed_Rows
  imports Leases Token_Bucket
begin

text \<open>
  The sweep of idle keyed rows beside the operations that fill them: a
  reservation's bucket goes whole or stays whole, and a spent fixed quota never
  comes back.
\<close>

section \<open>Buckets of slots go whole\<close>

lemma reclaimable_row:
  assumes "reclaimable_bucket ts horizon locked b" "s \<in> set locked" "s_bucket s = b"
  shows "s_keyed s \<and> s_last_used_at s < ts - horizon \<and> slot_free ts s"
proof -
  let ?m = "filter (\<lambda>s. s_bucket s = b) locked"
  have m: "s \<in> set ?m" using assms(2,3) by simp
  have "s_last_used_at s \<le> Max (set (map s_last_used_at ?m))" by (rule Max_ge) (use m in auto)
  then have "s_last_used_at s < ts - horizon"
    by (rule order_le_less_trans) (use assms(1) in \<open>simp add: reclaimable_bucket_def Let_def\<close>)
  then show ?thesis using assms(1) m unfolding reclaimable_bucket_def Let_def by blast
qed


text \<open>Two slots unused for a minute; an acquire stamps the first between the snapshot and the lock.\<close>

definition demo_idle :: "slot_row list" where
  "demo_idle = [demo_slot None None 0, demo_slot None None 1]"

definition demo_touched :: "slot_row list" where
  "demo_touched = [(demo_slot (Some 3) (Some (seconds 70)) 0)\<lparr>s_last_used_at := seconds 60\<rparr>, demo_slot None None 1]"


text \<open>
  The leaked-slot sweep stamps nothing and leaves no lease behind, so the proviso
  on newer rows fails for it.  When it clears an expired lease between the
  snapshot and the lock of the idle sweep, the verdict is to reclaim, the cleared
  row has another ctid, and the bucket is left with part of its slots: not zero
  rows, so that the acquire path does not put the others back.
\<close>

lemma leak_sweep_splits_bucket:
  "let snap = [demo_slot (Some 1) (Some (seconds 10)) 0, demo_slot None None 1];
       slots = snd (sweep_4_sql (seconds 60) 5 snap snap);
       rest = snd (sweep_idle_keyed_slots (\<lambda>_. 0) (seconds 60) (seconds 30) 5 snap (\<lambda>s. s_index s = 0) slots)
   in length slots = 2 \<and> map s_index rest = [0] \<and> slot_rows_exist (demo_reservation ''gpu'' 2) rest"
  by code_simp

section \<open>A fixed quota never comes back\<close>

datatype quota_op =
    QAcquire limiter_env int
  | QRefund limiter_env int
  | QSweep "string \<Rightarrow> int" timestamptz interval int

text \<open>The tokens an operation spends on the bucket, and the rows it leaves.\<close>

primrec quota_step ::
    "(string \<Rightarrow> rat option) \<Rightarrow> TokenBucket \<Rightarrow> quota_op \<Rightarrow> bucket_row list \<Rightarrow> int \<times> bucket_row list" where
  "quota_step txt b (QAcquire env c) rows =
     (case acquire_pg rnd64 txt env b (of_int c) rows of
        (Inr d, rows') \<Rightarrow> (if rd_allowed d then c else 0, rows')
      | (Inl _, rows') \<Rightarrow> (0, rows'))"
| "quota_step txt b (QRefund env c) rows =
     (case refund_pg rnd64 txt env b (of_int c) rows of
        (Inr _, rows') \<Rightarrow> (- c, rows')
      | (Inl _, rows') \<Rightarrow> (0, rows'))"
| "quota_step txt b (QSweep coll ts horizon n) rows =
     (case sweep_idle_keyed_rows rnd64 txt coll ts ts horizon n (rows, []) of
        Inr (_, (rows', _)) \<Rightarrow> (0, rows')
      | Inl _ \<Rightarrow> (0, rows))"

primrec op_count :: "quota_op \<Rightarrow> int" where
  "op_count (QAcquire env c) = c"
| "op_count (QRefund env c) = c"
| "op_count (QSweep coll ts horizon n) = 0"

fun quota_run ::
    "(string \<Rightarrow> rat option) \<Rightarrow> TokenBucket \<Rightarrow> quota_op list \<Rightarrow> int \<times> bucket_row list \<Rightarrow> int \<times> bucket_row list" where
  "quota_run txt b [] w = w"
| "quota_run txt b (op # ops) (spent, rows) =
     (let (k, rows') = quota_step txt b op rows in quota_run txt b ops (spent + k, rows'))"

text \<open>A row of the bucket: its tokens are what is left, or less.\<close>

definition quota_doc :: "int \<Rightarrow> int \<Rightarrow> jobj \<Rightarrow> bool" where
  "quota_doc C spent doc \<longleftrightarrow> (\<exists>n t. doc ''tokens'' = Some (JNum (of_int n)) \<and> doc ''ts'' = Some (JNum t)
     \<and> doc ''capacity'' = Some (JNum (of_int C)) \<and> doc ''refill'' = Some (JNum 0)
     \<and> 0 \<le> n \<and> n \<le> C \<and> n \<le> C - spent)"

definition quota_inv :: "TokenBucket \<Rightarrow> int \<Rightarrow> int \<Rightarrow> bucket_row list \<Rightarrow> bool" where
  "quota_inv b C spent rows \<longleftrightarrow>
     (\<forall>q \<in> set rows. k_name q = tb_name b \<longrightarrow> quota_doc C spent (k_state q))
     \<and> ((\<forall>q \<in> set rows. k_name q \<noteq> tb_name b) \<longrightarrow> spent \<le> 0)"

lemma quota_inv_le: "0 < C \<Longrightarrow> quota_inv b C spent rows \<Longrightarrow> spent \<le> C"
  by (fastforce simp: quota_inv_def quota_doc_def)

lemma quota_inv_row:
  "quota_inv b C spent rows \<Longrightarrow> row_by k_name (tb_name b) rows = Some q \<Longrightarrow> quota_doc C spent (k_state q)"
  by (auto simp: quota_inv_def dest!: row_by_SomeD)

lemma quota_inv_none:
  "quota_inv b C spent rows \<Longrightarrow> row_by k_name (tb_name b) rows = None \<Longrightarrow> spent \<le> 0"
  by (auto simp: quota_inv_def row_by_None_iff image_iff)

lemma quota_inv_set:
  assumes "row_by k_name (tb_name b) rows = Some q" "\<And>x. quota_doc C spent (k_state (f x))" "\<And>x. k_name x = tb_name b \<Longrightarrow> k_name (f x) = tb_name b"
  shows "quota_inv b C spent (upd_where (\<lambda>x. k_name x = tb_name b) f rows)"
  using row_by_SomeD[OF assms(1)] assms(2,3) by (auto simp: quota_inv_def set_upd_where image_iff)

lemma quota_inv_less: "quota_inv b C spent rows \<Longrightarrow> spent' \<le> spent \<Longrightarrow> quota_inv b C spent' rows"
  by (fastforce simp: quota_inv_def quota_doc_def)

lemma small_int: "0 \<le> n \<Longrightarrow> n \<le> C \<Longrightarrow> C < 2 ^ 53 \<Longrightarrow> rnd64 (of_int n) = of_int n"
  by (rule rnd64_int) simp

definition fixed_bucket :: "TokenBucket \<Rightarrow> int \<Rightarrow> bool" where
  "fixed_bucket b C \<longleftrightarrow> tb_capacity b = of_int C \<and> tb_refill b = 0 \<and> 0 < C \<and> C < 2 ^ 53"

lemma refilled_fixed:
  assumes "fixed_bucket b C" "quota_doc C spent doc"
  shows "\<exists>n. pg_refilled rnd64 txt b now doc = Inr (of_int n) \<and> 0 \<le> n \<and> n \<le> C \<and> n \<le> C - spent
    \<and> doc ''tokens'' = Some (JNum (of_int n))"
  using assms small_int f64.rnd_0
  by (fastforce simp: fixed_bucket_def quota_doc_def pg_refilled_def min_absorb2)

lemma granted_doc:
  assumes b: "fixed_bucket b C" and n: "0 \<le> n" "n \<le> C" "n \<le> C - spent" and c: "0 \<le> c"
  shows "quota_doc C (spent + (if c \<le> n then c else 0)) (granted_payload rnd64 b (of_int n) (of_int c) now)"
proof -
  have "rnd64 (of_int n - of_int c) = of_int (n - c)" if "c \<le> n"
    using small_int[of "n - c" C] that n c b by (simp add: fixed_bucket_def)
  then show ?thesis using b n c
    by (auto simp: quota_doc_def granted_payload_def jsonb_build_object_apply fixed_bucket_def intro!: exI[of _ "n - c"])
qed

lemma fused_quota:
  assumes b: "fixed_bucket b C" and i: "quota_inv b C spent rows" and c: "0 \<le> c"
    and f: "fused_acquire rnd64 txt clk b (of_int c) now rows = Inr (r, rows')"
  shows "\<exists>g. k_state r ''granted'' = Some (JBool g) \<and> quota_inv b C (spent + (if g then c else 0)) rows'"
proof (cases "row_by k_name (tb_name b) rows")
  case None
  have r: "k_state r = granted_payload rnd64 b (of_int C) (of_int c) now" "rows' = rows @ [r]" "k_name r = tb_name b"
    using f b by (auto simp: fused_acquire_def None Let_def fixed_bucket_def)
  have "quota_doc C (spent + (if c \<le> C then c else 0)) (k_state r)"
    using granted_doc[OF b _ _ _ c, of C spent now] quota_inv_none[OF i None] b r(1) by (simp add: fixed_bucket_def)
  moreover have "\<forall>q \<in> set rows. k_name q \<noteq> tb_name b" using None unfolding row_by_None_iff by (metis imageI)
  ultimately show ?thesis
    by (intro exI[of _ "c \<le> C"]) (auto simp: r granted_payload_simps quota_inv_def)
next
  case (Some q)
  obtain n where n: "pg_refilled rnd64 txt b now (k_state q) = Inr (of_int n)" "0 \<le> n" "n \<le> C" "n \<le> C - spent"
    using refilled_fixed[OF b quota_inv_row[OF i Some]] by blast
  have r: "r = q\<lparr>k_state := granted_payload rnd64 b (of_int n) (of_int c) now, k_updated_at := clk 2,
               k_last_used_at := clk 3, k_keyed := tb_keyed b\<rparr>"
    "rows' = upd_where (\<lambda>x. k_name x = tb_name b) (\<lambda>_. r) rows"
    using f by (auto simp: fused_acquire_def Some n(1) Let_def)
  have "k_name r = tb_name b" using row_by_SomeD[OF Some] by (simp add: r(1))
  then have "quota_inv b C (spent + (if c \<le> n then c else 0)) rows'"
    unfolding r(2) using granted_doc[OF b n(2-4) c, of now] by (intro quota_inv_set[OF Some]) (simp_all add: r(1))
  then show ?thesis by (intro exI[of _ "c \<le> n"]) (simp add: r(1) granted_payload_simps)
qed

lemma acquire_quota:
  assumes b: "fixed_bucket b C" and i: "quota_inv b C spent rows" and c: "0 \<le> c"
  shows "quota_inv b C (spent + fst (quota_step txt b (QAcquire env c) rows)) (snd (quota_step txt b (QAcquire env c) rows))"
proof (cases "\<exists>d rows'. acquire_pg rnd64 txt env b (of_int c) rows = (Inr d, rows') \<and> rd_allowed d")
  case True
  then obtain d rows' where a: "acquire_pg rnd64 txt env b (of_int c) rows = (Inr d, rows')" "rd_allowed d" by blast
  then obtain r where r: "fused_acquire rnd64 txt (le_clk env) b (of_int c) (le_pg_now env) rows = Inr (r, rows')"
    "k_state r ''granted'' = Some (JBool True)"
    by (auto simp: acquire_pg_def guarded_def Let_def decision_def pg_decision_def
        split: sum.splits if_splits option.splits json.splits prod.splits)
  show ?thesis using fused_quota[OF b i c r(1)] r(2) a by auto
next
  case False
  then have z: "fst (quota_step txt b (QAcquire env c) rows) = 0" by (auto split: sum.splits prod.splits)
  have "snd (acquire_pg rnd64 txt env b (of_int c) rows) = rows
    \<or> (\<exists>r. fused_acquire rnd64 txt (le_clk env) b (of_int c) (le_pg_now env) rows
           = Inr (r, snd (acquire_pg rnd64 txt env b (of_int c) rows)))"
    unfolding acquire_pg_def guarded_def Let_def
    by (auto split: sum.splits option.splits json.splits prod.splits)
  moreover have "snd (quota_step txt b (QAcquire env c) rows) = snd (acquire_pg rnd64 txt env b (of_int c) rows)"
    by (auto split: sum.splits prod.splits)
  ultimately consider "snd (quota_step txt b (QAcquire env c) rows) = rows"
    | r rows' where "snd (quota_step txt b (QAcquire env c) rows) = rows'"
        "fused_acquire rnd64 txt (le_clk env) b (of_int c) (le_pg_now env) rows = Inr (r, rows')"
    by metis
  then show ?thesis
  proof cases
    case 1
    then show ?thesis using i z by simp
  next
    case 2
    then show ?thesis using fused_quota[OF b i c 2(2)] z quota_inv_less c by fastforce
  qed
qed

lemma refund_quota:
  assumes b: "fixed_bucket b C" and i: "quota_inv b C spent rows" and c: "0 \<le> c"
  shows "quota_inv b C (spent + fst (quota_step txt b (QRefund env c) rows)) (snd (quota_step txt b (QRefund env c) rows))"
proof (cases "row_by k_name (tb_name b) rows")
  case None
  then have "snd (quota_step txt b (QRefund env c) rows) = rows" "fst (quota_step txt b (QRefund env c) rows) \<le> 0"
    using c by (auto simp: refund_pg_def guarded_def Let_def split: sum.splits)
  then show ?thesis using quota_inv_less[OF i] by simp
next
  case (Some q)
  obtain n t where n: "k_state q ''tokens'' = Some (JNum (of_int n))" "k_state q ''ts'' = Some (JNum t)"
    "0 \<le> n" "n \<le> C" "n \<le> C - spent"
    using quota_inv_row[OF i Some] unfolding quota_doc_def by blast
  let ?t2 = "min (of_int C) (rnd64 (of_int n + of_int c)) :: rat"
  obtain m where m: "?t2 = of_int m" "0 \<le> m" "m \<le> C" "m \<le> C - (spent - c)"
  proof (cases "n + c \<le> C")
    case True
    then show ?thesis using that[of "n + c"] small_int[of "n + c" C] n c b by (simp add: fixed_bucket_def)
  next
    case False
    then have "rnd64 (of_int C) \<le> rnd64 (of_int n + of_int c)" by (intro rnd64_mono) (simp flip: of_int_add)
    then show ?thesis using that[of C] False small_int[of C C] n b by (simp add: fixed_bucket_def)
  qed
  have "refilled rnd64 (of_int C) 0 (of_int n) s now = of_int n" for s now
    using small_int[of n C] n b f64.rnd_0 by (simp add: refilled_def Let_def fixed_bucket_def)
  then have d: "quota_doc C (spent - c) (state_payload b
      (min (tb_capacity b) (rnd64 (refilled rnd64 (tb_capacity b) (tb_refill b) (of_int n) s now + of_int c))) now)" for s now
    using b m by (auto simp: quota_doc_def state_payload_def jsonb_build_object_apply fixed_bucket_def)
  have e: "rnd64 (of_int n) = of_int n" using small_int[of n C] n b by (simp add: fixed_bucket_def)
  show ?thesis
  proof (cases "require_pg env = Inr () \<and> \<not> (resolve_token_bucket_lock_timeout_ms None (le_settings env)
      DEFAULT_TOKEN_BUCKET_LOCK_TIMEOUT_MS > 0 \<and> \<not> le_lock_free env)")
    case True
    then have s: "quota_step txt b (QRefund env c) rows = (- c, upd_where (\<lambda>x. k_name x = tb_name b)
         (\<lambda>x. x\<lparr>k_state := state_payload b (min (tb_capacity b) (rnd64 (refilled rnd64 (tb_capacity b) (tb_refill b)
                  (of_int n) (rnd64 t) (le_pg_now env) + of_int c))) (le_pg_now env),
                k_updated_at := le_clk env 0, k_last_used_at := le_clk env 1\<rparr>) rows)"
      using Some n b e by (auto simp: refund_pg_def guarded_def Let_def fixed_bucket_def)
    show ?thesis unfolding s using d by (auto intro!: quota_inv_set[OF Some])
  next
    case False
    then have "quota_step txt b (QRefund env c) rows = (0, rows)"
      by (auto simp: refund_pg_def guarded_def Let_def split: sum.splits)
    then show ?thesis using i by simp
  qed
qed

lemma sweep_buckets_rows:
  assumes "sweep_idle_keyed_buckets rnd txt coll ts horizon n snap rows = Inr (k, rows')"
  shows "\<exists>names. rows' = filter
    (\<lambda>q. (if k_name q \<in> names then idle_bucket rnd txt ts horizon q else Inr False) \<noteq> Inr True) rows"
  using assms unfolding sweep_idle_keyed_buckets_def Let_def bindE_Inr_iff by blast

lemma idle_quota_full:
  assumes "0 < C" "C < 2 ^ 53" "quota_doc C spent (k_state q)" "idle_bucket rnd64 txt ts horizon q = Inr True"
  shows "spent \<le> 0"
proof -
  obtain n where n: "k_state q ''tokens'' = Some (JNum (of_int n))" "k_state q ''capacity'' = Some (JNum (of_int C))"
    "k_state q ''refill'' = Some (JNum 0)" "0 \<le> n" "n \<le> C" "n \<le> C - spent"
    using assms(3) unfolding quota_doc_def by blast
  have "rnd64 (of_int n) = of_int n" "rnd64 (of_int C) = of_int C" 
    using small_int[of n C] small_int[of C C] n assms(1,2) by auto
  then have "C \<le> n"
    using assms(4) n f64.rnd_0 by (simp add: idle_bucket_def no_consumed_quota_def split: if_splits)
  then show ?thesis using n by simp
qed

lemma sweep_quota:
  assumes b: "fixed_bucket b C" and i: "quota_inv b C spent rows"
  shows "quota_inv b C (spent + fst (quota_step txt b (QSweep coll ts horizon n) rows))
           (snd (quota_step txt b (QSweep coll ts horizon n) rows))"
proof -
  consider "quota_step txt b (QSweep coll ts horizon n) rows = (0, rows)"
    | names where "quota_step txt b (QSweep coll ts horizon n) rows = (0, filter
        (\<lambda>q. (if k_name q \<in> names then idle_bucket rnd64 txt ts horizon q else Inr False) \<noteq> Inr True) rows)"
  proof (cases "sweep_idle_keyed_rows rnd64 txt coll ts ts horizon n (rows, [])")
    case (Inr x)
    then obtain k rows' where "sweep_idle_keyed_buckets rnd64 txt coll ts horizon (nat n) rows rows = Inr (k, rows')"
      "fst (snd x) = rows'"
      by (auto simp: sweep_idle_keyed_rows_def Let_def case_prod_unfold bindE_Inr_iff split: if_splits)
    then show ?thesis using that(2) sweep_buckets_rows Inr by (fastforce simp: case_prod_unfold)
  qed (use that(1) in simp)
  then show ?thesis
  proof cases
    case 2
    let ?k = "\<lambda>q. (if k_name q \<in> names then idle_bucket rnd64 txt ts horizon q else Inr False) \<noteq> Inr True"
    have "spent \<le> 0" if none: "\<forall>q \<in> set (filter ?k rows). k_name q \<noteq> tb_name b"
    proof (cases "\<exists>q \<in> set rows. k_name q = tb_name b")
      case True
      then obtain q where q: "q \<in> set rows" "k_name q = tb_name b" by blast
      then have "idle_bucket rnd64 txt ts horizon q = Inr True" using none by (auto split: if_splits)
      then show ?thesis using idle_quota_full[of C spent q] i q b by (simp add: quota_inv_def fixed_bucket_def)
    qed (use i in \<open>simp add: quota_inv_def\<close>)
    then show ?thesis using 2 i by (auto simp: quota_inv_def)
  qed (use i in simp)
qed

lemma run_quota:
  assumes "fixed_bucket b C" "quota_inv b C spent rows" "\<forall>op \<in> set ops. 0 \<le> op_count op"
  shows "quota_inv b C (fst (quota_run txt b ops (spent, rows))) (snd (quota_run txt b ops (spent, rows)))"
  using assms(2,3)
proof (induction ops arbitrary: spent rows)
  case (Cons op ops)
  have "quota_inv b C (spent + fst (quota_step txt b op rows)) (snd (quota_step txt b op rows))"
    using acquire_quota[OF assms(1) Cons.prems(1)] refund_quota[OF assms(1) Cons.prems(1)]
      sweep_quota[OF assms(1) Cons.prems(1)] Cons.prems(2)
    by (cases op) (simp_all del: quota_step.simps)
  then show ?case using Cons.IH Cons.prems(2) by (simp add: Let_def case_prod_unfold del: quota_step.simps)
qed simp

text \<open>
  C12: a fixed quota is never granted twice over.  For a bucket with refill zero
  and a whole capacity, whatever acquires, refunds and runs of the idle sweep
  interleave, with any horizons and any clocks, the tokens granted less the tokens
  given back never exceed the capacity: the sweep deletes the row of the bucket
  only when nothing is spent from it, so that the next acquire's full bucket is
  the one deleted.
\<close>

theorem fixed_quota_never_resets:
  assumes "fixed_bucket b C" "\<forall>q \<in> set rows. k_name q \<noteq> tb_name b" "\<forall>op \<in> set ops. 0 \<le> op_count op"
  shows "fst (quota_run txt b ops (0, rows)) \<le> C"
proof -
  have "quota_inv b C 0 rows" using assms(2) by (simp add: quota_inv_def)
  then show ?thesis using quota_inv_le[OF _ run_quota[OF assms(1) _ assms(3)]] assms(1) by (simp add: fixed_bucket_def)
qed

definition demo_quota :: TokenBucket where
  "demo_quota = \<lparr>tb_name = ''trial'', tb_capacity = 2, tb_refill = 0, tb_backend = Postgres,
     tb_ttl = seconds 60, tb_keyed = True\<rparr>"

definition demo_env :: limiter_env where
  "demo_env = \<lparr>le_redis = False, le_pool = True, 
     le_settings = Some \<lparr>ls_token_bucket_lock_timeout_ms = 50, ls_sliding_window_lock_timeout_ms = 50,
       ls_pg_fallback_enabled = True\<rparr>,
     le_clock = None, le_redis_now = \<lambda>_. 0, le_pg_now = 0, le_clk = \<lambda>_. 0, le_lock_free = True,
     le_fault = \<lambda>_. None, le_cancelled = \<lambda>_. False\<rparr>"

definition demo_quota_ops :: "quota_op list" where
  "demo_quota_ops = [QAcquire demo_env 2, QSweep (\<lambda>_. 0) (seconds 100) (seconds 1) 10, QAcquire demo_env 1]"

theorem fixed_quota_never_resets_witness:
  "fst (quota_run (\<lambda>_. None) demo_quota demo_quota_ops (0, [])) \<le> 2
   \<and> fst (quota_run (\<lambda>_. None) demo_quota demo_quota_ops (0, [])) = 2"
proof
  show "fst (quota_run (\<lambda>_. None) demo_quota demo_quota_ops (0, [])) \<le> 2"
    by (rule fixed_quota_never_resets) (simp_all add: fixed_bucket_def demo_quota_def demo_quota_ops_def)
  show "fst (quota_run (\<lambda>_. None) demo_quota demo_quota_ops (0, [])) = 2" by code_simp
qed

end
