(* ===== verification/Registry.thy ===== *)
theory Registry
  imports Keyed_Rows Sliding_Window Json
begin

text \<open>
  The registry of limiters (\<open>ratelimit/registry.py\<close>) with the references and
  handles it works on (\<open>refs.py\<close>, \<open>composition.py\<close>): registration, names
  derived from a key, materialisation of keyed entries, eviction of idle ones,
  the drain of evicted rows, and the composition of reservations and rate
  limits that admits a job.  Python dicts are association lists in insertion
  order.  The monotonic clock is read once per call.
\<close>

section \<open>Dictionaries and names\<close>

definition dict_pop :: "'k \<Rightarrow> ('k \<times> 'v) list \<Rightarrow> ('k \<times> 'v) list" where
  "dict_pop k d = filter (\<lambda>e. fst e \<noteq> k) d"

definition has_key :: "'k \<Rightarrow> ('k \<times> 'v) list \<Rightarrow> bool" where
  "has_key k d \<longleftrightarrow> map_of d k \<noteq> None"

definition startswith :: "string \<Rightarrow> string \<Rightarrow> bool" where
  "startswith s p \<longleftrightarrow> take (length p) s = p"

definition QUEUE_CONCURRENCY_PREFIX :: string where
  "QUEUE_CONCURRENCY_PREFIX = ''taskq:global:queue:''"

definition queue_concurrency_reservation_name :: "string \<Rightarrow> string" where
  "queue_concurrency_reservation_name q = QUEUE_CONCURRENCY_PREFIX @ q"

definition base_name_collides_with_reserved_prefix :: "string \<Rightarrow> bool" where
  "base_name_collides_with_reserved_prefix v \<longleftrightarrow>
     startswith v QUEUE_CONCURRENCY_PREFIX \<or> v @ '':'' = QUEUE_CONCURRENCY_PREFIX"

text \<open>The characters of \<open>_KEYED_KEY_RE\<close>.\<close>

definition keyed_char :: "char \<Rightarrow> bool" where
  "keyed_char c \<longleftrightarrow>
     c \<in> set ''ABCDEFGHIJKLMNOPQRSTUVWXYZabcdefghijklmnopqrstuvwxyz0123456789_-:.''"

definition MAX_KEYED_KEY_LEN :: nat where
  "MAX_KEYED_KEY_LEN = 255"

datatype denial_source = SrcReservation | SrcRateLimit

datatype rg_error =
    RgValueError
  | RgTypeError
  | RgKeyError
  | RgRuntimeError
  | RgDriverError
  | RgPayloadValidationError
  | RgLimiterError rl_error
  | ReservationUnavailable string interval denial_source

text \<open>What \<open>key_fn\<close> returns: None where it is no string.\<close>

definition validate_keyed_key :: "string option \<Rightarrow> rg_error + string" where
  "validate_keyed_key key = (case key of
       None \<Rightarrow> Inl RgValueError
     | Some k \<Rightarrow> if k = [] \<or> length k > MAX_KEYED_KEY_LEN \<or> \<not> list_all keyed_char k then Inl RgValueError
                 else Inr k)"

definition validate_keyed_base_name :: "string \<Rightarrow> rg_error + string" where
  "validate_keyed_base_name v =
     (if v = [] \<or> length v > MAX_KEYED_KEY_LEN \<or> \<not> list_all keyed_char v
         \<or> base_name_collides_with_reserved_prefix v
      then Inl RgValueError else Inr v)"

text \<open>
  A keyed reference.  Its key function runs on the validated payload model;
  validation belongs to another package, so that the derived key, or the failure,
  is a field here, over an unspecified payload type.
\<close>

record 'p KeyedReservationRef =
  kr_base_name :: string
  kr_key_fn :: "'p \<Rightarrow> rg_error + string option"
  kr_slots :: int
  kr_lease :: interval

record 'p KeyedRateLimitRef =
  kl_base_name :: string
  kl_key_fn :: "'p \<Rightarrow> rg_error + string option"
  kl_capacity :: rat
  kl_refill :: rat
  kl_backend :: RateLimitBackend

definition new_KeyedReservationRef ::
    "string \<Rightarrow> ('p \<Rightarrow> rg_error + string option) \<Rightarrow> int \<Rightarrow> interval \<Rightarrow> rg_error + 'p KeyedReservationRef" where
  "new_KeyedReservationRef base key_fn slots lease =
     bindE (validate_keyed_base_name base) (\<lambda>v.
       if slots < 1 \<or> lease \<le> 0 then Inl RgValueError
       else Inr \<lparr>kr_base_name = v, kr_key_fn = key_fn, kr_slots = slots, kr_lease = lease\<rparr>)"

definition new_KeyedRateLimitRef ::
    "string \<Rightarrow> ('p \<Rightarrow> rg_error + string option) \<Rightarrow> rat \<Rightarrow> rat \<Rightarrow> RateLimitBackend \<Rightarrow> rg_error + 'p KeyedRateLimitRef" where
  "new_KeyedRateLimitRef base key_fn cap refill be =
     bindE (validate_keyed_base_name base) (\<lambda>v.
       if cap \<le> 0 \<or> refill < 0 then Inl RgValueError
       else Inr \<lparr>kl_base_name = v, kl_key_fn = key_fn, kl_capacity = cap, kl_refill = refill, kl_backend = be\<rparr>)"

section \<open>The registry\<close>

datatype limiter = LBucket TokenBucket | LWindow SlidingWindow

primrec limiter_name :: "limiter \<Rightarrow> string" where
  "limiter_name (LBucket b) = tb_name b"
| "limiter_name (LWindow w) = sw_name w"

record 'p registry =
  rg_rate_limits :: "(string \<times> limiter) list"
  rg_reservations :: "(string \<times> ConcurrencyReservation) list"
  rg_release_events :: "string list"
  rg_res_last_used :: "(string \<times> rat) list"
  rg_rl_last_used :: "(string \<times> rat) list"
  rg_rl_refs :: "(string \<times> 'p KeyedRateLimitRef) list"
  rg_res_refs :: "(string \<times> 'p KeyedReservationRef) list"
  rg_rl_row_schemas :: "(string \<times> string) list"
  rg_pending_res :: "(string \<times> string list) list"
  rg_pending_rl :: "(string \<times> string list) list"
  rg_heal_attempted :: "(string \<times> rat) list"
  rg_heal_failure_logged :: "(string \<times> rat) list"
  rg_res_last_scan :: "rat option"
  rg_rl_last_scan :: "rat option"

text \<open>A scan stamp of None stands for minus infinity.\<close>

definition new_registry :: "'p registry" where
  "new_registry = \<lparr>rg_rate_limits = [], rg_reservations = [], rg_release_events = [], rg_res_last_used = [],
     rg_rl_last_used = [], rg_rl_refs = [], rg_res_refs = [], rg_rl_row_schemas = [], rg_pending_res = [],
     rg_pending_rl = [], rg_heal_attempted = [], rg_heal_failure_logged = [], rg_res_last_scan = None,
     rg_rl_last_scan = None\<rparr>"

definition registry_clear :: "'p registry \<Rightarrow> 'p registry" where
  "registry_clear g = g\<lparr>rg_rate_limits := [], rg_reservations := [], rg_res_last_used := [],
     rg_rl_last_used := [], rg_rl_row_schemas := [], rg_pending_res := [], rg_pending_rl := [],
     rg_heal_attempted := [], rg_heal_failure_logged := [], rg_res_last_scan := None, rg_rl_last_scan := None\<rparr>"

subsection \<open>Registration\<close>

fun same_limiter :: "limiter \<Rightarrow> limiter \<Rightarrow> bool" where
  "same_limiter (LBucket a) (LBucket b) \<longleftrightarrow> tb_name a = tb_name b \<and> tb_capacity a = tb_capacity b
     \<and> tb_refill a = tb_refill b \<and> tb_backend a = tb_backend b \<and> tb_ttl a = tb_ttl b"
| "same_limiter (LWindow a) (LWindow b) \<longleftrightarrow> sw_name a = sw_name b \<and> sw_limit a = sw_limit b
     \<and> sw_window a = sw_window b \<and> sw_backend a = sw_backend b \<and> sw_style a = sw_style b \<and> sw_ttl a = sw_ttl b"
| "same_limiter _ _ \<longleftrightarrow> False"

definition same_reservation :: "ConcurrencyReservation \<Rightarrow> ConcurrencyReservation \<Rightarrow> bool" where
  "same_reservation a b \<longleftrightarrow> cr_name a = cr_name b \<and> cr_slots a = cr_slots b \<and> cr_lease a = cr_lease b
     \<and> cr_keyed a = cr_keyed b \<and> cr_lock_lease a = cr_lock_lease b"

definition reservation_config_diff :: "ConcurrencyReservation \<Rightarrow> ConcurrencyReservation \<Rightarrow> string list" where
  "reservation_config_diff a b =
     (if cr_slots a \<noteq> cr_slots b then [''slots''] else []) @ (if cr_lease a \<noteq> cr_lease b then [''lease''] else [])
     @ (if cr_keyed a \<noteq> cr_keyed b then [''keyed''] else [])
     @ (if cr_lock_lease a \<noteq> cr_lock_lease b then [''lock_lease''] else [])"

text \<open>
  Of the field names it tries, \<open>refill_per_sec\<close>, \<open>burst\<close> and \<open>schema\<close> are
  attributes of neither class, so that they never contribute.
\<close>

fun rate_limit_config_diff :: "limiter \<Rightarrow> limiter \<Rightarrow> string list" where
  "rate_limit_config_diff (LBucket a) (LBucket b) =
     (if tb_capacity a \<noteq> tb_capacity b then [''capacity''] else [''config fields are identical (a state or identity difference)''])"
| "rate_limit_config_diff (LWindow a) (LWindow b) =
     (if sw_window a \<noteq> sw_window b then [''window''] else [''config fields are identical (a state or identity difference)''])"
| "rate_limit_config_diff _ _ = [''type'']"

definition register_reservation_unchecked ::
    "ConcurrencyReservation \<Rightarrow> 'p registry \<Rightarrow> rg_error + 'p registry" where
  "register_reservation_unchecked r g = (case map_of (rg_reservations g) (cr_name r) of
       None \<Rightarrow> Inr (g\<lparr>rg_reservations := dict_put (cr_name r) r (rg_reservations g)\<rparr>)
     | Some e \<Rightarrow>
         if \<not> same_reservation e r then Inl RgValueError
         else if cr_schema e \<noteq> cr_schema r
              then Inr (g\<lparr>rg_reservations := dict_put (cr_name r) r (rg_reservations g)\<rparr>)
              else Inr g)"

definition register_limiter :: "limiter \<Rightarrow> 'p registry \<Rightarrow> rg_error + 'p registry" where
  "register_limiter l g =
     (if startswith (limiter_name l) QUEUE_CONCURRENCY_PREFIX then Inl RgValueError
      else case map_of (rg_rate_limits g) (limiter_name l) of
        None \<Rightarrow> Inr (g\<lparr>rg_rate_limits := dict_put (limiter_name l) l (rg_rate_limits g)\<rparr>)
      | Some e \<Rightarrow> if same_limiter e l then Inr g else Inl RgValueError)"

definition register_reservation :: "ConcurrencyReservation \<Rightarrow> 'p registry \<Rightarrow> rg_error + 'p registry" where
  "register_reservation r g =
     (if startswith (cr_name r) QUEUE_CONCURRENCY_PREFIX then Inl RgValueError
      else register_reservation_unchecked r g)"

definition register_queue_cap_reservation :: "ConcurrencyReservation \<Rightarrow> 'p registry \<Rightarrow> rg_error + 'p registry" where
  "register_queue_cap_reservation r g =
     (if \<not> startswith (cr_name r) QUEUE_CONCURRENCY_PREFIX then Inl RgValueError
      else register_reservation_unchecked r g)"

definition refuse_prefix_base_name :: "string list \<Rightarrow> string \<Rightarrow> bool" where
  "refuse_prefix_base_name bases v \<longleftrightarrow>
     (\<exists>u \<in> set bases. startswith u (v @ '':'') \<or> startswith v (u @ '':''))"

definition register_keyed_reservation_ref ::
    "'p KeyedReservationRef \<Rightarrow> 'p registry \<Rightarrow> rg_error + 'p registry" where
  "register_keyed_reservation_ref ref g =
     (if refuse_prefix_base_name (map fst (rg_res_refs g)) (kr_base_name ref) then Inl RgValueError
      else case map_of (rg_res_refs g) (kr_base_name ref) of
        Some e \<Rightarrow> if kr_slots e = kr_slots ref \<and> kr_lease e = kr_lease ref then Inr g else Inl RgValueError
      | None \<Rightarrow> Inr (g\<lparr>rg_res_refs := dict_put (kr_base_name ref) ref (rg_res_refs g)\<rparr>))"

definition register_keyed_rate_limit_ref ::
    "'p KeyedRateLimitRef \<Rightarrow> 'p registry \<Rightarrow> rg_error + 'p registry" where
  "register_keyed_rate_limit_ref ref g =
     (if refuse_prefix_base_name (map fst (rg_rl_refs g)) (kl_base_name ref) then Inl RgValueError
      else case map_of (rg_rl_refs g) (kl_base_name ref) of
        Some e \<Rightarrow> if kl_capacity e = kl_capacity ref \<and> kl_refill e = kl_refill ref \<and> kl_backend e = kl_backend ref
                  then Inr g else Inl RgValueError
      | None \<Rightarrow> Inr (g\<lparr>rg_rl_refs := dict_put (kl_base_name ref) ref (rg_rl_refs g)\<rparr>))"

text \<open>The longest base name that the concrete name continues after a colon.\<close>

definition match_keyed_ref :: "(string \<times> 'r) list \<Rightarrow> string \<Rightarrow> ('r \<times> string) option" where
  "match_keyed_ref refs name =
     (case rev (sort_key length (rev (filter (\<lambda>u. startswith name (u @ '':'')) (map fst refs)))) of
        [] \<Rightarrow> None
      | u # _ \<Rightarrow>
          (case (validate_keyed_key (Some (drop (length u + 1) name)), map_of refs u) of
             (Inr key, Some r) \<Rightarrow> Some (r, key)
           | _ \<Rightarrow> None))"

definition get_rate_limit :: "string \<Rightarrow> 'p registry \<Rightarrow> rg_error + limiter" where
  "get_rate_limit name g = (case map_of (rg_rate_limits g) name of None \<Rightarrow> Inl RgKeyError | Some l \<Rightarrow> Inr l)"

definition get_reservation :: "string \<Rightarrow> 'p registry \<Rightarrow> rg_error + ConcurrencyReservation" where
  "get_reservation name g = (case map_of (rg_reservations g) name of None \<Rightarrow> Inl RgKeyError | Some r \<Rightarrow> Inr r)"

subsection \<open>Eviction of idle keyed entries\<close>

definition KEYED_IDLE_THRESHOLD :: interval where
  "KEYED_IDLE_THRESHOLD = seconds 3600"

definition OPPORTUNISTIC_EVICT_MIN_INTERVAL :: interval where
  "OPPORTUNISTIC_EVICT_MIN_INTERVAL = seconds 30"

definition KEYED_RECLAIM_HEAL_WINDOW :: interval where
  "KEYED_RECLAIM_HEAL_WINDOW = seconds 60"

definition DEFAULT_RECLAIM_BATCH_NAMES :: nat where
  "DEFAULT_RECLAIM_BATCH_NAMES = 256"

definition DEFAULT_MAX_KEYED_RESERVATIONS :: int where
  "DEFAULT_MAX_KEYED_RESERVATIONS = 10000"

type_synonym pending = "(string \<times> string list) list"

definition pending_total :: "pending \<Rightarrow> nat" where
  "pending_total p = sum_list (map (\<lambda>e. length (snd e)) p)"

definition record_pending_reclaim :: "string \<Rightarrow> string \<Rightarrow> int \<Rightarrow> pending \<Rightarrow> pending option" where
  "record_pending_reclaim schema name cap p =
     (if int (pending_total p) \<ge> cap then None
      else let names = (case map_of p schema of None \<Rightarrow> [] | Some ns \<Rightarrow> ns)
           in Some (dict_put schema (if name \<in> set names then names else names @ [name]) p))"

text \<open>
  The eviction of one tracked dict.  \<open>admit\<close> records the row of an entry and may
  veto; the counters are the names evicted and the entries vetoed.
\<close>

fun evict_loop ::
    "(string \<Rightarrow> 'q \<Rightarrow> pending \<Rightarrow> pending option) \<Rightarrow> string list
     \<Rightarrow> (string \<times> rat) list \<times> (string \<times> 'q) list \<times> pending \<Rightarrow> string list \<times> (string \<times> rat) list \<times> (string \<times> 'q) list \<times> pending" where
  "evict_loop admit [] (track, prims, p) = ([], track, prims, p)"
| "evict_loop admit (name # names) (track, prims, p) =
     (case (case map_of prims name of None \<Rightarrow> Some p | Some q \<Rightarrow> admit name q p) of
        None \<Rightarrow> evict_loop admit names (track, prims, p)
      | Some p' \<Rightarrow>
          (let (out, w) = evict_loop admit names (dict_pop name track, dict_pop name prims, p') in (name # out, w)))"

definition evict_idle_keyed ::
    "(rat \<Rightarrow> rat) \<Rightarrow> rat \<Rightarrow> interval \<Rightarrow> ('q \<Rightarrow> bool) \<Rightarrow> (string \<Rightarrow> 'q \<Rightarrow> pending \<Rightarrow> pending option)
     \<Rightarrow> (string \<times> rat) list \<times> (string \<times> 'q) list \<times> pending \<Rightarrow> string list \<times> (string \<times> rat) list \<times> (string \<times> 'q) list \<times> pending" where
  "evict_idle_keyed rnd now idle_for preserve admit w =
     (let cutoff = rnd (now - total_seconds rnd idle_for);
          stale = map fst (filter (\<lambda>(name, used). \<not> used \<ge> cutoff
                    \<and> \<not> (case map_of (fst (snd w)) name of None \<Rightarrow> False | Some q \<Rightarrow> preserve q)) (fst w))
      in evict_loop admit stale w)"

definition evict_idle_keyed_reservations ::
    "(rat \<Rightarrow> rat) \<Rightarrow> rat \<Rightarrow> interval \<Rightarrow> int option \<Rightarrow> 'p registry \<Rightarrow> nat \<times> 'p registry" where
  "evict_idle_keyed_reservations rnd now idle_for cap g =
     (let lmt = (case cap of None \<Rightarrow> DEFAULT_MAX_KEYED_RESERVATIONS | Some n \<Rightarrow> n);
          (out, track, prims, p) = evict_idle_keyed rnd now idle_for (\<lambda>_. False)
            (\<lambda>name r. record_pending_reclaim (cr_schema r) name lmt)
            (rg_res_last_used g, rg_reservations g, rg_pending_res g)
      in (length out,
          g\<lparr>rg_res_last_used := track, rg_reservations := prims, rg_pending_res := p,
            rg_heal_attempted := filter (\<lambda>e. fst e \<notin> set out) (rg_heal_attempted g),
            rg_heal_failure_logged := filter (\<lambda>e. fst e \<notin> set out) (rg_heal_failure_logged g),
            rg_release_events := filter (\<lambda>n. n \<notin> set out) (rg_release_events g)\<rparr>))"

text \<open>\<open>mem name\<close> is the state that the registered instance of \<open>name\<close> keeps in memory.\<close>

definition preserves_fixed_quota_state :: "(string \<Rightarrow> mem_bucket option) \<Rightarrow> limiter \<Rightarrow> bool" where
  "preserves_fixed_quota_state mem l =
     (case l of LBucket b \<Rightarrow> holds_consumed_quota b (mem (tb_name b)) | LWindow _ \<Rightarrow> False)"

definition evict_idle_keyed_rate_limits ::
    "(rat \<Rightarrow> rat) \<Rightarrow> (string \<Rightarrow> mem_bucket option) \<Rightarrow> rat \<Rightarrow> interval \<Rightarrow> int option \<Rightarrow> 'p registry \<Rightarrow> nat \<times> 'p registry" where
  "evict_idle_keyed_rate_limits rnd mem now idle_for cap g =
     (let lmt = (case cap of None \<Rightarrow> DEFAULT_MAX_KEYED_RESERVATIONS | Some n \<Rightarrow> n);
          (out, track, prims, p) = evict_idle_keyed rnd now idle_for (preserves_fixed_quota_state mem)
            (\<lambda>name l p. case map_of (rg_rl_row_schemas g) name of
                 None \<Rightarrow> Some p | Some schema \<Rightarrow> record_pending_reclaim schema name lmt p)
            (rg_rl_last_used g, rg_rate_limits g, rg_pending_rl g)
      in (length out,
          g\<lparr>rg_rl_last_used := track, rg_rate_limits := prims, rg_pending_rl := p,
            rg_rl_row_schemas := filter (\<lambda>e. fst e \<notin> set out) (rg_rl_row_schemas g)\<rparr>))"

record rg_settings =
  gs_schema_name :: string
  gs_max_keyed_reservations :: int
  gs_max_keyed_rate_limits :: int

definition scan_due :: "(rat \<Rightarrow> rat) \<Rightarrow> rat \<Rightarrow> rat option \<Rightarrow> bool" where
  "scan_due rnd now last_scan \<longleftrightarrow> (case last_scan of
       None \<Rightarrow> True
     | Some t \<Rightarrow> rnd (now - t) \<ge> total_seconds rnd OPPORTUNISTIC_EVICT_MIN_INTERVAL)"

definition opportunistic_evict_reservations ::
    "(rat \<Rightarrow> rat) \<Rightarrow> rat \<Rightarrow> rg_settings option \<Rightarrow> 'p registry \<Rightarrow> 'p registry" where
  "opportunistic_evict_reservations rnd now settings g =
     (if scan_due rnd now (rg_res_last_scan g)
      then snd (evict_idle_keyed_reservations rnd now KEYED_IDLE_THRESHOLD
                  (map_option gs_max_keyed_reservations settings) (g\<lparr>rg_res_last_scan := Some now\<rparr>))
      else g)"

definition opportunistic_evict_rate_limits ::
    "(rat \<Rightarrow> rat) \<Rightarrow> (string \<Rightarrow> mem_bucket option) \<Rightarrow> rat \<Rightarrow> rg_settings option \<Rightarrow> 'p registry \<Rightarrow> 'p registry" where
  "opportunistic_evict_rate_limits rnd mem now settings g =
     (if scan_due rnd now (rg_rl_last_scan g)
      then snd (evict_idle_keyed_rate_limits rnd mem now KEYED_IDLE_THRESHOLD
                  (map_option gs_max_keyed_rate_limits settings) (g\<lparr>rg_rl_last_scan := Some now\<rparr>))
      else g)"

subsection \<open>Materialisation of keyed entries\<close>

text \<open>
  What one call brings with it: the monotonic time, whether a pool is given, the
  clocks of its statements, the rows other transactions have locked, and which of
  its statements fail.
\<close>

record call_io =
  io_now :: rat
  io_pool :: bool
  io_clk :: slot_clock
  io_born :: "int \<Rightarrow> timestamptz"
  io_server_now :: timestamptz
  io_skip :: "slot_row \<Rightarrow> bool"
  io_mem_now :: timestamptz
  io_ensure_fails :: bool
  io_probe_fails :: bool
  io_publish_fails :: bool
  io_acquire_fails :: bool

text \<open>
  The stores: the slot and bucket tables by schema, the table in memory of the
  reservation of a name, and what a limiter of a name keeps for itself.
\<close>

record world =
  w_slots :: "string \<Rightarrow> slot_row list"
  w_rows :: "string \<Rightarrow> bucket_row list"
  w_tables :: "string \<Rightarrow> mem_table"
  w_tb :: "string \<Rightarrow> tb_stores"
  w_sw :: "string \<Rightarrow> sw_stores"
  w_entries :: "string \<Rightarrow> window_entry list"

definition concrete_name :: "string \<Rightarrow> string \<Rightarrow> string" where
  "concrete_name base key = base @ '':'' @ key"

text \<open>The published row: an empty document, left alone where a row exists.\<close>

definition upsert_rate_limit_bucket_row ::
    "clock \<Rightarrow> string \<Rightarrow> string \<Rightarrow> bool \<Rightarrow> bucket_row list \<Rightarrow> bucket_row list" where
  "upsert_rate_limit_bucket_row clk name kind keyed rows =
     ins_new k_name \<lparr>k_name = name, k_kind = kind, k_state = (\<lambda>_. None), k_updated_at = clk 0,
                      k_keyed = keyed, k_last_used_at = clk 1\<rparr> rows"

definition sync_rate_limit_buckets :: "clock \<Rightarrow> 'p registry \<Rightarrow> bucket_row list \<Rightarrow> bucket_row list" where
  "sync_rate_limit_buckets clk g rows =
     fold (\<lambda>(name, l) rows. case l of
             LBucket _ \<Rightarrow> upsert_rate_limit_bucket_row clk name ''token_bucket'' False rows
           | LWindow w \<Rightarrow> if sw_style w = GcraStyle then upsert_rate_limit_bucket_row clk name ''gcra'' False rows
                          else rows) (rg_rate_limits g) rows"

text \<open>The entry cap, with one scan for idle entries before it denies.\<close>

definition reservation_cap ::
    "(rat \<Rightarrow> rat) \<Rightarrow> call_io \<Rightarrow> rg_settings option \<Rightarrow> string \<Rightarrow> string \<Rightarrow> 'p registry \<Rightarrow> rg_error option \<times> 'p registry" where
  "reservation_cap rnd io settings base name g =
     (let full = (\<lambda>g. case settings of None \<Rightarrow> False
                      | Some s \<Rightarrow> int (length (rg_res_last_used g)) \<ge> gs_max_keyed_reservations s)
      in if \<not> has_key name (rg_reservations g) \<and> \<not> has_key name (rg_res_last_used g) \<and> full g then
           (let g' = opportunistic_evict_reservations rnd (io_now io) settings g
            in (if full g' then Some (ReservationUnavailable base DEFAULT_RESERVATION_BACKOFF SrcReservation) else None, g'))
         else (None, g))"

definition materialize_keyed_reservation ::
    "(rat \<Rightarrow> rat) \<Rightarrow> call_io \<Rightarrow> rg_settings option \<Rightarrow> 'p KeyedReservationRef \<Rightarrow> string \<Rightarrow> 'p registry \<times> world
     \<Rightarrow> (rg_error + string) \<times> 'p registry \<times> world" where
  "materialize_keyed_reservation rnd io settings ref key gw =
     (let name = concrete_name (kr_base_name ref) key;
          (denied, g) = reservation_cap rnd io settings (kr_base_name ref) name (fst gw);
          w = snd gw
      in case denied of Some e \<Rightarrow> (Inl e, g, w) | None \<Rightarrow>
         (case map_of (rg_reservations g) name of
            None \<Rightarrow>
              if settings = None \<and> io_pool io then (Inl RgRuntimeError, g, w)
              else
                (let schema = (case settings of None \<Rightarrow> ''taskq'' | Some s \<Rightarrow> gs_schema_name s);
                     r = \<lparr>cr_name = name, cr_slots = kr_slots ref, cr_lease = kr_lease ref, cr_lock_lease = None,
                          cr_keyed = True, cr_schema = schema, cr_memory = False\<rparr>
                 in case register_reservation r g of
                      Inl e \<Rightarrow> (Inl e, g, w)
                    | Inr g1 \<Rightarrow>
                        (let g2 = g1\<lparr>rg_heal_attempted := dict_pop name (rg_heal_attempted g1),
                                     rg_heal_failure_logged := dict_pop name (rg_heal_failure_logged g1),
                                     rg_res_last_used := dict_put name (io_now io) (rg_res_last_used g1)\<rparr>
                         in if \<not> io_pool io then (Inr name, g2, w)
                            else if io_ensure_fails io then
                              (Inl RgDriverError,
                               g2\<lparr>rg_reservations := dict_pop name (rg_reservations g2),
                                  rg_res_last_used := dict_pop name (rg_res_last_used g2)\<rparr>, w)
                            else (Inr name, g2,
                                  w\<lparr>w_slots := (w_slots w)(schema := ensure_slots (io_clk io) (io_born io) r (w_slots w schema))\<rparr>)))
          | Some e \<Rightarrow>
              if has_key name (rg_res_last_used g) then
                if cr_slots e \<noteq> kr_slots ref \<or> cr_lease e \<noteq> kr_lease ref then (Inl RgValueError, g, w)
                else (Inr name, g\<lparr>rg_res_last_used := dict_put name (io_now io) (rg_res_last_used g)\<rparr>, w)
              else (Inr name, g, w)))"

definition rate_limit_cap ::
    "(rat \<Rightarrow> rat) \<Rightarrow> (string \<Rightarrow> mem_bucket option) \<Rightarrow> call_io \<Rightarrow> rg_settings option \<Rightarrow> string \<Rightarrow> string \<Rightarrow> 'p registry
     \<Rightarrow> rg_error option \<times> 'p registry" where
  "rate_limit_cap rnd mem io settings base name g =
     (let full = (\<lambda>g. case settings of None \<Rightarrow> False
                      | Some s \<Rightarrow> int (length (rg_rl_last_used g)) \<ge> gs_max_keyed_rate_limits s)
      in if \<not> has_key name (rg_rate_limits g) \<and> \<not> has_key name (rg_rl_last_used g) \<and> full g then
           (let g' = opportunistic_evict_rate_limits rnd mem (io_now io) settings g
            in (if full g' then Some (ReservationUnavailable base DEFAULT_RESERVATION_BACKOFF SrcRateLimit) else None, g'))
         else (None, g))"

text \<open>The publish is best effort: the schema is captured whether or not it succeeds.\<close>

definition publish_bucket ::
    "call_io \<Rightarrow> clock \<Rightarrow> rg_settings option \<Rightarrow> string \<Rightarrow> bool \<Rightarrow> 'p registry \<times> world \<Rightarrow> 'p registry \<times> world" where
  "publish_bucket io clk settings name keyed gw =
     (let schema = (case settings of None \<Rightarrow> ''taskq'' | Some s \<Rightarrow> gs_schema_name s);
          (g, w) = gw
      in (g\<lparr>rg_rl_row_schemas := dict_put name schema (rg_rl_row_schemas g)\<rparr>,
          if io_publish_fails io then w
          else w\<lparr>w_rows := (w_rows w)(schema :=
                 upsert_rate_limit_bucket_row clk name ''token_bucket'' keyed (w_rows w schema))\<rparr>))"

text \<open>A bucket object just built: its state in memory is a full bucket, and only on the memory backend.\<close>

definition fresh_instance :: "TokenBucket \<Rightarrow> world \<Rightarrow> world" where
  "fresh_instance b w = w\<lparr>w_tb := (w_tb w)(tb_name b := (w_tb w (tb_name b))\<lparr>ts_mem :=
     (if tb_backend b = Memory then Some (new_mem_bucket (tb_capacity b)) else None)\<rparr>)\<rparr>"

definition materialize_keyed_rate_limit ::
    "(rat \<Rightarrow> rat) \<Rightarrow> call_io \<Rightarrow> clock \<Rightarrow> rg_settings option \<Rightarrow> 'p KeyedRateLimitRef \<Rightarrow> string
     \<Rightarrow> 'p registry \<times> world \<Rightarrow> (rg_error + string) \<times> 'p registry \<times> world" where
  "materialize_keyed_rate_limit rnd io clk settings ref key gw =
     (let name = concrete_name (kl_base_name ref) key;
          (denied, g) = rate_limit_cap rnd (\<lambda>n. ts_mem (w_tb (snd gw) n)) io settings (kl_base_name ref) name (fst gw);
          w = snd gw
      in case denied of Some e \<Rightarrow> (Inl e, g, w) | None \<Rightarrow>
         (case map_of (rg_rate_limits g) name of
            None \<Rightarrow>
              (let keyed = (kl_backend ref = Postgres) in
               case new_TokenBucket rnd name (kl_capacity ref) (kl_refill ref) (kl_backend ref) None keyed of
                 Inl e \<Rightarrow> (Inl (RgLimiterError e), g, w)
               | Inr b \<Rightarrow>
                   (case register_limiter (LBucket b) g of
                      Inl e \<Rightarrow> (Inl e, g, w)
                    | Inr g1 \<Rightarrow>
                        (let g2 = g1\<lparr>rg_rl_last_used := dict_put name (io_now io) (rg_rl_last_used g1)\<rparr>;
                             w1 = fresh_instance b w
                         in (Inr name, if io_pool io then publish_bucket io clk settings name keyed (g2, w1) else (g2, w1)))))
          | Some e \<Rightarrow>
              if has_key name (rg_rl_last_used g) then
                (case e of
                   LWindow _ \<Rightarrow> (Inl RgValueError, g, w)
                 | LBucket b \<Rightarrow>
                     if tb_capacity b \<noteq> kl_capacity ref \<or> tb_refill b \<noteq> kl_refill ref \<or> tb_backend b \<noteq> kl_backend ref
                     then (Inl RgValueError, g, w)
                     else
                       (let g1 = g\<lparr>rg_rl_last_used := dict_put name (io_now io) (rg_rl_last_used g)\<rparr>
                        in (Inr name, if io_pool io \<and> \<not> has_key name (rg_rl_row_schemas g1)
                                      then publish_bucket io clk settings name (tb_keyed b) (g1, w) else (g1, w))))
              else (Inr name, g, w)))"

datatype 'p res_ref = ResName string | ResKeyed "'p KeyedReservationRef"
datatype 'p rl_ref = RlName string | RlKeyed "'p KeyedRateLimitRef"

definition derive_keyed_key :: "('p \<Rightarrow> rg_error + string option) \<Rightarrow> 'p \<Rightarrow> rg_error + string" where
  "derive_keyed_key key_fn pl = bindE (key_fn pl) validate_keyed_key"

definition resolve_reservation_name ::
    "(rat \<Rightarrow> rat) \<Rightarrow> call_io \<Rightarrow> rg_settings option \<Rightarrow> 'p option \<Rightarrow> 'p res_ref \<Rightarrow> 'p registry \<times> world
     \<Rightarrow> (rg_error + string) \<times> 'p registry \<times> world" where
  "resolve_reservation_name rnd io settings pl ref gw = (case ref of
       ResName n \<Rightarrow> (Inr n, gw)
     | ResKeyed r \<Rightarrow>
         (case pl of
            None \<Rightarrow> (Inl RgValueError, gw)
          | Some p \<Rightarrow>
              (case derive_keyed_key (kr_key_fn r) p of
                 Inl e \<Rightarrow> (Inl e, gw)
               | Inr key \<Rightarrow> materialize_keyed_reservation rnd io settings r key gw)))"

definition resolve_rate_limit_name ::
    "(rat \<Rightarrow> rat) \<Rightarrow> call_io \<Rightarrow> clock \<Rightarrow> rg_settings option \<Rightarrow> 'p option \<Rightarrow> 'p rl_ref
     \<Rightarrow> 'p registry \<times> world \<Rightarrow> (rg_error + string) \<times> 'p registry \<times> world" where
  "resolve_rate_limit_name rnd io clk settings pl ref gw = (case ref of
       RlName n \<Rightarrow> (Inr n, gw)
     | RlKeyed r \<Rightarrow>
         (case pl of
            None \<Rightarrow> (Inl RgValueError, gw)
          | Some p \<Rightarrow>
              (case derive_keyed_key (kl_key_fn r) p of
                 Inl e \<Rightarrow> (Inl e, gw)
               | Inr key \<Rightarrow> materialize_keyed_rate_limit rnd io clk settings r key gw)))"

text \<open>The names of a workflow row, against the declared references; the answer is what stays unresolved.\<close>

fun materialize_keyed_reservations ::
    "(rat \<Rightarrow> rat) \<Rightarrow> call_io \<Rightarrow> rg_settings option \<Rightarrow> string list \<Rightarrow> 'p registry \<times> world
     \<Rightarrow> (rg_error + string list) \<times> 'p registry \<times> world" where
  "materialize_keyed_reservations rnd io settings [] gw = (Inr [], gw)"
| "materialize_keyed_reservations rnd io settings (name # names) gw =
     (if has_key name (rg_reservations (fst gw)) then materialize_keyed_reservations rnd io settings names gw
      else case match_keyed_ref (rg_res_refs (fst gw)) name of
        None \<Rightarrow>
          (let (r, gw') = materialize_keyed_reservations rnd io settings names gw
           in (case r of Inl e \<Rightarrow> Inl e | Inr left \<Rightarrow> Inr (name # left), gw'))
      | Some (ref, key) \<Rightarrow>
          (case materialize_keyed_reservation rnd io settings ref key gw of
             (Inl e, gw') \<Rightarrow> (Inl e, gw')
           | (Inr _, gw') \<Rightarrow> materialize_keyed_reservations rnd io settings names gw'))"

fun materialize_keyed_rate_limits ::
    "(rat \<Rightarrow> rat) \<Rightarrow> call_io \<Rightarrow> clock \<Rightarrow> rg_settings option \<Rightarrow> string list
     \<Rightarrow> 'p registry \<times> world \<Rightarrow> (rg_error + string list) \<times> 'p registry \<times> world" where
  "materialize_keyed_rate_limits rnd io clk settings [] gw = (Inr [], gw)"
| "materialize_keyed_rate_limits rnd io clk settings (name # names) gw =
     (if has_key name (rg_rate_limits (fst gw)) then materialize_keyed_rate_limits rnd io clk settings names gw
      else case match_keyed_ref (rg_rl_refs (fst gw)) name of
        None \<Rightarrow>
          (let (r, gw') = materialize_keyed_rate_limits rnd io clk settings names gw
           in (case r of Inl e \<Rightarrow> Inl e | Inr left \<Rightarrow> Inr (name # left), gw'))
      | Some (ref, key) \<Rightarrow>
          (case materialize_keyed_rate_limit rnd io clk settings ref key gw of
             (Inl e, gw') \<Rightarrow> (Inl e, gw')
           | (Inr _, gw') \<Rightarrow> materialize_keyed_rate_limits rnd io clk settings names gw'))"

subsection \<open>Slots, with the heal of a bucket whose rows are gone\<close>

definition reservation_acquire ::
    "(rat \<Rightarrow> rat) \<Rightarrow> call_io \<Rightarrow> ConcurrencyReservation \<Rightarrow> uuid \<Rightarrow> uuid \<Rightarrow> world \<Rightarrow> (rg_error + SlotLease) \<times> world" where
  "reservation_acquire rnd io r job wk w =
     (if \<not> io_pool io then
        if \<not> cr_memory r then (Inl RgRuntimeError, w)
        else (let (a, t) = acquire_in_memory (io_mem_now io) r job wk (w_tables w (cr_name r))
              in (case a of Inl hint \<Rightarrow> Inl (ReservationUnavailable (cr_name r) hint SrcReservation) | Inr l \<Rightarrow> Inr l,
                  w\<lparr>w_tables := (w_tables w)(cr_name r := t)\<rparr>))
      else if io_acquire_fails io then (Inl RgDriverError, w)
      else (let (a, t) = acquire_slot rnd (io_clk io) (io_server_now io) (io_skip io) r job wk (w_slots w (cr_schema r))
            in (case a of Inl hint \<Rightarrow> Inl (ReservationUnavailable (cr_name r) hint SrcReservation) | Inr l \<Rightarrow> Inr l,
                w\<lparr>w_slots := (w_slots w)(cr_schema r := t)\<rparr>)))"

definition heal_deleted_keyed_reservation_rows ::
    "(rat \<Rightarrow> rat) \<Rightarrow> call_io \<Rightarrow> ConcurrencyReservation \<Rightarrow> 'p registry \<times> world \<Rightarrow> bool \<times> 'p registry \<times> world" where
  "heal_deleted_keyed_reservation_rows rnd io r gw =
     (let (g, w) = gw; name = cr_name r; now = io_now io;
          recent = (\<lambda>d. case map_of d name of None \<Rightarrow> False
                        | Some t \<Rightarrow> rnd (now - t) < total_seconds rnd KEYED_RECLAIM_HEAL_WINDOW);
          failed = (\<lambda>g. g\<lparr>rg_heal_attempted := dict_pop name (rg_heal_attempted g),
                          rg_heal_failure_logged :=
                            (if recent (rg_heal_failure_logged g) then rg_heal_failure_logged g
                             else dict_put name now (rg_heal_failure_logged g))\<rparr>)
      in if \<not> has_key name (rg_res_last_used g) \<or> \<not> io_pool io then (False, g, w)
         else if recent (rg_heal_attempted g) then (False, g, w)
         else
           (let g1 = g\<lparr>rg_heal_attempted := dict_put name now (rg_heal_attempted g)\<rparr>
            in if io_probe_fails io then (False, failed g1, w)
               else if slot_rows_exist r (w_slots w (cr_schema r)) then (False, g1, w)
               else if io_ensure_fails io then (False, failed g1, w)
               else (True, g1,
                     w\<lparr>w_slots := (w_slots w)(cr_schema r :=
                         ensure_slots (io_clk io) (io_born io) r (w_slots w (cr_schema r)))\<rparr>)))"

definition acquire_reservation_slot_with_heal ::
    "(rat \<Rightarrow> rat) \<Rightarrow> call_io \<Rightarrow> ConcurrencyReservation \<Rightarrow> uuid \<Rightarrow> uuid \<Rightarrow> 'p registry \<times> world
     \<Rightarrow> (rg_error + SlotLease) \<times> 'p registry \<times> world" where
  "acquire_reservation_slot_with_heal rnd io r job wk gw =
     (case reservation_acquire rnd io r job wk (snd gw) of
        (Inl (ReservationUnavailable n hint src), w1) \<Rightarrow>
          (case heal_deleted_keyed_reservation_rows rnd io r (fst gw, w1) of
             (False, g2, w2) \<Rightarrow> (Inl (ReservationUnavailable n hint src), g2, w2)
           | (True, g2, w2) \<Rightarrow> (let (a, w3) = reservation_acquire rnd io r job wk w2 in (a, g2, w3)))
      | (a, w1) \<Rightarrow> (a, fst gw, w1))"

section \<open>Composition\<close>

text \<open>The rate limiters of one call: the environment, the readings and the float and text functions.\<close>

record limiter_io =
  li_env :: limiter_env
  li_call :: sw_call
  li_fmt :: "rat \<Rightarrow> rat"
  li_txt :: "string \<Rightarrow> rat option"
  li_schema :: string

definition limiter_acquire ::
    "(rat \<Rightarrow> rat) \<Rightarrow> limiter_io \<Rightarrow> rat \<Rightarrow> limiter \<Rightarrow> world \<Rightarrow> (rl_error + RateLimitDecision) \<times> world" where
  "limiter_acquire rnd li count l w = (case l of
       LBucket b \<Rightarrow>
         (let (d, s) = tb_acquire rnd (li_fmt li) (li_txt li) (li_env li) b count
                         ((w_tb w (tb_name b))\<lparr>ts_rows := w_rows w (li_schema li)\<rparr>)
          in (d, w\<lparr>w_tb := (w_tb w)(tb_name b := s), w_rows := (w_rows w)(li_schema li := ts_rows s)\<rparr>))
     | LWindow b \<Rightarrow>
         (let (d, s) = sw_acquire rnd (li_fmt li) (li_txt li) (li_env li) (li_call li) b
                         ((w_sw w (sw_name b))\<lparr>ss_rows := w_rows w (li_schema li), ss_entries := w_entries w (li_schema li)\<rparr>)
          in (d, w\<lparr>w_sw := (w_sw w)(sw_name b := s), w_rows := (w_rows w)(li_schema li := ss_rows s),
                   w_entries := (w_entries w)(li_schema li := ss_entries s)\<rparr>)))"

definition limiter_refund ::
    "(rat \<Rightarrow> rat) \<Rightarrow> limiter_io \<Rightarrow> rat \<Rightarrow> limiter \<Rightarrow> RateLimitDecision \<Rightarrow> world \<Rightarrow> (rl_error + unit) \<times> world" where
  "limiter_refund rnd li count l d w = (case l of
       LBucket b \<Rightarrow>
         (let (r, s) = tb_refund rnd (li_fmt li) (li_txt li) (li_env li) b d count
                         ((w_tb w (tb_name b))\<lparr>ts_rows := w_rows w (li_schema li)\<rparr>)
          in (r, w\<lparr>w_tb := (w_tb w)(tb_name b := s), w_rows := (w_rows w)(li_schema li := ts_rows s)\<rparr>))
     | LWindow b \<Rightarrow>
         (let (r, s) = sw_refund rnd (li_txt li) (li_env li) b d
                         ((w_sw w (sw_name b))\<lparr>ss_rows := w_rows w (li_schema li), ss_entries := w_entries w (li_schema li)\<rparr>)
          in (r, w\<lparr>w_sw := (w_sw w)(sw_name b := s), w_rows := (w_rows w)(li_schema li := ss_rows s),
                   w_entries := (w_entries w)(li_schema li := ss_entries s)\<rparr>)))"

datatype AcquiredResource =
    ReservationHandle string ConcurrencyReservation SlotLease uuid bool
  | RateLimitHandle string limiter RateLimitDecision bool

primrec handle_name :: "AcquiredResource \<Rightarrow> string" where
  "handle_name (ReservationHandle n r l wk pool) = n"
| "handle_name (RateLimitHandle n l d refund) = n"

text \<open>\<open>ok\<close> tells whether the statement behind a slot release succeeds; a failed refund is the limiter's own.\<close>

primrec handle_release ::
    "(rat \<Rightarrow> rat) \<Rightarrow> call_io \<Rightarrow> limiter_io \<Rightarrow> bool \<Rightarrow> AcquiredResource \<Rightarrow> world \<Rightarrow> bool \<times> world" where
  "handle_release rnd io li ok (ReservationHandle n r l wk pool) w =
     (if pool then
        if ok then (True, w\<lparr>w_slots := (w_slots w)(cr_schema r :=
                              release_slot (io_clk io) r l wk (w_slots w (cr_schema r)))\<rparr>)
        else (False, w)
      else if cr_memory r then
        (True, w\<lparr>w_tables := (w_tables w)(cr_name r := snd (mem_release_slot (cr_name r) l wk (w_tables w (cr_name r))))\<rparr>)
      else (False, w))"
| "handle_release rnd io li ok (RateLimitHandle n l d refund) w =
     (if \<not> refund then (True, w)
      else (case limiter_refund rnd li 1 l d w of (Inr _, w') \<Rightarrow> (True, w') | (Inl _, w') \<Rightarrow> (False, w')))"

text \<open>Releases in turn; a failure is logged and counted, and the loop goes on.\<close>

fun release_all ::
    "(rat \<Rightarrow> rat) \<Rightarrow> call_io \<Rightarrow> limiter_io \<Rightarrow> (AcquiredResource \<Rightarrow> bool) \<Rightarrow> AcquiredResource list \<Rightarrow> world \<Rightarrow> world" where
  "release_all rnd io li ok [] w = w"
| "release_all rnd io li ok (h # hs) w = release_all rnd io li ok hs (snd (handle_release rnd io li (ok h) h w))"

text \<open>\<open>ios i\<close> and \<open>lis i\<close> are what the \<open>i\<close>-th resource of the call meets: its clock readings and which statements fail.\<close>

fun acquire_reservations ::
    "(rat \<Rightarrow> rat) \<Rightarrow> (nat \<Rightarrow> call_io) \<Rightarrow> rg_settings option \<Rightarrow> 'p option \<Rightarrow> uuid \<Rightarrow> uuid \<Rightarrow> 'p res_ref list \<Rightarrow> AcquiredResource list
     \<Rightarrow> 'p registry \<times> world \<Rightarrow> (rg_error option \<times> AcquiredResource list) \<times> 'p registry \<times> world" where
  "acquire_reservations rnd ios settings pl job wk [] acc gw = ((None, acc), gw)"
| "acquire_reservations rnd ios settings pl job wk (ref # refs) acc gw =
     (case resolve_reservation_name rnd (ios (length acc)) settings pl ref gw of
        (Inl e, gw1) \<Rightarrow> ((Some e, acc), gw1)
      | (Inr name, gw1) \<Rightarrow>
          (case map_of (rg_reservations (fst gw1)) name of
             None \<Rightarrow> ((Some RgKeyError, acc), gw1)
           | Some r \<Rightarrow>
               (case acquire_reservation_slot_with_heal rnd (ios (length acc)) r job wk gw1 of
                  (Inl e, gw2) \<Rightarrow> ((Some e, acc), gw2)
                | (Inr l, gw2) \<Rightarrow>
                    acquire_reservations rnd ios settings pl job wk refs
                      (acc @ [ReservationHandle name r l wk (io_pool (ios (length acc)))]) gw2)))"

fun acquire_rate_limits ::
    "(rat \<Rightarrow> rat) \<Rightarrow> (nat \<Rightarrow> call_io) \<Rightarrow> (nat \<Rightarrow> limiter_io) \<Rightarrow> rg_settings option \<Rightarrow> 'p option
     \<Rightarrow> 'p rl_ref list
     \<Rightarrow> AcquiredResource list \<Rightarrow> 'p registry \<times> world \<Rightarrow> (rg_error option \<times> AcquiredResource list) \<times> 'p registry \<times> world" where
  "acquire_rate_limits rnd ios lis settings pl [] acc gw = ((None, acc), gw)"
| "acquire_rate_limits rnd ios lis settings pl (ref # refs) acc gw =
     (case resolve_rate_limit_name rnd (ios (length acc)) (le_clk (li_env (lis (length acc)))) settings pl ref gw of
        (Inl e, gw1) \<Rightarrow> ((Some e, acc), gw1)
      | (Inr name, gw1) \<Rightarrow>
          (case map_of (rg_rate_limits (fst gw1)) name of
             None \<Rightarrow> ((Some RgKeyError, acc), gw1)
           | Some l \<Rightarrow>
               (case limiter_acquire rnd (lis (length acc)) 1 l (snd gw1) of
                  (Inl e, w2) \<Rightarrow> ((Some (RgLimiterError e), acc), fst gw1, w2)
                | (Inr d, w2) \<Rightarrow>
                    if \<not> rd_allowed d then
                      ((Some (ReservationUnavailable name
                          (case rd_retry_after d of None \<Rightarrow> DEFAULT_RESERVATION_BACKOFF | Some t \<Rightarrow> t) SrcRateLimit), acc),
                       fst gw1, w2)
                    else acquire_rate_limits rnd ios lis settings pl refs
                           (acc @ [RateLimitHandle name l d True]) (fst gw1, w2))))"

text \<open>All of the reservations, then all of the rate limits, or none: a failure gives back what was taken, last first.\<close>

definition acquire_for_actor ::
    "(rat \<Rightarrow> rat) \<Rightarrow> (nat \<Rightarrow> call_io) \<Rightarrow> (nat \<Rightarrow> limiter_io) \<Rightarrow> call_io \<Rightarrow> limiter_io
     \<Rightarrow> (AcquiredResource \<Rightarrow> bool) \<Rightarrow> rg_settings option \<Rightarrow> 'p option \<Rightarrow> uuid \<Rightarrow> uuid \<Rightarrow> 'p rl_ref list \<Rightarrow> 'p res_ref list \<Rightarrow> 'p registry \<times> world
     \<Rightarrow> (rg_error + AcquiredResource list) \<times> 'p registry \<times> world" where
  "acquire_for_actor rnd ios lis io li ok settings pl job wk rls ress gw =
     (let ((e1, acc1), gw1) = acquire_reservations rnd ios settings pl job wk ress [] gw;
          ((e2, acc2), gw2) = (case e1 of
             Some e \<Rightarrow> ((Some e, acc1), gw1)
           | None \<Rightarrow> acquire_rate_limits rnd ios lis settings pl rls acc1 gw1)
      in case e2 of
           None \<Rightarrow> (Inr acc2, gw2)
         | Some e \<Rightarrow> (Inl e, fst gw2, release_all rnd io li ok (rev acc2) (snd gw2)))"

primrec keep_tokens :: "AcquiredResource \<Rightarrow> AcquiredResource" where
  "keep_tokens (ReservationHandle n r l wk pool) = ReservationHandle n r l wk pool"
| "keep_tokens (RateLimitHandle n l d refund) = RateLimitHandle n l d False"

definition release_for_actor ::
    "(rat \<Rightarrow> rat) \<Rightarrow> call_io \<Rightarrow> limiter_io \<Rightarrow> (AcquiredResource \<Rightarrow> bool) \<Rightarrow> AcquiredResource list \<Rightarrow> world \<Rightarrow> world" where
  "release_for_actor rnd io li ok acquired w = release_all rnd io li ok (rev (map keep_tokens acquired)) w"

section \<open>The drain of evicted rows\<close>

definition drop_pending_schema_if_empty :: "string \<Rightarrow> pending \<Rightarrow> pending" where
  "drop_pending_schema_if_empty schema p =
     (if map_of p schema = None \<or> map_of p schema = Some [] then dict_pop schema p else p)"

text \<open>One schema of the reservation pass: the front batch, less what is registered again; survivors go to the back.\<close>

definition drain_reservations_of ::
    "slot_clock \<Rightarrow> nat \<Rightarrow> (string \<Rightarrow> bool) \<Rightarrow> string \<Rightarrow> pending \<times> slot_row list \<Rightarrow> nat \<times> pending \<times> slot_row list" where
  "drain_reservations_of clk batch live schema ps =
     (let (p, slots) = ps
      in case map_of p schema of
           None \<Rightarrow> (0, p, slots)
         | Some names \<Rightarrow>
             (let cand = take batch names;
                  slice = filter (\<lambda>n. \<not> live n) cand;
                  kept = filter (\<lambda>n. n \<notin> set cand \<or> n \<in> set slice) names
              in if slice = [] then (0, drop_pending_schema_if_empty schema (dict_put schema kept p), slots)
                 else
                   (let (deleted, slots') = reclaim_slice_delete clk slice slots;
                        surviving = reclaim_slice_existing slice slots';
                        rest = filter (\<lambda>n. n \<notin> set slice) kept
                    in (length deleted, drop_pending_schema_if_empty schema (dict_put schema (rest @ surviving) p), slots'))))"

definition reclaim_rate_limit_slice ::
    "(rat \<Rightarrow> rat) \<Rightarrow> (string \<Rightarrow> rat option) \<Rightarrow> string list \<Rightarrow> bucket_row list \<Rightarrow> rl_error + nat \<times> bucket_row list" where
  "reclaim_rate_limit_slice rnd txt names rows =
     (let gone = (\<lambda>b. if k_name b \<in> set names then no_consumed_quota rnd txt (k_state b) else Inr False)
      in bindE (filterE gone rows) (\<lambda>del. Inr (length del, filter (\<lambda>b. gone b \<noteq> Inr True) rows)))"

definition drain_rate_limits_of ::
    "(rat \<Rightarrow> rat) \<Rightarrow> (string \<Rightarrow> rat option) \<Rightarrow> nat \<Rightarrow> (string \<Rightarrow> bool) \<Rightarrow> string \<Rightarrow> pending \<times> bucket_row list
     \<Rightarrow> rl_error + nat \<times> pending \<times> bucket_row list" where
  "drain_rate_limits_of rnd txt batch live schema ps =
     (let (p, rows) = ps
      in case map_of p schema of
           None \<Rightarrow> Inr (0, p, rows)
         | Some names \<Rightarrow>
             (let cand = take batch names;
                  slice = filter (\<lambda>n. \<not> live n) cand;
                  kept = filter (\<lambda>n. n \<notin> set cand) names
              in if slice = [] then Inr (0, drop_pending_schema_if_empty schema (dict_put schema kept p), rows)
                 else bindE (reclaim_rate_limit_slice rnd txt slice rows) (\<lambda>(k, rows').
                        Inr (k, drop_pending_schema_if_empty schema (dict_put schema kept p), rows'))))"

fun drain_reservation_schemas ::
    "slot_clock \<Rightarrow> nat \<Rightarrow> string list \<Rightarrow> 'p registry \<times> world \<Rightarrow> nat \<times> 'p registry \<times> world" where
  "drain_reservation_schemas clk batch [] gw = (0, gw)"
| "drain_reservation_schemas clk batch (schema # ss) (g, w) =
     (let live = (\<lambda>n. has_key n (rg_reservations g) \<or> has_key n (rg_res_last_used g));
          (k, p, slots) = drain_reservations_of clk batch live schema (rg_pending_res g, w_slots w schema);
          (k', gw') = drain_reservation_schemas clk batch ss
            (g\<lparr>rg_pending_res := p\<rparr>, w\<lparr>w_slots := (w_slots w)(schema := slots)\<rparr>)
      in (k + k', gw'))"

fun drain_rate_limit_schemas ::
    "(rat \<Rightarrow> rat) \<Rightarrow> (string \<Rightarrow> rat option) \<Rightarrow> nat \<Rightarrow> string list \<Rightarrow> 'p registry \<times> world
     \<Rightarrow> (rl_error + nat) \<times> 'p registry \<times> world" where
  "drain_rate_limit_schemas rnd txt batch [] gw = (Inr 0, gw)"
| "drain_rate_limit_schemas rnd txt batch (schema # ss) (g, w) =
     (let live = (\<lambda>n. has_key n (rg_rate_limits g) \<or> has_key n (rg_rl_last_used g))
      in case drain_rate_limits_of rnd txt batch live schema (rg_pending_rl g, w_rows w schema) of
           Inl e \<Rightarrow> (Inl e, g, w)
         | Inr (k, p, rows) \<Rightarrow>
             (let (r, gw') = drain_rate_limit_schemas rnd txt batch ss
                (g\<lparr>rg_pending_rl := p\<rparr>, w\<lparr>w_rows := (w_rows w)(schema := rows)\<rparr>)
              in (case r of Inl e \<Rightarrow> Inl e | Inr k' \<Rightarrow> Inr (k + k'), gw')))"

definition drain_pending_reservation_reclaims ::
    "(rat \<Rightarrow> rat) \<Rightarrow> (string \<Rightarrow> rat option) \<Rightarrow> slot_clock \<Rightarrow> nat \<Rightarrow> 'p registry \<times> world
     \<Rightarrow> (rl_error + nat) \<times> 'p registry \<times> world" where
  "drain_pending_reservation_reclaims rnd txt clk batch gw =
     (let (k, gw1) = drain_reservation_schemas clk batch (map fst (rg_pending_res (fst gw))) gw;
          (r, gw2) = drain_rate_limit_schemas rnd txt batch (map fst (rg_pending_rl (fst gw1))) gw1
      in (case r of Inl e \<Rightarrow> Inl e | Inr k' \<Rightarrow> Inr (k + k'), gw2))"

end
