(* ===== verification/Admission.thy ===== *)
theory Admission
  imports Registry
begin

text \<open>
  What the registry promises: names derived from a key lead back to their
  reference, eviction loses no row, a refused composition leaves no slot held,
  and what the drain of one worker does to a bucket another worker uses.
\<close>

section \<open>Names\<close>

lemma startswith_append: "startswith s p \<longleftrightarrow> (\<exists>t. s = p @ t)"
  unfolding startswith_def by (metis append_eq_conv_conj append_take_drop_id)

lemma prefix_split:
  assumes "a @ x # k = b @ x # l" "length a < length b"
  shows "startswith b (a @ [x])"
proof -
  obtain t where t: "b = a @ t" using assms append_eq_append_conv2[of a "x # k" b "x # l"] by auto
  then have "x # k = t @ x # l" using assms(1) by simp
  moreover have "t \<noteq> []" using t assms(2) by auto
  ultimately obtain t' where "t = x # t'" by (cases t) auto
  then show ?thesis using t by (auto simp: startswith_append)
qed

text \<open>Declared base names, none of which continues another after a colon.\<close>

definition unambiguous :: "(string \<times> 'r) list \<Rightarrow> bool" where
  "unambiguous refs \<longleftrightarrow> distinct (map fst refs)
     \<and> (\<forall>u \<in> fst ` set refs. \<forall>v \<in> fst ` set refs. \<not> startswith u (v @ '':''))"

lemma only_candidate:
  assumes "unambiguous refs" "u \<in> fst ` set refs"
  shows "filter (\<lambda>v. startswith (concrete_name u key) (v @ '':'')) (map fst refs) = [u]"
proof -
  have "v = u" if v: "v \<in> fst ` set refs" "startswith (concrete_name u key) (v @ '':'')" for v
  proof (rule ccontr)
    assume n: "v \<noteq> u"
    obtain t where t: "u @ CHR '':'' # key = v @ CHR '':'' # t"
      using v(2) by (auto simp: startswith_append concrete_name_def)
    consider "length u < length v" | "length v < length u" | "length u = length v" by linarith
    then show False
    proof cases
      case 1
      then show False using prefix_split[OF t] assms v(1) unfolding unambiguous_def by blast
    next
      case 2
      then show False using prefix_split[OF t[symmetric]] assms v(1) unfolding unambiguous_def by blast
    next
      case 3
      then show False using t n by (metis append_eq_append_conv)
    qed
  qed
  moreover have "startswith (concrete_name u key) (u @ '':'')"
    by (auto simp: startswith_append concrete_name_def)
  ultimately have "filter (\<lambda>v. startswith (concrete_name u key) (v @ '':'')) (map fst refs)
      = filter (\<lambda>v. v = u) (map fst refs)"
    by (intro filter_cong) auto
  also have "\<dots> = [u]"
  proof -
    have "filter (\<lambda>v. v = u) xs = [u]" if "distinct xs" "u \<in> set xs" for xs :: "string list"
      using that by (induction xs) (auto simp: filter_empty_conv)
    then show ?thesis using assms by (simp add: unambiguous_def)
  qed
  finally show ?thesis .
qed

lemma match_concrete:
  assumes "unambiguous refs" "map_of refs u = Some r" "validate_keyed_key (Some key) = Inr key"
  shows "match_keyed_ref refs (concrete_name u key) = Some (r, key)"
proof -
  have "u \<in> fst ` set refs" using assms(2) by (metis domI dom_map_of_conv_image_fst)
  then have "filter (\<lambda>v. startswith (concrete_name u key) (v @ '':'')) (map fst refs) = [u]"
    using only_candidate[OF assms(1)] by blast
  moreover have "drop (length u + 1) (concrete_name u key) = key" by (simp add: concrete_name_def)
  ultimately show ?thesis using assms(2,3) by (simp add: match_keyed_ref_def)
qed

lemma unambiguous_put:
  assumes "unambiguous refs" "\<not> refuse_prefix_base_name (map fst refs) v" "map_of refs v = None"
  shows "unambiguous (dict_put v r refs)"
proof -
  have n: "v \<notin> fst ` set refs" using assms(3) by (simp add: map_of_eq_None_iff)
  moreover have "\<not> startswith v (v @ '':'')" by (simp add: startswith_def)
  ultimately show ?thesis using assms(1,2)
    by (auto simp: unambiguous_def refuse_prefix_base_name_def dict_put_new)
qed

text \<open>A registry as the registrations of references leave it.\<close>

inductive declared :: "'p registry \<Rightarrow> bool" where
  fresh: "declared new_registry"
| res: "declared g \<Longrightarrow> register_keyed_reservation_ref ref g = Inr g' \<Longrightarrow> declared g'"
| rl: "declared g \<Longrightarrow> register_keyed_rate_limit_ref lref g = Inr g' \<Longrightarrow> declared g'"

lemma declared_unambiguous:
  "declared g \<Longrightarrow> unambiguous (rg_res_refs g) \<and> unambiguous (rg_rl_refs g)"
proof (induction rule: declared.induct)
  case fresh
  then show ?case by (simp add: new_registry_def unambiguous_def)
next
  case (res g ref g')
  then show ?case using unambiguous_put[of "rg_res_refs g" "kr_base_name ref" ref]
    by (auto simp: register_keyed_reservation_ref_def split: if_splits option.splits)
next
  case (rl g lref g')
  then show ?case using unambiguous_put[of "rg_rl_refs g" "kl_base_name lref" lref]
    by (auto simp: register_keyed_rate_limit_ref_def split: if_splits option.splits)
qed

text \<open>
  A stamped name leads back to its own reference.  However references were
  declared, a name built from a declared base name and a valid key, even one with
  colons of its own, matches exactly the reference and the key it was built from,
  for reservations and for rate limits.
\<close>

theorem keyed_name_roundtrip:
  assumes "declared g" "validate_keyed_key (Some key) = Inr key"
  shows "(map_of (rg_res_refs g) u = Some r \<longrightarrow> match_keyed_ref (rg_res_refs g) (concrete_name u key) = Some (r, key))
       \<and> (map_of (rg_rl_refs g) u = Some l \<longrightarrow> match_keyed_ref (rg_rl_refs g) (concrete_name u key) = Some (l, key))"
  using declared_unambiguous[OF assms(1)] assms(2) by (simp add: match_concrete)

definition demo_ref :: "string \<Rightarrow> int \<Rightarrow> unit KeyedReservationRef" where
  "demo_ref base n = \<lparr>kr_base_name = base, kr_key_fn = (\<lambda>_. Inr (Some ''k'')), kr_slots = n, kr_lease = seconds 10\<rparr>"

theorem keyed_name_roundtrip_witness:
  "\<exists>g1 g2. register_keyed_reservation_ref (demo_ref ''gpu'' 2) new_registry = Inr g1
     \<and> register_keyed_reservation_ref (demo_ref ''gpu-v2'' 3) g1 = Inr g2
     \<and> match_keyed_ref (rg_res_refs g2) (concrete_name ''gpu'' ''eu:1'') = Some (demo_ref ''gpu'' 2, ''eu:1'')"
proof -
  obtain g1 where g1: "register_keyed_reservation_ref (demo_ref ''gpu'' 2) new_registry = Inr g1"
    "g1 = new_registry\<lparr>rg_res_refs := [(''gpu'', demo_ref ''gpu'' 2)]\<rparr>"
    by (simp add: register_keyed_reservation_ref_def new_registry_def refuse_prefix_base_name_def demo_ref_def)
  obtain g2 where g2: "register_keyed_reservation_ref (demo_ref ''gpu-v2'' 3) g1 = Inr g2"
    "g2 = new_registry\<lparr>rg_res_refs := [(''gpu'', demo_ref ''gpu'' 2), (''gpu-v2'', demo_ref ''gpu-v2'' 3)]\<rparr>"
    by (simp add: g1(2) register_keyed_reservation_ref_def new_registry_def refuse_prefix_base_name_def demo_ref_def
        startswith_def)
  have "declared g2" using declared.intros g1(1) g2(1) by metis
  moreover have "validate_keyed_key (Some ''eu:1'') = Inr ''eu:1''" by code_simp
  moreover have "map_of (rg_res_refs g2) ''gpu'' = Some (demo_ref ''gpu'' 2)" by (simp add: g2(2))
  ultimately have "match_keyed_ref (rg_res_refs g2) (concrete_name ''gpu'' ''eu:1'') = Some (demo_ref ''gpu'' 2, ''eu:1'')"
    using keyed_name_roundtrip by blast
  then show ?thesis using g1(1) g2(1) by blast
qed

section \<open>Eviction\<close>

definition is_pending :: "string \<Rightarrow> pending \<Rightarrow> bool" where
  "is_pending name p \<longleftrightarrow> (\<exists>schema names. map_of p schema = Some names \<and> name \<in> set names)"

lemma map_of_dict_pop: "map_of (dict_pop k d) n = (if n = k then None else map_of d n)"
  by (induction d) (auto simp: dict_pop_def)

lemma pending_total_put:
  "pending_total (dict_put k v p) \<le> pending_total p + (case map_of p k of None \<Rightarrow> length v | Some u \<Rightarrow> length v - length u)"
  by (induction p) (auto simp: pending_total_def split: option.splits)

lemma record_pending_laws:
  assumes "record_pending_reclaim schema name cap p = Some p'"
  shows "is_pending name p'" "is_pending n p \<Longrightarrow> is_pending n p'" "int (pending_total p') \<le> cap"
proof -
  define names where "names = (case map_of p schema of None \<Rightarrow> [] | Some ns \<Rightarrow> ns)"
  have p': "p' = dict_put schema (if name \<in> set names then names else names @ [name]) p" "int (pending_total p) < cap"
    using assms by (auto simp: record_pending_reclaim_def names_def Let_def split: if_splits)
  show "is_pending name p'"
    unfolding is_pending_def p'(1) by (intro exI[of _ schema]) (auto simp: map_of_dict_put)
  show "is_pending n p'" if pend: "is_pending n p"
  proof -
    obtain sc ns where ns: "map_of p sc = Some ns" "n \<in> set ns" using pend unfolding is_pending_def by blast
    then show ?thesis unfolding is_pending_def p'(1) names_def
      by (intro exI[of _ sc]) (auto simp: map_of_dict_put)
  qed
  have "pending_total p' \<le> pending_total p + 1"
    using pending_total_put[of schema "if name \<in> set names then names else names @ [name]" p]
    by (auto simp: p'(1) names_def split: option.splits if_splits)
  then show "int (pending_total p') \<le> cap" using p'(2) by simp
qed

text \<open>What an admission promises: it records the name or vetoes, and forgets nothing.\<close>

locale admission =
  fixes admit :: "string \<Rightarrow> 'q \<Rightarrow> pending \<Rightarrow> pending option" and owed :: "string \<Rightarrow> bool" and cap :: int
  assumes admit_records: "admit name q p = Some p' \<Longrightarrow> owed name \<Longrightarrow> is_pending name p'"
    and admit_keeps: "admit name q p = Some p' \<Longrightarrow> is_pending n p \<Longrightarrow> is_pending n p'"
    and admit_cap: "admit name q p = Some p' \<Longrightarrow> int (pending_total p') \<le> max cap (int (pending_total p))"
begin

lemma evict_loop_accounts:
  assumes "evict_loop admit names (track, prims, p) = (out, track', prims', p')"
  shows "set out \<subseteq> set names
    \<and> (\<forall>n. n \<notin> set out \<longrightarrow> map_of track' n = map_of track n \<and> map_of prims' n = map_of prims n)
    \<and> (\<forall>n. is_pending n p \<longrightarrow> is_pending n p')
    \<and> (\<forall>n \<in> set out. owed n \<and> map_of prims n \<noteq> None \<longrightarrow> is_pending n p')
    \<and> (\<forall>n \<in> set out. map_of track' n = None \<and> map_of prims' n = None)
    \<and> int (pending_total p') \<le> max cap (int (pending_total p))"
  using assms
proof (induction names arbitrary: track prims p out)
  case (Cons name names)
  show ?case
  proof (cases "case map_of prims name of None \<Rightarrow> Some p | Some q \<Rightarrow> admit name q p")
    case None
    then show ?thesis using Cons.IH[of track prims p out] Cons.prems by auto
  next
    case (Some p1)
    obtain out1 where o: "evict_loop admit names (dict_pop name track, dict_pop name prims, p1) = (out1, track', prims', p')"
      "out = name # out1"
      using Cons.prems Some by (auto simp: Let_def split: prod.splits)
    note ih = Cons.IH[OF o(1)]
    have keep: "is_pending n p1" if "is_pending n p" for n
      using Some that admit_keeps by (auto split: option.splits)
    have rec: "is_pending name p1" if "owed name" "map_of prims name \<noteq> None"
      using Some that admit_records by (auto split: option.splits)
    have cap: "int (pending_total p1) \<le> max cap (int (pending_total p))"
      using Some admit_cap by (auto split: option.splits)
    have gone: "map_of track' name = None \<and> map_of prims' name = None"
      using ih by (cases "name \<in> set out1") (auto simp: map_of_dict_pop)
    show ?thesis unfolding o(2)
      using ih keep rec cap gone by (auto simp: map_of_dict_pop split: if_splits)
  qed
qed auto

end

interpretation res_admit: admission "\<lambda>name r. record_pending_reclaim (cr_schema r) name cap" "\<lambda>_. True" cap for cap
  by unfold_locales (auto intro: record_pending_laws max.coboundedI1)

interpretation rl_admit: admission
  "\<lambda>name l p. case map_of schemas name of None \<Rightarrow> Some p | Some schema \<Rightarrow> record_pending_reclaim schema name cap p"
  "\<lambda>n. map_of schemas n \<noteq> None" cap for schemas :: "(string \<times> string) list" and cap
  by unfold_locales (auto intro: record_pending_laws max.coboundedI1 split: option.splits)

text \<open>
  Eviction loses no row.  Every keyed reservation tracked before the scan is
  still tracked and registered after it, or it was idle past the threshold and its
  bucket is recorded for the drain; nothing recorded is forgotten, an entry that is
  not tracked (a static one) is never touched, and the record never grows past the
  larger of the cap and its size before.
\<close>

theorem eviction_accounts:
  assumes "evict_idle_keyed_reservations rnd now idle cap g = (k, g')"
  shows "(\<forall>name used r. map_of (rg_res_last_used g) name = Some used \<and> map_of (rg_reservations g) name = Some r \<longrightarrow>
            (map_of (rg_res_last_used g') name = Some used \<and> map_of (rg_reservations g') name = Some r)
            \<or> is_pending name (rg_pending_res g'))
       \<and> (\<forall>name. is_pending name (rg_pending_res g) \<longrightarrow> is_pending name (rg_pending_res g'))
       \<and> (\<forall>name. map_of (rg_res_last_used g) name = None \<longrightarrow> map_of (rg_reservations g') name = map_of (rg_reservations g) name)
       \<and> (\<forall>name. \<not> (\<exists>used. (name, used) \<in> set (rg_res_last_used g) \<and> used < rnd (now - total_seconds rnd idle))
             \<longrightarrow> map_of (rg_res_last_used g') name = map_of (rg_res_last_used g) name)
       \<and> int (pending_total (rg_pending_res g'))
           \<le> max (case cap of None \<Rightarrow> DEFAULT_MAX_KEYED_RESERVATIONS | Some n \<Rightarrow> n) (int (pending_total (rg_pending_res g)))"
proof -
  let ?cap = "case cap of None \<Rightarrow> DEFAULT_MAX_KEYED_RESERVATIONS | Some n \<Rightarrow> n"
  let ?stale = "map fst (filter (\<lambda>(name, used). \<not> used \<ge> rnd (now - total_seconds rnd idle)
      \<and> \<not> (case map_of (rg_reservations g) name of None \<Rightarrow> False | Some q \<Rightarrow> False)) (rg_res_last_used g))"
  obtain out track prims p where e: "evict_loop (\<lambda>name r. record_pending_reclaim (cr_schema r) name ?cap) ?stale
      (rg_res_last_used g, rg_reservations g, rg_pending_res g) = (out, track, prims, p)"
    by (metis prod_cases4)
  have g': "rg_res_last_used g' = track" "rg_reservations g' = prims" "rg_pending_res g' = p"
    using assms e by (auto simp: evict_idle_keyed_reservations_def evict_idle_keyed_def Let_def)
  note a = res_admit.evict_loop_accounts[OF e]
  have out: "\<exists>used. (name, used) \<in> set (rg_res_last_used g) \<and> used < rnd (now - total_seconds rnd idle)"
    if "name \<in> set out" for name
  proof -
    have "name \<in> set ?stale" using a that by blast
    then show ?thesis by auto
  qed
  show ?thesis unfolding g'
  proof (intro conjI allI impI)
    fix name used r
    assume n: "map_of (rg_res_last_used g) name = Some used \<and> map_of (rg_reservations g) name = Some r"
    show "map_of track name = Some used \<and> map_of prims name = Some r \<or> is_pending name p"
      using a n by (cases "name \<in> set out") simp_all
  next
    fix name assume "map_of (rg_res_last_used g) name = None"
    then have "name \<notin> set out" using out[of name] by (force simp: map_of_eq_None_iff)
    then show "map_of prims name = map_of (rg_reservations g) name" using a by blast
  next
    fix name
    assume "\<not> (\<exists>used. (name, used) \<in> set (rg_res_last_used g) \<and> used < rnd (now - total_seconds rnd idle))"
    then have "name \<notin> set out" using out[of name] by blast
    then show "map_of track name = map_of (rg_res_last_used g) name" using a by blast
  qed (use a in blast)+
qed

definition demo_registry :: "unit registry" where
  "demo_registry = new_registry\<lparr>
     rg_reservations := [(''gpu:a'', demo_reservation ''gpu:a'' 2), (''gpu:b'', demo_reservation ''gpu:b'' 2)],
     rg_res_last_used := [(''gpu:a'', 0), (''gpu:b'', 9000)]\<rparr>"

theorem eviction_accounts_witness:
  "map_of (rg_res_last_used (snd (evict_idle_keyed_reservations rnd64 10000 KEYED_IDLE_THRESHOLD (Some 5) demo_registry))) ''gpu:a'' = None
   \<and> is_pending ''gpu:a'' (rg_pending_res (snd (evict_idle_keyed_reservations rnd64 10000 KEYED_IDLE_THRESHOLD (Some 5) demo_registry)))
   \<and> map_of (rg_res_last_used (snd (evict_idle_keyed_reservations rnd64 10000 KEYED_IDLE_THRESHOLD (Some 5) demo_registry))) ''gpu:b'' = Some 9000"
proof -
  obtain k g' where e: "evict_idle_keyed_reservations rnd64 10000 KEYED_IDLE_THRESHOLD (Some 5) demo_registry = (k, g')"
    by fastforce
  have gone: "map_of (rg_res_last_used (snd (evict_idle_keyed_reservations rnd64 10000 KEYED_IDLE_THRESHOLD (Some 5) demo_registry)))
      ''gpu:a'' = None" by code_simp
  have kept: "map_of (rg_res_last_used (snd (evict_idle_keyed_reservations rnd64 10000 KEYED_IDLE_THRESHOLD (Some 5) demo_registry)))
      ''gpu:b'' = Some 9000" by code_simp
  have "map_of (rg_res_last_used demo_registry) ''gpu:a'' = Some 0"
    "map_of (rg_reservations demo_registry) ''gpu:a'' = Some (demo_reservation ''gpu:a'' 2)" by code_simp+
  then have "is_pending ''gpu:a'' (rg_pending_res g')"
    using conjunct1[OF eviction_accounts[OF e], rule_format, of "''gpu:a''" 0 "demo_reservation ''gpu:a'' 2"] gone e
    by simp
  then show ?thesis using gone kept e by simp
qed

section \<open>Composition\<close>

text \<open>A held row is one of before the call, or one a handle of the call is for.\<close>

primrec handle_for :: "AcquiredResource \<Rightarrow> string \<Rightarrow> slot_row \<Rightarrow> bool" where
  "handle_for (ReservationHandle n r l wk pool) schema s \<longleftrightarrow>
     schema = cr_schema r \<and> pool \<and> s_bucket s = cr_name r \<and> s_index s = sl_index l \<and> s_held_by s = Some wk
     \<and> sl_fence l \<noteq> None \<and> s_acquired_at s = sl_fence l"
| "handle_for (RateLimitHandle n l d refund) schema s \<longleftrightarrow> False"

definition no_new_holds :: "slot_row list \<Rightarrow> slot_row list \<Rightarrow> bool" where
  "no_new_holds a b \<longleftrightarrow> (\<forall>s' \<in> set b. s_job_id s' \<noteq> None \<longrightarrow> (\<exists>s \<in> set a. same_hold s s'))"

definition covered :: "AcquiredResource list \<Rightarrow> world \<Rightarrow> world \<Rightarrow> bool" where
  "covered hs w0 w \<longleftrightarrow> (\<forall>schema. \<forall>s' \<in> set (w_slots w schema). s_job_id s' \<noteq> None \<longrightarrow>
     (\<exists>s \<in> set (w_slots w0 schema). same_hold s s') \<or> (\<exists>h \<in> set hs. handle_for h schema s'))"

definition keyed_slots :: "world \<Rightarrow> bool" where
  "keyed_slots w \<longleftrightarrow> (\<forall>schema. distinct (map slot_key (w_slots w schema)))"

lemma no_new_holds_refl [simp]: "no_new_holds a a"
  using same_hold_refl unfolding no_new_holds_def by blast

lemma no_new_holds_trans: "no_new_holds a b \<Longrightarrow> no_new_holds b c \<Longrightarrow> no_new_holds a c"
  unfolding no_new_holds_def by (metis same_hold_def same_hold_trans)

lemma upsert_holds: "no_new_holds a (upsert_slot clk (new_slot n k t i) a)"
  unfolding upsert_slot_def no_new_holds_def
  by (auto simp: new_slot_def set_upd_where same_hold_def slot_key_def)

lemma ensure_holds: "no_new_holds a (ensure_slots clk born r a)"
proof -
  have "no_new_holds a (fold (\<lambda>i. upsert_slot clk (new_slot n k (born i) i)) is a)" for "is" n k a
    by (induction "is" arbitrary: a) (auto intro: no_new_holds_trans upsert_holds)
  then show ?thesis by (simp add: ensure_slots_def)
qed

lemma distinct_upsert:
  "distinct (map slot_key a) \<Longrightarrow> distinct (map slot_key (upsert_slot clk r a))"
  by (auto simp: upsert_slot_def row_by_None_iff keys_upd_where slot_key_def)

lemma distinct_ensure:
  "distinct (map slot_key a) \<Longrightarrow> distinct (map slot_key (ensure_slots clk born r a))"
proof -
  have "distinct (map slot_key a) \<Longrightarrow> distinct (map slot_key (fold (\<lambda>i. upsert_slot clk (f i)) is a))" for "is" f a
    by (induction "is" arbitrary: a) (auto intro: distinct_upsert)
  then show "distinct (map slot_key a) \<Longrightarrow> ?thesis" by (simp add: ensure_slots_def)
qed

lemma handle_for_same_hold: "handle_for h sc s \<Longrightarrow> same_hold s s' \<Longrightarrow> handle_for h sc s'"
  by (cases h) (auto simp: same_hold_def slot_key_def)

lemma covered_ensure:
  assumes "covered hs w0 w"
  shows "covered hs w0 (w\<lparr>w_slots := (w_slots w)(sc := ensure_slots clk born r (w_slots w sc))\<rparr>)"
proof -
  have "(\<exists>s \<in> set (w_slots w0 sc). same_hold s s') \<or> (\<exists>h \<in> set hs. handle_for h sc s')"
    if s': "s' \<in> set (ensure_slots clk born r (w_slots w sc))" "s_job_id s' \<noteq> None" for s'
  proof -
    obtain s where s: "s \<in> set (w_slots w sc)" "same_hold s s'"
      using ensure_holds[of "w_slots w sc"] s' unfolding no_new_holds_def by blast
    then have "s_job_id s \<noteq> None" using s' by (simp add: same_hold_def)
    then consider s0 where "s0 \<in> set (w_slots w0 sc)" "same_hold s0 s" | h where "h \<in> set hs" "handle_for h sc s"
      using assms s(1) unfolding covered_def by blast
    then show ?thesis
    proof cases
      case 1
      then show ?thesis using same_hold_trans[OF _ s(2)] by blast
    next
      case (2 h)
      then have "handle_for h sc s'" by (intro handle_for_same_hold[OF _ s(2)])
      then show ?thesis using 2(1) by blast
    qed
  qed
  then show ?thesis using assms by (auto simp: covered_def)
qed

lemma acquire_new_holds:
  assumes d: "distinct (map slot_key a)" and e: "acquire_slot rnd clk now skip r job wk a = (Inr l, b)"
    and s': "s' \<in> set b" "s_job_id s' \<noteq> None"
  shows "s' \<in> set a \<or> (s_bucket s' = cr_name r \<and> s_index s' = sl_index l \<and> s_held_by s' = Some wk
           \<and> sl_fence l \<noteq> None \<and> s_acquired_at s' = sl_fence l)"
proof -
  obtain f where f: "free_slot clk skip (cr_name r) a = Some f" "l = \<lparr>sl_index = s_index f, sl_fence = Some (clk 1 f)\<rparr>"
    "b = upd_where (\<lambda>s. slot_key s = slot_key f) (take_slot clk job wk (pg_seconds rnd (total_seconds rnd (cr_lease r)))) a"
    using e by (auto simp: acquire_slot_def split: option.splits)
  obtain s where s: "s \<in> set a" "s' = (if slot_key s = slot_key f then
      take_slot clk job wk (pg_seconds rnd (total_seconds rnd (cr_lease r))) s else s)"
    using s'(1) by (auto simp: f(3) set_upd_where)
  show ?thesis
  proof (cases "slot_key s = slot_key f")
    case True
    then have "s = f" using distinct_key_eq[OF d s(1)] free_slot_SomeD[OF f(1)] by blast
    then show ?thesis using s(2) f(2) free_slot_SomeD[OF f(1)] by (simp add: take_slot_def)
  qed (use s in simp)
qed

lemma acquire_distinct:
  "distinct (map slot_key a) \<Longrightarrow> distinct (map slot_key (snd (acquire_slot rnd clk now skip r job wk a)))"
  by (auto simp: acquire_slot_def keys_upd_where take_slot_def slot_key_def split: option.splits)

lemma acquire_denied_same: "acquire_slot rnd clk now skip r job wk a = (Inl h, b) \<Longrightarrow> b = a"
  by (auto simp: acquire_slot_def split: option.splits)

lemma covered_mono: "covered hs w0 w \<Longrightarrow> set hs \<subseteq> set hs' \<Longrightarrow> covered hs' w0 w"
  unfolding covered_def by blast

lemma covered_cong: "w_slots w = w_slots w' \<Longrightarrow> covered hs w0 w = covered hs w0 w'"
  by (simp add: covered_def)

lemma keyed_slots_cong: "w_slots w = w_slots w' \<Longrightarrow> keyed_slots w = keyed_slots w'"
  by (simp add: keyed_slots_def)

definition ensured :: "world \<Rightarrow> world \<Rightarrow> bool" where
  "ensured w w' \<longleftrightarrow> w_slots w' = w_slots w \<or>
     (\<exists>sc clk born r. w_slots w' = (w_slots w)(sc := ensure_slots clk born r (w_slots w sc)))"

lemma ensured_keeps:
  assumes "ensured w w'" "covered hs w0 w" "keyed_slots w"
  shows "covered hs w0 w' \<and> keyed_slots w'"
proof (cases "w_slots w' = w_slots w")
  case True
  then show ?thesis using assms(2,3) covered_cong keyed_slots_cong by blast
next
  case False
  then obtain sc clk born r where w': "w_slots w' = (w_slots w)(sc := ensure_slots clk born r (w_slots w sc))"
    using assms(1) unfolding ensured_def by blast
  then have "covered hs w0 w'"
    using covered_cong[of w' "w\<lparr>w_slots := (w_slots w)(sc := ensure_slots clk born r (w_slots w sc))\<rparr>"]
      covered_ensure[OF assms(2)] by simp
  moreover have "keyed_slots w'" using assms(3) distinct_ensure unfolding keyed_slots_def w' by simp
  ultimately show ?thesis by blast
qed

lemma resolve_reservation_ensured:
  "ensured (snd gw) (snd (snd (resolve_reservation_name rnd io settings pl ref gw)))"
  by (auto simp: resolve_reservation_name_def materialize_keyed_reservation_def ensured_def Let_def
      split: res_ref.splits option.splits sum.splits prod.splits)

lemma heal_ensured:
  "ensured (snd gw) (snd (snd (heal_deleted_keyed_reservation_rows rnd io r gw)))"
  by (auto simp: heal_deleted_keyed_reservation_rows_def ensured_def Let_def split: prod.splits)

lemma reservation_acquire_denied:
  assumes "reservation_acquire rnd io r job wk w = (Inl e, w')" "io_pool io"
  shows "w' = w"
  using assms acquire_denied_same
  by (fastforce simp: reservation_acquire_def Let_def split: if_splits prod.splits sum.splits)

lemma reservation_acquire_granted:
  assumes e: "reservation_acquire rnd io r job wk w = (Inr l, w')" and p: "io_pool io"
    and c: "covered hs w0 w" and k: "keyed_slots w"
  shows "covered (hs @ [ReservationHandle n r l wk True]) w0 w' \<and> keyed_slots w'"
proof -
  let ?h = "ReservationHandle n r l wk True"
  obtain t where t: "acquire_slot rnd (io_clk io) (io_server_now io) (io_skip io) r job wk (w_slots w (cr_schema r)) = (Inr l, t)"
    "w' = w\<lparr>w_slots := (w_slots w)(cr_schema r := t)\<rparr>"
    using e p by (auto simp: reservation_acquire_def Let_def split: if_splits prod.splits sum.splits)
  have d: "distinct (map slot_key (w_slots w (cr_schema r)))" using k by (simp add: keyed_slots_def)
  have "keyed_slots w'" using k acquire_distinct[OF d] t by (auto simp: keyed_slots_def) (metis snd_conv)
  moreover have "(\<exists>s \<in> set (w_slots w0 (cr_schema r)). same_hold s s') \<or> (\<exists>h \<in> set (hs @ [?h]). handle_for h (cr_schema r) s')"
    if s': "s' \<in> set t" "s_job_id s' \<noteq> None" for s'
    using acquire_new_holds[OF d t(1) s'] s'(2) c unfolding covered_def by fastforce
  ultimately show ?thesis using covered_mono[OF c, of "hs @ [?h]"] unfolding covered_def t(2) by auto
qed

lemma heal_acquire_covered:
  assumes e: "acquire_reservation_slot_with_heal rnd io r job wk gw = (a, gw')" and p: "io_pool io"
    and c: "covered hs w0 (snd gw)" and k: "keyed_slots (snd gw)"
  shows "(case a of Inl _ \<Rightarrow> covered hs w0 (snd gw')
          | Inr l \<Rightarrow> covered (hs @ [ReservationHandle n r l wk True]) w0 (snd gw')) \<and> keyed_slots (snd gw')"
proof -
  obtain a1 w1 where 1: "reservation_acquire rnd io r job wk (snd gw) = (a1, w1)" by (cases "reservation_acquire rnd io r job wk (snd gw)")
  show ?thesis
  proof (cases "\<exists>m hint src. a1 = Inl (ReservationUnavailable m hint src)")
    case False
    then have "a = a1" "snd gw' = w1"
      using e 1 by (auto simp: acquire_reservation_slot_with_heal_def split: sum.splits rg_error.splits)
    then show ?thesis
      using reservation_acquire_granted[OF _ p c k, of rnd r job wk _ w1 n]
        reservation_acquire_denied[OF _ p, of rnd r job wk "snd gw" _ w1] 1 c k by (cases a1) auto
  next
    case True
    then obtain m hint src where a1: "a1 = Inl (ReservationUnavailable m hint src)" by blast
    have w1: "w1 = snd gw" using reservation_acquire_denied[OF _ p] 1 a1 by blast
    obtain b g2 w2 where 2: "heal_deleted_keyed_reservation_rows rnd io r (fst gw, w1) = (b, g2, w2)"
      by (cases "heal_deleted_keyed_reservation_rows rnd io r (fst gw, w1)")
    have ck: "covered hs w0 w2 \<and> keyed_slots w2"
      using heal_ensured[of "(fst gw, w1)" rnd io r] ensured_keeps[OF _ c k, of w2] 2 w1 by simp
    show ?thesis
    proof (cases b)
      case True
      then have "(a, snd gw') = reservation_acquire rnd io r job wk w2"
        using e 1 2 a1 by (auto simp: acquire_reservation_slot_with_heal_def split: prod.splits)
      then show ?thesis
        using reservation_acquire_granted[OF _ p] reservation_acquire_denied[OF _ p] ck
        by (cases a) (metis sum.case)+
    next
      case False
      then have "a = a1" "snd gw' = w2"
        using e 1 2 a1 by (auto simp: acquire_reservation_slot_with_heal_def)
      then show ?thesis using ck a1 by simp
    qed
  qed
qed

lemma acquire_reservations_covered:
  assumes "acquire_reservations rnd ios settings pl job wk refs acc gw = ((e, acc'), gw')"
    and p: "\<And>i. io_pool (ios i)" and "covered acc w0 (snd gw)" "keyed_slots (snd gw)"
  shows "covered acc' w0 (snd gw') \<and> keyed_slots (snd gw')
    \<and> (e = None \<longrightarrow> length acc' = length acc + length refs)"
  using assms(1,3,4)
proof (induction refs arbitrary: acc gw)
  case (Cons ref refs)
  obtain x gw1 where 1: "resolve_reservation_name rnd (ios (length acc)) settings pl ref gw = (x, gw1)"
    by (cases "resolve_reservation_name rnd (ios (length acc)) settings pl ref gw")
  have c1: "covered acc w0 (snd gw1) \<and> keyed_slots (snd gw1)"
    using ensured_keeps[OF resolve_reservation_ensured Cons.prems(2,3), of rnd "ios (length acc)" settings pl ref] 1 by simp
  show ?case
  proof (cases "\<exists>n r. x = Inr n \<and> map_of (rg_reservations (fst gw1)) n = Some r")
    case False
    then show ?thesis using Cons.prems(1) 1 c1 by (auto split: sum.splits option.splits)
  next
    case True
    then obtain n r where nr: "x = Inr n" "map_of (rg_reservations (fst gw1)) n = Some r" by blast
    obtain a gw2 where 2: "acquire_reservation_slot_with_heal rnd (ios (length acc)) r job wk gw1 = (a, gw2)"
      by (cases "acquire_reservation_slot_with_heal rnd (ios (length acc)) r job wk gw1")
    note h = heal_acquire_covered[OF 2 p, of acc w0 n] 
    show ?thesis
    proof (cases a)
      case (Inl e')
      then show ?thesis using Cons.prems(1) 1 2 nr h c1 by auto
    next
      case (Inr l)
      have "acquire_reservations rnd ios settings pl job wk refs (acc @ [ReservationHandle n r l wk True]) gw2 = ((e, acc'), gw')"
        using Cons.prems(1) 1 2 nr Inr p by simp
      from Cons.IH[OF this] show ?thesis using h c1 Inr by simp
    qed
  qed
qed auto

lemma resolve_rate_limit_slots:
  "w_slots (snd (snd (resolve_rate_limit_name rnd io clk settings pl ref gw))) = w_slots (snd gw)"
  by (auto simp: resolve_rate_limit_name_def materialize_keyed_rate_limit_def publish_bucket_def fresh_instance_def Let_def
      split: rl_ref.splits option.splits sum.splits prod.splits limiter.splits)

lemma limiter_acquire_slots: "w_slots (snd (limiter_acquire rnd li c l w)) = w_slots w"
  by (auto simp: limiter_acquire_def Let_def split: limiter.splits prod.splits)

lemma limiter_refund_slots: "w_slots (snd (limiter_refund rnd li c l d w)) = w_slots w"
  by (auto simp: limiter_refund_def Let_def split: limiter.splits prod.splits)

lemma acquire_rate_limits_slots:
  assumes "acquire_rate_limits rnd ios lis settings pl refs acc gw = ((e, acc'), gw')"
  shows "w_slots (snd gw') = w_slots (snd gw) \<and> set acc \<subseteq> set acc'
    \<and> (e = None \<longrightarrow> length acc' = length acc + length refs)"
  using assms
proof (induction refs arbitrary: acc gw)
  case (Cons ref refs)
  obtain x gw1 where 1: "resolve_rate_limit_name rnd (ios (length acc)) (le_clk (li_env (lis (length acc)))) settings pl ref gw = (x, gw1)"
    by (cases "resolve_rate_limit_name rnd (ios (length acc)) (le_clk (li_env (lis (length acc)))) settings pl ref gw")
  have s1: "w_slots (snd gw1) = w_slots (snd gw)"
    using resolve_rate_limit_slots[of rnd "ios (length acc)" "le_clk (li_env (lis (length acc)))" settings pl ref gw] 1 by simp
  show ?case
  proof (cases "\<exists>n l. x = Inr n \<and> map_of (rg_rate_limits (fst gw1)) n = Some l")
    case False
    then show ?thesis using Cons.prems 1 s1 by (auto split: sum.splits option.splits)
  next
    case True
    then obtain n l where nl: "x = Inr n" "map_of (rg_rate_limits (fst gw1)) n = Some l" by blast
    obtain a w2 where 2: "limiter_acquire rnd (lis (length acc)) 1 l (snd gw1) = (a, w2)"
      by (cases "limiter_acquire rnd (lis (length acc)) 1 l (snd gw1)")
    have s2: "w_slots w2 = w_slots (snd gw)" using limiter_acquire_slots[of rnd "lis (length acc)" 1 l "snd gw1"] 2 s1 by simp
    show ?thesis
    proof (cases "\<exists>d. a = Inr d \<and> rd_allowed d")
      case False
      then show ?thesis using Cons.prems 1 2 nl s2 by (auto split: sum.splits if_splits)
    next
      case True
      then obtain d where d: "a = Inr d" "rd_allowed d" by blast
      have "acquire_rate_limits rnd ios lis settings pl refs (acc @ [RateLimitHandle n l d True]) (fst gw1, w2) = ((e, acc'), gw')"
        using Cons.prems 1 2 nl d by simp
      from Cons.IH[OF this] show ?thesis using s2 by simp
    qed
  qed
qed auto

text \<open>A release gives up the rows its handle is for and leaves the others as they are.\<close>

lemma release_slot_covers:
  assumes "s' \<in> set (release_slot clk r l wk a)" "s_job_id s' \<noteq> None"
  shows "s' \<in> set a \<and> \<not> (sl_fence l \<noteq> None \<and> s_bucket s' = cr_name r \<and> s_index s' = sl_index l
           \<and> s_held_by s' = Some wk \<and> s_acquired_at s' = sl_fence l)"
  using assms by (fastforce simp: release_slot_def set_upd_where free_row_def fence_of_def split: if_splits option.splits)

lemma handle_release_covered:
  assumes "covered (hs @ [h]) w0 w"
  shows "covered hs w0 (snd (handle_release rnd io li True h w))"
proof (cases h)
  case (RateLimitHandle n l d refund)
  have "covered hs w0 w" using assms RateLimitHandle by (auto simp: covered_def)
  moreover have "w_slots (snd (handle_release rnd io li True h w)) = w_slots w"
    using limiter_refund_slots[of rnd li 1 l d w] RateLimitHandle by (auto split: prod.splits sum.splits)
  ultimately show ?thesis using covered_cong by blast
next
  case (ReservationHandle n r l wk pool)
  show ?thesis
  proof (cases pool)
    case False
    then have "covered hs w0 w" using assms ReservationHandle by (auto simp: covered_def)
    then show ?thesis using ReservationHandle False by (auto simp: covered_def)
  next
    case True
    have "(\<exists>s \<in> set (w_slots w0 (cr_schema r)). same_hold s s') \<or> (\<exists>h \<in> set hs. handle_for h (cr_schema r) s')"
      if s': "s' \<in> set (release_slot (io_clk io) r l wk (w_slots w (cr_schema r)))" "s_job_id s' \<noteq> None" for s'
      using release_slot_covers[OF s'] s'(2) assms unfolding covered_def ReservationHandle by fastforce
    moreover have "(\<exists>s \<in> set (w_slots w0 schema). same_hold s s') \<or> (\<exists>h \<in> set hs. handle_for h schema s')"
      if s': "s' \<in> set (w_slots w schema)" "s_job_id s' \<noteq> None" "schema \<noteq> cr_schema r" for schema s'
      using assms s' unfolding covered_def ReservationHandle by fastforce
    ultimately show ?thesis unfolding covered_def ReservationHandle by (simp add: True)
  qed
qed

lemma covered_refl: "covered hs w w"
  unfolding covered_def using same_hold_refl by blast

lemma release_all_covered:
  assumes "covered hs w0 w" "\<And>h. ok h"
  shows "covered [] w0 (release_all rnd io li ok (rev hs) w)"
  using assms(1)
proof (induction hs arbitrary: w rule: rev_induct)
  case (snoc h hs)
  then show ?case using handle_release_covered[OF snoc.prems] assms(2) by simp
qed simp


definition quiet_io :: "timestamptz \<Rightarrow> call_io" where
  "quiet_io t = \<lparr>io_now = 0, io_pool = True, io_clk = \<lambda>_ _. t, io_born = \<lambda>_. t, io_server_now = t, io_skip = \<lambda>_. False,
     io_mem_now = t, io_ensure_fails = False, io_probe_fails = False, io_publish_fails = False, io_acquire_fails = False\<rparr>"

definition quiet_limiters :: limiter_io where
  "quiet_limiters = \<lparr>li_env = demo_env, li_call = \<lparr>sc_request_id = 0, sc_row_clock = \<lambda>_ _. 0, sc_deny_now = 0\<rparr>,
     li_fmt = id, li_txt = \<lambda>_. None, li_schema = ''taskq''\<rparr>"

definition slots_world :: "slot_row list \<Rightarrow> world" where
  "slots_world slots = \<lparr>w_slots = \<lambda>_. slots, w_rows = \<lambda>_. [], w_tables = \<lambda>_ _. None,
     w_tb = \<lambda>_. \<lparr>ts_mem = None, ts_hash = None, ts_rows = []\<rparr>,
     w_sw = \<lambda>_. \<lparr>ss_mem_log = None, ss_mem_gcra = None, ss_zset = \<lparr>rz_set = [], rz_pexpire = None\<rparr>, ss_tat = None, ss_entries = [], ss_rows = []\<rparr>,
     w_entries = \<lambda>_. []\<rparr>"

text \<open>Bucket \<open>gpu:a\<close> has a free slot; the only slot of \<open>gpu:b\<close> is held until second seventy.\<close>

definition demo_full :: "slot_row list" where
  "demo_full = [(demo_slot None None 0)\<lparr>s_bucket := ''gpu:a''\<rparr>, (demo_slot (Some 3) (Some (seconds 70)) 0)\<lparr>s_bucket := ''gpu:b''\<rparr>]"

abbreviation demo_take :: "string list \<Rightarrow> (rg_error + AcquiredResource list) \<times> unit registry \<times> world" where
  "demo_take names \<equiv> acquire_for_actor rnd64 (\<lambda>_. quiet_io (seconds 1)) (\<lambda>_. quiet_limiters)
     (quiet_io (seconds 1)) quiet_limiters (\<lambda>_. True) None None 9 7 [] (map ResName names) (demo_registry, slots_world demo_full)"


section \<open>The drain against a bucket another worker uses\<close>

lemma drain_slots:
  assumes "map_of p schema = Some names" "n \<in> set (take batch names)" "\<not> live n"
    and "drain_reservations_of clk batch live schema (p, slots) = (k, p', slots')"
  shows "filter (\<lambda>s. s_bucket s = n) slots' = filter (\<lambda>s. s_bucket s = n \<and> \<not> slot_free (clk 0 s) s) slots"
proof -
  let ?slice = "filter (\<lambda>m. \<not> live m) (take batch names)"
  have n: "n \<in> set ?slice" using assms by simp
  then have "?slice \<noteq> []" by (metis empty_iff list.set(1))
  then have "slots' = snd (reclaim_slice_delete clk ?slice slots)"
    using assms(1,4) by (auto simp: drain_reservations_of_def Let_def split: prod.splits)
  then have "slots' = filter (\<lambda>s. \<not> (s_bucket s \<in> set ?slice \<and> slot_free (clk 0 s) s)) slots"
    by (simp add: reclaim_slice_delete_def Let_def)
  then show ?thesis using n by (auto intro!: filter_cong)
qed

lemma acquire_without_free:
  assumes "\<And>s. s \<in> set a \<Longrightarrow> s_bucket s = cr_name r \<Longrightarrow> \<not> slot_free (clk 0 s) s"
  shows "\<exists>hint. acquire_slot rnd clk now skip r job wk a = (Inl hint, a)"
proof -
  have "filter (\<lambda>s. s_bucket s = cr_name r \<and> slot_free (clk 0 s) s \<and> \<not> skip s) a = []"
    using assms by (auto simp: filter_empty_conv)
  then have "free_slot clk skip (cr_name r) a = None" by (simp add: free_slot_def)
  then show ?thesis by (simp add: acquire_slot_def)
qed

lemma acquire_with_free:
  assumes "f \<in> set a" "s_bucket f = cr_name r" "slot_free (clk 0 f) f" "\<not> skip f"
  shows "\<exists>l b. acquire_slot rnd clk now skip r job wk a = (Inr l, b)"
proof -
  let ?c = "filter (\<lambda>s. s_bucket s = cr_name r \<and> slot_free (clk 0 s) s \<and> \<not> skip s) a"
  have "f \<in> set (sort_key s_index ?c)" using assms by simp
  then have "sort_key s_index ?c \<noteq> []" by (metis list.distinct(1) list.set_cases)
  then have "free_slot clk skip (cr_name r) a \<noteq> None" by (auto simp: free_slot_def split: list.splits)
  then show ?thesis by (auto simp: acquire_slot_def Let_def)
qed

text \<open>
  C14: The drain of one worker shrinks a bucket another worker is using.  A key idle in worker A's
  process is evicted there and its name queued, although worker B holds one of its slots.  A's drain then deletes
  exactly the free slots of the bucket and keeps the held ones, so while B's leases stand every further acquire of the
  bucket is refused, whatever capacity it declares and whatever the heal remembers: the heal sees rows and does
  nothing.  Before the drain the same acquire was granted a slot.
\<close>
theorem drain_shrinks_live_bucket:
  assumes queued: "map_of p schema = Some names" "cr_name r \<in> set (take batch names)" "\<not> live (cr_name r)"
    and held: "h \<in> set slots" "s_bucket h = cr_name r" "\<not> slot_free (clk 0 h) h"
    and free: "f \<in> set slots" "s_bucket f = cr_name r" "s_job_id f = None" "\<not> io_skip io f"
    and stand: "\<And>s. s \<in> set slots \<Longrightarrow> s_bucket s = cr_name r \<Longrightarrow> \<not> slot_free (clk 0 s) s \<Longrightarrow> \<not> slot_free (io_clk io 0 s) s"
    and io: "io_pool io" "\<not> io_acquire_fails io" "cr_schema r = schema"
    and drain: "drain_reservations_of clk batch live schema (p, slots) = (k, p', slots')"
  shows "(\<exists>l w'. acquire_reservation_slot_with_heal rnd io r job wk
             (g, w\<lparr>w_slots := (w_slots w)(schema := slots)\<rparr>) = (Inr l, g, w'))
       \<and> filter (\<lambda>s. s_bucket s = cr_name r) slots' = filter (\<lambda>s. s_bucket s = cr_name r \<and> \<not> slot_free (clk 0 s) s) slots
       \<and> (\<exists>hint g'. acquire_reservation_slot_with_heal rnd io r job wk
             (g, w\<lparr>w_slots := (w_slots w)(schema := slots')\<rparr>)
             = (Inl (ReservationUnavailable (cr_name r) hint SrcReservation), g', w\<lparr>w_slots := (w_slots w)(schema := slots')\<rparr>))"
proof -
  have rows: "filter (\<lambda>s. s_bucket s = cr_name r) slots' = filter (\<lambda>s. s_bucket s = cr_name r \<and> \<not> slot_free (clk 0 s) s) slots"
    by (rule drain_slots[OF queued drain])
  then have mem: "s \<in> set slots' \<and> s_bucket s = cr_name r \<longleftrightarrow> s \<in> set slots \<and> s_bucket s = cr_name r \<and> \<not> slot_free (clk 0 s) s" for s
    by (metis (mono_tags, lifting) mem_Collect_eq set_filter)
  have "slot_rows_exist r slots'" using mem[of h] held by (auto simp: slot_rows_exist_def)
  moreover obtain hint where "acquire_slot rnd (io_clk io) (io_server_now io) (io_skip io) r job wk slots' = (Inl hint, slots')"
    using acquire_without_free[of slots' r "io_clk io"] mem stand by blast
  ultimately have "\<exists>hint g'. acquire_reservation_slot_with_heal rnd io r job wk (g, w\<lparr>w_slots := (w_slots w)(schema := slots')\<rparr>)
      = (Inl (ReservationUnavailable (cr_name r) hint SrcReservation), g', w\<lparr>w_slots := (w_slots w)(schema := slots')\<rparr>)"
    using io by (auto simp: acquire_reservation_slot_with_heal_def reservation_acquire_def
        heal_deleted_keyed_reservation_rows_def Let_def)
  moreover obtain l b where "acquire_slot rnd (io_clk io) (io_server_now io) (io_skip io) r job wk slots = (Inr l, b)"
    using acquire_with_free[of f slots r "io_clk io" "io_skip io" rnd "io_server_now io" job wk] free
    by (auto simp: slot_free_def)
  then have "\<exists>l w'. acquire_reservation_slot_with_heal rnd io r job wk (g, w\<lparr>w_slots := (w_slots w)(schema := slots)\<rparr>) = (Inr l, g, w')"
    using io by (simp add: acquire_reservation_slot_with_heal_def reservation_acquire_def)
  ultimately show ?thesis using rows by blast
qed

text \<open>Two slots, the first held by the other worker.\<close>

definition demo_shared :: "slot_row list" where
  "demo_shared = [demo_slot (Some 3) (Some (seconds 70)) 0, demo_slot None None 1]"

theorem drain_shrinks_live_bucket_witness:
  "\<exists>hint g' w'. acquire_reservation_slot_with_heal rnd64 (quiet_io (seconds 2)) (demo_reservation ''gpu'' 2) 9 7
      (demo_registry, (slots_world [])\<lparr>w_slots := (w_slots (slots_world []))(''taskq'' :=
         snd (snd (drain_reservations_of (\<lambda>_ _. seconds 1) 5 (\<lambda>_. False) ''taskq'' ([(''taskq'', [''gpu''])], demo_shared))))\<rparr>)
      = (Inl (ReservationUnavailable ''gpu'' hint SrcReservation), g', w')"
proof -
  obtain k p' slots' where e:
    "drain_reservations_of (\<lambda>_ _. seconds 1) 5 (\<lambda>_. False) ''taskq'' ([(''taskq'', [''gpu''])], demo_shared) = (k, p', slots')"
    by (metis surj_pair)
  have "\<exists>hint g'. acquire_reservation_slot_with_heal rnd64 (quiet_io (seconds 2)) (demo_reservation ''gpu'' 2) 9 7
      (demo_registry, (slots_world [])\<lparr>w_slots := (w_slots (slots_world []))(''taskq'' := slots')\<rparr>)
      = (Inl (ReservationUnavailable (cr_name (demo_reservation ''gpu'' 2)) hint SrcReservation), g',
         (slots_world [])\<lparr>w_slots := (w_slots (slots_world []))(''taskq'' := slots')\<rparr>)"
    by (rule drain_shrinks_live_bucket[where h = "demo_slot (Some 3) (Some (seconds 70)) 0" and f = "demo_slot None None 1"
          and names = "[''gpu'']", OF _ _ _ _ _ _ _ _ _ _ _ _ _ _ e, THEN conjunct2, THEN conjunct2])
      (auto simp: demo_reservation_def demo_shared_def demo_slot_def slot_free_def seconds_def usec_per_sec_def quiet_io_def)
  then show ?thesis using e by (auto simp: demo_reservation_def)
qed

section \<open>The heal, and two smaller facts\<close>

lemma ensured_slot:
  assumes "0 < cr_slots r" "\<not> slot_rows_exist r a"
  shows "\<exists>f \<in> set (ensure_slots clk born r a). s_bucket f = cr_name r \<and> s_job_id f = None"
proof -
  let ?new = "new_slot (cr_name r) (cr_keyed r) (born 0) 0"
  have keep: "\<exists>f' \<in> set (upsert_slot clk x a'). s_bucket f' = cr_name r \<and> s_job_id f' = None"
    if free: "\<exists>f \<in> set a'. s_bucket f = cr_name r \<and> s_job_id f = None" for x a'
  proof -
    obtain f where f: "f \<in> set a'" "s_bucket f = cr_name r" "s_job_id f = None" using free by blast
    let ?f = "if row_by slot_key (slot_key x) a' \<noteq> None \<and> slot_key f = slot_key x
              then f\<lparr>s_keyed := (s_keyed f \<and> s_keyed x), s_last_used_at := clk 1 f\<rparr> else f"
    have "?f \<in> set (upsert_slot clk x a')"
      using f(1) by (auto simp: upsert_slot_def set_upd_where intro: image_eqI[where x = f])
    moreover have "s_bucket ?f = cr_name r \<and> s_job_id ?f = None" using f by simp
    ultimately show ?thesis by blast
  qed
  have fold: "\<exists>f \<in> set (fold (\<lambda>i. upsert_slot clk (g i)) is a'). s_bucket f = cr_name r \<and> s_job_id f = None"
    if "\<exists>f \<in> set a'. s_bucket f = cr_name r \<and> s_job_id f = None" for g "is" a'
    using that by (induction "is" arbitrary: a') (auto intro: keep)
  have "row_by slot_key (slot_key ?new) a = None"
    using assms(2) by (auto simp: row_by_None_iff slot_rows_exist_def slot_key_def new_slot_def)
  then have "?new \<in> set (upsert_slot clk ?new a)" by (simp add: upsert_slot_def)
  then have "\<exists>f \<in> set (upsert_slot clk ?new a). s_bucket f = cr_name r \<and> s_job_id f = None"
    by (force simp: new_slot_def)
  moreover have "[0..cr_slots r - 1] = 0 # [1..cr_slots r - 1]" using assms(1) by (simp add: upto_rec1)
  ultimately show ?thesis using fold by (simp add: ensure_slots_def)
qed

text \<open>A bucket whose rows are all gone is built again by the acquire that finds it so.\<close>

lemma heal_restores_bucket:
  assumes gone: "\<not> slot_rows_exist r (w_slots w (cr_schema r))"
    and track: "has_key (cr_name r) (rg_res_last_used g)" "map_of (rg_heal_attempted g) (cr_name r) = None"
    and io: "io_pool io" "\<not> io_acquire_fails io" "\<not> io_probe_fails io" "\<not> io_ensure_fails io" "\<And>s. \<not> io_skip io s"
    and slots: "0 < cr_slots r"
  shows "\<exists>l g' w'. acquire_reservation_slot_with_heal rnd io r job wk (g, w) = (Inr l, g', w')"
proof -
  let ?a = "w_slots w (cr_schema r)" let ?b = "ensure_slots (io_clk io) (io_born io) r ?a"
  obtain hint where "acquire_slot rnd (io_clk io) (io_server_now io) (io_skip io) r job wk ?a = (Inl hint, ?a)"
    using acquire_without_free[of ?a r "io_clk io" rnd "io_server_now io" "io_skip io" job wk] gone by (auto simp: slot_rows_exist_def)
  then have deny: "reservation_acquire rnd io r job wk w = (Inl (ReservationUnavailable (cr_name r) hint SrcReservation), w)"
    using io by (simp add: reservation_acquire_def)
  have heal: "\<exists>g'. heal_deleted_keyed_reservation_rows rnd io r (g, w) = (True, g', w\<lparr>w_slots := (w_slots w)(cr_schema r := ?b)\<rparr>)"
    using gone track io by (simp add: heal_deleted_keyed_reservation_rows_def Let_def)
  obtain f where f: "f \<in> set ?b" "s_bucket f = cr_name r" "s_job_id f = None"
    using ensured_slot[OF slots gone] by blast
  obtain l c where "acquire_slot rnd (io_clk io) (io_server_now io) (io_skip io) r job wk ?b = (Inr l, c)"
    using acquire_with_free[OF f(1,2), of "io_clk io" "io_skip io" rnd "io_server_now io" job wk] f(3) io(5)
    by (auto simp: slot_free_def)
  then show ?thesis using deny heal io by (auto simp: acquire_reservation_slot_with_heal_def reservation_acquire_def)
qed

text \<open>Two buckets that differ in their refill are refused, and the refusal says that they do not differ.\<close>

lemma refill_difference_unnamed:
  assumes "map_of (rg_rate_limits g) (tb_name b) = Some (LBucket a)" "tb_name a = tb_name b"
    "tb_capacity a = tb_capacity b" "tb_refill a \<noteq> tb_refill b"
    "\<not> startswith (tb_name b) QUEUE_CONCURRENCY_PREFIX"
  shows "register_limiter (LBucket b) g = Inl RgValueError
     \<and> rate_limit_config_diff (LBucket a) (LBucket b) = [''config fields are identical (a state or identity difference)'']"
  using assms by (simp add: register_limiter_def limiter_name_def)

text \<open>A cleared registry still resolves the keyed names declared before.\<close>

lemma clear_keeps_references: "rg_res_refs (registry_clear g) = rg_res_refs g \<and> rg_rl_refs (registry_clear g) = rg_rl_refs g"
  by (simp add: registry_clear_def)

text \<open>A reservation built from a key has no table in memory, so without a pool its acquire cannot succeed.\<close>

lemma keyed_acquire_needs_pool:
  assumes "materialize_keyed_reservation rnd io None ref key (g, w) = (Inr name, g', w')" "\<not> io_pool io"
    "map_of (rg_reservations g) name = None" "map_of (rg_reservations g') name = Some r"
  shows "reservation_acquire rnd io r job wk w' = (Inl RgRuntimeError, w')"
proof -
  have "\<not> cr_memory r"
    using assms by (auto simp: materialize_keyed_reservation_def register_reservation_def register_reservation_unchecked_def
        Let_def reservation_cap_def map_of_dict_put split: option.splits if_splits sum.splits prod.splits)
  then show ?thesis using assms(2) by (simp add: reservation_acquire_def)
qed

end
