(* ===== verification/Injection.thy ===== *)
theory Injection
  imports Json
begin

text \<open>
  Dependency injection: \<open>_scope.py\<close>, \<open>_di/types.py\<close>, \<open>_di/lifecycle.py\<close>,
  \<open>_di/registry.py\<close>, \<open>_di/_validate.py\<close>, \<open>_di/_shadow.py\<close>, \<open>_di/solver.py\<close> and
  \<open>_di/scopes.py\<close>.  A type is its qualified name.  What \<open>inspect\<close> and
  \<open>get_type_hints\<close> answer for a callable is its list of parameters; what a
  factory written by the user returns is an input, and the Python value \<open>None\<close>
  is \<open>None\<close>.
\<close>

section \<open>Scopes, annotations and entries\<close>

datatype Scope = PROCESS | THREAD | LOOP | TRANSIENT

primrec scope_value :: "Scope \<Rightarrow> int" where
  "scope_value PROCESS = 0"
| "scope_value THREAD = 1"
| "scope_value LOOP = 2"
| "scope_value TRANSIENT = 3"

text \<open>
  \<open>override or scope\<close>: an \<open>IntEnum\<close> member is false exactly if its value is zero.
\<close>

definition scope_or :: "Scope option \<Rightarrow> Scope \<Rightarrow> Scope" where
  "scope_or ov s = (case ov of None \<Rightarrow> s | Some o' \<Rightarrow> if scope_value o' = 0 then s else o')"

type_synonym ty = string

datatype param_kind = PositionalOnly | PositionalOrKeyword | KeywordOnly | VarPositional | VarKeyword

text \<open>
  An annotation is a class, \<open>JobContext\<close> with or without a type argument,
  \<open>Annotated\<close> over a class or something else with its metadata (the scope markers
  of it), or any other form such as a union.
\<close>

datatype annotation = AType ty | AJobContext bool | AAnnotated "ty option" "Scope option list" | AOther

record param =
  pa_name :: string
  pa_kind :: param_kind
  pa_default :: bool
  pa_hint :: "annotation option"

datatype callable = Unresolvable | Callable "param list"

datatype FactoryShape = SYNC_CALLABLE | ASYNC_CALLABLE | ASYNC_GENERATOR | SYNC_GENERATOR | VALUE | CLASS

datatype ProviderLifecycle =
  Plain | AsyncContextManager | AsyncCloseable | SyncCloseable | AsyncGenerator | SyncGenerator | PlainFactory

record 'v ProviderEntry =
  pe_scope :: Scope
  pe_value :: "'v option"
  pe_func :: callable
  pe_shape :: FactoryShape
  pe_lifecycle :: "ProviderLifecycle option"

datatype di_error =
    DIError
  | MissingProvider ty string
  | DependencyCycle "ty list"
  | ScopeViolation Scope Scope ty ty
  | DiRuntimeError | DiValueError | DiTypeError | DiKeyError
  | FactoryRaised | ProviderSystemExit

type_synonym edge = "ty \<times> ty \<times> Scope option"

record class_attrs =
  has_aenter :: bool
  has_aexit :: bool
  has_aclose :: bool
  has_close :: bool

definition detect_lifecycle :: "class_attrs \<Rightarrow> ProviderLifecycle" where
  "detect_lifecycle c =
     (if has_aenter c \<and> has_aexit c then AsyncContextManager
      else if has_aclose c then AsyncCloseable
      else if has_close c then SyncCloseable
      else Plain)"

datatype factory_code = AsyncGenFunction | GenFunction | CoroutineFunction | OtherCallable

definition detect_factory_lifecycle :: "factory_code \<Rightarrow> ProviderLifecycle" where
  "detect_factory_lifecycle f =
     (case f of AsyncGenFunction \<Rightarrow> AsyncGenerator | GenFunction \<Rightarrow> SyncGenerator | _ \<Rightarrow> PlainFactory)"

definition factory_shape :: "factory_code \<Rightarrow> FactoryShape" where
  "factory_shape f = (case f of AsyncGenFunction \<Rightarrow> ASYNC_GENERATOR | GenFunction \<Rightarrow> SYNC_GENERATOR
     | CoroutineFunction \<Rightarrow> ASYNC_CALLABLE | OtherCallable \<Rightarrow> SYNC_CALLABLE)"

section \<open>The walk over a signature\<close>

definition scope_markers :: "Scope option list \<Rightarrow> Scope list" where
  "scope_markers ms = concat (map (\<lambda>m. case m of None \<Rightarrow> [] | Some s \<Rightarrow> [s]) ms)"

definition marker_of :: "Scope list \<Rightarrow> Scope option" where
  "marker_of ss = (case ss of [] \<Rightarrow> None | s # _ \<Rightarrow> Some s)"

definition is_var :: "param \<Rightarrow> bool" where
  "is_var p \<longleftrightarrow> pa_kind p = VarPositional \<or> pa_kind p = VarKeyword"

definition is_job_context :: "annotation \<Rightarrow> bool" where
  "is_job_context a \<longleftrightarrow> (case a of AJobContext _ \<Rightarrow> True | _ \<Rightarrow> False)"

text \<open>The dependency one annotation declares: its class, if it has one, and the marker.\<close>

definition annotated_dep :: "annotation \<Rightarrow> di_error + (ty \<times> Scope option) option" where
  "annotated_dep a = (case a of
       AType t \<Rightarrow> Inr (Some (t, None))
     | AAnnotated t ms \<Rightarrow>
         (if length (scope_markers ms) > 1 then Inl DIError
          else Inr (map_option (\<lambda>t. (t, marker_of (scope_markers ms))) t))
     | _ \<Rightarrow> Inr None)"

fun walk_params :: "(param \<Rightarrow> annotation \<Rightarrow> bool) \<Rightarrow> param list \<Rightarrow> di_error + (ty \<times> Scope option) list" where
  "walk_params skip [] = Inr []"
| "walk_params skip (p # ps) = (case pa_hint p of
       None \<Rightarrow> walk_params skip ps
     | Some a \<Rightarrow>
         if is_var p \<or> skip p a then walk_params skip ps
         else bindE (annotated_dep a) (\<lambda>d. bindE (walk_params skip ps) (\<lambda>ds.
                Inr (case d of None \<Rightarrow> ds | Some x \<Rightarrow> x # ds))))"

definition collect_dep_edges :: "callable \<Rightarrow> ty \<Rightarrow> di_error + edge list" where
  "collect_dep_edges c owner = (case c of
       Unresolvable \<Rightarrow> Inl DIError
     | Callable ps \<Rightarrow>
         bindE (walk_params (\<lambda>p a. pa_name p = ''self'' \<or> is_job_context a \<or> pa_name p = ''payload'') ps) (\<lambda>ds.
           Inr (map (\<lambda>(t, ov). (owner, t, ov)) ds)))"

section \<open>Registration\<close>

record 'v provider_registry =
  pr_providers :: "(ty \<times> 'v ProviderEntry) list"
  pr_edges :: "edge list"
  pr_validated :: bool
  pr_sealed :: bool
  pr_plans :: "((string \<times> Scope) \<times> ty list) list"

definition new_provider_registry :: "'v provider_registry" where
  "new_provider_registry = \<lparr>pr_providers = [], pr_edges = [], pr_validated = False, pr_sealed = False, pr_plans = []\<rparr>"

definition refuse_registration :: "ty \<Rightarrow> 'v provider_registry \<Rightarrow> di_error option" where
  "refuse_registration t g =
     (if pr_sealed g then Some DiRuntimeError
      else if map_of (pr_providers g) t \<noteq> None then Some DiValueError else None)"

definition add_provider ::
    "ty \<Rightarrow> 'v ProviderEntry \<Rightarrow> edge list \<Rightarrow> 'v provider_registry \<Rightarrow> 'v provider_registry" where
  "add_provider t e es g = g\<lparr>pr_edges := pr_edges g @ es, pr_providers := pr_providers g @ [(t, e)]\<rparr>"

definition register_value :: "ty \<Rightarrow> Scope \<Rightarrow> 'v option \<Rightarrow> 'v provider_registry \<Rightarrow> di_error + 'v provider_registry" where
  "register_value t s v g = (case refuse_registration t g of
       Some e \<Rightarrow> Inl e
     | None \<Rightarrow> Inr (add_provider t \<lparr>pe_scope = s, pe_value = v, pe_func = Callable [], pe_shape = VALUE,
                                    pe_lifecycle = None\<rparr> [] g))"

definition register_factory ::
    "ty \<Rightarrow> Scope \<Rightarrow> (factory_code \<times> callable) option \<Rightarrow> 'v provider_registry \<Rightarrow> di_error + 'v provider_registry" where
  "register_factory t s f g = (case refuse_registration t g of
       Some e \<Rightarrow> Inl e
     | None \<Rightarrow>
         (case f of
            None \<Rightarrow> Inl DiTypeError
          | Some (code, c) \<Rightarrow>
              bindE (collect_dep_edges c t) (\<lambda>es.
                Inr (add_provider t \<lparr>pe_scope = s, pe_value = None, pe_func = c, pe_shape = factory_shape code,
                                      pe_lifecycle = Some (detect_factory_lifecycle code)\<rparr> es g))))"

definition register_class ::
    "ty \<Rightarrow> Scope \<Rightarrow> ProviderLifecycle option \<Rightarrow> class_attrs \<Rightarrow> callable \<Rightarrow> 'v provider_registry
     \<Rightarrow> di_error + 'v provider_registry" where
  "register_class t s lc attrs init g = (case refuse_registration t g of
       Some e \<Rightarrow> Inl e
     | None \<Rightarrow>
         bindE (collect_dep_edges init t) (\<lambda>es.
           Inr (add_provider t \<lparr>pe_scope = s, pe_value = None, pe_func = init, pe_shape = CLASS,
                  pe_lifecycle = Some (case lc of None \<Rightarrow> detect_lifecycle attrs | Some l \<Rightarrow> l)\<rparr> es g)))"

section \<open>Validation\<close>

type_synonym adjacency = "(ty \<times> ty list) list"

definition neighbors :: "adjacency \<Rightarrow> ty \<Rightarrow> ty list" where
  "neighbors adj t = (case map_of adj t of None \<Rightarrow> [] | Some ns \<Rightarrow> ns)"

definition add_edge :: "ty \<Rightarrow> ty \<Rightarrow> adjacency \<Rightarrow> adjacency" where
  "add_edge a b adj = dict_put a (neighbors adj a @ [b]) adj"

fun build_adjacency_from :: "adjacency \<Rightarrow> edge list \<Rightarrow> adjacency" where
  "build_adjacency_from adj [] = adj"
| "build_adjacency_from adj ((a, b, _) # es) =
     (let adj1 = add_edge a b adj
      in build_adjacency_from (if map_of adj1 b = None then dict_put b [] adj1 else adj1) es)"

definition build_adjacency :: "edge list \<Rightarrow> adjacency" where
  "build_adjacency = build_adjacency_from []"

text \<open>
  The depth-first search from one start node.  The stack is held top first;
  \<open>idx\<close> has the next child of every node met, and \<open>path_set\<close> is the set of the
  stack.
\<close>

definition remaining :: "adjacency \<Rightarrow> (ty \<Rightarrow> nat) \<Rightarrow> nat" where
  "remaining adj idx = sum_list (map (\<lambda>e. length (neighbors adj (fst e)) - idx (fst e)) adj)"

definition cycle_path :: "ty \<Rightarrow> ty list \<Rightarrow> ty list" where
  "cycle_path n stack = (let s = rev stack in dropWhile (\<lambda>t. t \<noteq> n) s @ [n])"

lemma sum_list_less:
  "(\<And>e. e \<in> set xs \<Longrightarrow> (f e :: nat) \<le> g e) \<Longrightarrow> \<exists>e \<in> set xs. f e < g e \<Longrightarrow> sum_list (map f xs) < sum_list (map g xs)"
proof (induction xs)
  case (Cons x xs)
  have le: "sum_list (map f xs) \<le> sum_list (map g xs)" using Cons.prems(1) by (intro sum_list_mono) simp
  show ?case
  proof (cases "f x < g x")
    case True
    then show ?thesis using le by simp
  next
    case False
    then have "\<exists>e \<in> set xs. f e < g e" using Cons.prems(2) by auto
    then have "sum_list (map f xs) < sum_list (map g xs)" using Cons.IH Cons.prems(1) by simp
    then show ?thesis using Cons.prems(1)[of x] by simp
  qed
qed simp

lemma remaining_less:
  assumes "idx t < length (neighbors adj t)"
  shows "remaining adj (idx(t := Suc (idx t))) < remaining adj idx"
proof -
  obtain ns where "map_of adj t = Some ns"
    using assms by (auto simp: neighbors_def split: option.splits)
  then have "\<exists>e \<in> set adj. fst e = t" by (force dest: map_of_SomeD)
  then show ?thesis using assms unfolding remaining_def by (intro sum_list_less) auto
qed

function detect_from :: "adjacency \<Rightarrow> ty list \<Rightarrow> (ty \<Rightarrow> nat) \<Rightarrow> ty list \<Rightarrow> ty list + ty list" where
  "detect_from adj [] idx visited = Inr visited"
| "detect_from adj (t # stack) idx visited =
     (let ns = neighbors adj t
      in if idx t < length ns then
           (let n = ns ! idx t; idx' = idx(t := Suc (idx t))
            in if n \<in> set (t # stack) then Inl (cycle_path n (t # stack))
               else if n \<notin> set visited then detect_from adj (n # t # stack) idx' visited
               else detect_from adj (t # stack) idx' visited)
         else detect_from adj stack idx (t # visited))"
  by pat_completeness auto
termination
  by (relation "measures [\<lambda>(adj, stack, idx, v). remaining adj idx, \<lambda>(adj, stack, idx, v). length stack]")
    (auto simp: remaining_less)

fun detect_starts :: "adjacency \<Rightarrow> ty list \<Rightarrow> ty list \<Rightarrow> ty list option" where
  "detect_starts adj [] visited = None"
| "detect_starts adj (s # ss) visited =
     (if s \<in> set visited then detect_starts adj ss visited
      else case detect_from adj [s] (\<lambda>_. 0) visited of
             Inl c \<Rightarrow> Some c
           | Inr visited' \<Rightarrow> detect_starts adj ss visited')"

definition detect_cycles :: "adjacency \<Rightarrow> ty list option" where
  "detect_cycles adj = detect_starts adj (map fst adj) []"

text \<open>
  The recursion visits a node at most once; \<open>fuel\<close> bounds its depth, and
  lemma \<open>post_order_enough\<close> shows that the number of nodes is enough.
\<close>

function (sequential) post_order_dfs :: "nat \<Rightarrow> adjacency \<Rightarrow> ty \<Rightarrow> ty list \<times> ty list \<Rightarrow> (ty list \<times> ty list) option"
and post_order_list :: "nat \<Rightarrow> adjacency \<Rightarrow> ty list \<Rightarrow> ty list \<times> ty list \<Rightarrow> (ty list \<times> ty list) option" where
  "post_order_dfs fuel adj n (visited, post) =
     (if n \<in> set visited then Some (visited, post)
      else case fuel of
        0 \<Rightarrow> None
      | Suc f \<Rightarrow>
          (case post_order_list f adj (neighbors adj n) (n # visited, post) of
             None \<Rightarrow> None
           | Some (visited', post') \<Rightarrow> Some (visited', post' @ [n])))"
| "post_order_list fuel adj [] vp = Some vp"
| "post_order_list fuel adj (n # ns) vp =
     (case post_order_dfs fuel adj n vp of None \<Rightarrow> None | Some vp' \<Rightarrow> post_order_list fuel adj ns vp')"
  by pat_completeness auto
termination
  by (relation "measures [case_sum (\<lambda>(f, _). f) (\<lambda>(f, _). f), case_sum (\<lambda>_. 0) (\<lambda>_. 1), case_sum (\<lambda>_. 0) (\<lambda>(f, adj, ns, _). length ns)]") auto

record actor =
  ac_name :: string
  ac_func :: callable
  ac_rate_limits :: "string option list"
  ac_reservations :: "string option list"

definition actor_skips :: "param \<Rightarrow> annotation \<Rightarrow> bool" where
  "actor_skips p a \<longleftrightarrow> pa_name p = ''payload'' \<or> is_job_context a \<or> pa_name p = ''ctx''"

definition collect_actor_edges :: "actor \<Rightarrow> di_error + (string \<times> ty \<times> Scope option) list" where
  "collect_actor_edges a = (case ac_func a of
       Unresolvable \<Rightarrow> Inl DIError
     | Callable ps \<Rightarrow> bindE (walk_params actor_skips ps) (\<lambda>ds. Inr (map (\<lambda>(t, ov). (ac_name a, t, ov)) ds)))"

fun collect_all_actor_edges :: "actor list \<Rightarrow> di_error + (string \<times> ty \<times> Scope option) list" where
  "collect_all_actor_edges [] = Inr []"
| "collect_all_actor_edges (a # as) =
     bindE (collect_actor_edges a) (\<lambda>es. bindE (collect_all_actor_edges as) (\<lambda>fs. Inr (es @ fs)))"

text \<open>Here the first marker counts, and a second one is not refused.\<close>

definition dep_at_scope :: "(ty \<times> 'v ProviderEntry) list \<Rightarrow> Scope \<Rightarrow> param \<Rightarrow> ty list" where
  "dep_at_scope providers scope p = (case pa_hint p of
       None \<Rightarrow> []
     | Some a \<Rightarrow>
         if is_var p \<or> actor_skips p a then []
         else case (case a of AType t \<Rightarrow> Some (t, None) | AAnnotated (Some t) ms \<Rightarrow> Some (t, marker_of (scope_markers ms)) | _ \<Rightarrow> None) of
           None \<Rightarrow> []
         | Some (t, ov) \<Rightarrow>
             (case map_of providers t of
                None \<Rightarrow> []
              | Some e \<Rightarrow> if scope_or ov (pe_scope e) = scope then [t] else []))"

definition actor_deps_at_scope :: "actor \<Rightarrow> Scope \<Rightarrow> (ty \<times> 'v ProviderEntry) list \<Rightarrow> di_error + ty list" where
  "actor_deps_at_scope a scope providers = (case ac_func a of
       Unresolvable \<Rightarrow> Inl DIError
     | Callable ps \<Rightarrow> Inr (concat (map (dep_at_scope providers scope) ps)))"

fun provider_adjacency :: "(ty \<times> 'v ProviderEntry) list \<Rightarrow> adjacency \<Rightarrow> edge list \<Rightarrow> adjacency" where
  "provider_adjacency providers adj [] = adj"
| "provider_adjacency providers adj ((a, b, _) # es) =
     provider_adjacency providers (if map_of providers a = None then adj else add_edge a b adj) es"

definition topo_sort_for_actor ::
    "actor \<Rightarrow> Scope \<Rightarrow> edge list \<Rightarrow> (ty \<times> 'v ProviderEntry) list \<Rightarrow> di_error + ty list option" where
  "topo_sort_for_actor a scope edges providers =
     bindE (actor_deps_at_scope a scope providers) (\<lambda>roots.
       if roots = [] then Inr (Some [])
       else Inr (map_option snd (post_order_list (Suc (length roots + 2 * length edges))
              (provider_adjacency providers [] edges) roots ([], []))))"

section \<open>The five phases\<close>

fun first_missing :: "(ty \<times> 'v ProviderEntry) list \<Rightarrow> (string \<times> ty \<times> Scope option) list \<Rightarrow> di_error option" where
  "first_missing providers [] = None"
| "first_missing providers ((by, t, _) # es) =
     (if map_of providers t = None then Some (MissingProvider t by) else first_missing providers es)"

definition unknown_name :: "string list \<Rightarrow> string \<Rightarrow> string option list \<Rightarrow> di_error option" where
  "unknown_name known what names =
     (case filter (\<lambda>n. case n of None \<Rightarrow> False | Some m \<Rightarrow> m \<notin> set known) names of
        [] \<Rightarrow> None | n # _ \<Rightarrow> Some (MissingProvider what (the n)))"

fun unknown_limits :: "string list \<times> string list \<Rightarrow> actor list \<Rightarrow> di_error option" where
  "unknown_limits reg [] = None"
| "unknown_limits reg (a # as) =
     (case unknown_name (fst reg) ''RateLimit'' (ac_rate_limits a) of
        Some e \<Rightarrow> Some e
      | None \<Rightarrow>
          (case unknown_name (snd reg) ''ConcurrencyReservation'' (ac_reservations a) of
             Some e \<Rightarrow> Some e
           | None \<Rightarrow> unknown_limits reg as))"

fun scope_violation :: "(ty \<times> 'v ProviderEntry) list \<Rightarrow> edge list \<Rightarrow> di_error option" where
  "scope_violation providers [] = None"
| "scope_violation providers ((a, b, ov) # es) =
     (case (map_of providers a, map_of providers b) of
        (Some ea, Some eb) \<Rightarrow>
          (let eff = scope_or ov (pe_scope eb)
           in if scope_value eff > scope_value (pe_scope ea) then Some (ScopeViolation (pe_scope ea) eff b a)
              else scope_violation providers es)
      | _ \<Rightarrow> Some DiKeyError)"

fun plans_of_actor ::
    "edge list \<Rightarrow> (ty \<times> 'v ProviderEntry) list \<Rightarrow> actor \<Rightarrow> Scope list \<Rightarrow> di_error + ((string \<times> Scope) \<times> ty list) list" where
  "plans_of_actor edges providers a [] = Inr []"
| "plans_of_actor edges providers a (s # ss) =
     bindE (topo_sort_for_actor a s edges providers) (\<lambda>plan.
       bindE (plans_of_actor edges providers a ss) (\<lambda>rest.
         Inr (case plan of Some (t # ts) \<Rightarrow> ((ac_name a, s), t # ts) # rest | _ \<Rightarrow> rest)))"

fun all_plans ::
    "edge list \<Rightarrow> (ty \<times> 'v ProviderEntry) list \<Rightarrow> actor list \<Rightarrow> di_error + ((string \<times> Scope) \<times> ty list) list" where
  "all_plans edges providers [] = Inr []"
| "all_plans edges providers (a # as) =
     bindE (plans_of_actor edges providers a [PROCESS, THREAD, LOOP, TRANSIENT]) (\<lambda>ps.
       bindE (all_plans edges providers as) (\<lambda>qs. Inr (ps @ qs)))"

text \<open>\<open>reg\<close> has the names of the rate limits and of the reservations, where the phase runs.\<close>

definition run_validation ::
    "(ty \<times> 'v ProviderEntry) list \<Rightarrow> edge list \<Rightarrow> actor list option \<Rightarrow> (string list \<times> string list) option
     \<Rightarrow> di_error + ((string \<times> Scope) \<times> ty list) list" where
  "run_validation providers edges actors reg =
     bindE (case actors of None \<Rightarrow> Inr [] | Some as \<Rightarrow> collect_all_actor_edges as) (\<lambda>actor_edges.
       case first_missing providers (edges @ actor_edges) of
         Some e \<Rightarrow> Inl e
       | None \<Rightarrow>
           (case (case (reg, actors) of (Some r, Some as) \<Rightarrow> unknown_limits r as | _ \<Rightarrow> None) of
              Some e \<Rightarrow> Inl e
            | None \<Rightarrow>
                (case detect_cycles (build_adjacency edges) of
                   Some c \<Rightarrow> Inl (DependencyCycle c)
                 | None \<Rightarrow>
                     (case scope_violation providers edges of
                        Some e \<Rightarrow> Inl e
                      | None \<Rightarrow> (case actors of None \<Rightarrow> Inr [] | Some as \<Rightarrow> all_plans edges providers as)))))"

definition validate ::
    "actor list option \<Rightarrow> (string list \<times> string list) option \<Rightarrow> 'v provider_registry \<Rightarrow> di_error + 'v provider_registry" where
  "validate actors reg g =
     (if pr_validated g then Inr g
      else bindE (run_validation (pr_providers g) (pr_edges g) actors reg) (\<lambda>plans.
             Inr (g\<lparr>pr_plans := plans, pr_validated := True, pr_sealed := True\<rparr>)))"

section \<open>Containers and resolution\<close>

text \<open>A container has the objects it keeps and the teardowns it owes, in the order they were registered.\<close>

record 'v container =
  ct_cache :: "(ty \<times> 'v option) list"
  ct_teardowns :: "ty list"

type_synonym 'v containers = "Scope \<Rightarrow> 'v container option"

datatype 'v outcome = Returns "'v option" | Raises | Exits

text \<open>
  What a resolution runs against: the providers, what the call of a factory
  or class returns for its arguments, what entering an object returns, and for an
  actor of a slot the objects of that slot with the types derived from them.
\<close>

record 'v di_env =
  de_providers :: "(ty \<times> 'v ProviderEntry) list"
  de_call :: "ty \<Rightarrow> (string \<times> 'v option) list \<Rightarrow> 'v outcome"
  de_enter :: "ty \<Rightarrow> 'v option \<Rightarrow> 'v outcome"
  de_slot :: "((ty \<times> 'v option) list \<times> ty list) option"

definition lookup_type :: "annotation \<Rightarrow> di_error + ty \<times> Scope option" where
  "lookup_type a = (case a of
       AType t \<Rightarrow> Inr (t, None)
     | AJobContext bare \<Rightarrow> if bare then Inr (''taskq.context.JobContext'', None) else Inl DIError
     | AAnnotated t ms \<Rightarrow>
         (if length (scope_markers ms) > 1 then Inl DIError
          else case t of None \<Rightarrow> Inl DIError | Some t \<Rightarrow> Inr (t, marker_of (scope_markers ms)))
     | AOther \<Rightarrow> Inl DIError)"

definition unannotated_required :: "(string \<times> 'v option) list \<Rightarrow> (string \<times> 'v option) list \<Rightarrow> param list \<Rightarrow> bool" where
  "unannotated_required kw pass ps \<longleftrightarrow> (\<exists>p \<in> set ps. pa_name p \<noteq> ''self'' \<and> map_of kw (pa_name p) = None
     \<and> map_of pass (pa_name p) = None \<and> \<not> pa_default p
     \<and> (pa_kind p = PositionalOrKeyword \<or> pa_kind p = KeywordOnly))"

definition of_outcome :: "'v outcome \<Rightarrow> di_error + 'v option" where
  "of_outcome r = (case r of Returns v \<Rightarrow> Inr v | Raises \<Rightarrow> Inl FactoryRaised | Exits \<Rightarrow> Inl ProviderSystemExit)"

definition keep :: "Scope \<Rightarrow> ty \<Rightarrow> 'v option \<Rightarrow> 'v containers \<Rightarrow> 'v containers" where
  "keep s t v cs = (if s = TRANSIENT then cs
     else cs(s := map_option (\<lambda>c. c\<lparr>ct_cache := dict_put t v (ct_cache c)\<rparr>) (cs s)))"

definition owe :: "Scope \<Rightarrow> ty \<Rightarrow> 'v containers \<Rightarrow> 'v containers" where
  "owe s t cs = cs(s := map_option (\<lambda>c. c\<lparr>ct_teardowns := ct_teardowns c @ [t]\<rparr>) (cs s))"

text \<open>The object of an entry whose arguments are there, and whether it owes a teardown.\<close>

definition invoke ::
    "'v di_env \<Rightarrow> ty \<Rightarrow> 'v ProviderEntry \<Rightarrow> (string \<times> 'v option) list \<Rightarrow> di_error + 'v option \<times> bool" where
  "invoke env t e kw = (case pe_shape e of
       VALUE \<Rightarrow> Inr (pe_value e, False)
     | SYNC_CALLABLE \<Rightarrow> bindE (of_outcome (de_call env t kw)) (\<lambda>v. Inr (v, False))
     | ASYNC_CALLABLE \<Rightarrow> bindE (of_outcome (de_call env t kw)) (\<lambda>v. Inr (v, False))
     | SYNC_GENERATOR \<Rightarrow> bindE (of_outcome (de_call env t kw)) (\<lambda>v. Inr (v, True))
     | ASYNC_GENERATOR \<Rightarrow> bindE (of_outcome (de_call env t kw)) (\<lambda>v. Inr (v, True))
     | CLASS \<Rightarrow> bindE (of_outcome (de_call env t kw)) (\<lambda>v.
         case pe_lifecycle e of
           Some AsyncContextManager \<Rightarrow> bindE (of_outcome (de_enter env t v)) (\<lambda>u. Inr (u, True))
         | Some AsyncCloseable \<Rightarrow> Inr (v, True)
         | Some SyncCloseable \<Rightarrow> Inr (v, True)
         | Some Plain \<Rightarrow> Inr (v, False)
         | None \<Rightarrow> Inr (v, False)
         | _ \<Rightarrow> Inl DiRuntimeError))"

text \<open>
  What the loop container of an actor call gives for a type: the object of the
  slot, or the container that resolves it.  A type derived from an object of the
  slot is resolved for this call alone.
\<close>

definition slot_view :: "'v di_env \<Rightarrow> Scope \<Rightarrow> ty \<Rightarrow> 'v + Scope" where
  "slot_view env s t = (case (s, de_slot env) of
       (LOOP, Some (vals, derived)) \<Rightarrow>
         (case map_of vals t of
            Some (Some v) \<Rightarrow> Inl v
          | _ \<Rightarrow> Inr (if t \<in> set derived then TRANSIENT else LOOP))
     | _ \<Rightarrow> Inr s)"

text \<open>
  The worker's own containers resolve arguments through a map that has no
  \<open>TRANSIENT\<close> container and no slot; the container of one actor call resolves them
  through the map of that call.  \<open>get_or_create\<close> and \<open>solve_dependencies\<close> call each other; \<open>fuel\<close> bounds the
  depth of that recursion, and \<open>None\<close> means that it was not enough.
\<close>

function (sequential) get_or_create ::
    "nat \<Rightarrow> 'v di_env \<Rightarrow> Scope \<Rightarrow> ty \<Rightarrow> 'v ProviderEntry \<Rightarrow> 'v containers \<Rightarrow> ((di_error + 'v option) \<times> 'v containers) option"
and solve_params ::
    "nat \<Rightarrow> 'v di_env \<Rightarrow> (string \<times> 'v option) list \<Rightarrow> param list \<Rightarrow> (string \<times> 'v option) list \<Rightarrow> 'v containers
     \<Rightarrow> ((di_error + (string \<times> 'v option) list) \<times> 'v containers) option" where
  "get_or_create fuel env s t e cs =
     (case cs s of
        None \<Rightarrow> Some (Inl DiKeyError, cs)
      | Some c \<Rightarrow>
          (case (if s = TRANSIENT then None else map_of (ct_cache c) t) of
             Some (Some v) \<Rightarrow> Some (Inr (Some v), cs)
           | _ \<Rightarrow>
               if pe_shape e = VALUE then Some (Inr (pe_value e), keep s t (pe_value e) cs)
               else (case fuel of 0 \<Rightarrow> None | Suc f \<Rightarrow>
                 (case pe_func e of
                  Unresolvable \<Rightarrow> Some (Inl DIError, cs)
                | Callable ps \<Rightarrow>
                    (case (if s = TRANSIENT then solve_params f env [] ps [] cs
                           else map_option (\<lambda>(r, cs1). (r, cs1(TRANSIENT := cs TRANSIENT)))
                                  (solve_params f (env\<lparr>de_slot := None\<rparr>) [] ps [] (cs(TRANSIENT := None)))) of
                       None \<Rightarrow> None
                     | Some (Inl er, cs1) \<Rightarrow> Some (Inl er, cs1)
                     | Some (Inr kw, cs1) \<Rightarrow>
                         if unannotated_required kw [] ps then Some (Inl DIError, cs1)
                         else (case invoke env t e kw of
                            Inl er \<Rightarrow> Some (Inl er, cs1)
                          | Inr (v, td) \<Rightarrow> Some (Inr v, keep s t v (if td then owe s t cs1 else cs1))))))))"
| "solve_params fuel env pass [] kw cs = Some (Inr kw, cs)"
| "solve_params fuel env pass (p # ps) kw cs = (case pa_hint p of
       None \<Rightarrow> solve_params fuel env pass ps kw cs
     | Some a \<Rightarrow>
         (case map_of pass (pa_name p) of
            Some v \<Rightarrow> solve_params fuel env pass ps (dict_put (pa_name p) v kw) cs
          | None \<Rightarrow>
              (case lookup_type a of
                 Inl er \<Rightarrow> Some (Inl er, cs)
               | Inr (t, ov) \<Rightarrow>
                   (case map_of (de_providers env) t of
                      None \<Rightarrow> Some (Inl (MissingProvider t ''<unknown>''), cs)
                    | Some e \<Rightarrow>
                        (case slot_view env (case ov of None \<Rightarrow> pe_scope e | Some o' \<Rightarrow> o') t of
                           Inl v \<Rightarrow> solve_params fuel env pass ps (dict_put (pa_name p) (Some v) kw) cs
                         | Inr s \<Rightarrow>
                             (case get_or_create fuel env s t e cs of
                                None \<Rightarrow> None
                              | Some (Inl er, cs1) \<Rightarrow> Some (Inl er, cs1)
                              | Some (Inr v, cs1) \<Rightarrow> solve_params fuel env pass ps (dict_put (pa_name p) v kw) cs1))))))"
  by pat_completeness auto
termination
  by (relation "measures [case_sum (\<lambda>(f, _). f) (\<lambda>(f, _). f), case_sum (\<lambda>_. 0) (\<lambda>_. 1), case_sum (\<lambda>_. 0) (\<lambda>(f, env, pass, ps, _). length ps)]") auto

definition solve_dependencies ::
    "nat \<Rightarrow> 'v di_env \<Rightarrow> callable \<Rightarrow> (string \<times> 'v option) list \<Rightarrow> 'v containers
     \<Rightarrow> ((di_error + (string \<times> 'v option) list) \<times> 'v containers) option" where
  "solve_dependencies fuel env c pass cs = (case c of
       Unresolvable \<Rightarrow> Some (Inl DIError, cs)
     | Callable ps \<Rightarrow>
         (case solve_params fuel env pass ps [] cs of
            Some (Inr kw, cs1) \<Rightarrow> Some (if unannotated_required kw pass ps then Inl DIError else Inr kw, cs1)
          | r \<Rightarrow> r))"

text \<open>The bootstrap of one scope: every provider registered there, in the order of registration.\<close>

fun bootstrap_types ::
    "nat \<Rightarrow> 'v di_env \<Rightarrow> Scope \<Rightarrow> (ty \<times> 'v ProviderEntry) list \<Rightarrow> 'v containers \<Rightarrow> ((di_error + unit) \<times> 'v containers) option" where
  "bootstrap_types fuel env s [] cs = Some (Inr (), cs)"
| "bootstrap_types fuel env s ((t, e) # ts) cs =
     (case get_or_create fuel env s t e cs of
        None \<Rightarrow> None
      | Some (Inl er, cs1) \<Rightarrow> Some (Inl er, cs1)
      | Some (Inr _, cs1) \<Rightarrow> bootstrap_types fuel env s ts cs1)"

definition empty_container :: "'v container" where
  "empty_container = \<lparr>ct_cache = [], ct_teardowns = []\<rparr>"

fun bootstrap_scopes ::
    "nat \<Rightarrow> 'v di_env \<Rightarrow> Scope list \<Rightarrow> 'v containers \<Rightarrow> ((di_error + unit) \<times> 'v containers) option" where
  "bootstrap_scopes fuel env [] cs = Some (Inr (), cs)"
| "bootstrap_scopes fuel env (s # ss) cs =
     (case bootstrap_types fuel env s (filter (\<lambda>te. pe_scope (snd te) = s) (de_providers env))
             (cs(s := Some empty_container)) of
        None \<Rightarrow> None
      | Some (Inl er, cs1) \<Rightarrow> Some (Inl er, cs1)
      | Some (Inr _, cs1) \<Rightarrow> bootstrap_scopes fuel env ss cs1)"

text \<open>Closing runs the teardowns last first; a failure is logged, and a cancellation is raised at the end.\<close>

datatype teardown_outcome = TornDown | TeardownFails | TeardownCancelled

fun close_teardowns :: "(ty \<Rightarrow> teardown_outcome) \<Rightarrow> ty list \<Rightarrow> ty list \<times> bool" where
  "close_teardowns run [] = ([], False)"
| "close_teardowns run (t # ts) =
     (let (ran, cancelled) = close_teardowns run ts in (t # ran, run t = TeardownCancelled \<or> cancelled))"

definition aclose :: "(ty \<Rightarrow> teardown_outcome) \<Rightarrow> 'v container \<Rightarrow> (ty list \<times> bool) \<times> 'v container" where
  "aclose run c = (close_teardowns run (rev (ct_teardowns c)), c\<lparr>ct_teardowns := []\<rparr>)"

text \<open>\<open>replace_value\<close> of the loop scope.\<close>

definition replace_value :: "ty \<Rightarrow> 'v option \<Rightarrow> 'v container \<Rightarrow> di_error + 'v container" where
  "replace_value t v c = (if map_of (ct_cache c) t = None then Inl DiKeyError
     else Inr (c\<lparr>ct_cache := dict_put t v (ct_cache c)\<rparr>))"

section \<open>Types derived from the objects of a slot\<close>

text \<open>
  \<open>verdict\<close> keeps the answers of walks that no back edge cut short.  The second
  component of an answer says that the walk was clean.
\<close>

definition shadow_lookup :: "annotation \<Rightarrow> di_error + ty option" where
  "shadow_lookup a = (case a of
       AType t \<Rightarrow> Inr (Some t)
     | AJobContext bare \<Rightarrow> Inr (if bare then Some ''taskq.context.JobContext'' else None)
     | AAnnotated t ms \<Rightarrow> if length (scope_markers ms) > 1 then Inl DIError else Inr t
     | AOther \<Rightarrow> Inr None)"

function (sequential) reaches_tracked ::
    "nat \<Rightarrow> (ty \<times> 'v ProviderEntry) list \<Rightarrow> ty list \<Rightarrow> ty \<Rightarrow> ty list \<Rightarrow> (ty \<times> bool) list
     \<Rightarrow> ((di_error + bool \<times> bool) \<times> (ty \<times> bool) list) option"
and reaches_params ::
    "nat \<Rightarrow> (ty \<times> 'v ProviderEntry) list \<Rightarrow> ty list \<Rightarrow> param list \<Rightarrow> ty list \<Rightarrow> bool \<Rightarrow> (ty \<times> bool) list
     \<Rightarrow> ((di_error + bool \<times> bool) \<times> (ty \<times> bool) list) option" where
  "reaches_tracked fuel ps shadow t seen verdict =
     (case map_of verdict t of
        Some b \<Rightarrow> Some (Inr (b, True), verdict)
      | None \<Rightarrow>
          if t \<in> set seen then Some (Inr (False, False), verdict)
          else (case map_of ps t of
             None \<Rightarrow> Some (Inr (t \<in> set shadow, True), dict_put t (t \<in> set shadow) verdict)
           | Some e \<Rightarrow>
               if pe_shape e = VALUE then Some (Inr (t \<in> set shadow, True), dict_put t (t \<in> set shadow) verdict)
               else (case fuel of 0 \<Rightarrow> None | Suc f \<Rightarrow>
                 (case pe_func e of
                    Unresolvable \<Rightarrow> Some (Inl DIError, verdict)
                  | Callable qs \<Rightarrow>
                      (case reaches_params f ps shadow qs (t # seen) False verdict of
                         Some (Inr (hit, clean), verdict1) \<Rightarrow>
                           Some (Inr (hit, clean), if clean then dict_put t hit verdict1 else verdict1)
                       | r \<Rightarrow> r)))))"
| "reaches_params fuel ps shadow [] seen tainted verdict = Some (Inr (False, \<not> tainted), verdict)"
| "reaches_params fuel ps shadow (p # qs) seen tainted verdict = (case pa_hint p of
       None \<Rightarrow> reaches_params fuel ps shadow qs seen tainted verdict
     | Some a \<Rightarrow>
         (case shadow_lookup a of
            Inl er \<Rightarrow> Some (Inl er, verdict)
          | Inr None \<Rightarrow> reaches_params fuel ps shadow qs seen tainted verdict
          | Inr (Some t) \<Rightarrow>
              (case reaches_tracked fuel ps shadow t seen verdict of
                 None \<Rightarrow> None
               | Some (Inl er, verdict1) \<Rightarrow> Some (Inl er, verdict1)
               | Some (Inr (sub, clean), verdict1) \<Rightarrow>
                   if t \<in> set shadow \<or> sub then Some (Inr (True, \<not> tainted \<and> clean), verdict1)
                   else reaches_params fuel ps shadow qs seen (tainted \<or> \<not> clean) verdict1)))"
  by pat_completeness auto
termination
  by (relation "measures [case_sum (\<lambda>(f, _). f) (\<lambda>(f, _). f), case_sum (\<lambda>_. 0) (\<lambda>_. 1), case_sum (\<lambda>_. 0) (\<lambda>(f, ps, sh, qs, _). length qs)]") auto

fun shadow_fold ::
    "nat \<Rightarrow> (ty \<times> 'v ProviderEntry) list \<Rightarrow> ty list \<Rightarrow> (ty \<times> 'v ProviderEntry) list \<Rightarrow> (ty \<times> bool) list
     \<Rightarrow> (di_error + ty list) option" where
  "shadow_fold fuel ps shadow [] verdict = Some (Inr [])"
| "shadow_fold fuel ps shadow ((t, e) # es) verdict =
     (if pe_shape e = VALUE then shadow_fold fuel ps shadow es verdict
      else case reaches_tracked fuel ps shadow t [] verdict of
        None \<Rightarrow> None
      | Some (Inl er, _) \<Rightarrow> Some (Inl er)
      | Some (Inr (hit, _), verdict1) \<Rightarrow>
          map_option (\<lambda>r. bindE r (\<lambda>ts. Inr (if hit then t # ts else ts))) (shadow_fold fuel ps shadow es verdict1))"

definition shadow_derived_providers ::
    "nat \<Rightarrow> (ty \<times> 'v ProviderEntry) list \<Rightarrow> ty list \<Rightarrow> (di_error + ty list) option" where
  "shadow_derived_providers fuel ps shadow = shadow_fold fuel ps shadow ps []"

end
