(* ===== verification/Provider_Graph.thy ===== *)
theory Provider_Graph
  imports Injection
begin

text \<open>
  The graph of the registered providers: the cycle search is exact, and a
  registry that validates has plans that list dependencies first.
\<close>

section \<open>Cycles of the provider graph\<close>

definition dep_rel :: "adjacency \<Rightarrow> (ty \<times> ty) set" where
  "dep_rel adj = {(a, b). b \<in> set (neighbors adj a)}"

definition is_cycle :: "adjacency \<Rightarrow> ty list \<Rightarrow> bool" where
  "is_cycle adj c \<longleftrightarrow> length c \<ge> 2 \<and> hd c = last c \<and> successively (\<lambda>a b. b \<in> set (neighbors adj a)) c"

text \<open>The children already taken of each node of the stack are done, or above it.\<close>

primrec taken :: "adjacency \<Rightarrow> (ty \<Rightarrow> nat) \<Rightarrow> ty set \<Rightarrow> ty list \<Rightarrow> bool" where
  "taken adj idx vis [] \<longleftrightarrow> True"
| "taken adj idx vis (t # st) \<longleftrightarrow> set (take (idx t) (neighbors adj t)) \<subseteq> vis \<and> taken adj idx (insert t vis) st"

lemma taken_mono: "taken adj idx vis st \<Longrightarrow> vis \<subseteq> vis' \<Longrightarrow> taken adj idx vis' st"
  by (induction st arbitrary: vis vis') (simp_all, meson insert_mono order_trans)

lemma taken_upd: "t \<notin> set st \<Longrightarrow> taken adj (idx(t := i)) vis st = taken adj idx vis st"
  by (induction st arbitrary: vis) auto

definition done_ok :: "adjacency \<Rightarrow> ty set \<Rightarrow> bool" where
  "done_ok adj vis \<longleftrightarrow> (\<forall>v \<in> vis. set (neighbors adj v) \<subseteq> vis \<and> (v, v) \<notin> (dep_rel adj)\<^sup>+)"

definition dfs_inv :: "adjacency \<Rightarrow> ty list \<Rightarrow> (ty \<Rightarrow> nat) \<Rightarrow> ty list \<Rightarrow> bool" where
  "dfs_inv adj st idx vis \<longleftrightarrow> distinct st \<and> set st \<inter> set vis = {}
     \<and> successively (\<lambda>a b. a \<in> set (neighbors adj b)) st \<and> done_ok adj (set vis)
     \<and> taken adj idx (set vis) st \<and> (\<forall>u. u \<notin> set st \<longrightarrow> u \<notin> set vis \<longrightarrow> idx u = 0)"

lemma closed_trancl:
  assumes "\<And>v. v \<in> A \<Longrightarrow> set (neighbors adj v) \<subseteq> A" "(x, y) \<in> (dep_rel adj)\<^sup>+" "x \<in> A"
  shows "y \<in> A"
  using assms(2,3) by (induction rule: trancl_induct) (use assms(1) in \<open>auto simp: dep_rel_def\<close>)

lemma done_ok_insert:
  assumes d: "done_ok adj vis" and s: "set (neighbors adj t) \<subseteq> vis" and t: "t \<notin> vis"
  shows "done_ok adj (insert t vis)"
proof -
  have "(t, t) \<notin> (dep_rel adj)\<^sup>+"
  proof
    assume "(t, t) \<in> (dep_rel adj)\<^sup>+"
    then obtain x where x: "(t, x) \<in> dep_rel adj" "(x, t) \<in> (dep_rel adj)\<^sup>*" by (meson tranclD)
    then have "x \<in> vis" using s by (auto simp: dep_rel_def)
    then have "t \<in> vis"
      using x(2) closed_trancl[of vis adj x t] d by (auto simp: done_ok_def rtrancl_eq_or_trancl)
    then show False using t by simp
  qed
  then show ?thesis using d s by (auto simp: done_ok_def)
qed

lemma dfs_inv_push:
  assumes i: "dfs_inv adj (t # st) idx vis" and k: "idx t < length (neighbors adj t)"
    and n: "neighbors adj t ! idx t \<notin> set (t # st)" "neighbors adj t ! idx t \<notin> set vis"
  shows "dfs_inv adj (neighbors adj t ! idx t # t # st) (idx(t := Suc (idx t))) vis"
proof -
  let ?n = "neighbors adj t ! idx t"
  have z: "idx ?n = 0" using i n by (auto simp: dfs_inv_def)
  have "taken adj (idx(t := Suc (idx t))) (insert ?n (set vis)) (t # st)"
    using i k by (auto simp: dfs_inv_def take_Suc_conv_app_nth taken_upd intro: taken_mono)
  then show ?thesis using i n z k by (auto simp: dfs_inv_def)
qed

lemma dfs_inv_skip:
  assumes i: "dfs_inv adj (t # st) idx vis" and k: "idx t < length (neighbors adj t)"
    and n: "neighbors adj t ! idx t \<in> set vis"
  shows "dfs_inv adj (t # st) (idx(t := Suc (idx t))) vis"
  using i k n by (auto simp: dfs_inv_def take_Suc_conv_app_nth taken_upd)

lemma dfs_inv_pop:
  assumes i: "dfs_inv adj (t # st) idx vis" and k: "\<not> idx t < length (neighbors adj t)"
  shows "dfs_inv adj st idx (t # vis)"
proof -
  have "done_ok adj (insert t (set vis))" using i k by (intro done_ok_insert) (auto simp: dfs_inv_def)
  then show ?thesis using i by (auto simp: dfs_inv_def successively_Cons)
qed

lemma successively_dropWhile: "successively P xs \<Longrightarrow> successively P (dropWhile Q xs)"
  by (induction xs) (auto simp: successively_Cons)

lemma cycle_path_is_cycle:
  assumes i: "dfs_inv adj (t # st) idx vis" and n: "n \<in> set (t # st)" "n \<in> set (neighbors adj t)"
  shows "is_cycle adj (cycle_path n (t # st))"
proof -
  let ?d = "dropWhile (\<lambda>x. x \<noteq> n) (rev (t # st))"
  have ne: "?d \<noteq> []" using n(1) by (simp add: dropWhile_eq_Nil_conv) blast
  have hd: "hd ?d = n" using hd_dropWhile[OF ne] by simp
  have "last ?d = last (rev (t # st))" using ne by (metis last_appendR takeWhile_dropWhile_id)
  then have la: "last ?d = t" by simp
  have "successively (\<lambda>a b. b \<in> set (neighbors adj a)) (rev (t # st))"
    using i by (simp only: dfs_inv_def successively_rev)
  then have "successively (\<lambda>a b. b \<in> set (neighbors adj a)) ?d" by (rule successively_dropWhile)
  then have "successively (\<lambda>a b. b \<in> set (neighbors adj a)) (?d @ [n])"
    using n(2) la ne by (simp add: successively_append_iff)
  moreover have "2 \<le> length (?d @ [n])" using ne by (cases ?d) auto
  ultimately show ?thesis using ne hd by (simp add: is_cycle_def cycle_path_def Let_def del: rev.simps)
qed

lemma detect_from_correct:
  "dfs_inv adj st idx vis \<Longrightarrow>
     (case detect_from adj st idx vis of
        Inl c \<Rightarrow> is_cycle adj c
      | Inr vis' \<Rightarrow> done_ok adj (set vis') \<and> set st \<union> set vis \<subseteq> set vis')"
proof (induction adj st idx vis rule: detect_from.induct)
  case (1 adj idx vis)
  then show ?case by (simp add: dfs_inv_def)
next
  case (2 adj t st idx vis)
  let ?ns = "neighbors adj t" let ?n = "?ns ! idx t"
  note step = detect_from.simps(2)[of adj t st idx vis, unfolded Let_def]
  show ?case
  proof (cases "idx t < length ?ns")
    case False
    note r = "2.IH"(3)[OF refl False dfs_inv_pop[OF "2.prems" False]]
    then show ?thesis using False unfolding step by (auto simp del: detect_from.simps split: sum.splits)
  next
    case True
    consider (cyc) "?n \<in> set (t # st)" | (push) "?n \<notin> set (t # st)" "?n \<notin> set vis" | (skip) "?n \<notin> set (t # st)" "?n \<in> set vis" by blast
    then show ?thesis
    proof cases
      case cyc
      then show ?thesis using cycle_path_is_cycle[OF "2.prems" cyc] True unfolding step by (simp del: detect_from.simps)
    next
      case push
      note r = "2.IH"(1)[OF refl True refl refl push(1) push(2) dfs_inv_push[OF "2.prems" True push]]
      then show ?thesis using True push unfolding step by (auto simp: fun_upd_def simp del: detect_from.simps split: sum.splits)
    next
      case skip
      note r = "2.IH"(2)[OF refl True refl refl skip(1) _ dfs_inv_skip[OF "2.prems" True skip(2)]]
      then show ?thesis using True skip unfolding step by (auto simp: fun_upd_def simp del: detect_from.simps split: sum.splits)
    qed
  qed
qed

lemma detect_starts_correct:
  "done_ok adj (set vis) \<Longrightarrow>
     (case detect_starts adj ss vis of
        Some c \<Rightarrow> is_cycle adj c
      | None \<Rightarrow> \<exists>A. done_ok adj A \<and> set ss \<subseteq> A)"
proof (induction ss arbitrary: vis)
  case (Cons s ss)
  show ?case
  proof (cases "s \<in> set vis")
    case True
    have keep: "detect_starts adj (s # ss) vis = detect_starts adj ss vis" using True by simp
    show ?thesis
    proof (cases "detect_starts adj ss vis")
      case None
      obtain A where "done_ok adj A" "set ss \<subseteq> A" using Cons.IH[OF Cons.prems] None by auto
      then have "done_ok adj (A \<union> set vis)" "set (s # ss) \<subseteq> A \<union> set vis"
        using Cons.prems True by (auto simp: done_ok_def)
      then show ?thesis using keep None by auto
    qed (use Cons.IH[OF Cons.prems] keep in auto)
  next
    case False
    have "dfs_inv adj [s] (\<lambda>_. 0) vis" using Cons.prems False by (simp add: dfs_inv_def)
    note d = detect_from_correct[OF this]
    show ?thesis
    proof (cases "detect_from adj [s] (\<lambda>_. 0) vis")
      case (Inl c)
      then show ?thesis using d False by simp
    next
      case (Inr vis')
      then have v: "done_ok adj (set vis')" "s \<in> set vis'" using d by auto
      show ?thesis
      proof (cases "detect_starts adj ss vis'")
        case None
        obtain A where "done_ok adj A" "set ss \<subseteq> A" using Cons.IH[OF v(1)] None by auto
        then have "done_ok adj (A \<union> set vis')" "set (s # ss) \<subseteq> A \<union> set vis'"
          using v by (auto simp: done_ok_def)
        then show ?thesis using None Inr False by auto
      qed (use Cons.IH[OF v(1)] Inr False in auto)
    qed
  qed
qed auto

lemma cycle_trancl: "is_cycle adj c \<Longrightarrow> (hd c, hd c) \<in> (dep_rel adj)\<^sup>+"
proof -
  have path: "successively (\<lambda>a b. b \<in> set (neighbors adj a)) (x # y # xs) \<Longrightarrow> (x, last (y # xs)) \<in> (dep_rel adj)\<^sup>+" for x y xs
  proof (induction xs arbitrary: x y)
    case (Cons z zs)
    have "(x, y) \<in> dep_rel adj" using Cons.prems by (simp add: dep_rel_def)
    moreover have "(y, last (z # zs)) \<in> (dep_rel adj)\<^sup>+" using Cons.IH Cons.prems by simp
    ultimately show ?case by (simp add: trancl_into_trancl2)
  qed (auto simp: dep_rel_def)
  assume c: "is_cycle adj c"
  then obtain x y xs where "c = x # y # xs" unfolding is_cycle_def by (metis One_nat_def Suc_1 Suc_le_length_iff)
  then show ?thesis using path[of x y xs] c by (auto simp: is_cycle_def)
qed

lemma detect_cycles_correct:
  "(detect_cycles adj = None \<longleftrightarrow> acyclic (dep_rel adj))
   \<and> (case detect_cycles adj of None \<Rightarrow> True | Some c \<Rightarrow> is_cycle adj c)"
proof -
  have "done_ok adj (set [])" by (simp add: done_ok_def)
  note d = detect_starts_correct[OF this, of "map fst adj"]
  show ?thesis
  proof (cases "detect_cycles adj")
    case None
    then obtain A where A: "done_ok adj A" "set (map fst adj) \<subseteq> A" using d by (auto simp: detect_cycles_def)
    have "(x, x) \<notin> (dep_rel adj)\<^sup>+" for x
    proof
      assume x: "(x, x) \<in> (dep_rel adj)\<^sup>+"
      then obtain y where "(x, y) \<in> dep_rel adj" by (meson tranclD)
      then obtain ns where "map_of adj x = Some ns" by (cases "map_of adj x") (auto simp: dep_rel_def neighbors_def)
      then have "x \<in> A" using A(2) by (force dest: map_of_SomeD)
      then show False using A(1) x by (simp add: done_ok_def)
    qed
    then show ?thesis using None by (simp add: acyclic_def)
  next
    case (Some c)
    then have c: "is_cycle adj c" using d by (simp add: detect_cycles_def)
    then have "\<not> acyclic (dep_rel adj)" using cycle_trancl by (auto simp: acyclic_def)
    then show ?thesis using Some c by simp
  qed
qed

text \<open>
  C21: cycle detection is exact.  The search ends on every graph; it reports a
  path exactly if the provider graph has a cycle, and what it reports is one: it starts and ends at the same type and
  each type on it depends on the next.
\<close>
theorem detect_cycles_exact:
  "(detect_cycles adj = None \<longleftrightarrow> acyclic (dep_rel adj))
   \<and> (case detect_cycles adj of None \<Rightarrow> True | Some c \<Rightarrow> is_cycle adj c)"
  by (rule detect_cycles_correct)

section \<open>The graph of the registered edges\<close>

definition edge_rel :: "edge list \<Rightarrow> (ty \<times> ty) set" where
  "edge_rel es = {(a, b). \<exists>ov. (a, b, ov) \<in> set es}"

lemma neighbors_put: "neighbors (dict_put a ns adj) t = (if t = a then ns else neighbors adj t)"
  by (simp add: neighbors_def map_of_dict_put)

lemma dep_rel_add_edge: "dep_rel (add_edge a b adj) = insert (a, b) (dep_rel adj)"
  by (auto simp: dep_rel_def add_edge_def neighbors_put split: if_splits)

lemma build_adjacency_from_rel: "dep_rel (build_adjacency_from adj es) = dep_rel adj \<union> edge_rel es"
proof (induction adj es rule: build_adjacency_from.induct)
  case (2 adj a b ov es)
  let ?adj1 = "add_edge a b adj"
  let ?adj2 = "if map_of ?adj1 b = None then dict_put b [] ?adj1 else ?adj1"
  have "neighbors ?adj2 t = neighbors ?adj1 t" for t
    by (auto simp: neighbors_put) (simp add: neighbors_def)
  then have "dep_rel ?adj2 = dep_rel ?adj1" by (simp add: dep_rel_def)
  then show ?case using 2 by (auto simp: Let_def edge_rel_def dep_rel_add_edge)
qed (simp add: edge_rel_def)

lemma dep_rel_Nil [simp]: "dep_rel [] = {}"
  by (simp add: dep_rel_def neighbors_def)

lemma build_adjacency_rel: "dep_rel (build_adjacency es) = edge_rel es"
  by (simp add: build_adjacency_def build_adjacency_from_rel)

lemma provider_adjacency_rel:
  assumes "\<And>a b ov. (a, b, ov) \<in> set es \<Longrightarrow> map_of ps a \<noteq> None"
  shows "dep_rel (provider_adjacency ps adj es) = dep_rel adj \<union> edge_rel es"
  using assms
proof (induction ps adj es rule: provider_adjacency.induct)
  case (2 ps adj a b ov es)
  have "map_of ps a \<noteq> None" using "2.prems" by (meson list.set_intros(1))
  moreover have "dep_rel (provider_adjacency ps (if map_of ps a = None then adj else add_edge a b adj) es)
      = dep_rel (if map_of ps a = None then adj else add_edge a b adj) \<union> edge_rel es"
    using "2.prems" by (intro "2.IH") auto
  ultimately show ?case by (auto simp: edge_rel_def dep_rel_add_edge)
qed (simp add: edge_rel_def)

section \<open>Plans\<close>

definition ordered :: "adjacency \<Rightarrow> ty list \<Rightarrow> bool" where
  "ordered adj post \<longleftrightarrow> (\<forall>i < length post. set (neighbors adj (post ! i)) \<subseteq> set (take i post))"

lemma ordered_Nil [simp]: "ordered adj []"
  by (simp add: ordered_def)

lemma ordered_snoc: "ordered adj post \<Longrightarrow> set (neighbors adj n) \<subseteq> set post \<Longrightarrow> ordered adj (post @ [n])"
  by (auto simp: ordered_def nth_append less_Suc_eq)

text \<open>What one visit does to the nodes entered and the nodes finished.\<close>

definition visit :: "adjacency \<Rightarrow> ty list \<Rightarrow> ty list \<times> ty list \<Rightarrow> ty list \<times> ty list \<Rightarrow> bool" where
  "visit adj ns vp vp' \<longleftrightarrow> set (snd vp) \<subseteq> set (fst vp) \<longrightarrow> distinct (snd vp) \<longrightarrow> ordered adj (snd vp) \<longrightarrow>
     (\<forall>n \<in> set ns. \<forall>x \<in> set (fst vp) - set (snd vp). (x, n) \<in> (dep_rel adj)\<^sup>+) \<longrightarrow>
     set (snd vp') \<subseteq> set (fst vp') \<and> distinct (snd vp') \<and> ordered adj (snd vp') \<and> set (fst vp) \<subseteq> set (fst vp')
     \<and> set (fst vp') - set (snd vp') = set (fst vp) - set (snd vp) \<and> set ns \<subseteq> set (snd vp') \<and> set (snd vp) \<subseteq> set (snd vp')"

lemma visit_Cons:
  assumes a: "visit adj [n] vp w" and b: "visit adj ns w vp'"
  shows "visit adj (n # ns) vp vp'"
  unfolding visit_def
proof (intro impI)
  assume pre: "set (snd vp) \<subseteq> set (fst vp)" "distinct (snd vp)" "ordered adj (snd vp)"
    "\<forall>n \<in> set (n # ns). \<forall>x \<in> set (fst vp) - set (snd vp). (x, n) \<in> (dep_rel adj)\<^sup>+"
  then have w: "set (snd w) \<subseteq> set (fst w)" "distinct (snd w)" "ordered adj (snd w)" "set (fst vp) \<subseteq> set (fst w)"
    "set (fst w) - set (snd w) = set (fst vp) - set (snd vp)" "n \<in> set (snd w)" "set (snd vp) \<subseteq> set (snd w)"
    using a unfolding visit_def by simp_all
  then have "set (snd vp') \<subseteq> set (fst vp')" "distinct (snd vp')" "ordered adj (snd vp')" "set (fst w) \<subseteq> set (fst vp')"
    "set (fst vp') - set (snd vp') = set (fst w) - set (snd w)" "set ns \<subseteq> set (snd vp')" "set (snd w) \<subseteq> set (snd vp')"
    using b pre(4) unfolding visit_def by simp_all
  then show "set (snd vp') \<subseteq> set (fst vp') \<and> distinct (snd vp') \<and> ordered adj (snd vp') \<and> set (fst vp) \<subseteq> set (fst vp')
     \<and> set (fst vp') - set (snd vp') = set (fst vp) - set (snd vp) \<and> set (n # ns) \<subseteq> set (snd vp') \<and> set (snd vp) \<subseteq> set (snd vp')"
    using w by auto
qed

lemma post_order_visit:
  assumes acyc: "acyclic (dep_rel adj)"
  shows "post_order_dfs fuel adj n vp = Some vp' \<Longrightarrow> visit adj [n] vp vp'"
    and "post_order_list fuel adj ns vp = Some vp' \<Longrightarrow> visit adj ns vp vp'"
  using acyc
proof (induction fuel adj n vp and fuel adj ns vp arbitrary: vp' and vp' rule: post_order_dfs_post_order_list.induct)
  case (1 fuel adj n vis post)
  have no: "(n, n) \<notin> (dep_rel adj)\<^sup>+" using "1.prems"(2) by (simp add: acyclic_def)
  show ?case
  proof (cases "n \<in> set vis")
    case True
    then show ?thesis using "1.prems"(1) no by (auto simp: visit_def)
  next
    case False
    then obtain f v p where f: "fuel = Suc f" "post_order_list f adj (neighbors adj n) (n # vis, post) = Some (v, p)"
      "vp' = (v, p @ [n])"
      using "1.prems"(1) by (auto split: nat.splits option.splits prod.splits)
    have ih: "visit adj (neighbors adj n) (n # vis, post) (v, p)"
      using "1.IH"[OF False f(1) f(2) "1.prems"(2)] .
    show ?thesis unfolding visit_def
    proof (intro impI)
      assume pre: "set (snd (vis, post)) \<subseteq> set (fst (vis, post))" "distinct (snd (vis, post))" "ordered adj (snd (vis, post))"
        "\<forall>m \<in> set [n]. \<forall>x \<in> set (fst (vis, post)) - set (snd (vis, post)). (x, m) \<in> (dep_rel adj)\<^sup>+"
      have "\<forall>m \<in> set (neighbors adj n). \<forall>x \<in> set (n # vis) - set post. (x, m) \<in> (dep_rel adj)\<^sup>+"
      proof (intro ballI)
        fix m x assume m: "m \<in> set (neighbors adj n)" and x: "x \<in> set (n # vis) - set post"
        have e: "(n, m) \<in> dep_rel adj" using m by (simp add: dep_rel_def)
        show "(x, m) \<in> (dep_rel adj)\<^sup>+"
        proof (cases "x = n")
          case False
          then have "(x, n) \<in> (dep_rel adj)\<^sup>+" using x pre(4) by simp
          then show ?thesis using e by (rule trancl_into_trancl)
        qed (use e in auto)
      qed
      then have r: "set p \<subseteq> set v" "distinct p" "ordered adj p" "set (n # vis) \<subseteq> set v"
        "set v - set p = set (n # vis) - set post" "set (neighbors adj n) \<subseteq> set p" "set post \<subseteq> set p"
        using ih pre unfolding visit_def by auto
      have n: "n \<notin> set p" using r(4,5) pre(1) False by auto
      show "set (snd vp') \<subseteq> set (fst vp') \<and> distinct (snd vp') \<and> ordered adj (snd vp') \<and> set (fst (vis, post)) \<subseteq> set (fst vp')
        \<and> set (fst vp') - set (snd vp') = set (fst (vis, post)) - set (snd (vis, post))
        \<and> set [n] \<subseteq> set (snd vp') \<and> set (snd (vis, post)) \<subseteq> set (snd vp')"
        using r n pre False ordered_snoc[OF r(3) r(6)] f(3) by auto
    qed
  qed
next
  case (2 fuel adj vp)
  then show ?case by (auto simp: visit_def)
next
  case (3 fuel adj n ns vp)
  obtain w where w: "post_order_dfs fuel adj n vp = Some w" "post_order_list fuel adj ns w = Some vp'"
    using "3.prems"(1) by (auto split: option.splits)
  have a: "visit adj [n] vp w" using "3.IH"(1)[OF w(1) "3.prems"(2)] .
  have b: "visit adj ns w vp'" using "3.IH"(2)[OF w(1) w(2) "3.prems"(2)] .
  show ?case using a b by (rule visit_Cons)
qed

lemma post_order_enough:
  assumes V: "finite V" "\<And>v. v \<in> V \<Longrightarrow> set (neighbors adj v) \<subseteq> V"
  shows "n \<in> V \<Longrightarrow> card (V - set (fst vp)) \<le> fuel \<Longrightarrow>
           \<exists>vp'. post_order_dfs fuel adj n vp = Some vp' \<and> set (fst vp) \<subseteq> set (fst vp')"
    and "set ns \<subseteq> V \<Longrightarrow> card (V - set (fst vp)) \<le> fuel \<Longrightarrow>
           \<exists>vp'. post_order_list fuel adj ns vp = Some vp' \<and> set (fst vp) \<subseteq> set (fst vp')"
  using V(2)
proof (induction fuel adj n vp and fuel adj ns vp rule: post_order_dfs_post_order_list.induct)
  case (1 fuel adj n vis post)
  show ?case
  proof (cases "n \<in> set vis")
    case False
    have "V - set (n # vis) \<subset> V - set vis" using False "1.prems"(1) by auto
    then have less: "card (V - set (n # vis)) < card (V - set vis)" using V(1) by (intro psubset_card_mono) auto
    then obtain f where f: "fuel = Suc f" using "1.prems"(2) by (cases fuel) auto
    have "card (V - set (fst (n # vis, post))) \<le> f" using less "1.prems"(2) f by simp
    from "1.IH"[OF False f "1.prems"(3)[OF "1.prems"(1)] this "1.prems"(3)] show ?thesis using False f by auto
  qed simp
next
  case (3 fuel adj n ns vp)
  obtain w where w: "post_order_dfs fuel adj n vp = Some w" "set (fst vp) \<subseteq> set (fst w)"
    using "3.IH"(1)[OF _ "3.prems"(2,3)] "3.prems"(1) by auto
  have "card (V - set (fst w)) \<le> card (V - set (fst vp))" using w(2) V(1) by (intro card_mono) auto
  then have "card (V - set (fst w)) \<le> fuel" using "3.prems"(2) by simp
  from "3.IH"(2)[OF w(1) _ this "3.prems"(3)] show ?case using w "3.prems"(1) by auto
qed simp

lemma neighbors_edge: "b \<in> set (neighbors adj a) \<longleftrightarrow> (a, b) \<in> dep_rel adj"
  by (simp add: dep_rel_def)

lemma topo_sort_ordered:
  assumes acyc: "acyclic (edge_rel es)" and reg: "\<And>a b ov. (a, b, ov) \<in> set es \<Longrightarrow> map_of ps a \<noteq> None"
    and plan: "topo_sort_for_actor ac s es ps = Inr r"
  obtains plan roots where "r = Some plan" "actor_deps_at_scope ac s ps = Inr roots" "set roots \<subseteq> set plan" "distinct plan"
    "\<And>i a b ov. i < length plan \<Longrightarrow> (a, b, ov) \<in> set es \<Longrightarrow> a = plan ! i \<Longrightarrow> b \<in> set (take i plan)"
proof -
  obtain roots where roots: "actor_deps_at_scope ac s ps = Inr roots"
    using plan by (auto simp: topo_sort_for_actor_def bindE_Inr_iff)
  show thesis
  proof (cases "roots = []")
    case True
    then show thesis using that[of "[]" roots] plan roots by (simp add: topo_sort_for_actor_def)
  next
    case False
    let ?adj = "provider_adjacency ps [] es"
    have rel: "dep_rel ?adj = edge_rel es" using provider_adjacency_rel[OF reg] by simp
    let ?V = "set roots \<union> set (map fst es) \<union> set (map (fst \<circ> snd) es)"
    have closed: "set (neighbors ?adj v) \<subseteq> ?V" for v
    proof
      fix b assume "b \<in> set (neighbors ?adj v)"
      then have "(v, b) \<in> edge_rel es" using rel by (simp add: neighbors_edge)
      then show "b \<in> ?V" by (force simp: edge_rel_def)
    qed
    have "card ?V \<le> length roots + length es + length es"
      using card_Un_le[of "set roots \<union> set (map fst es)" "set (map (fst \<circ> snd) es)"] card_Un_le[of "set roots" "set (map fst es)"]
        card_length[of roots] card_length[of "map fst es"] card_length[of "map (fst \<circ> snd) es"] by simp
    then have fuel: "card (?V - set (fst ([]::ty list, []::ty list))) \<le> Suc (length roots + 2 * length es)" by simp
    obtain vp where vp: "post_order_list (Suc (length roots + 2 * length es)) ?adj roots ([], []) = Some vp"
      using post_order_enough(2)[of ?V ?adj roots "([], [])", OF _ closed _ fuel] by auto
    have "visit ?adj roots ([], []) vp" using post_order_visit(2)[OF _ vp] acyc rel by simp
    then have v: "distinct (snd vp)" "ordered ?adj (snd vp)" "set roots \<subseteq> set (snd vp)" by (auto simp: visit_def)
    have r: "r = Some (snd vp)" using plan roots False vp by (simp add: topo_sort_for_actor_def)
    have "b \<in> set (take i (snd vp))" if "i < length (snd vp)" "(a, b, ov) \<in> set es" "a = snd vp ! i" for i a b ov
    proof -
      have "b \<in> set (neighbors ?adj a)" using that(2) rel by (auto simp: neighbors_edge edge_rel_def)
      then show ?thesis using v(2) that(1,3) by (auto simp: ordered_def)
    qed
    then show thesis using that r roots v by blast
  qed
qed

section \<open>What a passed validation gives\<close>

lemma scope_violation_None:
  assumes "scope_violation ps es = None" "(a, b, ov) \<in> set es"
  obtains ea eb where "map_of ps a = Some ea" "map_of ps b = Some eb"
    "scope_value (scope_or ov (pe_scope eb)) \<le> scope_value (pe_scope ea)"
proof -
  have "\<exists>ea eb. map_of ps a = Some ea \<and> map_of ps b = Some eb
      \<and> scope_value (scope_or ov (pe_scope eb)) \<le> scope_value (pe_scope ea)"
    using assms
  proof (induction ps es rule: scope_violation.induct)
    case (2 ps a' b' ov' es)
    obtain ea eb where e: "map_of ps a' = Some ea" "map_of ps b' = Some eb"
      using "2.prems"(1) by (cases "map_of ps a'"; cases "map_of ps b'") simp_all
    have le: "\<not> scope_value (scope_or ov' (pe_scope eb)) > scope_value (pe_scope ea)"
      using "2.prems"(1) e by (auto simp: Let_def split: if_splits)
    then have "scope_violation ps es = None" using "2.prems"(1) e by (simp add: Let_def)
    then show ?case using "2.IH"[OF _ e(1,2)] "2.prems"(2) e le by (cases "(a, b, ov) = (a', b', ov')") auto
  qed simp
  then show thesis using that by blast
qed

lemma first_missing_None: "first_missing ps es = None \<Longrightarrow> (by', t, ov) \<in> set es \<Longrightarrow> map_of ps t \<noteq> None"
  by (induction ps es rule: first_missing.induct) (auto split: if_splits)

lemma plans_of_actor_mem:
  "plans_of_actor es ps a ss = Inr pls \<Longrightarrow> ((nm, s), plan) \<in> set pls \<Longrightarrow>
     nm = ac_name a \<and> s \<in> set ss \<and> topo_sort_for_actor a s es ps = Inr (Some plan)"
proof (induction ss arbitrary: pls)
  case (Cons x ss)
  obtain r rest where r: "topo_sort_for_actor a x es ps = Inr r" "plans_of_actor es ps a ss = Inr rest"
    "pls = (case r of Some (t # ts) \<Rightarrow> ((ac_name a, x), t # ts) # rest | _ \<Rightarrow> rest)"
    using Cons.prems(1) by (auto simp: bindE_Inr_iff)
  show ?case
  proof (cases "((nm, s), plan) \<in> set rest")
    case True
    then show ?thesis using Cons.IH[OF r(2)] by simp
  next
    case False
    then show ?thesis using Cons.prems(2) r by (auto split: option.splits list.splits)
  qed
qed simp

lemma all_plans_mem:
  "all_plans es ps as = Inr pls \<Longrightarrow> ((nm, s), plan) \<in> set pls \<Longrightarrow>
     \<exists>a \<in> set as. nm = ac_name a \<and> topo_sort_for_actor a s es ps = Inr (Some plan)"
  by (induction as arbitrary: pls) (auto simp: bindE_Inr_iff simp del: plans_of_actor.simps dest: plans_of_actor_mem)

lemma run_validation_Inr:
  assumes "run_validation ps es actors reg = Inr pls"
  obtains aes where "(case actors of None \<Rightarrow> Inr [] | Some as \<Rightarrow> collect_all_actor_edges as) = Inr aes"
    "first_missing ps (es @ aes) = None" "acyclic (edge_rel es)" "scope_violation ps es = None"
    "(case actors of None \<Rightarrow> Inr [] | Some as \<Rightarrow> all_plans es ps as) = Inr pls"
proof -
  obtain aes where aes: "(case actors of None \<Rightarrow> Inr [] | Some as \<Rightarrow> collect_all_actor_edges as) = Inr aes"
    using assms by (auto simp: run_validation_def bindE_Inr_iff)
  have m: "first_missing ps (es @ aes) = None"
    using assms aes by (cases "first_missing ps (es @ aes)") (simp_all add: run_validation_def)
  let ?u = "case (reg, actors) of (Some r, Some as) \<Rightarrow> unknown_limits r as | _ \<Rightarrow> None"
  have u: "?u = None" using assms aes m by (cases ?u) (simp_all add: run_validation_def)
  have c: "detect_cycles (build_adjacency es) = None"
    using assms aes m u by (cases "detect_cycles (build_adjacency es)") (simp_all add: run_validation_def)
  have sv: "scope_violation ps es = None"
    using assms aes m u c by (cases "scope_violation ps es") (simp_all add: run_validation_def)
  have pl: "(case actors of None \<Rightarrow> Inr [] | Some as \<Rightarrow> all_plans es ps as) = Inr pls"
    using assms aes m u c sv by (simp add: run_validation_def)
  have ac: "acyclic (edge_rel es)"
    using detect_cycles_correct[of "build_adjacency es"] c by (simp add: build_adjacency_rel)
  show thesis using that[OF aes m ac sv pl] .
qed

text \<open>
  C22: resolution plans.  When validation passes, every cached plan of an actor
  and a scope lists each type once and after everything it depends on, and contains every parameter the actor has
  at that scope.
\<close>
theorem plans_dependency_first:
  assumes "run_validation ps es (Some as) reg = Inr pls" "((nm, s), plan) \<in> set pls"
  shows "distinct plan
    \<and> (\<forall>i < length plan. \<forall>(a, b, ov) \<in> set es. a = plan ! i \<longrightarrow> b \<in> set (take i plan))
    \<and> (\<exists>a \<in> set as. ac_name a = nm \<and> (\<exists>roots. actor_deps_at_scope a s ps = Inr roots \<and> set roots \<subseteq> set plan))"
proof -
  have v: "acyclic (edge_rel es)" "scope_violation ps es = None" "all_plans es ps as = Inr pls"
    by (rule run_validation_Inr[OF assms(1)], simp)+
  obtain a where a: "a \<in> set as" "nm = ac_name a" "topo_sort_for_actor a s es ps = Inr (Some plan)"
    using all_plans_mem[OF v(3) assms(2)] by blast
  have reg: "map_of ps x \<noteq> None" if "(x, y, ov) \<in> set es" for x y ov
    using scope_violation_None[OF v(2) that] by (metis option.distinct(1))
  obtain plan' roots where p: "Some plan = Some plan'" "actor_deps_at_scope a s ps = Inr roots" "set roots \<subseteq> set plan'" "distinct plan'"
    "\<And>i x y ov. i < length plan' \<Longrightarrow> (x, y, ov) \<in> set es \<Longrightarrow> x = plan' ! i \<Longrightarrow> y \<in> set (take i plan')"
    by (rule topo_sort_ordered[OF v(1) reg a(3)]) blast+
  have eq: "plan' = plan" using p(1) by simp
  have "\<forall>i < length plan. \<forall>(x, y, ov) \<in> set es. x = plan ! i \<longrightarrow> y \<in> set (take i plan)"
    using p(5) unfolding eq by blast
  then show ?thesis using a(1,2) p(2,3,4) unfolding eq by blast
qed

definition dep :: "string \<Rightarrow> annotation \<Rightarrow> param" where
  "dep n a = \<lparr>pa_name = n, pa_kind = PositionalOrKeyword, pa_default = False, pa_hint = Some a\<rparr>"

definition made_by :: "Scope \<Rightarrow> param list \<Rightarrow> nat ProviderEntry" where
  "made_by s ps = \<lparr>pe_scope = s, pe_value = None, pe_func = Callable ps, pe_shape = SYNC_CALLABLE, pe_lifecycle = Some PlainFactory\<rparr>"

text \<open>A service on a pool on the settings, and an actor that takes the service and the settings.\<close>

definition demo_providers :: "(ty \<times> nat ProviderEntry) list" where
  "demo_providers = [(''Service'', made_by LOOP [dep ''pool'' (AType ''Pool''), dep ''cfg'' (AType ''Settings'')]),
     (''Pool'', made_by LOOP [dep ''cfg'' (AType ''Settings'')]), (''Settings'', made_by PROCESS [])]"

definition demo_edges :: "edge list" where
  "demo_edges = [(''Service'', ''Pool'', None), (''Service'', ''Settings'', None), (''Pool'', ''Settings'', None)]"

definition demo_actor :: actor where
  "demo_actor = \<lparr>ac_name = ''send'', ac_func = Callable [dep ''payload'' AOther, dep ''svc'' (AType ''Service'')],
     ac_rate_limits = [], ac_reservations = []\<rparr>"

lemma demo_validates:
  "run_validation demo_providers demo_edges (Some [demo_actor]) None
     = Inr [((''send'', LOOP), [''Settings'', ''Pool'', ''Service''])]"
proof -
  have "collect_all_actor_edges [demo_actor] = Inr [(''send'', ''Service'', None)]"
    "first_missing demo_providers (demo_edges @ [(''send'', ''Service'', None)]) = None"
    "detect_cycles (build_adjacency demo_edges) = None" "scope_violation demo_providers demo_edges = None"
    "all_plans demo_edges demo_providers [demo_actor] = Inr [((''send'', LOOP), [''Settings'', ''Pool'', ''Service''])]"
    by code_simp+
  then show ?thesis unfolding run_validation_def option.case prod.case bindE.simps by simp
qed

theorem plans_dependency_first_witness:
  "run_validation demo_providers demo_edges (Some [demo_actor]) None
     = Inr [((''send'', LOOP), [''Settings'', ''Pool'', ''Service''])]
   \<and> distinct [''Settings'', ''Pool'', ''Service'']"
  using plans_dependency_first[OF demo_validates, of "''send''" LOOP "[''Settings'', ''Pool'', ''Service'']"] demo_validates
  by simp

end
