(* ===== verification/Resolution.thy ===== *)
theory Resolution
  imports Provider_Graph
begin

text \<open>
  Resolution against validation: on a validated registry with plain
  signatures it ends and succeeds; and three places where the two disagree.
\<close>

section \<open>Registries whose parameters can all be resolved\<close>

text \<open>
  A parameter the validation looks at and the resolution can serve: annotated
  with a class, under a name that neither of them skips.  A parameter without annotation must not be required.
\<close>

definition plain_param :: "string list \<Rightarrow> param \<Rightarrow> bool" where
  "plain_param skipped p \<longleftrightarrow> (case pa_hint p of
       None \<Rightarrow> pa_default p \<or> pa_name p = ''self'' \<or> (pa_kind p \<noteq> PositionalOrKeyword \<and> pa_kind p \<noteq> KeywordOnly)
     | Some a \<Rightarrow> (\<exists>t. a = AType t) \<and> \<not> is_var p \<and> pa_name p \<notin> set skipped)"

text \<open>What registration leaves: the edges of every entry, and lifecycles that fit the shape.\<close>

definition registered :: "(ty \<times> 'v ProviderEntry) list \<Rightarrow> edge list \<Rightarrow> bool" where
  "registered ps es \<longleftrightarrow> (\<forall>t e. map_of ps t = Some e \<longrightarrow> pe_shape e \<noteq> VALUE \<longrightarrow>
     (\<exists>qs ds. pe_func e = Callable qs \<and> collect_dep_edges (pe_func e) t = Inr ds \<and> set ds \<subseteq> set es)
     \<and> (pe_shape e = CLASS \<longrightarrow> pe_lifecycle e \<notin> {Some AsyncGenerator, Some SyncGenerator, Some PlainFactory}))"

lemma registered_new: "registered (pr_providers new_provider_registry) (pr_edges new_provider_registry)"
  by (simp add: registered_def new_provider_registry_def)

lemma registered_add:
  assumes "registered (pr_providers g) (pr_edges g)" "map_of (pr_providers g) t = None"
    and "pe_shape e \<noteq> VALUE \<longrightarrow> (\<exists>qs. pe_func e = Callable qs) \<and> collect_dep_edges (pe_func e) t = Inr es
      \<and> (pe_shape e = CLASS \<longrightarrow> pe_lifecycle e \<notin> {Some AsyncGenerator, Some SyncGenerator, Some PlainFactory})"
  shows "registered (pr_providers (add_provider t e es g)) (pr_edges (add_provider t e es g))"
  unfolding registered_def
proof (intro allI impI)
  fix u d assume u: "map_of (pr_providers (add_provider t e es g)) u = Some d" and v: "pe_shape d \<noteq> VALUE"
  consider "map_of (pr_providers g) u = Some d" | "u = t" "d = e"
    using u assms(2) by (auto simp: add_provider_def map_add_def split: option.splits if_splits)
  then show "(\<exists>qs ds. pe_func d = Callable qs \<and> collect_dep_edges (pe_func d) u = Inr ds \<and> set ds \<subseteq> set (pr_edges (add_provider t e es g)))
     \<and> (pe_shape d = CLASS \<longrightarrow> pe_lifecycle d \<notin> {Some AsyncGenerator, Some SyncGenerator, Some PlainFactory})"
  proof cases
    case 1
    then show ?thesis using assms(1) v unfolding registered_def add_provider_def by fastforce
  next
    case 2
    then show ?thesis using assms(3) v by (auto simp: add_provider_def)
  qed
qed

lemma collect_dep_edges_Callable: "collect_dep_edges c t = Inr es \<Longrightarrow> \<exists>qs. c = Callable qs"
  by (auto simp: collect_dep_edges_def split: callable.splits)

lemma refuse_None: "refuse_registration t g = None \<Longrightarrow> map_of (pr_providers g) t = None"
  by (simp add: refuse_registration_def split: if_splits)

text \<open>Every way to register keeps the edges complete; a class must not be given the lifecycle of a factory.\<close>

lemma register_keeps_registered:
  assumes "registered (pr_providers g) (pr_edges g)"
  shows "register_value t s v g = Inr g' \<Longrightarrow> registered (pr_providers g') (pr_edges g')"
    and "register_factory t s f g = Inr g' \<Longrightarrow> registered (pr_providers g') (pr_edges g')"
    and "register_class t s lc attrs c g = Inr g' \<Longrightarrow> lc \<notin> {Some AsyncGenerator, Some SyncGenerator, Some PlainFactory}
         \<Longrightarrow> registered (pr_providers g') (pr_edges g')"
proof -
  note add = registered_add[OF assms refuse_None]
  show "register_value t s v g = Inr g' \<Longrightarrow> registered (pr_providers g') (pr_edges g')"
    by (auto simp: register_value_def split: option.splits intro!: add)
  show "registered (pr_providers g') (pr_edges g')" if r: "register_factory t s f g = Inr g'"
  proof -
    obtain code c es where f: "refuse_registration t g = None" "f = Some (code, c)" "collect_dep_edges c t = Inr es"
      "g' = add_provider t \<lparr>pe_scope = s, pe_value = None, pe_func = c, pe_shape = factory_shape code,
              pe_lifecycle = Some (detect_factory_lifecycle code)\<rparr> es g"
      using r by (auto simp: register_factory_def bindE_Inr_iff split: option.splits)
    then show ?thesis using collect_dep_edges_Callable[OF f(3)]
      by (auto intro!: add simp: factory_shape_def split: factory_code.splits)
  qed
  show "registered (pr_providers g') (pr_edges g')" if r: "register_class t s lc attrs c g = Inr g'"
    and lc: "lc \<notin> {Some AsyncGenerator, Some SyncGenerator, Some PlainFactory}"
  proof -
    obtain es where f: "refuse_registration t g = None" "collect_dep_edges c t = Inr es"
      "g' = add_provider t \<lparr>pe_scope = s, pe_value = None, pe_func = c, pe_shape = CLASS,
              pe_lifecycle = Some (case lc of None \<Rightarrow> detect_lifecycle attrs | Some l \<Rightarrow> l)\<rparr> es g"
      using r by (auto simp: register_class_def bindE_Inr_iff split: option.splits)
    then show ?thesis using collect_dep_edges_Callable[OF f(2)] lc
      by (auto intro!: add simp: detect_lifecycle_def split: option.splits if_splits)
  qed
qed

lemma walk_params_mem:
  "walk_params skip ps = Inr ds \<Longrightarrow> p \<in> set ps \<Longrightarrow> pa_hint p = Some (AType t) \<Longrightarrow> \<not> is_var p \<Longrightarrow> \<not> skip p (AType t)
   \<Longrightarrow> (t, None) \<in> set ds"
proof (induction ps arbitrary: ds)
  case (Cons q ps)
  show ?case
  proof (cases "pa_hint q = None \<or> is_var q \<or> skip q (the (pa_hint q))")
    case True
    then have "walk_params skip ps = Inr ds" "q \<noteq> p" using Cons.prems by (auto split: option.splits)
    then show ?thesis using Cons by auto
  next
    case False
    then obtain d ds' where d: "annotated_dep (the (pa_hint q)) = Inr d" "walk_params skip ps = Inr ds'"
      "ds = (case d of None \<Rightarrow> ds' | Some x \<Rightarrow> x # ds')"
      using Cons.prems(1) by (auto simp: bindE_Inr_iff split: option.splits)
    show ?thesis
    proof (cases "q = p")
      case True
      then have "d = Some (t, None)" using d(1) Cons.prems(3) by (simp add: annotated_dep_def)
      then show ?thesis using d(3) by simp
    next
      case False
      then show ?thesis using Cons.IH[OF d(2)] Cons.prems d(3) by (auto split: option.splits)
    qed
  qed
qed simp

definition resolvable :: "(ty \<times> 'v ProviderEntry) list \<Rightarrow> edge list \<Rightarrow> 'v di_env \<Rightarrow> bool" where
  "resolvable ps es env \<longleftrightarrow> de_providers env = ps \<and> registered ps es \<and> acyclic (edge_rel es) \<and> scope_violation ps es = None
     \<and> (\<forall>t e qs. map_of ps t = Some e \<longrightarrow> pe_func e = Callable qs \<longrightarrow> list_all (plain_param [''self'', ''payload'']) qs)
     \<and> (\<forall>t kw. \<exists>v. de_call env t kw = Returns v) \<and> (\<forall>t x. \<exists>v. de_enter env t x = Returns v)"

lemma dependency_edge:
  assumes r: "resolvable ps es env" and e: "map_of ps t = Some e" "pe_shape e \<noteq> VALUE" "pe_func e = Callable qs"
    and p: "p \<in> set qs" "pa_hint p = Some a"
  obtains u d where "a = AType u" "(t, u) \<in> edge_rel es" "map_of ps u = Some d" "scope_value (pe_scope d) \<le> scope_value (pe_scope e)"
proof -
  have "plain_param [''self'', ''payload''] p" using r e p unfolding resolvable_def list_all_iff by blast
  then obtain u where u: "a = AType u" "\<not> is_var p" "pa_name p \<noteq> ''self''" "pa_name p \<noteq> ''payload''"
    using p(2) by (auto simp: plain_param_def)
  obtain ds where ds: "collect_dep_edges (pe_func e) t = Inr ds" "set ds \<subseteq> set es"
    using r e(1,2) unfolding resolvable_def registered_def by blast
  then obtain xs where xs: "walk_params (\<lambda>p a. pa_name p = ''self'' \<or> is_job_context a \<or> pa_name p = ''payload'') qs = Inr xs"
    "ds = map (\<lambda>(u, ov). (t, u, ov)) xs" using e(3) by (auto simp: collect_dep_edges_def bindE_Inr_iff)
  have "(u, None) \<in> set xs" using walk_params_mem[OF xs(1) p(1)] p(2) u by (simp add: is_job_context_def)
  then have m: "(t, u, None) \<in> set es" using xs(2) ds(2) by force
  then have "(t, u) \<in> edge_rel es" by (auto simp: edge_rel_def)
  moreover obtain ea eb where "map_of ps t = Some ea" "map_of ps u = Some eb"
    "scope_value (scope_or None (pe_scope eb)) \<le> scope_value (pe_scope ea)"
    using r m unfolding resolvable_def by (meson scope_violation_None)
  ultimately show thesis using that u(1) e(1) by (simp add: scope_or_def)
qed

section \<open>Resolution ends and succeeds\<close>

declare get_or_create.simps [simp del]

definition ok_get :: "nat \<Rightarrow> 'v di_env \<Rightarrow> Scope set \<Rightarrow> ty \<Rightarrow> bool" where
  "ok_get f env D t \<longleftrightarrow> (\<exists>e. map_of (de_providers env) t = Some e \<and>
     (\<forall>s cs. slot_view env (pe_scope e) t = Inr s \<longrightarrow> dom cs = D \<longrightarrow>
        (\<exists>v cs'. get_or_create f env s t e cs = Some (Inr v, cs') \<and> dom cs' = D)))"

lemma solve_params_ok:
  assumes "\<And>p a. p \<in> set qs \<Longrightarrow> map_of pass (pa_name p) = None \<Longrightarrow> pa_hint p = Some a \<Longrightarrow> \<exists>t. a = AType t \<and> ok_get f env D t"
    and "dom cs = D"
  shows "\<exists>kw' cs'. solve_params f env pass qs kw cs = Some (Inr kw', cs') \<and> dom cs' = D
    \<and> (\<forall>n. map_of kw n \<noteq> None \<longrightarrow> map_of kw' n \<noteq> None) \<and> (\<forall>p \<in> set qs. pa_hint p \<noteq> None \<longrightarrow> map_of kw' (pa_name p) \<noteq> None)"
  using assms
proof (induction qs arbitrary: kw cs)
  case (Cons p qs)
  have ih: "\<exists>kw' cs''. solve_params f env pass qs kw1 cs1 = Some (Inr kw', cs'') \<and> dom cs'' = D
      \<and> (\<forall>n. map_of kw1 n \<noteq> None \<longrightarrow> map_of kw' n \<noteq> None) \<and> (\<forall>p \<in> set qs. pa_hint p \<noteq> None \<longrightarrow> map_of kw' (pa_name p) \<noteq> None)"
    if "dom cs1 = D" for kw1 and cs1 :: "'a containers"
  proof (rule Cons.IH[OF _ that])
    fix q a assume "q \<in> set qs" "map_of pass (pa_name q) = None" "pa_hint q = Some a"
    then show "\<exists>t. a = AType t \<and> ok_get f env D t" using Cons.prems(1)[of q a] by simp
  qed
  have put: "\<exists>kw' cs''. solve_params f env pass qs (dict_put (pa_name p) v kw) cs1 = Some (Inr kw', cs'') \<and> dom cs'' = D
      \<and> (\<forall>n. map_of kw n \<noteq> None \<longrightarrow> map_of kw' n \<noteq> None) \<and> (\<forall>q \<in> set (p # qs). pa_hint q \<noteq> None \<longrightarrow> map_of kw' (pa_name q) \<noteq> None)"
    if D1: "dom cs1 = D" for v and cs1 :: "'a containers"
  proof -
    obtain kw' cs'' where k: "solve_params f env pass qs (dict_put (pa_name p) v kw) cs1 = Some (Inr kw', cs'')" "dom cs'' = D"
      "\<forall>n. map_of (dict_put (pa_name p) v kw) n \<noteq> None \<longrightarrow> map_of kw' n \<noteq> None" "\<forall>q \<in> set qs. pa_hint q \<noteq> None \<longrightarrow> map_of kw' (pa_name q) \<noteq> None"
      using ih[OF D1, of "dict_put (pa_name p) v kw"] by blast
    have "map_of kw' n \<noteq> None" if "n = pa_name p \<or> map_of kw n \<noteq> None" for n
      using k(3)[rule_format, of n] that by (auto simp: map_of_dict_put)
    then show ?thesis using k(1,2,4) by auto
  qed
  show ?case
  proof (cases "pa_hint p")
    case None
    then show ?thesis using ih[OF Cons.prems(2), of kw] by auto
  next
    case (Some a)
    show ?thesis
    proof (cases "map_of pass (pa_name p)")
      case (Some v)
      then show ?thesis using put[OF Cons.prems(2), of v] \<open>pa_hint p = Some a\<close> by simp
    next
      case None
      obtain t where t: "a = AType t" "ok_get f env D t" using Cons.prems(1)[of p a] None Some by auto
      then obtain e where e: "map_of (de_providers env) t = Some e"
        "\<And>s cs. slot_view env (pe_scope e) t = Inr s \<Longrightarrow> dom cs = D \<Longrightarrow>
           \<exists>v cs'. get_or_create f env s t e cs = Some (Inr v, cs') \<and> dom cs' = D"
        unfolding ok_get_def by blast
      show ?thesis
      proof (cases "slot_view env (pe_scope e) t")
        case (Inl v)
        then show ?thesis using put[OF Cons.prems(2), of "Some v"] None Some t(1) e(1)
          by (simp add: lookup_type_def)
      next
        case (Inr s)
        obtain v cs' where v: "get_or_create f env s t e cs = Some (Inr v, cs')" "dom cs' = D"
          using e(2)[OF Inr Cons.prems(2)] by blast
        then show ?thesis using put[OF v(2), of v] None Some t(1) e(1) Inr
          by (simp add: lookup_type_def)
      qed
    qed
  qed
qed simp

lemma dom_keep [simp]: "dom (keep s t v cs) = dom cs"
  by (auto simp: keep_def)

lemma dom_owe [simp]: "dom (owe s t cs) = dom cs"
  by (auto simp: owe_def)

lemma no_unannotated_required:
  assumes "\<forall>p \<in> set qs. pa_hint p \<noteq> None \<longrightarrow> map_of kw (pa_name p) \<noteq> None"
    and "\<And>p. p \<in> set qs \<Longrightarrow> map_of pass (pa_name p) \<noteq> None \<or> plain_param sk p"
  shows "\<not> unannotated_required kw pass qs"
proof
  assume "unannotated_required kw pass qs"
  then obtain p where p: "p \<in> set qs" "pa_name p \<noteq> ''self''" "map_of kw (pa_name p) = None" "map_of pass (pa_name p) = None"
    "\<not> pa_default p" "pa_kind p = PositionalOrKeyword \<or> pa_kind p = KeywordOnly" by (auto simp: unannotated_required_def)
  then have "pa_hint p = None" using assms(1) by blast
  then show False using assms(2)[OF p(1)] p by (auto simp: plain_param_def)
qed

lemma invoke_ok:
  assumes "resolvable ps es env" "map_of ps t = Some e"
  shows "\<exists>v td. invoke (env\<lparr>de_slot := x\<rparr>) t e kw = Inr (v, td)"
proof -
  obtain v where v: "de_call env t kw = Returns v" using assms(1) unfolding resolvable_def by blast
  obtain u where u: "de_enter env t v = Returns u" using assms(1) unfolding resolvable_def by blast
  have "pe_shape e = CLASS \<longrightarrow> pe_lifecycle e \<notin> {Some AsyncGenerator, Some SyncGenerator, Some PlainFactory}"
    using assms unfolding resolvable_def registered_def by fastforce
  then show ?thesis using v u
    by (cases "pe_shape e") (auto simp: invoke_def of_outcome_def split: option.splits ProviderLifecycle.splits)
qed

definition descendants :: "edge list \<Rightarrow> ty \<Rightarrow> ty set" where
  "descendants es t = {u. (t, u) \<in> (edge_rel es)\<^sup>+}"

lemma finite_descendants: "finite (descendants es t)"
proof -
  have "descendants es t \<subseteq> Range (edge_rel es)" by (force simp: descendants_def dest: tranclD2)
  moreover have "Range (edge_rel es) \<subseteq> (fst \<circ> snd) ` set es" by (force simp: edge_rel_def)
  ultimately show ?thesis by (meson finite_imageI finite_set finite_subset)
qed

lemma descendants_less:
  assumes "acyclic (edge_rel es)" "(t, u) \<in> edge_rel es"
  shows "card (descendants es u) < card (descendants es t)"
proof (rule psubset_card_mono[OF finite_descendants])
  have "u \<notin> descendants es u" using assms(1) by (simp add: acyclic_def descendants_def)
  moreover have "u \<in> descendants es t" using assms(2) by (auto simp: descendants_def)
  moreover have "descendants es u \<subseteq> descendants es t" using assms(2) by (auto simp: descendants_def intro: trancl_into_trancl2)
  ultimately show "descendants es u \<subset> descendants es t" by blast
qed

lemma scope_le_TRANSIENT: "scope_value s \<le> scope_value TRANSIENT"
  by (cases s) auto

lemma slot_view_Inr: "slot_view env s t = Inr s' \<Longrightarrow> s' = s \<or> s' = TRANSIENT"
  by (auto simp: slot_view_def split: Scope.splits option.splits prod.splits if_splits)

text \<open>The fuel a type needs is the number of the types it depends on.\<close>

lemma get_or_create_ok:
  assumes r: "resolvable ps es env"
  shows "map_of ps t = Some e \<Longrightarrow> env' = env\<lparr>de_slot := x\<rparr> \<Longrightarrow> s = pe_scope e \<or> s = TRANSIENT
    \<Longrightarrow> {u. scope_value u \<le> scope_value s} \<subseteq> dom cs \<Longrightarrow> card (descendants es t) < f
    \<Longrightarrow> \<exists>v cs'. get_or_create f env' s t e cs = Some (Inr v, cs') \<and> dom cs' = dom cs"
proof (induction f arbitrary: t e env' x s cs)
  case (Suc f)
  obtain c where c: "cs s = Some c" using Suc.prems(4) by blast
  have r': "de_providers (env\<lparr>de_slot := y\<rparr>) = ps" for y using r by (simp add: resolvable_def)
  show ?case
  proof (cases "(\<exists>v. s \<noteq> TRANSIENT \<and> map_of (ct_cache c) t = Some (Some v)) \<or> pe_shape e = VALUE")
    case True
    then show ?thesis using c by (auto simp: get_or_create.simps(1)[of "Suc f"] split: option.splits)
  next
    case False
    then obtain qs where qs: "pe_func e = Callable qs"
      using r Suc.prems(1) unfolding resolvable_def registered_def by blast
    have plain: "plain_param [''self'', ''payload''] p" if "p \<in> set qs" for p
      using r Suc.prems(1) qs that unfolding resolvable_def list_all_iff by blast
    have deps: "\<exists>u. a = AType u \<and> ok_get f (env\<lparr>de_slot := y\<rparr>) D u"
      if p: "p \<in> set qs" "pa_hint p = Some a" and D: "y \<noteq> None \<longrightarrow> D = UNIV" "{u. scope_value u \<le> scope_value (pe_scope e)} \<subseteq> D" for p a y D
    proof -
      obtain u d where u: "a = AType u" "(t, u) \<in> edge_rel es" "map_of ps u = Some d" "scope_value (pe_scope d) \<le> scope_value (pe_scope e)"
        using dependency_edge[OF r Suc.prems(1) _ qs p] False by blast
      have "acyclic (edge_rel es)" using r by (simp add: resolvable_def)
      then have less: "card (descendants es u) < f" using descendants_less u(2) Suc.prems(5) by fastforce
      have "\<exists>v cs'. get_or_create f (env\<lparr>de_slot := y\<rparr>) s' u d cs1 = Some (Inr v, cs') \<and> dom cs' = D"
        if s': "slot_view (env\<lparr>de_slot := y\<rparr>) (pe_scope d) u = Inr s'" and "dom cs1 = D" for s' and cs1 :: "'a containers"
      proof -
        have sc: "s' = pe_scope d \<or> s' = TRANSIENT" by (rule slot_view_Inr[OF s'])
        have av: "{v. scope_value v \<le> scope_value s'} \<subseteq> D"
        proof (cases y)
          case None
          then have "s' = pe_scope d" using s' by (simp add: slot_view_def split: Scope.splits)
          then show ?thesis using D(2) u(4) by auto
        qed (use D in auto)
        have "{v. scope_value v \<le> scope_value s'} \<subseteq> dom cs1" using av that(2) by simp
        from Suc.IH[OF u(3) refl sc this less] show ?thesis unfolding that(2) .
      qed
      then have "ok_get f (env\<lparr>de_slot := y\<rparr>) D u" unfolding ok_get_def r' using u(3) by (intro exI[of _ d]) simp
      then show ?thesis using u(1) by blast
    qed
    let ?run = "if s = TRANSIENT then solve_params f env' [] qs [] cs
      else map_option (\<lambda>(z, cs1). (z, cs1(TRANSIENT := cs TRANSIENT))) (solve_params f (env'\<lparr>de_slot := None\<rparr>) [] qs [] (cs(TRANSIENT := None)))"
    have "\<exists>kw cs1. ?run = Some (Inr kw, cs1) \<and> dom cs1 = dom cs \<and> (\<forall>p \<in> set qs. pa_hint p \<noteq> None \<longrightarrow> map_of kw (pa_name p) \<noteq> None)"
    proof (cases "s = TRANSIENT")
      case True
      have U: "dom cs = UNIV" using Suc.prems(4) True scope_le_TRANSIENT by auto
      have "\<exists>u. a = AType u \<and> ok_get f env' UNIV u" if "p \<in> set qs" "pa_hint p = Some a" for p a
        using deps[OF that, of x UNIV] Suc.prems(2) by simp
      then show ?thesis using solve_params_ok[of qs "[]" f env' UNIV cs "[]"] U True by auto
    next
      case False
      then have s: "s = pe_scope e" using Suc.prems(3) by simp
      let ?D = "dom cs - {TRANSIENT}"
      have "{u. scope_value u \<le> scope_value (pe_scope e)} \<subseteq> ?D" using Suc.prems(4) s False by (cases s) auto
      then have "\<exists>u. a = AType u \<and> ok_get f (env'\<lparr>de_slot := None\<rparr>) ?D u" if "p \<in> set qs" "pa_hint p = Some a" for p a
        using deps[OF that, of None ?D] Suc.prems(2) by simp
      moreover have "dom (cs(TRANSIENT := None)) = ?D" by auto
      ultimately obtain kw cs1 where k: "solve_params f (env'\<lparr>de_slot := None\<rparr>) [] qs [] (cs(TRANSIENT := None)) = Some (Inr kw, cs1)"
        "dom cs1 = ?D" "\<forall>p \<in> set qs. pa_hint p \<noteq> None \<longrightarrow> map_of kw (pa_name p) \<noteq> None"
        using solve_params_ok[of qs "[]" f "env'\<lparr>de_slot := None\<rparr>" ?D "cs(TRANSIENT := None)" "[]"] by auto
      have "dom (cs1(TRANSIENT := cs TRANSIENT)) = dom cs" using k(2) by (auto split: if_splits)
      then show ?thesis using k False by auto
    qed
    then obtain kw cs1 where k: "?run = Some (Inr kw, cs1)" "dom cs1 = dom cs"
      "\<forall>p \<in> set qs. pa_hint p \<noteq> None \<longrightarrow> map_of kw (pa_name p) \<noteq> None" by blast
    have req: "unannotated_required kw [] qs = False" using no_unannotated_required[OF k(3)] plain by blast
    obtain v td where inv: "invoke env' t e kw = Inr (v, td)" using invoke_ok[OF r Suc.prems(1)] Suc.prems(2) by blast
    have miss: "(case (if s = TRANSIENT then None else map_of (ct_cache c) t) of Some (Some v) \<Rightarrow> A v | _ \<Rightarrow> B) = B"
      for A and B :: "((di_error + 'a option) \<times> 'a containers) option"
      using False by (auto split: option.splits)
    have nv: "(pe_shape e = VALUE) = False" using False by simp
    have "get_or_create (Suc f) env' s t e cs = Some (Inr v, keep s t v (if td then owe s t cs1 else cs1))"
      by (simp only: get_or_create.simps(1)[of "Suc f"] c option.case nat.case qs callable.case miss nv if_False k(1)
          prod.case sum.case req inv)
    then show ?thesis using k(2) by auto
  qed
qed simp

lemma fuel_enough:
  assumes "acyclic (edge_rel es)" "scope_violation ps es = None" "map_of ps t = Some e"
  shows "card (descendants es t) < length ps"
proof -
  have "descendants es t \<subseteq> fst ` set ps - {t}"
  proof
    fix u assume u: "u \<in> descendants es t"
    then have "u \<noteq> t" using assms(1) by (auto simp: descendants_def acyclic_def)
    obtain x where "(x, u) \<in> edge_rel es" using u by (auto simp: descendants_def dest: tranclD2)
    then obtain ov where "(x, u, ov) \<in> set es" by (auto simp: edge_rel_def)
    then obtain d where "map_of ps u = Some d" using scope_violation_None[OF assms(2)] by metis
    then show "u \<in> fst ` set ps - {t}" using \<open>u \<noteq> t\<close> by (force dest: map_of_SomeD)
  qed
  then have "card (descendants es t) \<le> card (fst ` set ps - {t})" by (intro card_mono) auto
  moreover have "t \<in> fst ` set ps" using assms(3) by (force dest: map_of_SomeD)
  then have "card (fst ` set ps - {t}) < card (fst ` set ps)" by (intro psubset_card_mono) auto
  moreover have "card (fst ` set ps) \<le> length ps" using card_image_le[of "set ps" fst] card_length[of ps] by (meson finite_set le_trans)
  ultimately show ?thesis by linarith
qed

lemma collect_all_mem: "collect_all_actor_edges as = Inr es \<Longrightarrow> a \<in> set as \<Longrightarrow> \<exists>ds. collect_actor_edges a = Inr ds \<and> set ds \<subseteq> set es"
  by (induction as arbitrary: es) (fastforce simp: bindE_Inr_iff)+


definition demo_di_env :: "nat di_env" where
  "demo_di_env = \<lparr>de_providers = demo_providers, de_call = \<lambda>t kw. Returns (Some (length kw)), de_enter = \<lambda>t x. Returns x, de_slot = None\<rparr>"

definition demo_containers :: "nat containers" where
  "demo_containers s = Some empty_container"


section \<open>Where validation and resolution disagree\<close>

lemma single_edge_acyclic:
  assumes "a \<noteq> b"
  shows "detect_cycles (build_adjacency [(a, b, ov)]) = None"
proof -
  have "(x, x) \<notin> (edge_rel [(a, b, ov)])\<^sup>+" for x
  proof
    assume c: "(x, x) \<in> (edge_rel [(a, b, ov)])\<^sup>+"
    obtain y where "(x, y) \<in> edge_rel [(a, b, ov)]" using c by (meson tranclD)
    moreover obtain z where "(z, x) \<in> edge_rel [(a, b, ov)]" using c by (meson tranclD2)
    ultimately show False using assms by (auto simp: edge_rel_def)
  qed
  then show ?thesis using detect_cycles_correct[of "build_adjacency [(a, b, ov)]"] by (simp add: build_adjacency_rel acyclic_def)
qed

text \<open>
  Validation and resolution read annotations differently.  A factory one
  of whose parameters has a union type with a default contributes no edge, so that the registry validates; the resolution
  refuses the same annotation, so that every request for the type fails.
\<close>
theorem union_parameter_validates_and_fails:
  assumes "pe_shape e \<noteq> VALUE" "pe_func e = Callable [p]" "pa_hint p = Some AOther" "cs s = Some c" "s = TRANSIENT \<or> map_of (ct_cache c) t = None"
  shows "collect_dep_edges (pe_func e) t = Inr []
    \<and> run_validation [(t, e)] [] None None = Inr []
    \<and> (\<exists>cs'. get_or_create (Suc f) env s t e cs = Some (Inl DIError, cs'))"
proof (intro conjI)
  show "collect_dep_edges (pe_func e) t = Inr []"
    using assms by (auto simp: collect_dep_edges_def annotated_dep_def is_job_context_def)
  show "run_validation [(t, e)] [] None None = Inr []"
    by (simp add: run_validation_def detect_cycles_def build_adjacency_def)
  show "\<exists>cs'. get_or_create (Suc f) env s t e cs = Some (Inl DIError, cs')"
    using assms by (auto simp: get_or_create.simps(1)[of "Suc f"] lookup_type_def)
qed

theorem union_parameter_validates_and_fails_witness:
  "run_validation [(''Client'', made_by LOOP [dep ''timeout'' AOther])] [] None None = Inr []
   \<and> (\<exists>cs'. get_or_create 1 demo_di_env LOOP ''Client'' (made_by LOOP [dep ''timeout'' AOther]) demo_containers = Some (Inl DIError, cs'))"
  using union_parameter_validates_and_fails[of "made_by LOOP [dep ''timeout'' AOther]" "dep ''timeout'' AOther" demo_containers LOOP
      empty_container "''Client''" 0 demo_di_env]
  by (simp add: made_by_def dep_def demo_containers_def empty_container_def)



text \<open>
  C25: an override carries a narrow object into a wide scope.  A transient type
  on a loop-scoped one passes validation, and so does an actor that asks for it at the process scope: the scopes
  are compared with those registered.  The resolution then builds the transient type from the loop's object and keeps it in the
  process container, where it outlives the loop.
\<close>
theorem override_launders_scope:
  assumes et: "et = \<lparr>pe_scope = TRANSIENT, pe_value = None, pe_func = Callable [dep n (AType l)], pe_shape = SYNC_CALLABLE, pe_lifecycle = Some PlainFactory\<rparr>"
    and el: "el = \<lparr>pe_scope = LOOP, pe_value = None, pe_func = Callable [], pe_shape = SYNC_CALLABLE, pe_lifecycle = Some PlainFactory\<rparr>"
    and env: "env = \<lparr>de_providers = [(t, et), (l, el)], de_call = call, de_enter = enter, de_slot = None\<rparr>"
    and call: "call l [] = Returns (Some conn)" "call t [(n, Some conn)] = Returns (Some obj)"
    and a: "a = \<lparr>ac_name = nm, ac_func = Callable [dep m (AAnnotated (Some t) [Some PROCESS])], ac_rate_limits = [], ac_reservations = []\<rparr>"
    and names: "t \<noteq> l" "n \<noteq> ''self''" "n \<noteq> ''payload''" "m \<noteq> ''payload''" "m \<noteq> ''ctx''"
  shows "collect_dep_edges (pe_func et) t = Inr [(t, l, None)]
    \<and> (\<exists>pls. run_validation [(t, et), (l, el)] [(t, l, None)] (Some [a]) None = Inr pls)
    \<and> (\<exists>cs' c. solve_dependencies 2 env (ac_func a) [] (\<lambda>_. Some empty_container) = Some (Inr [(m, Some obj)], cs')
         \<and> cs' PROCESS = Some c \<and> map_of (ct_cache c) t = Some (Some obj))"
proof (intro conjI)
  show "collect_dep_edges (pe_func et) t = Inr [(t, l, None)]"
    using et names by (simp add: collect_dep_edges_def dep_def is_var_def is_job_context_def annotated_dep_def)
  have roots: "\<exists>ts. actor_deps_at_scope a s [(t, et), (l, el)] = Inr ts" for s using a by (simp add: actor_deps_at_scope_def)
  have topo: "\<exists>r. topo_sort_for_actor a s [(t, l, None)] [(t, et), (l, el)] = Inr r" for s
  proof -
    obtain ts where "actor_deps_at_scope a s [(t, et), (l, el)] = Inr ts" using roots by blast
    then show ?thesis by (cases "ts = []") (simp_all add: topo_sort_for_actor_def)
  qed
  have plans: "\<exists>pls. plans_of_actor [(t, l, None)] [(t, et), (l, el)] a ss = Inr pls" for ss
  proof (induction ss)
    case (Cons s ss)
    obtain r where "topo_sort_for_actor a s [(t, l, None)] [(t, et), (l, el)] = Inr r" using topo by blast
    moreover obtain rest where "plans_of_actor [(t, l, None)] [(t, et), (l, el)] a ss = Inr rest" using Cons.IH by blast
    ultimately show ?case by simp
  qed simp
  obtain pls where "plans_of_actor [(t, l, None)] [(t, et), (l, el)] a [PROCESS, THREAD, LOOP, TRANSIENT] = Inr pls"
    using plans by blast
  then have "all_plans [(t, l, None)] [(t, et), (l, el)] [a] = Inr pls" by (simp del: plans_of_actor.simps)
  moreover have "collect_all_actor_edges [a] = Inr [(nm, t, Some PROCESS)]"
    using a names by (simp add: collect_actor_edges_def dep_def is_var_def actor_skips_def is_job_context_def annotated_dep_def
        scope_markers_def marker_of_def)
  ultimately show "\<exists>pls. run_validation [(t, et), (l, el)] [(t, l, None)] (Some [a]) None = Inr pls"
    using et el names by (auto simp: run_validation_def scope_or_def single_edge_acyclic simp del: all_plans.simps collect_all_actor_edges.simps)
  show "\<exists>cs' c. solve_dependencies 2 env (ac_func a) [] (\<lambda>_. Some empty_container) = Some (Inr [(m, Some obj)], cs')
         \<and> cs' PROCESS = Some c \<and> map_of (ct_cache c) t = Some (Some obj)"
    using names call unfolding env et el a
    by (auto simp: solve_dependencies_def dep_def lookup_type_def scope_markers_def marker_of_def slot_view_def get_or_create.simps
        empty_container_def unannotated_required_def invoke_def of_outcome_def keep_def eval_nat_numeral)
qed

theorem override_launders_scope_witness:
  "\<exists>cs' c. solve_dependencies 2 \<lparr>de_providers = [(''Repo'', made_by TRANSIENT [dep ''conn'' (AType ''Conn'')]), (''Conn'', made_by LOOP [])],
        de_call = \<lambda>t kw. Returns (Some (length kw)), de_enter = \<lambda>t x. Returns x, de_slot = None\<rparr>
      (Callable [dep ''repo'' (AAnnotated (Some ''Repo'') [Some PROCESS])]) [] (\<lambda>_. Some empty_container) = Some (Inr [(''repo'', Some 1)], cs')
      \<and> cs' PROCESS = Some c \<and> map_of (ct_cache c) ''Repo'' = Some (Some 1)"
  using override_launders_scope[of "made_by TRANSIENT [dep ''conn'' (AType ''Conn'')]" "''conn''" "''Conn''" "made_by LOOP []" _ "''Repo''"
      "\<lambda>t kw. Returns (Some (length kw))" "\<lambda>t x. Returns x" 0 1
      "\<lparr>ac_name = ''a'', ac_func = Callable [dep ''repo'' (AAnnotated (Some ''Repo'') [Some PROCESS])], ac_rate_limits = [], ac_reservations = []\<rparr>"
      "''a''" "''repo''", OF _ _ refl]
  by (simp add: made_by_def)

section \<open>Closing\<close>

text \<open>Every teardown runs, once, last registered first, whatever the others do; a cancellation is not lost.\<close>

lemma aclose_runs_all:
  "aclose run c = ((rev (ct_teardowns c), \<exists>t \<in> set (ct_teardowns c). run t = TeardownCancelled), c\<lparr>ct_teardowns := []\<rparr>)"
proof -
  have "close_teardowns run ts = (ts, \<exists>t \<in> set ts. run t = TeardownCancelled)" for ts
    by (induction ts) auto
  then show ?thesis by (simp add: aclose_def)
qed

text \<open>A factory that returned \<open>None\<close> is called again at the next request.\<close>

lemma none_is_not_cached:
  assumes "cs LOOP = Some c" "map_of (ct_cache c) t = Some None" "pe_shape e = SYNC_CALLABLE" "pe_func e = Callable []"
    "de_call env t [] = Returns (Some v)"
  shows "\<exists>cs'. get_or_create (Suc f) env LOOP t e cs = Some (Inr (Some v), cs')"
  using assms by (auto simp: get_or_create.simps unannotated_required_def invoke_def of_outcome_def)

end
