(* ===== verification/Cursor.thy ===== *)
theory Cursor
  imports Enqueue "HOL-Library.Product_Lexorder"
begin

text \<open>
  Keyset pagination (\<open>backend/_cursor.py\<close>).  An ordering is a list of columns;
  the ORDER BY list, the predicate of a page, the cursor text and the comparison of the in-memory backend are all
  derived from it.  The theory shows that they agree: the rendered predicate selects the rows the comparison puts
  past the cursor, and a cursor reads back as the values it was written from.  SQL is rendered to a syntax of
  conditions whose placeholders are numbered, and these conditions have a meaning on rows.
\<close>

section \<open>Values\<close>

text \<open>
  A \<open>datetime\<close> in UTC by its fields.  Comparing two of them compares the fields
  from the year on.
\<close>

datatype datetime = Datetime (dt_year: nat) (dt_month: nat) (dt_day: nat) (dt_hour: nat) (dt_minute: nat)
  (dt_second: nat) (dt_microsecond: nat)

definition dt_key :: "datetime \<Rightarrow> nat \<times> nat \<times> nat \<times> nat \<times> nat \<times> nat \<times> nat" where
  "dt_key d = (dt_year d, dt_month d, dt_day d, dt_hour d, dt_minute d, dt_second d, dt_microsecond d)"

lemma dt_key_inj: "dt_key a = dt_key b \<longleftrightarrow> a = b"
  by (cases a; cases b) (auto simp: dt_key_def)

instantiation datetime :: linorder
begin
definition less_eq_datetime :: "datetime \<Rightarrow> datetime \<Rightarrow> bool" where
  "less_eq_datetime a b \<longleftrightarrow> dt_key a \<le> dt_key b"
definition less_datetime :: "datetime \<Rightarrow> datetime \<Rightarrow> bool" where
  "less_datetime a b \<longleftrightarrow> dt_key a < dt_key b"
instance
  by standard (auto simp: less_eq_datetime_def less_datetime_def dt_key_inj[symmetric])
end

datatype ColumnKind = KInt | KText | KTs | KUuid

datatype cursor_value = VInt int | VText string | VTs datetime | VUuid uuid

primrec kind_of :: "cursor_value \<Rightarrow> ColumnKind" where
  "kind_of (VInt i) = KInt"
| "kind_of (VText s) = KText"
| "kind_of (VTs t) = KTs"
| "kind_of (VUuid u) = KUuid"

text \<open>A column of an ordering; \<open>'c\<close> is the type of column names.\<close>

record 'c SortColumn =
  sc_name :: 'c
  sc_kind :: ColumnKind
  sc_descending :: bool
  sc_nullable :: bool

datatype cursor_error = CursorValueError | CursorTypeError | CursorSyntaxError

section \<open>The comparison of the in-memory backend\<close>

fun str_lt :: "string \<Rightarrow> string \<Rightarrow> bool" where
  "str_lt _ [] = False"
| "str_lt [] (_ # _) = True"
| "str_lt (a # s) (b # t) = (if (of_char a :: nat) = of_char b then str_lt s t else (of_char a :: nat) < of_char b)"

fun py_lt :: "cursor_value \<Rightarrow> cursor_value \<Rightarrow> cursor_error + bool" where
  "py_lt (VTs x) (VTs y) = Inr (x < y)"
| "py_lt (VUuid x) (VUuid y) = Inr (x < y)"
| "py_lt (VInt x) (VInt y) = Inr (x < y)"
| "py_lt (VText x) (VText y) = Inr (str_lt x y)"
| "py_lt _ _ = Inl CursorTypeError"

fun compare :: "'c SortColumn list \<Rightarrow> cursor_value option list \<Rightarrow> cursor_value option list \<Rightarrow> cursor_error + int" where
  "compare [] [] [] = Inr 0"
| "compare (c # cs) (x # xs) (y # ys) = (case (x, y) of
       (None, None) \<Rightarrow> compare cs xs ys
     | (None, Some _) \<Rightarrow> Inr 1
     | (Some _, None) \<Rightarrow> Inr (- 1)
     | (Some a, Some b) \<Rightarrow> bindE (py_lt a b) (\<lambda>l. if l then Inr (if sc_descending c then 1 else - 1)
         else bindE (py_lt b a) (\<lambda>g. if g then Inr (if sc_descending c then - 1 else 1) else compare cs xs ys)))"
| "compare _ _ _ = Inl CursorValueError"

section \<open>The rendered SQL\<close>

text \<open>
  A term of the ORDER BY list: the column, whether it runs downwards, and the
  NULLS clause, where \<open>Some True\<close> is NULLS LAST.
\<close>

type_synonym 'c order_term = "'c \<times> bool \<times> bool option"

definition order_by_sql :: "'c SortColumn list \<Rightarrow> bool \<Rightarrow> 'c order_term list" where
  "order_by_sql cols forward = map (\<lambda>c. (sc_name c, sc_descending c = forward,
     if sc_nullable c then Some forward else None)) cols"

text \<open>
  A condition: a placeholder is its number, missing where the source would print
  \<open>$None\<close>, with the type of its cast.  In \<open>Tuple\<close> the columns and the placeholders are compared row-wise.
\<close>

datatype cmp_op = OpLt | OpGt

type_synonym placeholder = "nat option \<times> ColumnKind"

datatype 'c cond =
    Cmp 'c cmp_op placeholder
  | Equal 'c placeholder
  | IsNull 'c
  | IsNotNull 'c
  | Tuple "('c \<times> placeholder) list" cmp_op
  | AllOf "'c cond list"
  | AnyOf "'c cond list"

fun slots_of :: "nat \<Rightarrow> cursor_value option list \<Rightarrow> nat option list \<times> cursor_value list" where
  "slots_of k [] = ([], [])"
| "slots_of k (None # vs) = (case slots_of k vs of (ss, ps) \<Rightarrow> (None # ss, ps))"
| "slots_of k (Some v # vs) = (case slots_of (Suc k) vs of (ss, ps) \<Rightarrow> (Some k # ss, v # ps))"

definition op_of :: "bool \<Rightarrow> cmp_op" where
  "op_of descending = (if descending then OpLt else OpGt)"

definition tuple_cmp :: "'c SortColumn list \<Rightarrow> nat option list \<Rightarrow> cmp_op \<Rightarrow> 'c cond" where
  "tuple_cmp cols slots op = (case (cols, slots) of
       ([c], [s]) \<Rightarrow> Cmp (sc_name c) op (s, sc_kind c)
     | _ \<Rightarrow> Tuple (map (\<lambda>(c, s). (sc_name c, s, sc_kind c)) (zip cols slots)) op)"

definition equality_cmp :: "'c SortColumn \<Rightarrow> nat option \<Rightarrow> 'c cond" where
  "equality_cmp c s = (if s = None then IsNull (sc_name c) else Equal (sc_name c) (s, sc_kind c))"

definition strict_cmp :: "'c SortColumn \<Rightarrow> cursor_value option \<Rightarrow> nat option \<Rightarrow> bool \<Rightarrow> bool \<Rightarrow> 'c cond option" where
  "strict_cmp c v s descending forward =
     (if sc_nullable c \<and> v = None then (if forward then None else Some (IsNotNull (sc_name c)))
      else let comparison = Cmp (sc_name c) (op_of descending) (s, sc_kind c)
           in Some (if sc_nullable c \<and> forward then AnyOf [IsNull (sc_name c), comparison] else comparison))"

definition row_wise_sql ::
    "'c SortColumn list \<Rightarrow> cursor_value option list \<Rightarrow> nat option list \<Rightarrow> bool \<Rightarrow> bool \<Rightarrow> 'c cond" where
  "row_wise_sql cols vals slots forward null_tail =
     (let lead = hd cols; op = op_of (sc_descending lead = forward)
      in if sc_nullable lead \<and> hd vals = None then
           (let inside = AllOf [IsNull (sc_name lead), tuple_cmp (tl cols) (tl slots) op]
            in if forward then inside else AnyOf [inside, IsNotNull (sc_name lead)])
         else (let whole = tuple_cmp cols slots op
               in if sc_nullable lead \<and> forward
                  then (if null_tail then AnyOf [IsNull (sc_name lead), whole] else whole)
                  else whole))"

fun lexicographic_terms ::
    "'c cond list \<Rightarrow> 'c SortColumn list \<Rightarrow> cursor_value option list \<Rightarrow> nat option list \<Rightarrow> bool \<Rightarrow> 'c cond list" where
  "lexicographic_terms eqs (c # cs) (v # vs) (s # ss) forward =
     (case strict_cmp c v s (sc_descending c = forward) forward of
        None \<Rightarrow> [] | Some t \<Rightarrow> [AllOf (eqs @ [t])])
     @ lexicographic_terms (eqs @ [equality_cmp c s]) cs vs ss forward"
| "lexicographic_terms _ _ _ _ _ = []"

definition lexicographic_sql ::
    "'c SortColumn list \<Rightarrow> cursor_value option list \<Rightarrow> nat option list \<Rightarrow> bool \<Rightarrow> 'c cond" where
  "lexicographic_sql cols vals slots forward = AnyOf (lexicographic_terms [] cols vals slots forward)"

definition row_wise :: "'c SortColumn list \<Rightarrow> bool" where
  "row_wise cols \<longleftrightarrow> cols \<noteq> [] \<and> list_all (\<lambda>c. sc_descending c = sc_descending (hd cols)) cols
     \<and> \<not> list_ex sc_nullable (tl cols)"

definition sql_after ::
    "'c SortColumn list \<Rightarrow> cursor_value option list \<Rightarrow> nat \<Rightarrow> bool \<Rightarrow> bool \<Rightarrow> cursor_error + 'c cond \<times> cursor_value list" where
  "sql_after cols vals first_param forward null_tail =
     (if length vals \<noteq> length cols then Inl CursorValueError
      else case slots_of first_param vals of (slots, params) \<Rightarrow>
        Inr (if row_wise cols then row_wise_sql cols vals slots forward null_tail
             else lexicographic_sql cols vals slots forward, params))"

section \<open>What the SQL means\<close>

text \<open>
  \<open>accepted\<close>: the text parses, every placeholder is bound, and to a value of its
  cast.  \<open>holds\<close>: the condition is true of a row (a comparison with NULL is not).  The collation \<open>coll\<close> orders text.
\<close>

definition bound :: "nat \<Rightarrow> cursor_value list \<Rightarrow> placeholder \<Rightarrow> cursor_value option" where
  "bound first ps p = (case fst p of None \<Rightarrow> None
     | Some k \<Rightarrow> if first \<le> k \<and> k - first < length ps \<and> kind_of (ps ! (k - first)) = snd p
                then Some (ps ! (k - first)) else None)"

fun accepted :: "nat \<Rightarrow> cursor_value list \<Rightarrow> 'c cond \<Rightarrow> bool" where
  "accepted k ps (Cmp c op p) = (bound k ps p \<noteq> None)"
| "accepted k ps (Equal c p) = (bound k ps p \<noteq> None)"
| "accepted k ps (IsNull c) = True"
| "accepted k ps (IsNotNull c) = True"
| "accepted k ps (Tuple xs op) = (xs \<noteq> [] \<and> list_all (\<lambda>(c, p). bound k ps p \<noteq> None) xs)"
| "accepted k ps (AllOf xs) = (xs \<noteq> [] \<and> list_all (accepted k ps) xs)"
| "accepted k ps (AnyOf xs) = (xs \<noteq> [] \<and> list_all (accepted k ps) xs)"

fun value_lt :: "(string \<Rightarrow> string \<Rightarrow> bool) \<Rightarrow> cursor_value \<Rightarrow> cursor_value \<Rightarrow> bool" where
  "value_lt coll (VInt x) (VInt y) = (x < y)"
| "value_lt coll (VText x) (VText y) = coll x y"
| "value_lt coll (VTs x) (VTs y) = (x < y)"
| "value_lt coll (VUuid x) (VUuid y) = (x < y)"
| "value_lt coll _ _ = False"

definition value_op :: "(string \<Rightarrow> string \<Rightarrow> bool) \<Rightarrow> cmp_op \<Rightarrow> cursor_value \<Rightarrow> cursor_value \<Rightarrow> bool" where
  "value_op coll op x y = (case op of OpLt \<Rightarrow> value_lt coll x y | OpGt \<Rightarrow> value_lt coll y x)"

fun tuple_true :: "(string \<Rightarrow> string \<Rightarrow> bool) \<Rightarrow> cmp_op \<Rightarrow> (cursor_value option \<times> cursor_value option) list \<Rightarrow> bool" where
  "tuple_true coll op ((Some x, Some y) # xs) = (if x = y then tuple_true coll op xs else value_op coll op x y)"
| "tuple_true coll op _ = False"

fun holds :: "(string \<Rightarrow> string \<Rightarrow> bool) \<Rightarrow> nat \<Rightarrow> cursor_value list \<Rightarrow> ('c \<Rightarrow> cursor_value option) \<Rightarrow> 'c cond \<Rightarrow> bool" where
  "holds coll k ps row (Cmp c op p) = (case (row c, bound k ps p) of
       (Some x, Some y) \<Rightarrow> value_op coll op x y | _ \<Rightarrow> False)"
| "holds coll k ps row (Equal c p) = (case (row c, bound k ps p) of (Some x, Some y) \<Rightarrow> x = y | _ \<Rightarrow> False)"
| "holds coll k ps row (IsNull c) = (row c = None)"
| "holds coll k ps row (IsNotNull c) = (row c \<noteq> None)"
| "holds coll k ps row (Tuple xs op) = tuple_true coll op (map (\<lambda>(c, p). (row c, bound k ps p)) xs)"
| "holds coll k ps row (AllOf xs) = list_all (holds coll k ps row) xs"
| "holds coll k ps row (AnyOf xs) = list_ex (holds coll k ps row) xs"

text \<open>
  ORDER BY: the first term on which two rows differ decides; without a NULLS
  clause NULL is above every value.
\<close>

fun sql_before ::
    "(string \<Rightarrow> string \<Rightarrow> bool) \<Rightarrow> 'c order_term list \<Rightarrow> ('c \<Rightarrow> cursor_value option) \<Rightarrow> ('c \<Rightarrow> cursor_value option) \<Rightarrow> bool" where
  "sql_before coll [] r s = True"
| "sql_before coll ((c, desc, nulls) # ts) r s = (case (r c, s c) of
       (None, None) \<Rightarrow> sql_before coll ts r s
     | (None, Some _) \<Rightarrow> (case nulls of Some l \<Rightarrow> \<not> l | None \<Rightarrow> desc)
     | (Some _, None) \<Rightarrow> (case nulls of Some l \<Rightarrow> l | None \<Rightarrow> \<not> desc)
     | (Some x, Some y) \<Rightarrow> if x = y then sql_before coll ts r s
                          else if desc then value_lt coll y x else value_lt coll x y)"

section \<open>The predicate selects the rows past the cursor\<close>

text \<open>Values a column may have, and orderings whose pages are well defined: they end in a column without NULLs.\<close>

definition fits :: "'c SortColumn \<Rightarrow> cursor_value option \<Rightarrow> bool" where
  "fits c v = (case v of None \<Rightarrow> sc_nullable c | Some x \<Rightarrow> kind_of x = sc_kind c)"

definition conforms :: "'c SortColumn list \<Rightarrow> cursor_value option list \<Rightarrow> bool" where
  "conforms = list_all2 fits"

definition pageable :: "'c SortColumn list \<Rightarrow> bool" where
  "pageable cols \<longleftrightarrow> cols \<noteq> [] \<and> \<not> sc_nullable (last cols) \<and> list_all (\<lambda>c. sc_kind c \<noteq> KText) cols"

definition row_key :: "'c SortColumn list \<Rightarrow> ('c \<Rightarrow> cursor_value option) \<Rightarrow> cursor_value option list" where
  "row_key cols row = map (\<lambda>c. row (sc_name c)) cols"

text \<open>The specification: being strictly past a key, forwards or backwards, with NULL after every value.\<close>

fun past :: "bool \<Rightarrow> 'c SortColumn list \<Rightarrow> cursor_value option list \<Rightarrow> cursor_value option list \<Rightarrow> bool" where
  "past forward (c # cs) (x # xs) (y # ys) = (if x = y then past forward cs xs ys else case (x, y) of
       (Some a, Some b) \<Rightarrow> (if sc_descending c = forward then value_lt (\<lambda>_ _. False) a b else value_lt (\<lambda>_ _. False) b a)
     | (None, _) \<Rightarrow> forward
     | (_, None) \<Rightarrow> \<not> forward)"
| "past forward _ _ _ = False"

lemma value_lt_cases:
  assumes "kind_of a = k" "kind_of b = k" "k \<noteq> KText"
  shows "py_lt a b = Inr (value_lt (\<lambda>_ _. False) a b)"
    and "value_lt coll a b = value_lt (\<lambda>_ _. False) a b"
    and "value_lt coll b a \<longleftrightarrow> a \<noteq> b \<and> \<not> value_lt (\<lambda>_ _. False) a b"
  using assms by (cases a; cases b; auto)+

lemma compare_past:
  assumes "conforms cols xs" "conforms cols ys" "list_all (\<lambda>c. sc_kind c \<noteq> KText) cols"
  shows "\<exists>n. compare cols xs ys = Inr n \<and> (0 < n \<longleftrightarrow> past True cols xs ys) \<and> (n < 0 \<longleftrightarrow> past False cols xs ys)"
  using assms unfolding conforms_def
proof (induction cols xs ys rule: compare.induct)
  case (2 c cs x xs y ys)
  have fit: "fits c x" "fits c y" "sc_kind c \<noteq> KText" using 2 by auto
  have IH: "\<exists>n. compare cs xs ys = Inr n \<and> (0 < n \<longleftrightarrow> past True cs xs ys) \<and> (n < 0 \<longleftrightarrow> past False cs xs ys)"
    if "x = None \<and> y = None \<or> (\<exists>a. x = Some a \<and> y = Some a)"
    using that 2 by (auto dest: value_lt_cases(1))
  show ?case
  proof (cases "x = None \<or> y = None")
    case True
    then show ?thesis using IH by (cases x; cases y) auto
  next
    case False
    then obtain a b where ab: "x = Some a" "y = Some b" by auto
    have k: "kind_of a = sc_kind c" "kind_of b = sc_kind c" using fit ab by (auto simp: fits_def)
    note lt = value_lt_cases(1)[OF k fit(3)] value_lt_cases(1)[OF k(2,1) fit(3)]
      value_lt_cases(3)[OF k fit(3), of "\<lambda>_ _. False"]
    show ?thesis
    proof (cases "a = b")
      case True
      then show ?thesis using IH ab lt by auto
    next
      case False
      then show ?thesis using ab lt by auto
    qed
  qed
qed auto

text \<open>Every placeholder is bound to the cursor value of its column.\<close>

fun seam :: "nat \<Rightarrow> cursor_value list \<Rightarrow> 'c SortColumn list \<Rightarrow> cursor_value option list \<Rightarrow> nat option list \<Rightarrow> bool" where
  "seam k ps [] [] [] = True"
| "seam k ps (c # cs) (v # vs) (s # ss) = (bound k ps (s, sc_kind c) = v \<and> (s = None \<longleftrightarrow> v = None) \<and> fits c v \<and> seam k ps cs vs ss)"
| "seam k ps _ _ _ = False"

lemma bound_shift: "bound (Suc k) ps p = Some x \<Longrightarrow> bound k (v # ps) p = Some x"
  by (auto simp: bound_def nth_Cons' Suc_diff_le split: option.splits if_splits)

lemma bound_None_slot [simp]: "bound k ps (None, t) = None"
  by (simp add: bound_def)

lemma seam_shift: "seam (Suc k) ps cs vs ss \<Longrightarrow> seam k (v # ps) cs vs ss"
proof (induction cs arbitrary: vs ss)
  case Nil
  then show ?case by (cases vs; cases ss) auto
next
  case (Cons c cs)
  then obtain w ws t ts where w: "vs = w # ws" "ss = t # ts" by (cases vs; cases ss) auto
  then show ?case using Cons by (cases w) (auto dest: bound_shift)
qed

lemma slots_seam: "conforms cols vals \<Longrightarrow> slots_of k vals = (ss, ps) \<Longrightarrow> seam k ps cols vals ss"
  unfolding conforms_def
proof (induction vals arbitrary: cols k ss ps)
  case (Cons v vals)
  obtain c cs where c: "cols = c # cs" "fits c v" "list_all2 fits cs vals"
    using Cons.prems(1) by (cases cols) auto
  show ?case
  proof (cases v)
    case None
    then show ?thesis using Cons c by (auto split: prod.splits)
  next
    case (Some x)
    obtain ss' ps' where s: "slots_of (Suc k) vals = (ss', ps')" by fastforce
    have "seam (Suc k) ps' cs vals ss'" by (rule Cons.IH[OF c(3) s])
    then show ?thesis using Cons.prems(2) c s Some by (auto simp: bound_def fits_def dest: seam_shift)
  qed
qed auto

lemma seam_length: "seam k ps cs vs ss \<Longrightarrow> length vs = length cs \<and> length ss = length cs"
  by (induction k ps cs vs ss rule: seam.induct) auto

lemma seam_fits: "seam k ps cs vs ss \<Longrightarrow> conforms cs vs"
  unfolding conforms_def by (induction k ps cs vs ss rule: seam.induct) auto

lemma row_key_simps [simp]:
  "row_key [] row = []" "row_key (c # cs) row = row (sc_name c) # row_key cs row"
  by (simp_all add: row_key_def)

text \<open>A row-wise comparison of columns that all run one way and hold no NULL.\<close>

lemma value_op_past:
  assumes "kind_of a = k" "kind_of b = k" "k \<noteq> KText" "a \<noteq> b"
  shows "value_op coll (op_of d) a b = (if d then value_lt (\<lambda>_ _. False) a b else value_lt (\<lambda>_ _. False) b a)"
  using value_lt_cases(2,3)[OF assms(1-3), of coll] value_lt_cases(3)[OF assms(1-3), of "\<lambda>_ _. False"] assms(4)
  by (simp add: value_op_def op_of_def)

lemma tuple_past:
  assumes "seam k ps cs vs ss" "list_all (\<lambda>c. sc_descending c = d \<and> \<not> sc_nullable c \<and> sc_kind c \<noteq> KText) cs"
    "conforms cs (row_key cs row)"
  shows "tuple_true coll (op_of (d = forward)) (map (\<lambda>(c, p). (row c, bound k ps p)) (map (\<lambda>(c, s). (sc_name c, s, sc_kind c)) (zip cs ss)))
    \<longleftrightarrow> past forward cs (row_key cs row) vs"
  using assms
proof (induction k ps cs vs ss rule: seam.induct)
  case (2 k ps c cs v vs s ss)
  obtain y where y: "v = Some y" "kind_of y = sc_kind c" using 2 by (auto simp: fits_def split: option.splits)
  obtain x where x: "row (sc_name c) = Some x" "kind_of x = sc_kind c"
    using 2 by (auto simp: fits_def conforms_def split: option.splits)
  have "sc_kind c \<noteq> KText" "sc_descending c = d" using 2 by auto
  then show ?case using 2 x y value_op_past[OF x(2) y(2), of coll "d = forward"] by (auto simp: conforms_def)
qed auto

lemma tuple_cmp_accepted:
  assumes "seam k ps cs vs ss" "cs \<noteq> []" "None \<notin> set vs"
  shows "accepted k ps (tuple_cmp cs ss op)"
proof -
  have "list_all (\<lambda>(c, p). bound k ps p \<noteq> None) (map (\<lambda>(c, s). (sc_name c, s, sc_kind c)) (zip cs ss))"
    using assms(1,3) by (induction k ps cs vs ss rule: seam.induct) auto
  moreover have "zip cs ss \<noteq> []" using assms seam_length[OF assms(1)] by (cases ss) auto
  ultimately show ?thesis using assms(2) by (auto simp: tuple_cmp_def split: list.splits)
qed

lemma value_op_irrefl: "kind_of x \<noteq> KText \<Longrightarrow> \<not> value_op coll op x x"
  by (cases x; cases op) (auto simp: value_op_def)

lemma bound_kind: "bound k ps (s, t) = Some y \<Longrightarrow> kind_of y = t"
  by (auto simp: bound_def split: option.splits if_splits)

text \<open>A comparison of one column is a row-wise comparison of one field.\<close>

lemma tuple_cmp_true:
  assumes "length ss = length cs" "cs \<noteq> []" "list_all (\<lambda>c. sc_kind c \<noteq> KText) cs"
  shows "holds coll k ps row (tuple_cmp cs ss op)
    \<longleftrightarrow> tuple_true coll op (map (\<lambda>(c, p). (row c, bound k ps p)) (map (\<lambda>(c, s). (sc_name c, s, sc_kind c)) (zip cs ss)))"
proof (cases "\<exists>c. cs = [c]")
  case True
  then obtain c s where c: "cs = [c]" "ss = [s]" using assms(1) by (cases ss) auto
  then have "sc_kind c \<noteq> KText" using assms(3) by simp
  then show ?thesis using c by (auto simp: tuple_cmp_def value_op_irrefl dest: bound_kind split: option.splits)
next
  case False
  then show ?thesis using assms(2) by (auto simp: tuple_cmp_def split: list.splits)
qed

text \<open>The expanded form: one disjunct for each column that can decide.\<close>

lemma equality_cmp_holds:
  assumes "bound k ps (s, sc_kind c) = v" "s = None \<longleftrightarrow> v = None"
  shows "holds coll k ps row (equality_cmp c s) \<longleftrightarrow> row (sc_name c) = v" "accepted k ps (equality_cmp c s)"
  using assms by (auto simp: equality_cmp_def split: option.splits)

lemma strict_cmp_holds:
  assumes "bound k ps (s, sc_kind c) = v" "fits c v" "fits c (row (sc_name c))" "sc_kind c \<noteq> KText"
  shows "(case strict_cmp c v s (sc_descending c = forward) forward of None \<Rightarrow> False | Some t \<Rightarrow> holds coll k ps row t)
      \<longleftrightarrow> row (sc_name c) \<noteq> v \<and> past forward [c] [row (sc_name c)] [v]"
proof -
  have eq: "value_op coll (op_of d) x y \<longleftrightarrow> x \<noteq> y \<and> (if d then value_lt (\<lambda>_ _. False) x y else value_lt (\<lambda>_ _. False) y x)"
    if "kind_of x = sc_kind c" "kind_of y = sc_kind c" for x y d
    using value_op_past[OF that assms(4), of coll d] value_op_irrefl[of x coll "op_of d"] that assms(4) by (cases "x = y") auto
  show "(case strict_cmp c v s (sc_descending c = forward) forward of None \<Rightarrow> False | Some t \<Rightarrow> holds coll k ps row t)
      \<longleftrightarrow> row (sc_name c) \<noteq> v \<and> past forward [c] [row (sc_name c)] [v]"
    using assms by (cases v; cases "row (sc_name c)") (auto simp: strict_cmp_def fits_def eq Let_def)
qed

lemma lexicographic_holds:
  assumes "seam k ps cs vs ss" "conforms cs (row_key cs row)" "list_all (\<lambda>c. sc_kind c \<noteq> KText) cs"
  shows "list_ex (holds coll k ps row) (lexicographic_terms eqs cs vs ss forward)
    \<longleftrightarrow> list_all (holds coll k ps row) eqs \<and> past forward cs (row_key cs row) vs"
  using assms
proof (induction cs arbitrary: eqs vs ss)
  case Nil
  then show ?case by (cases vs; cases ss) auto
next
  case (Cons c cs)
  then obtain v ws s ts where v: "vs = v # ws" "ss = s # ts" by (cases vs; cases ss) auto
  have c: "bound k ps (s, sc_kind c) = v" "s = None \<longleftrightarrow> v = None" "fits c v" "fits c (row (sc_name c))" "sc_kind c \<noteq> KText"
    using Cons.prems v by (auto simp: conforms_def)
  have IH: "list_ex (holds coll k ps row) (lexicographic_terms (eqs @ [equality_cmp c s]) cs ws ts forward)
    \<longleftrightarrow> list_all (holds coll k ps row) eqs \<and> row (sc_name c) = v \<and> past forward cs (row_key cs row) ws"
    using Cons.IH[of ws ts "eqs @ [equality_cmp c s]"] Cons.prems v equality_cmp_holds(1)[OF c(1,2), of coll row]
    by (auto simp: conforms_def)
  have "list_ex (holds coll k ps row) (lexicographic_terms eqs (c # cs) vs ss forward)
    \<longleftrightarrow> list_all (holds coll k ps row) eqs \<and>
        (case strict_cmp c v s (sc_descending c = forward) forward of None \<Rightarrow> False | Some t \<Rightarrow> holds coll k ps row t)
      \<or> list_ex (holds coll k ps row) (lexicographic_terms (eqs @ [equality_cmp c s]) cs ws ts forward)"
    by (simp add: v split: option.split)
  then show ?case unfolding IH strict_cmp_holds[where row = row, OF c(1,3,4,5)] v by auto
qed

lemma lexicographic_accepted:
  assumes "seam k ps cs vs ss" "list_all (accepted k ps) eqs" "list_all (\<lambda>c. sc_kind c \<noteq> KText) cs"
  shows "list_all (accepted k ps) (lexicographic_terms eqs cs vs ss forward)
    \<and> (cs \<noteq> [] \<and> \<not> sc_nullable (last cs) \<longrightarrow> lexicographic_terms eqs cs vs ss forward \<noteq> [])"
  using assms
proof (induction cs arbitrary: eqs vs ss)
  case Nil
  then show ?case by (cases vs; cases ss) auto
next
  case (Cons c cs)
  then obtain v ws s ts where v: "vs = v # ws" "ss = s # ts" by (cases vs; cases ss) auto
  have c: "bound k ps (s, sc_kind c) = v" "s = None \<longleftrightarrow> v = None" "fits c v" "sc_kind c \<noteq> KText"
    using Cons.prems v by auto
  have IH: "list_all (accepted k ps) (lexicographic_terms (eqs @ [equality_cmp c s]) cs ws ts forward)
    \<and> (cs \<noteq> [] \<and> \<not> sc_nullable (last cs) \<longrightarrow> lexicographic_terms (eqs @ [equality_cmp c s]) cs ws ts forward \<noteq> [])"
    using Cons.IH[of ws ts "eqs @ [equality_cmp c s]"] Cons.prems v equality_cmp_holds(2)[OF c(1,2)] by simp
  have t: "accepted k ps t" if "strict_cmp c v s (sc_descending c = forward) forward = Some t" for t
    using that c(1,3) by (cases v) (auto simp: strict_cmp_def fits_def Let_def split: if_splits)
  have "strict_cmp c v s (sc_descending c = forward) forward \<noteq> None" if "\<not> sc_nullable c"
    using that by (simp add: strict_cmp_def Let_def)
  then show ?case using IH Cons.prems(2) t v by (auto split: option.splits)
qed

lemma head_past:
  assumes "sc_kind c \<noteq> KText" "fits c v" "fits c x" "v \<noteq> None" "tuple_true coll (op_of (sc_descending c = forward)) R \<longleftrightarrow> past forward cs xs ys"
  shows "tuple_true coll (op_of (sc_descending c = forward)) ((x, v) # R) \<longleftrightarrow> x \<noteq> None \<and> past forward (c # cs) (x # xs) (v # ys)"
proof (cases x)
  case (Some a)
  obtain y where y: "v = Some y" using assms(4) by auto
  have k: "kind_of a = sc_kind c" "kind_of y = sc_kind c" using assms(2,3) Some y by (auto simp: fits_def)
  show ?thesis using Some y assms(5) value_op_past[OF k assms(1)] by simp
qed simp

lemma row_wise_holds:
  assumes "row_wise cols" "pageable cols" "seam k ps cols vals ss" "conforms cols (row_key cols row)"
  shows "accepted k ps (row_wise_sql cols vals ss forward null_tail)"
    and "holds coll k ps row (row_wise_sql cols vals ss forward null_tail) \<longleftrightarrow> past forward cols (row_key cols row) vals
      \<and> (null_tail \<or> \<not> forward \<or> hd vals = None \<or> row (sc_name (hd cols)) \<noteq> None)"
proof -
  obtain c cs where c: "cols = c # cs" using assms(2) by (cases cols) (auto simp: pageable_def)
  obtain v vs s ts where v: "vals = v # vs" "ss = s # ts" using assms(3) c by (cases vals; cases ss) auto
  have tl: "list_all (\<lambda>d. sc_descending d = sc_descending c \<and> \<not> sc_nullable d \<and> sc_kind d \<noteq> KText) cs"
    using assms(1,2) c by (auto simp: row_wise_def pageable_def list_all_iff list_ex_iff)
  have hd: "sc_kind c \<noteq> KText" "fits c v" "fits c (row (sc_name c))" "seam k ps cs vs ts" "conforms cs (row_key cs row)"
    "bound k ps (s, sc_kind c) = v" "s = None \<longleftrightarrow> v = None"
    using assms(2-4) c v by (auto simp: pageable_def conforms_def)
  have last: "cs \<noteq> []" if "sc_nullable c" using that assms(2) c by (auto simp: pageable_def split: if_splits)
  let ?op = "op_of (sc_descending c = forward)"
  have nonnull: "None \<notin> set vs" using hd(4) tl by (induction k ps cs vs ts rule: seam.induct) (auto simp: fits_def)
  have tail: "holds coll k ps row (tuple_cmp cs ts ?op) \<longleftrightarrow> past forward cs (row_key cs row) vs"
    "accepted k ps (tuple_cmp cs ts ?op)" if "cs \<noteq> []"
    using that nonnull tuple_past[OF hd(4) tl hd(5), of coll forward] tuple_cmp_true[of ts cs coll k ps row ?op] tl seam_length[OF hd(4)]
      tuple_cmp_accepted[OF hd(4) that] by (auto simp: list_all_iff)
  have whole: "accepted k ps (tuple_cmp cols ss ?op)" if "v \<noteq> None"
    using tuple_cmp_accepted[OF assms(3)] that nonnull c v by simp
  have cmp: "holds coll k ps row (tuple_cmp cols ss ?op) \<longleftrightarrow> row (sc_name c) \<noteq> None \<and> past forward cols (row_key cols row) vals" if "v \<noteq> None"
    using that head_past[OF hd(1-3), of coll forward] tuple_past[OF hd(4) tl hd(5), of coll forward] hd(6) c v seam_length[OF assms(3)] assms(2)
    by (auto simp: tuple_cmp_true pageable_def)
  show "accepted k ps (row_wise_sql cols vals ss forward null_tail)"
    using tail last whole hd c v by (auto simp: row_wise_sql_def Let_def fits_def)
  show "holds coll k ps row (row_wise_sql cols vals ss forward null_tail) \<longleftrightarrow> past forward cols (row_key cols row) vals
      \<and> (null_tail \<or> \<not> forward \<or> hd vals = None \<or> row (sc_name (hd cols)) \<noteq> None)"
    using tail(1) last cmp hd(2,3,6,7) c v by (auto simp: row_wise_sql_def Let_def fits_def split: option.splits)
qed

lemma keyset_seam:
  assumes "pageable cols" "conforms cols vals"
  shows "\<exists>c ps. sql_after cols vals k forward null_tail = Inr (c, ps) \<and> (\<forall>row. conforms cols (row_key cols row) \<longrightarrow>
    accepted k ps c \<and> (holds coll k ps row c \<longleftrightarrow> past forward cols (row_key cols row) vals
      \<and> (null_tail \<or> \<not> forward \<or> \<not> row_wise cols \<or> hd vals = None \<or> row (sc_name (hd cols)) \<noteq> None)))"
proof -
  obtain ss ps where s: "slots_of k vals = (ss, ps)" by fastforce
  have seam: "seam k ps cols vals ss" by (rule slots_seam[OF assms(2) s])
  have lex: "accepted k ps (lexicographic_sql cols vals ss forward)"
    "conforms cols (row_key cols row) \<Longrightarrow> holds coll k ps row (lexicographic_sql cols vals ss forward) \<longleftrightarrow> past forward cols (row_key cols row) vals" for row
    using lexicographic_accepted[OF seam, of "[]" forward] lexicographic_holds[OF seam, of row coll "[]" forward] assms(1)
    by (auto simp: lexicographic_sql_def pageable_def)
  show ?thesis
  proof (cases "row_wise cols")
    case True
    then show ?thesis using row_wise_holds[OF True assms(1) seam] seam_length[OF seam] s by (auto simp: sql_after_def)
  next
    case False
    then show ?thesis using lex seam_length[OF seam] s by (auto simp: sql_after_def)
  qed
qed


section \<open>The orderings of jobs\<close>

datatype job_column = Col_id | Col_priority | Col_scheduled_at | Col_created_at | Col_finished_at

datatype JobSortField = SCHEDULED_AT_ASC | CREATED_AT_DESC | FINISHED_AT_DESC

definition sort_column :: "'c \<Rightarrow> ColumnKind \<Rightarrow> bool \<Rightarrow> bool \<Rightarrow> 'c SortColumn" where
  "sort_column name kind descending nullable =
     \<lparr>sc_name = name, sc_kind = kind, sc_descending = descending, sc_nullable = nullable\<rparr>"

definition ID_ASC :: "job_column SortColumn" where
  "ID_ASC = sort_column Col_id KUuid False False"

definition ID_DESC :: "job_column SortColumn" where
  "ID_DESC = sort_column Col_id KUuid True False"

fun ORDERINGS :: "JobSortField \<Rightarrow> job_column SortColumn list" where
  "ORDERINGS SCHEDULED_AT_ASC = [sort_column Col_priority KInt True False, sort_column Col_scheduled_at KTs False False, ID_ASC]"
| "ORDERINGS CREATED_AT_DESC = [sort_column Col_created_at KTs True False, ID_DESC]"
| "ORDERINGS FINISHED_AT_DESC = [sort_column Col_finished_at KTs True True, ID_DESC]"

definition ordering_for :: "JobSortField option \<Rightarrow> job_column SortColumn list" where
  "ordering_for order_by = ORDERINGS (case order_by of None \<Rightarrow> SCHEDULED_AT_ASC | Some f \<Rightarrow> f)"

text \<open>
  A column of a row as the driver reads it: \<open>dt\<close> is its conversion of a
  \<open>timestamptz\<close> to a \<open>datetime\<close>.
\<close>

fun row_reader :: "(timestamptz \<Rightarrow> datetime) \<Rightarrow> job \<Rightarrow> job_column \<Rightarrow> cursor_value option" where
  "row_reader dt j Col_id = Some (VUuid (jid j))"
| "row_reader dt j Col_priority = Some (VInt (priority j))"
| "row_reader dt j Col_scheduled_at = Some (VTs (dt (scheduled_at j)))"
| "row_reader dt j Col_created_at = Some (VTs (dt (created_at j)))"
| "row_reader dt j Col_finished_at = map_option (\<lambda>t. VTs (dt t)) (finished_at j)"

definition values_of :: "(timestamptz \<Rightarrow> datetime) \<Rightarrow> job_column SortColumn list \<Rightarrow> job \<Rightarrow> cursor_value option list" where
  "values_of dt cols j = map (\<lambda>c. row_reader dt j (sc_name c)) cols"

definition compare_rows :: "(timestamptz \<Rightarrow> datetime) \<Rightarrow> job_column SortColumn list \<Rightarrow> job \<Rightarrow> job \<Rightarrow> cursor_error + int" where
  "compare_rows dt cols a b = compare cols (values_of dt cols a) (values_of dt cols b)"

lemmas ordering_defs = ordering_for_def sort_column_def ID_ASC_def ID_DESC_def

lemma values_of_row_key: "values_of dt cols j = row_key cols (row_reader dt j)"
  by (simp add: values_of_def row_key_def)

lemma ordering_pageable: "pageable (ordering_for ob)"
  by (cases ob rule: option.exhaust; cases "the ob") (auto simp: pageable_def ordering_defs)

lemma ordering_conforms: "conforms (ordering_for ob) (values_of dt (ordering_for ob) j)"
  by (cases ob rule: option.exhaust; cases "the ob")
    (auto simp: conforms_def values_of_def ordering_defs fits_def split: option.splits)


section \<open>The cursor text\<close>

text \<open>
  \<open>int(text)\<close>: blanks around the number are dropped, a sign may lead, and single
  underscores may stand between digits.
\<close>

definition is_blank :: "char \<Rightarrow> bool" where
  "is_blank c \<longleftrightarrow> (of_char c :: nat) \<in> {9, 10, 11, 12, 13, 28, 29, 30, 31, 32}"

definition digit_val :: "char \<Rightarrow> nat option" where
  "digit_val c = (let n = of_char c in if 48 \<le> n \<and> n \<le> 57 then Some (n - 48) else None)"

fun int_digits :: "bool \<Rightarrow> nat \<Rightarrow> string \<Rightarrow> nat option" where
  "int_digits after_digit acc [] = (if after_digit then Some acc else None)"
| "int_digits after_digit acc (c # s) = (case digit_val c of
       Some d \<Rightarrow> int_digits True (10 * acc + d) s
     | None \<Rightarrow> if c = CHR ''_'' \<and> after_digit then int_digits False acc s else None)"

definition py_int_text :: "string \<Rightarrow> int option" where
  "py_int_text s = (case rev (dropWhile is_blank (rev (dropWhile is_blank s))) of
       [] \<Rightarrow> None
     | c # t \<Rightarrow> if c = CHR ''-'' then map_option (\<lambda>n. - int n) (int_digits False 0 t)
         else map_option int (int_digits False 0 (if c = CHR ''+'' then t else c # t)))"

definition parse_int4 :: "string \<Rightarrow> cursor_error + int" where
  "parse_int4 s = (case py_int_text s of None \<Rightarrow> Inl CursorValueError
     | Some v \<Rightarrow> if int4_min \<le> v \<and> v \<le> int4_max then Inr v else Inl CursorValueError)"

text \<open>
  \<open>isoformat\<close> of a \<open>datetime\<close> in UTC, and \<open>fromisoformat\<close> on texts of that form: a
  date, a separator, a time with or without a fraction of six digits, and the offset \<open>+00:00\<close>.
\<close>

fun fixed :: "nat \<Rightarrow> nat \<Rightarrow> string" where
  "fixed 0 n = []"
| "fixed (Suc w) n = fixed w (n div 10) @ [char_of (48 + n mod 10)]"

definition isoformat :: "datetime \<Rightarrow> string" where
  "isoformat d = fixed 4 (dt_year d) @ ''-'' @ fixed 2 (dt_month d) @ ''-'' @ fixed 2 (dt_day d) @ ''T''
     @ fixed 2 (dt_hour d) @ '':'' @ fixed 2 (dt_minute d) @ '':'' @ fixed 2 (dt_second d)
     @ (if dt_microsecond d = 0 then [] else ''.'' @ fixed 6 (dt_microsecond d)) @ ''+00:00''"

definition days_in_month :: "nat \<Rightarrow> nat \<Rightarrow> nat" where
  "days_in_month y m = (if m = 2 then (if y mod 4 = 0 \<and> (y mod 100 \<noteq> 0 \<or> y mod 400 = 0) then 29 else 28)
     else if m \<in> {4, 6, 9, 11} then 30 else 31)"

definition valid_datetime :: "datetime \<Rightarrow> bool" where
  "valid_datetime d \<longleftrightarrow> 1 \<le> dt_year d \<and> dt_year d \<le> 9999 \<and> 1 \<le> dt_month d \<and> dt_month d \<le> 12
     \<and> 1 \<le> dt_day d \<and> dt_day d \<le> days_in_month (dt_year d) (dt_month d)
     \<and> dt_hour d < 24 \<and> dt_minute d < 60 \<and> dt_second d < 60 \<and> dt_microsecond d < 1000000"

fun digits_value :: "nat \<Rightarrow> string \<Rightarrow> nat option" where
  "digits_value acc [] = Some acc"
| "digits_value acc (c # s) = (case digit_val c of None \<Rightarrow> None | Some d \<Rightarrow> digits_value (10 * acc + d) s)"

definition eat_number :: "nat \<Rightarrow> string \<Rightarrow> (nat \<times> string) option" where
  "eat_number w s = (if length s < w then None
     else map_option (\<lambda>n. (n, drop w s)) (digits_value 0 (take w s)))"

definition eat :: "char \<Rightarrow> string \<Rightarrow> string option" where
  "eat c s = (case s of x # t \<Rightarrow> if x = c then Some t else None | [] \<Rightarrow> None)"

definition read_date :: "string \<Rightarrow> (nat \<times> nat \<times> nat \<times> string) option" where
  "read_date s = Option.bind (eat_number 4 s) (\<lambda>(y, s). Option.bind (eat CHR ''-'' s) (\<lambda>s.
     Option.bind (eat_number 2 s) (\<lambda>(m, s). Option.bind (eat CHR ''-'' s) (\<lambda>s.
     Option.bind (eat_number 2 s) (\<lambda>(d, s). Some (y, m, d, s))))))"

definition read_time :: "string \<Rightarrow> (nat \<times> nat \<times> nat \<times> string) option" where
  "read_time s = Option.bind (eat_number 2 s) (\<lambda>(h, s). Option.bind (eat CHR '':'' s) (\<lambda>s.
     Option.bind (eat_number 2 s) (\<lambda>(m, s). Option.bind (eat CHR '':'' s) (\<lambda>s.
     Option.bind (eat_number 2 s) (\<lambda>(x, s). Some (h, m, x, s))))))"

definition read_fraction :: "string \<Rightarrow> (nat \<times> string) option" where
  "read_fraction s = (case eat CHR ''.'' s of None \<Rightarrow> Some (0, s) | Some t \<Rightarrow> eat_number 6 t)"

definition fromisoformat :: "string \<Rightarrow> datetime option" where
  "fromisoformat s = Option.bind (read_date s) (\<lambda>(y, mo, d, s).
     Option.bind (case s of [] \<Rightarrow> None | _ # t \<Rightarrow> read_time t) (\<lambda>(h, mi, sec, s).
     Option.bind (read_fraction s) (\<lambda>(us, s).
       let r = Datetime y mo d h mi sec us
       in if s = ''+00:00'' \<and> valid_datetime r then Some r else None)))"

definition format_field :: "cursor_value option \<Rightarrow> string" where
  "format_field v = (case v of None \<Rightarrow> []
     | Some (VTs d) \<Rightarrow> isoformat d
     | Some (VInt i) \<Rightarrow> decimal_int i
     | Some (VUuid u) \<Rightarrow> uuid_text u
     | Some (VText s) \<Rightarrow> s)"

definition parse_field :: "'c SortColumn \<Rightarrow> string \<Rightarrow> cursor_error + cursor_value option" where
  "parse_field c s =
     (if s = [] then (if sc_nullable c then Inr None else Inl CursorValueError)
      else case sc_kind c of
        KInt \<Rightarrow> bindE (parse_int4 s) (\<lambda>i. Inr (Some (VInt i)))
      | KTs \<Rightarrow> (case fromisoformat s of None \<Rightarrow> Inl CursorValueError | Some d \<Rightarrow> Inr (Some (VTs d)))
      | KUuid \<Rightarrow> (case py_uuid s of None \<Rightarrow> Inl CursorValueError | Some u \<Rightarrow> Inr (Some (VUuid u)))
      | KText \<Rightarrow> Inr (Some (VText s)))"

fun join_bars :: "string list \<Rightarrow> string" where
  "join_bars [] = []"
| "join_bars [s] = s"
| "join_bars (s # t # ts) = s @ ''|'' @ join_bars (t # ts)"

fun split_bars :: "nat \<Rightarrow> string \<Rightarrow> string list" where
  "split_bars 0 s = [s]"
| "split_bars (Suc n) s = (case dropWhile (\<lambda>c. c \<noteq> CHR ''|'') s of
       [] \<Rightarrow> [s] | _ # t \<Rightarrow> takeWhile (\<lambda>c. c \<noteq> CHR ''|'') s # split_bars n t)"

fun parse_fields :: "'c SortColumn list \<Rightarrow> string list \<Rightarrow> cursor_error + cursor_value option list" where
  "parse_fields [] [] = Inr []"
| "parse_fields (c # cs) (s # ss) = bindE (parse_field c s) (\<lambda>v. bindE (parse_fields cs ss) (\<lambda>vs. Inr (v # vs)))"
| "parse_fields _ _ = Inl CursorValueError"

definition encode :: "(timestamptz \<Rightarrow> datetime) \<Rightarrow> job_column SortColumn list \<Rightarrow> job \<Rightarrow> string" where
  "encode dt cols j = join_bars (map format_field (values_of dt cols j))"

definition decode :: "'c SortColumn list \<Rightarrow> string \<Rightarrow> cursor_error + cursor_value option list" where
  "decode cols cursor = (let parts = split_bars (length cols - 1) cursor
     in if length parts \<noteq> length cols then Inl CursorValueError else parse_fields cols parts)"

definition encode_job_cursor :: "(timestamptz \<Rightarrow> datetime) \<Rightarrow> job \<Rightarrow> JobSortField option \<Rightarrow> string" where
  "encode_job_cursor dt j order_by = encode dt (ordering_for order_by) j"

definition decode_job_cursor :: "string \<Rightarrow> JobSortField option \<Rightarrow> cursor_error + cursor_value option list" where
  "decode_job_cursor cursor order_by = decode (ordering_for order_by) cursor"

definition encode_cursor :: "int \<Rightarrow> datetime \<Rightarrow> uuid \<Rightarrow> string" where
  "encode_cursor prio sched i = decimal_int prio @ ''|'' @ isoformat sched @ ''|'' @ uuid_text i"

definition decode_cursor :: "string \<Rightarrow> cursor_error + int \<times> datetime \<times> uuid" where
  "decode_cursor cursor = (case split_bars 2 cursor of
       [p, t, u] \<Rightarrow> bindE (parse_int4 p) (\<lambda>prio. case fromisoformat t of
           None \<Rightarrow> Inl CursorValueError
         | Some d \<Rightarrow> (case py_uuid u of None \<Rightarrow> Inl CursorValueError | Some i \<Rightarrow> Inr (prio, d, i)))
     | _ \<Rightarrow> Inl CursorValueError)"

definition encode_batch_cursor :: "datetime \<Rightarrow> uuid \<Rightarrow> string" where
  "encode_batch_cursor created i = isoformat created @ ''|'' @ uuid_text i"

definition decode_batch_cursor :: "string \<Rightarrow> cursor_error + datetime \<times> uuid" where
  "decode_batch_cursor cursor = (case split_bars 1 cursor of
       [t, u] \<Rightarrow> (case fromisoformat t of None \<Rightarrow> Inl CursorValueError
         | Some d \<Rightarrow> (case py_uuid u of None \<Rightarrow> Inl CursorValueError | Some i \<Rightarrow> Inr (d, i)))
     | _ \<Rightarrow> Inl CursorValueError)"

section \<open>A cursor reads back\<close>

lemma digit_val_char [simp]: "digit_val (char_of (48 + n mod 10)) = Some (n mod 10)"
proof -
  have "n mod 10 < 10" by simp
  then have "(of_char (char_of (48 + n mod 10) :: char) :: nat) = 48 + n mod 10" by simp
  then show ?thesis using \<open>n mod 10 < 10\<close> by (simp add: digit_val_def Let_def)
qed

lemma digits_value_append: "digits_value acc (s @ t) = Option.bind (digits_value acc s) (\<lambda>a. digits_value a t)"
  by (induction s arbitrary: acc) (auto split: option.splits)

lemma length_fixed [simp]: "length (fixed w n) = w"
  by (induction w arbitrary: n) auto

lemma digits_fixed: "n < 10 ^ w \<Longrightarrow> digits_value 0 (fixed w n) = Some n"
proof (induction w arbitrary: n)
  case (Suc w)
  then have "n div 10 < 10 ^ w" by (simp add: less_mult_imp_div_less mult.commute)
  then show ?case using Suc.IH by (simp add: digits_value_append)
qed simp

lemma eat_fixed: "n < 10 ^ w \<Longrightarrow> eat_number w (fixed w n @ r) = Some (n, r)"
  by (simp add: eat_number_def digits_fixed)

lemma eat_Cons [simp]: "eat c (x # s) = (if x = c then Some s else None)"
  by (simp add: eat_def)

lemma eat_same: "eat c (c # s) = Some s"
  by simp

lemma days_le: "days_in_month y m \<le> 31"
  by (simp add: days_in_month_def)

lemma fromisoformat_isoformat:
  assumes "valid_datetime d"
  shows "fromisoformat (isoformat d) = Some d"
proof -
  have y: "dt_year d < 10 ^ 4" "dt_month d < 10 ^ 2" "dt_day d < 10 ^ 2" "dt_hour d < 10 ^ 2" "dt_minute d < 10 ^ 2"
    "dt_second d < 10 ^ 2" "dt_microsecond d < 10 ^ 6"
    using assms days_le[of "dt_year d" "dt_month d"] by (auto simp: valid_datetime_def)
  note e = eat_fixed[OF y(1)] eat_fixed[OF y(2)] eat_fixed[OF y(3)] eat_fixed[OF y(4)] eat_fixed[OF y(5)] eat_fixed[OF y(6)] eat_fixed[OF y(7)]
  have d: "Datetime (dt_year d) (dt_month d) (dt_day d) (dt_hour d) (dt_minute d) (dt_second d) (dt_microsecond d) = d" by simp
  let ?fr = "(if dt_microsecond d = 0 then [] else ''.'' @ fixed 6 (dt_microsecond d)) @ ''+00:00''"
  let ?tm = "fixed 2 (dt_hour d) @ '':'' @ fixed 2 (dt_minute d) @ '':'' @ fixed 2 (dt_second d) @ ?fr"
  have "read_fraction ?fr = Some (dt_microsecond d, ''+00:00'')" using e(7) by (simp add: read_fraction_def)
  moreover have "read_time ?tm = Some (dt_hour d, dt_minute d, dt_second d, ?fr)"
    by (simp only: read_time_def e Option.bind.simps prod.case eat_same append.simps)
  moreover have "read_date (isoformat d) = Some (dt_year d, dt_month d, dt_day d, CHR ''T'' # ?tm)"
    by (simp only: read_date_def isoformat_def e Option.bind.simps prod.case eat_same append.simps)
  ultimately show ?thesis using assms by (simp add: fromisoformat_def d Let_def)
qed

lemma int_digits_decimal: "int_digits b 0 (decimal_nat n @ s) = int_digits True n s"
proof (induction n arbitrary: b s rule: decimal_nat.induct)
  case (1 n)
  show ?case
  proof (cases "n < 10")
    case True
    then show ?thesis using digit_val_char[of n] by (simp del: digit_val_char)
  next
    case False
    have "int_digits b 0 (decimal_nat n @ s) = int_digits True (n div 10) (char_of (48 + n mod 10) # s)"
      using False 1[OF False, of b "char_of (48 + n mod 10) # s"] by simp
    then show ?thesis by simp
  qed
qed
declare decimal_nat.simps [simp del]

lemma decimal_nat_digits: "c \<in> set (decimal_nat n) \<Longrightarrow> digit_val c \<noteq> None"
proof (induction n rule: decimal_nat.induct)
  case (1 n)
  show ?case
  proof (cases "n < 10")
    case True
    then have "char_of (48 + n) = (char_of (48 + n mod 10) :: char)" by simp
    then show ?thesis using 1(2) True digit_val_char[of n] by (simp add: decimal_nat.simps[of n] del: digit_val_char)
  next
    case False
    then show ?thesis using 1 by (auto simp: decimal_nat.simps[of n])
  qed
qed

lemma decimal_nat_not_Nil [simp]: "decimal_nat n \<noteq> []"
  by (simp add: decimal_nat.simps[of n])

lemma digit_not_special: "digit_val c \<noteq> None \<Longrightarrow> \<not> is_blank c \<and> c \<noteq> CHR ''-'' \<and> c \<noteq> CHR ''+'' \<and> c \<noteq> CHR ''|''"
  by (auto simp: digit_val_def is_blank_def Let_def split: if_splits)

lemma strip_ends: "s \<noteq> [] \<Longrightarrow> \<not> P (hd s) \<Longrightarrow> \<not> P (last s) \<Longrightarrow> rev (dropWhile P (rev (dropWhile P s))) = s"
proof -
  assume s: "s \<noteq> []" "\<not> P (hd s)" "\<not> P (last s)"
  have a: "dropWhile P s = s" using s by (cases s) auto
  have "dropWhile P (rev s) = rev s" using s by (cases "rev s") (auto simp: last_rev hd_rev[symmetric])
  then show ?thesis using a by simp
qed

lemma parse_int4_decimal:
  assumes "int4_min \<le> i" "i \<le> int4_max"
  shows "parse_int4 (decimal_int i) = Inr i" "CHR ''|'' \<notin> set (decimal_int i)" "decimal_int i \<noteq> []"
proof -
  let ?n = "decimal_nat (nat \<bar>i\<bar>)"
  have int: "decimal_int i = (if i < 0 then CHR ''-'' # ?n else ?n)" by (simp add: decimal_int_def)
  have dig: "\<And>c. c \<in> set ?n \<Longrightarrow> \<not> is_blank c \<and> c \<noteq> CHR ''-'' \<and> c \<noteq> CHR ''+'' \<and> c \<noteq> CHR ''|''"
    using decimal_nat_digits digit_not_special by blast
  have minus: "\<not> is_blank CHR ''-''" by (simp add: is_blank_def)
  have strip: "rev (dropWhile is_blank (rev (dropWhile is_blank (decimal_int i)))) = decimal_int i"
    by (rule strip_ends) (use dig minus in \<open>auto simp: int\<close>)
  obtain c t where c: "?n = c # t" by (cases ?n) auto
  have "int_digits False 0 ?n = Some (nat \<bar>i\<bar>)" using int_digits_decimal[of False "nat \<bar>i\<bar>" "[]"] by simp
  then have "py_int_text (decimal_int i) = Some i"
    unfolding py_int_text_def strip using dig[of c] c by (cases "i < 0") (auto simp: int)
  then show "parse_int4 (decimal_int i) = Inr i" using assms by (simp add: parse_int4_def)
  show "CHR ''|'' \<notin> set (decimal_int i)" "decimal_int i \<noteq> []" using dig[of "CHR ''|''"] by (auto simp: int)
qed

text \<open>Identifiers: the digits of \<open>uuid_text\<close> read back, and nothing else in it is touched.\<close>

declare drop_all.simps [simp del]

lemma hex_char_digit: "hex_char (hex_digit n) = Some (n mod 16)"
proof -
  have "list_all (\<lambda>m. hex_char (''0123456789abcdef'' ! m) = Some m) [0..<16]" by code_simp
  then show ?thesis by (simp add: hex_digit_def list_all_iff)
qed

lemma hex_digit_plain: "c \<in> {CHR ''u'', CHR ''-'', CHR ''{'', CHR ''}'', CHR ''|''} \<Longrightarrow> c \<notin> range hex_digit"
proof
  assume c: "c \<in> {CHR ''u'', CHR ''-'', CHR ''{'', CHR ''}'', CHR ''|''}" "c \<in> range hex_digit"
  then obtain n where "c = hex_digit n" by blast
  then show False using hex_char_digit[of n] c(1) by (auto simp: hex_char_def)
qed

definition hex_digits :: "nat \<Rightarrow> nat \<Rightarrow> string" where
  "hex_digits w u = map (\<lambda>i. hex_digit (u div 16 ^ (w - 1 - i))) [0..<w]"

lemma length_hex_digits: "length (hex_digits w u) = w"
  by (simp add: hex_digits_def)

lemma hex_digits_Suc: "hex_digits (Suc w) u = hex_digits w (u div 16) @ [hex_digit u]"
proof -
  have "u div 16 ^ (w - i) = u div 16 div 16 ^ (w - 1 - i)" if "i < w" for i
  proof -
    have "w - i = Suc (w - 1 - i)" using that by simp
    then show ?thesis by (simp add: div_mult2_eq)
  qed
  then show ?thesis by (simp add: hex_digits_def)
qed

lemma hex_number_append: "hex_number acc (s @ t) = Option.bind (hex_number acc s) (\<lambda>a. hex_number a t)"
  by (induction s arbitrary: acc) (auto split: option.splits)

lemma hex_number_digits: "u < 16 ^ w \<Longrightarrow> hex_number 0 (hex_digits w u) = Some u"
proof (induction w arbitrary: u)
  case (Suc w)
  then have "u div 16 < 16 ^ w" by (simp add: less_mult_imp_div_less mult.commute)
  then show ?case using Suc.IH by (simp add: hex_digits_Suc hex_number_append hex_char_digit)
qed (simp add: hex_digits_def)

lemma drop_all_absent: "x \<in> set pat \<Longrightarrow> x \<notin> set s \<Longrightarrow> drop_all pat s = s"
proof (induction s)
  case (Cons c s)
  have "take (length pat) (c # s) \<noteq> pat" using Cons.prems by (metis in_set_takeD)
  then show ?case using Cons by (subst drop_all.simps) auto
qed (simp add: drop_all.simps)

lemma drop_all_single: "drop_all [x] s = filter (\<lambda>c. c \<noteq> x) s"
proof (induction s)
  case (Cons c s)
  then show ?case by (subst drop_all.simps) auto
qed (simp add: drop_all.simps)

lemma cut_apart: "take 8 h @ take 4 (drop 8 h) @ take 4 (drop 12 h) @ take 4 (drop 16 h) @ drop 20 h = h"
  using take_add[of 8 4 h] take_add[of 12 4 h] take_add[of 16 4 h] append_take_drop_id[of 20 h] by simp

lemma uuid_text_parts:
  shows "filter (\<lambda>c. c \<noteq> CHR ''-'') (uuid_text u) = hex_digits 32 u"
    and "set (uuid_text u) \<subseteq> insert CHR ''-'' (range hex_digit)"
    and "uuid_text u \<noteq> []" "hd (uuid_text u) \<in> range hex_digit" "last (uuid_text u) \<in> range hex_digit"
proof -
  define h where "h = hex_digits 32 u"
  have h: "set h \<subseteq> range hex_digit" "length h = 32" by (auto simp: h_def hex_digits_def)
  have t: "uuid_text u = take 8 h @ ''-'' @ take 4 (drop 8 h) @ ''-'' @ take 4 (drop 12 h) @ ''-'' @ take 4 (drop 16 h) @ ''-'' @ drop 20 h"
    by (simp add: uuid_text_def h_def hex_digits_def Let_def)
  have "filter (\<lambda>c. c \<noteq> CHR ''-'') xs = xs" if "set xs \<subseteq> set h" for xs
    using that h(1) hex_digit_plain[of "CHR ''-''"] by (intro filter_True) blast
  then show "filter (\<lambda>c. c \<noteq> CHR ''-'') (uuid_text u) = hex_digits 32 u"
    using cut_apart[of h] by (simp add: t h_def set_take_subset set_drop_subset order_trans[OF set_take_subset set_drop_subset])
  show "set (uuid_text u) \<subseteq> insert CHR ''-'' (range hex_digit)"
    unfolding t using h(1) by (auto dest!: in_set_takeD in_set_dropD)
  show "uuid_text u \<noteq> []" by (simp add: t)
  have "take 8 h \<noteq> []" "drop 20 h \<noteq> []" using h(2) by auto
  then have "hd (uuid_text u) \<in> set (take 8 h)" "last (uuid_text u) \<in> set (drop 20 h)" 
    using hd_in_set[of "take 8 h"] last_in_set[of "drop 20 h"] by (simp_all add: t del: hd_take last_drop)
  then show "hd (uuid_text u) \<in> range hex_digit" "last (uuid_text u) \<in> range hex_digit"
    using h(1) by (auto dest!: in_set_takeD in_set_dropD)
qed

lemma py_uuid_text:
  assumes "u < 2 ^ 128"
  shows "py_uuid (uuid_text u) = Some u" "CHR ''|'' \<notin> set (uuid_text u)"
proof -
  let ?t = "uuid_text u"
  have out: "c \<notin> set ?t" if "c \<in> {CHR ''u'', CHR ''{'', CHR ''}'', CHR ''|''}" for c
    using that uuid_text_parts(2)[of u] hex_digit_plain[of c] by fast
  have "drop_all ''uuid:'' (drop_all ''urn:'' ?t) = ?t"
    using drop_all_absent[of "CHR ''u''" "''urn:''" ?t] drop_all_absent[of "CHR ''u''" "''uuid:''" ?t] out[of "CHR ''u''"] by simp
  moreover have "strip_braces ?t = ?t"
    unfolding strip_braces_def Let_def by (rule strip_ends) (use uuid_text_parts(3-5)[of u] hex_digit_plain[of "CHR ''{''"] hex_digit_plain[of "CHR ''}''"] in auto)
  moreover have "(16 :: nat) ^ 32 = 2 ^ 128" by simp
  then have "hex_number 0 (hex_digits 32 u) = Some u" using hex_number_digits[of u 32] assms by simp
  ultimately show "py_uuid ?t = Some u"
    by (simp add: py_uuid_def Let_def drop_all_single uuid_text_parts(1) length_hex_digits)
  show "CHR ''|'' \<notin> set ?t" using out by blast
qed

text \<open>Values a cursor can carry.\<close>

fun value_ok :: "cursor_value \<Rightarrow> bool" where
  "value_ok (VInt i) = (int4_min \<le> i \<and> i \<le> int4_max)"
| "value_ok (VTs d) = valid_datetime d"
| "value_ok (VUuid u) = (u < 2 ^ 128)"
| "value_ok (VText s) = False"

lemma fixed_plain: "CHR ''|'' \<notin> set (fixed w n)"
proof (induction w arbitrary: n)
  case (Suc w)
  have "char_of (48 + n mod 10) \<noteq> CHR ''|''" using digit_not_special[of "char_of (48 + n mod 10)"] by simp
  then show ?case using Suc by simp
qed simp

lemma isoformat_plain: "CHR ''|'' \<notin> set (isoformat d)" "isoformat d \<noteq> []"
  using fixed_plain by (simp_all add: isoformat_def)

lemma format_parse:
  assumes "fits c v" "\<And>x. v = Some x \<Longrightarrow> value_ok x"
  shows "parse_field c (format_field v) = Inr v \<and> CHR ''|'' \<notin> set (format_field v)"
proof (cases v)
  case None
  then show ?thesis using assms by (simp add: fits_def parse_field_def format_field_def)
next
  case (Some x)
  then show ?thesis
    using assms isoformat_plain fromisoformat_isoformat parse_int4_decimal py_uuid_text uuid_text_parts(3)
    by (cases x) (auto simp: fits_def parse_field_def format_field_def split: ColumnKind.splits)
qed

lemma split_join:
  assumes "ss \<noteq> []" "\<And>s. s \<in> set ss \<Longrightarrow> CHR ''|'' \<notin> set s"
  shows "split_bars (length ss - 1) (join_bars ss) = ss"
  using assms
proof (induction ss rule: join_bars.induct)
  case (3 s t ts)
  have s: "\<forall>c \<in> set s. c \<noteq> CHR ''|''" using 3(3)[of s] by auto
  then have "dropWhile (\<lambda>c. c \<noteq> CHR ''|'') (s @ CHR ''|'' # r) = CHR ''|'' # r"
    "takeWhile (\<lambda>c. c \<noteq> CHR ''|'') (s @ CHR ''|'' # r) = s" for r
    by (simp_all add: dropWhile_append3 takeWhile_append2)
  then show ?case using 3 by simp
qed auto

lemma parse_formatted:
  assumes "conforms cols vs" "\<And>x. Some x \<in> set vs \<Longrightarrow> value_ok x"
  shows "parse_fields cols (map format_field vs) = Inr vs"
  using assms unfolding conforms_def
proof (induction cols vs rule: list_all2_induct)
  case (Cons c cs v vs)
  have "parse_field c (format_field v) = Inr v" using format_parse[of c v] Cons by auto
  then show ?case using Cons by simp
qed simp

lemma decode_formatted:
  assumes "conforms cols vs" "cols \<noteq> []" "\<And>x. Some x \<in> set vs \<Longrightarrow> value_ok x"
  shows "decode cols (join_bars (map format_field vs)) = Inr vs"
proof -
  have len: "length vs = length cols" using assms(1) by (simp add: conforms_def list_all2_lengthD)
  have plain: "CHR ''|'' \<notin> set (format_field v)" if "v \<in> set vs" for v
  proof -
    obtain i where "i < length vs" "v = vs ! i" using \<open>v \<in> set vs\<close> by (auto simp: in_set_conv_nth)
    then have "fits (cols ! i) v" using assms(1) by (simp add: conforms_def list_all2_conv_all_nth)
    then show ?thesis using format_parse assms(3) that by blast
  qed
  have "split_bars (length (map format_field vs) - 1) (join_bars (map format_field vs)) = map format_field vs"
    by (rule split_join) (use plain assms(2) len in auto)
  then show ?thesis using parse_formatted[OF assms(1,3)] len by (simp add: decode_def Let_def)
qed

lemma values_ok:
  assumes "jid j < 2 ^ 128" "int4_min \<le> priority j" "priority j \<le> int4_max" "\<And>t. valid_datetime (dt t)"
    "Some x \<in> set (values_of dt cols j)"
  shows "value_ok x"
proof -
  obtain c where "row_reader dt j c = Some x" using assms(5) by (auto simp: values_of_def)
  then show ?thesis using assms(1-4) by (cases c) auto
qed

lemma decode_encoded:
  assumes "jid j < 2 ^ 128" "int4_min \<le> priority j" "priority j \<le> int4_max" "\<And>t. valid_datetime (dt t)"
  shows "decode (ordering_for ob) (encode dt (ordering_for ob) j) = Inr (values_of dt (ordering_for ob) j)"
proof -
  have "ordering_for ob \<noteq> []" using ordering_pageable by (simp add: pageable_def)
  then show ?thesis unfolding encode_def
    by (rule decode_formatted[OF ordering_conforms]) (rule values_ok[OF assms])
qed

text \<open>
  C18: a cursor reads back as the sort values of the row it was written from,
  for every ordering; the loose-argument form writes the same text as the default ordering and is read by its own
  decoder, and so is the cursor of batches.
\<close>
theorem cursor_roundtrip:
  assumes "jid j < 2 ^ 128" "int4_min \<le> priority j" "priority j \<le> int4_max" "\<And>t. valid_datetime (dt t)"
  shows "decode_job_cursor (encode_job_cursor dt j ob) ob = Inr (values_of dt (ordering_for ob) j)
    \<and> encode_job_cursor dt j None = encode_cursor (priority j) (dt (scheduled_at j)) (jid j)
    \<and> decode_cursor (encode_job_cursor dt j None) = Inr (priority j, dt (scheduled_at j), jid j)
    \<and> decode_batch_cursor (encode_batch_cursor (dt t) (jid j)) = Inr (dt t, jid j)"
proof -
  have same: "encode_job_cursor dt j None = encode_cursor (priority j) (dt (scheduled_at j)) (jid j)"
    by (simp add: encode_job_cursor_def encode_def encode_cursor_def values_of_def ordering_defs format_field_def)
  note plain = parse_int4_decimal[OF assms(2,3)] isoformat_plain py_uuid_text[OF assms(1)] fromisoformat_isoformat[OF assms(4)]
  have "split_bars 2 (encode_cursor (priority j) (dt (scheduled_at j)) (jid j))
      = [decimal_int (priority j), isoformat (dt (scheduled_at j)), uuid_text (jid j)]"
    using split_join[of "[decimal_int (priority j), isoformat (dt (scheduled_at j)), uuid_text (jid j)]"] plain
    by (auto simp: encode_cursor_def numeral_2_eq_2)
  moreover have "split_bars 1 (encode_batch_cursor (dt t) (jid j)) = [isoformat (dt t), uuid_text (jid j)]"
    using split_join[of "[isoformat (dt t), uuid_text (jid j)]"] plain by (auto simp: encode_batch_cursor_def)
  ultimately show ?thesis
    using decode_encoded[of j dt ob, OF assms] same plain by (simp add: decode_job_cursor_def encode_job_cursor_def decode_cursor_def decode_batch_cursor_def)
qed

theorem cursor_roundtrip_witness:
  "decode_job_cursor (encode_job_cursor (\<lambda>t. Datetime 2024 2 29 23 59 58 (nat (t mod 1000000))) sample_job (Some FINISHED_AT_DESC)) (Some FINISHED_AT_DESC)
     = Inr [None, Some (VUuid 4)]"
proof -
  let ?dt = "\<lambda>t :: int. Datetime 2024 2 29 23 59 58 (nat (t mod 1000000))"
  have m: "nat (t mod 1000000) < 1000000" for t :: int by (simp add: nat_less_iff)
  have "valid_datetime (?dt t)" for t using m[of t] by (simp add: valid_datetime_def days_in_month_def)
  then have "decode_job_cursor (encode_job_cursor ?dt sample_job (Some FINISHED_AT_DESC)) (Some FINISHED_AT_DESC)
      = Inr (values_of ?dt (ordering_for (Some FINISHED_AT_DESC)) sample_job)"
    using cursor_roundtrip[of sample_job ?dt "Some FINISHED_AT_DESC" 0] by (simp add: sample_job_def int4_min_def int4_max_def)
  then show ?thesis by (simp add: values_of_def ordering_defs sample_job_def)
qed

end
