(* ===== verification/Paging.thy ===== *)
theory Paging
  imports Cursor
begin

text \<open>
  Listing jobs: the filter (\<open>backend/_protocol.py\<close>), its conditions
  (\<open>backend/_filter_sql.py\<close>), the two backends' \<open>list_jobs\<close> (\<open>backend/_reads.py\<close> and \<open>testing/_reads.py\<close>) and the
  pages of the client (\<open>client/_jobs.py\<close>).  The backends agree on every filter, and following \<open>next_cursor\<close> ends and
  gives every matching job once, in order.
\<close>

section \<open>The filter\<close>

datatype status_filter = OneStatus job_status | Statuses "job_status list"

record JobFilter =
  f_queue :: "string option"
  f_status :: "status_filter option"
  f_actor :: "string option"
  f_identity_key :: "string option"
  f_batch_id :: "uuid option"
  f_limit :: int
  f_cursor :: "string option"
  f_tags :: "string list option"
  f_order_by :: "JobSortField option"
  f_created_before :: "timestamptz option"
  f_unfinished :: "bool option"

text \<open>
  The checks of the constructor; \<open>active\<close> is the deprecated alias.  The type of
  \<open>f_status\<close> holds known statuses only.
\<close>

definition filter_post_init :: "bool option \<Rightarrow> JobFilter \<Rightarrow> cursor_error + JobFilter" where
  "filter_post_init active f =
     (if active \<noteq> None \<and> f_unfinished f \<noteq> None \<and> active \<noteq> f_unfinished f then Inl CursorValueError
      else let g = (if active \<noteq> None then f\<lparr>f_unfinished := active\<rparr> else f)
        in if f_limit g < 0 then Inl CursorValueError
           else if f_status g \<noteq> None \<and> f_unfinished g \<noteq> None then Inl CursorValueError
           else if pred_option nul_free (f_queue g) \<and> pred_option nul_free (f_actor g)
             \<and> pred_option nul_free (f_identity_key g) \<and> pred_option (list_all nul_free) (f_tags g)
           then Inr g else Inl CursorValueError)"

definition has_predicates :: "JobFilter \<Rightarrow> bool" where
  "has_predicates f \<longleftrightarrow> f_queue f \<noteq> None \<or> f_status f \<noteq> None \<or> f_actor f \<noteq> None \<or> f_identity_key f \<noteq> None
     \<or> f_batch_id f \<noteq> None \<or> (f_tags f \<noteq> None \<and> f_tags f \<noteq> Some []) \<or> f_unfinished f \<noteq> None
     \<or> f_created_before f \<noteq> None"

text \<open>The conditions of the WHERE clause.  Each binds one parameter, which it carries here.\<close>

datatype filter_cond = QueueIs string | StatusIs job_status | StatusAny "job_status set" | ActorIs string
  | IdentityIs string | MetadataHasBatch uuid | TagsOverlap "string list" | CreatedBefore timestamptz

definition build_filter_conditions :: "JobFilter \<Rightarrow> filter_cond list" where
  "build_filter_conditions f =
     (case f_queue f of None \<Rightarrow> [] | Some q \<Rightarrow> [QueueIs q])
     @ (case f_status f of
          Some (OneStatus s) \<Rightarrow> [StatusIs s]
        | Some (Statuses ss) \<Rightarrow> [StatusAny (set ss)]
        | None \<Rightarrow> (case f_unfinished f of None \<Rightarrow> []
            | Some u \<Rightarrow> [StatusAny (if u then ACTIVE_STATUSES else TERMINAL_STATUSES)]))
     @ (case f_actor f of None \<Rightarrow> [] | Some a \<Rightarrow> [ActorIs a])
     @ (case f_identity_key f of None \<Rightarrow> [] | Some k \<Rightarrow> [IdentityIs k])
     @ (case f_batch_id f of None \<Rightarrow> [] | Some b \<Rightarrow> [MetadataHasBatch b])
     @ (case f_tags f of None \<Rightarrow> [] | Some ts \<Rightarrow> if ts = [] then [] else [TagsOverlap ts])
     @ (case f_created_before f of None \<Rightarrow> [] | Some t \<Rightarrow> [CreatedBefore t])"

fun cond_holds :: "job \<Rightarrow> filter_cond \<Rightarrow> bool" where
  "cond_holds j (QueueIs q) = (queue j = q)"
| "cond_holds j (StatusIs s) = (status j = s)"
| "cond_holds j (StatusAny ss) = (status j \<in> ss)"
| "cond_holds j (ActorIs a) = (actor j = a)"
| "cond_holds j (IdentityIs k) = (identity_key j = Some k)"
| "cond_holds j (MetadataHasBatch b) = (metadata j ''batch_id'' = Some (JStr (uuid_text b)))"
| "cond_holds j (TagsOverlap ts) = list_ex (\<lambda>t. t \<in> set ts) (tags j)"
| "cond_holds j (CreatedBefore t) = (created_at j < t)"

section \<open>Sorting\<close>

fun insert_by :: "('a \<Rightarrow> 'a \<Rightarrow> bool) \<Rightarrow> 'a \<Rightarrow> 'a list \<Rightarrow> 'a list" where
  "insert_by le x [] = [x]"
| "insert_by le x (y # ys) = (if le x y then x # y # ys else y # insert_by le x ys)"

definition sort_by :: "('a \<Rightarrow> 'a \<Rightarrow> bool) \<Rightarrow> 'a list \<Rightarrow> 'a list" where
  "sort_by le xs = foldr (insert_by le) xs []"

section \<open>The backends\<close>

text \<open>
  The statement of PostgreSQL: the conditions, then the predicate of the cursor,
  whose placeholders follow those of the conditions, the order, and the limit.
\<close>

definition list_jobs ::
    "(timestamptz \<Rightarrow> datetime) \<Rightarrow> (string \<Rightarrow> string \<Rightarrow> bool) \<Rightarrow> JobFilter \<Rightarrow> job list \<Rightarrow> cursor_error + job list" where
  "list_jobs dt coll f rows =
     (let conditions = build_filter_conditions f; n = length conditions; cols = ordering_for (f_order_by f);
          fetch = (\<lambda>keep. if f_limit f < 0 then Inl CursorSyntaxError
            else Inr (take (nat (f_limit f)) (sort_by (\<lambda>a b. sql_before coll (order_by_sql cols True) (row_reader dt a) (row_reader dt b))
              (filter (\<lambda>j. list_all (cond_holds j) conditions \<and> keep j) rows))))
      in case f_cursor f of
           None \<Rightarrow> fetch (\<lambda>_. True)
         | Some cursor \<Rightarrow> bindE (decode cols cursor) (\<lambda>vals. bindE (sql_after cols vals (n + 1) True True) (\<lambda>(c, params).
             if accepted (n + 1) params c then fetch (\<lambda>j. holds coll (n + 1) params (row_reader dt j) c)
             else Inl CursorSyntaxError)))"

text \<open>
  The in-memory backend.  The comparator of the sort never raises on job rows
  (\<open>compare_rows_total\<close>); a slice with a negative limit counts from the end.
\<close>

definition mem_filter :: "JobFilter \<Rightarrow> job list \<Rightarrow> job list" where
  "mem_filter f rows =
     (let c1 = (case f_queue f of None \<Rightarrow> rows | Some q \<Rightarrow> filter (\<lambda>r. queue r = q) rows);
          c2 = (case f_status f of
              Some (OneStatus s) \<Rightarrow> filter (\<lambda>r. status r = s) c1
            | Some (Statuses ss) \<Rightarrow> filter (\<lambda>r. status r \<in> set ss) c1
            | None \<Rightarrow> (case f_unfinished f of None \<Rightarrow> c1
                | Some u \<Rightarrow> filter (\<lambda>r. status r \<in> (if u then ACTIVE_STATUSES else TERMINAL_STATUSES)) c1));
          c3 = (case f_actor f of None \<Rightarrow> c2 | Some a \<Rightarrow> filter (\<lambda>r. actor r = a) c2);
          c4 = (case f_identity_key f of None \<Rightarrow> c3 | Some k \<Rightarrow> filter (\<lambda>r. identity_key r = Some k) c3);
          c5 = (case f_batch_id f of None \<Rightarrow> c4
              | Some b \<Rightarrow> filter (\<lambda>r. metadata r ''batch_id'' = Some (JStr (uuid_text b))) c4);
          c6 = (case f_tags f of None \<Rightarrow> c5
              | Some ts \<Rightarrow> if ts = [] then c5 else filter (\<lambda>r. set ts \<inter> set (tags r) \<noteq> {}) c5)
      in case f_created_before f of None \<Rightarrow> c6 | Some t \<Rightarrow> filter (\<lambda>r. created_at r < t) c6)"

definition py_prefix :: "int \<Rightarrow> 'a list \<Rightarrow> 'a list" where
  "py_prefix n xs = take (if n < 0 then length xs - nat (- n) else nat n) xs"

definition mem_list_jobs :: "(timestamptz \<Rightarrow> datetime) \<Rightarrow> JobFilter \<Rightarrow> job list \<Rightarrow> cursor_error + job list" where
  "mem_list_jobs dt f rows =
     (let cols = ordering_for (f_order_by f);
          sorted = sort_by (\<lambda>a b. case compare_rows dt cols a b of Inl _ \<Rightarrow> False | Inr n \<Rightarrow> n \<le> 0) (mem_filter f rows)
      in case f_cursor f of
           None \<Rightarrow> Inr (py_prefix (f_limit f) sorted)
         | Some cursor \<Rightarrow> bindE (decode cols cursor) (\<lambda>vals.
             bindE (filterE (\<lambda>r. bindE (compare cols (values_of dt cols r) vals) (\<lambda>n. Inr (0 < n))) sorted)
               (\<lambda>rest. Inr (py_prefix (f_limit f) rest))))"

section \<open>The pages of the client\<close>

definition MAX_JOB_LIST_LIMIT :: int where "MAX_JOB_LIST_LIMIT = 10000"

definition list_page ::
    "(timestamptz \<Rightarrow> datetime) \<Rightarrow> (JobFilter \<Rightarrow> cursor_error + job list) \<Rightarrow> JobFilter \<Rightarrow> cursor_error + job list \<times> string option" where
  "list_page dt backend f =
     (if MAX_JOB_LIST_LIMIT < f_limit f then Inl CursorValueError
      else let probe = (if f_limit f < MAX_JOB_LIST_LIMIT then f\<lparr>f_limit := f_limit f + 1\<rparr> else f)
        in bindE (backend probe) (\<lambda>fetched.
          let rows = py_prefix (f_limit f) fetched
          in Inr (rows, if rows \<noteq> [] \<and> f_limit probe \<le> int (length fetched)
                        then Some (encode_job_cursor dt (last rows) (f_order_by f)) else None)))"

text \<open>A caller that pages until the cursor runs out, with a bound on the number of pages.\<close>

fun all_pages ::
    "nat \<Rightarrow> (timestamptz \<Rightarrow> datetime) \<Rightarrow> (JobFilter \<Rightarrow> cursor_error + job list) \<Rightarrow> JobFilter \<Rightarrow> (cursor_error + job list list) option" where
  "all_pages 0 dt backend f = None"
| "all_pages (Suc k) dt backend f = (case list_page dt backend f of
       Inl e \<Rightarrow> Some (Inl e)
     | Inr (rows, None) \<Rightarrow> Some (Inr [rows])
     | Inr (rows, Some c) \<Rightarrow> map_option (\<lambda>r. bindE r (\<lambda>ps. Inr (rows # ps))) (all_pages k dt backend (f\<lparr>f_cursor := Some c\<rparr>)))"

section \<open>Sorting by a total order\<close>

text \<open>What the sorts rely on, and what follows for filters and pages of a sorted list.\<close>

locale row_order =
  fixes le :: "'a \<Rightarrow> 'a \<Rightarrow> bool"
  assumes le_total: "le a b \<or> le b a"
    and le_trans: "le a b \<Longrightarrow> le b c \<Longrightarrow> le a c"
begin

lemma set_insert_by: "set (insert_by le x ys) = insert x (set ys)"
  by (induction ys) auto

lemma set_sort_by: "set (sort_by le xs) = set xs"
  by (induction xs) (auto simp: sort_by_def set_insert_by)

lemma sorted_insert_by: "sorted_wrt le ys \<Longrightarrow> sorted_wrt le (insert_by le x ys)"
proof (induction ys)
  case (Cons y ys)
  then show ?case using le_total[of x y] by (auto simp: set_insert_by dest: le_trans)
qed simp

lemma sorted_sort_by: "sorted_wrt le (sort_by le xs)"
  by (induction xs) (auto simp: sort_by_def sorted_insert_by)

lemma distinct_sort_by: "distinct xs \<Longrightarrow> distinct (sort_by le xs)"
proof (induction xs)
  case (Cons x xs)
  have "x \<notin> set ys \<Longrightarrow> distinct ys \<Longrightarrow> distinct (insert_by le x ys)" for ys
    by (induction ys) (auto simp: set_insert_by)
  then show ?case using Cons set_sort_by[of xs] by (auto simp: sort_by_def)
qed (simp add: sort_by_def)

lemma insert_by_front: "(\<And>y. y \<in> set ys \<Longrightarrow> le x y) \<Longrightarrow> insert_by le x ys = x # ys"
  by (cases ys) auto

lemma filter_insert_by:
  "sorted_wrt le ys \<Longrightarrow> filter P (insert_by le x ys) = (if P x then insert_by le x (filter P ys) else filter P ys)"
proof (induction ys)
  case (Cons y ys)
  show ?case
  proof (cases "le x y")
    case True
    then have "insert_by le x (filter P ys) = x # filter P ys"
      using Cons.prems by (intro insert_by_front) (auto dest: le_trans)
    then show ?thesis using True by simp
  next
    case False
    then show ?thesis using Cons by simp
  qed
qed simp

lemma filter_sort_by: "filter P (sort_by le xs) = sort_by le (filter P xs)"
proof (induction xs)
  case (Cons x xs)
  then show ?case using filter_insert_by[OF sorted_sort_by[of xs], of P x] by (simp add: sort_by_def)
qed (simp add: sort_by_def)

lemma rest_of_page:
  assumes "sorted_wrt le xs" "distinct xs" "\<And>a b. a \<in> set xs \<Longrightarrow> b \<in> set xs \<Longrightarrow> le a b \<Longrightarrow> le b a \<Longrightarrow> a = b"
    and k: "k < length xs"
  shows "filter (\<lambda>r. \<not> le r (xs ! k)) xs = drop (Suc k) xs"
proof -
  have refl: "le a a" for a using le_total[of a a] by simp
  have "le r (xs ! k)" if "r \<in> set (take (Suc k) xs)" for r
  proof -
    obtain i where i: "i < Suc k" "r = xs ! i" using \<open>r \<in> set (take (Suc k) xs)\<close> k by (auto simp: in_set_conv_nth)
    then show ?thesis using sorted_wrt_nth_less[OF assms(1), of i k] k refl by (cases "i = k") auto
  qed
  moreover have "\<not> le r (xs ! k)" if "r \<in> set (drop (Suc k) xs)" for r
  proof -
    obtain n where "n < length (drop (Suc k) xs)" "r = drop (Suc k) xs ! n" using \<open>r \<in> set (drop (Suc k) xs)\<close> by (auto simp: in_set_conv_nth)
    then have i: "k < Suc k + n" "Suc k + n < length xs" "r = xs ! (Suc k + n)" by simp_all
    then have "le (xs ! k) r" "r \<noteq> xs ! k" using sorted_wrt_nth_less[OF assms(1), of k "Suc k + n"] assms(2) k by (auto simp: nth_eq_iff_index_eq)
    then show ?thesis using assms(3)[of r "xs ! k"] i k by auto
  qed
  ultimately have "filter (\<lambda>r. \<not> le r (xs ! k)) (take (Suc k) xs) = []" "filter (\<lambda>r. \<not> le r (xs ! k)) (drop (Suc k) xs) = drop (Suc k) xs"
    by (auto simp: filter_empty_conv filter_id_conv)
  then show ?thesis using filter_append[of "\<lambda>r. \<not> le r (xs ! k)" "take (Suc k) xs" "drop (Suc k) xs"] by simp
qed

end

section \<open>The order of jobs\<close>

definition row_le :: "(timestamptz \<Rightarrow> datetime) \<Rightarrow> JobSortField option \<Rightarrow> job \<Rightarrow> job \<Rightarrow> bool" where
  "row_le dt ob a b \<longleftrightarrow> \<not> past True (ordering_for ob) (values_of dt (ordering_for ob) a) (values_of dt (ordering_for ob) b)"

abbreviation vlt :: "cursor_value \<Rightarrow> cursor_value \<Rightarrow> bool" where
  "vlt \<equiv> value_lt (\<lambda>_ _. False)"

lemma value_lt_asym: "vlt a b \<Longrightarrow> \<not> vlt b a"
  by (cases a; cases b) auto

lemma value_lt_linear: "kind_of a = kind_of b \<Longrightarrow> kind_of a \<noteq> KText \<Longrightarrow> a = b \<or> vlt a b \<or> vlt b a"
  by (cases a; cases b) auto

lemma value_lt_trans: "vlt a b \<Longrightarrow> vlt b c \<Longrightarrow> vlt a c"
  by (cases a; cases b; cases c) auto

definition past1 :: "bool \<Rightarrow> 'c SortColumn \<Rightarrow> cursor_value option \<Rightarrow> cursor_value option \<Rightarrow> bool" where
  "past1 fw c x y \<longleftrightarrow> past fw [c] [x] [y]"

lemma past_head:
  "past1 fw c x y \<Longrightarrow> \<not> past1 fw c y x \<and> x \<noteq> y"
  "past1 fw c x y \<Longrightarrow> past1 fw c y z \<Longrightarrow> past1 fw c x z"
  by (cases x; cases y; cases z; auto simp: past1_def dest: value_lt_asym value_lt_trans split: if_splits)+

lemma past_head_linear:
  "fits c x \<Longrightarrow> fits c y \<Longrightarrow> sc_kind c \<noteq> KText \<Longrightarrow> x = y \<or> past1 fw c x y \<or> past1 fw c y x"
  using value_lt_linear[of "the x" "the y"] by (cases x; cases y) (auto simp: past1_def fits_def)

lemma past_Cons: "past fw (c # cs) (x # xs) (y # ys) \<longleftrightarrow> (x = y \<and> past fw cs xs ys) \<or> past1 fw c x y"
  by (simp add: past1_def)

lemma past_asym: "past fw cols xs ys \<Longrightarrow> \<not> past fw cols ys xs"
proof (induction fw cols xs ys rule: past.induct)
  case (1 fw c cs x xs y ys)
  then show ?case unfolding past_Cons using past_head(1) by blast
qed auto

lemma past_neg_trans:
  assumes "conforms cols xs" "conforms cols ys" "conforms cols zs" "list_all (\<lambda>c. sc_kind c \<noteq> KText) cols"
    "\<not> past fw cols xs ys" "\<not> past fw cols ys zs"
  shows "\<not> past fw cols xs zs"
  using assms unfolding conforms_def
proof (induction cols arbitrary: xs ys zs)
  case (Cons c cs)
  obtain x xs' y ys' z zs' where l: "xs = x # xs'" "ys = y # ys'" "zs = z # zs'"
    using Cons.prems(1-3) by (auto simp: list_all2_Cons1)
  have fit: "fits c x" "fits c y" "fits c z" "sc_kind c \<noteq> KText" using Cons.prems l by auto
  have IH: "\<not> past fw cs xs' ys' \<Longrightarrow> \<not> past fw cs ys' zs' \<Longrightarrow> \<not> past fw cs xs' zs'"
    using Cons.IH[of xs' ys' zs'] Cons.prems l by simp
  have n: "\<not> past1 fw c x y" "\<not> past1 fw c y z" "x = y \<Longrightarrow> \<not> past fw cs xs' ys'" "y = z \<Longrightarrow> \<not> past fw cs ys' zs'"
    using Cons.prems(5,6) unfolding l past_Cons by blast+
  have "x = y \<or> past1 fw c y x" "y = z \<or> past1 fw c z y"
    using past_head_linear[OF fit(1,2,4), of fw] past_head_linear[OF fit(2,3,4), of fw] n(1,2) by blast+
  then show ?case unfolding l past_Cons using n IH past_head by metis
qed simp

lemma past_antisym:
  assumes "conforms cols xs" "conforms cols ys" "list_all (\<lambda>c. sc_kind c \<noteq> KText) cols"
    "\<not> past fw cols xs ys" "\<not> past fw cols ys xs"
  shows "xs = ys"
  using assms unfolding conforms_def
proof (induction cols arbitrary: xs ys)
  case (Cons c cs)
  obtain x xs' y ys' where l: "xs = x # xs'" "ys = y # ys'" using Cons.prems(1,2) by (auto simp: list_all2_Cons1)
  have "fits c x" "fits c y" "sc_kind c \<noteq> KText" using Cons.prems l by auto
  then have "x = y" using Cons.prems(4,5) past_head_linear[of c x y fw] unfolding l past_Cons by blast
  then show ?case using Cons l by simp
qed simp

lemma ordering_plain: "list_all (\<lambda>c. sc_kind c \<noteq> KText) (ordering_for ob)"
  using ordering_pageable by (simp add: pageable_def)

interpretation jobs_order: row_order "row_le dt ob" for dt ob
proof unfold_locales
  show "row_le dt ob a b \<or> row_le dt ob b a" for a b unfolding row_le_def using past_asym by blast
  show "row_le dt ob a c" if "row_le dt ob a b" "row_le dt ob b c" for a b c
    using past_neg_trans[OF ordering_conforms ordering_conforms ordering_conforms ordering_plain] that unfolding row_le_def by blast
qed

lemma row_le_unique:
  assumes "row_le dt ob a b" "row_le dt ob b a"
  shows "jid a = jid b"
proof -
  have "values_of dt (ordering_for ob) a = values_of dt (ordering_for ob) b"
    using past_antisym[OF ordering_conforms ordering_conforms ordering_plain] assms unfolding row_le_def by blast
  then have "last (values_of dt (ordering_for ob) a) = last (values_of dt (ordering_for ob) b)" by simp
  then show ?thesis by (cases ob rule: option.exhaust; cases "the ob") (auto simp: values_of_def ordering_defs)
qed

text \<open>The two sorts use this order.\<close>

lemma compare_rows_total:
  "\<exists>n. compare_rows dt (ordering_for ob) a b = Inr n \<and> (n \<le> 0 \<longleftrightarrow> row_le dt ob a b) \<and> (n < 0 \<longleftrightarrow> \<not> row_le dt ob b a)"
proof -
  obtain n where n: "compare_rows dt (ordering_for ob) a b = Inr n"
    "0 < n \<longleftrightarrow> past True (ordering_for ob) (values_of dt (ordering_for ob) a) (values_of dt (ordering_for ob) b)"
    "n < 0 \<longleftrightarrow> past False (ordering_for ob) (values_of dt (ordering_for ob) a) (values_of dt (ordering_for ob) b)"
    using compare_past[OF ordering_conforms ordering_conforms ordering_plain] unfolding compare_rows_def by blast
  obtain m where m: "compare_rows dt (ordering_for ob) b a = Inr m"
    "0 < m \<longleftrightarrow> past True (ordering_for ob) (values_of dt (ordering_for ob) b) (values_of dt (ordering_for ob) a)"
    using compare_past[OF ordering_conforms ordering_conforms ordering_plain] unfolding compare_rows_def by blast
  have "past False cols xs ys \<longleftrightarrow> past True cols ys xs" for cols :: "job_column SortColumn list" and xs ys
  proof (induction "False" cols xs ys rule: past.induct)
    case (1 c cs x xs y ys)
    then show ?case by (cases x; cases y) auto
  qed auto
  then show ?thesis using n m(2) unfolding row_le_def by (auto simp: not_less)
qed

lemma sql_before_past:
  assumes "conforms cols (row_key cols r)" "conforms cols (row_key cols s)" "list_all (\<lambda>c. sc_kind c \<noteq> KText) cols"
  shows "sql_before coll (order_by_sql cols True) r s \<longleftrightarrow> \<not> past True cols (row_key cols r) (row_key cols s)"
  using assms
proof (induction cols)
  case (Cons c cs)
  have fit: "fits c (r (sc_name c))" "fits c (s (sc_name c))" "sc_kind c \<noteq> KText" using Cons.prems by (auto simp: conforms_def)
  have IH: "sql_before coll (order_by_sql cs True) r s \<longleftrightarrow> \<not> past True cs (row_key cs r) (row_key cs s)"
    using Cons by (simp add: conforms_def)
  show ?case
  proof (cases "r (sc_name c) = None \<or> s (sc_name c) = None")
    case True
    then show ?thesis using IH fit by (auto simp: order_by_sql_def fits_def split: option.splits)
  next
    case False
    then obtain x y where xy: "r (sc_name c) = Some x" "s (sc_name c) = Some y" by auto
    have k: "kind_of x = sc_kind c" "kind_of y = sc_kind c" using fit xy by (auto simp: fits_def)
    show ?thesis using xy IH value_lt_cases(2)[OF k fit(3), of coll] value_lt_cases(3)[OF k fit(3), of coll]
        value_lt_cases(3)[OF k fit(3), of "\<lambda>_ _. False"]
      by (auto simp: order_by_sql_def)
  qed
qed (simp add: order_by_sql_def)

lemma order_by_row_le: "sql_before coll (order_by_sql (ordering_for ob) True) (row_reader dt a) (row_reader dt b) = row_le dt ob a b"
  using sql_before_past[OF _ _ ordering_plain] ordering_conforms[of ob dt] unfolding row_le_def values_of_row_key by blast

text \<open>The conditions of the statement and the successive filters of the in-memory backend.\<close>

lemma filter_option:
  assumes "\<And>j a. P a j = cond_holds j (C a)"
  shows "(case x of None \<Rightarrow> c | Some a \<Rightarrow> filter (P a) c) = filter (\<lambda>j. list_all (cond_holds j) (case x of None \<Rightarrow> [] | Some a \<Rightarrow> [C a])) c"
  using assms by (cases x) (auto intro!: filter_cong)

lemma mem_filter_conditions: "mem_filter f rows = filter (\<lambda>j. list_all (cond_holds j) (build_filter_conditions f)) rows"
proof -
  have tags: "(case f_tags f of None \<Rightarrow> c | Some ts \<Rightarrow> if ts = [] then c else filter (\<lambda>r. set ts \<inter> set (tags r) \<noteq> {}) c)
    = filter (\<lambda>j. list_all (cond_holds j) (case f_tags f of None \<Rightarrow> [] | Some ts \<Rightarrow> if ts = [] then [] else [TagsOverlap ts])) c" for c
    by (auto simp: list_ex_iff split: option.splits intro!: filter_cong)
  have st: "(case f_status f of
              Some (OneStatus s) \<Rightarrow> filter (\<lambda>r. status r = s) c
            | Some (Statuses ss) \<Rightarrow> filter (\<lambda>r. status r \<in> set ss) c
            | None \<Rightarrow> (case f_unfinished f of None \<Rightarrow> c
                | Some u \<Rightarrow> filter (\<lambda>r. status r \<in> (if u then ACTIVE_STATUSES else TERMINAL_STATUSES)) c))
    = filter (\<lambda>j. list_all (cond_holds j) (case f_status f of
          Some (OneStatus s) \<Rightarrow> [StatusIs s]
        | Some (Statuses ss) \<Rightarrow> [StatusAny (set ss)]
        | None \<Rightarrow> (case f_unfinished f of None \<Rightarrow> []
            | Some u \<Rightarrow> [StatusAny (if u then ACTIVE_STATUSES else TERMINAL_STATUSES)]))) c" for c
    by (auto split: option.splits status_filter.splits)
  note q = filter_option[where P = "\<lambda>q r. queue r = q" and C = QueueIs and x = "f_queue f"] filter_option[where P = "\<lambda>a r. actor r = a" and C = ActorIs and x = "f_actor f"]
    filter_option[where P = "\<lambda>k r. identity_key r = Some k" and C = IdentityIs and x = "f_identity_key f"]
    filter_option[where P = "\<lambda>b r. metadata r ''batch_id'' = Some (JStr (uuid_text b))" and C = MetadataHasBatch and x = "f_batch_id f"]
    filter_option[where P = "\<lambda>t r. created_at r < t" and C = CreatedBefore and x = "f_created_before f"]
  show ?thesis
    unfolding mem_filter_def Let_def build_filter_conditions_def st tags
    by (simp add: q filter_filter list_all_append conj_ac cong: filter_cong)
qed

lemma parse_fields_conform: "parse_fields cols ss = Inr vs \<Longrightarrow> conforms cols vs"
  unfolding conforms_def
proof (induction cols ss arbitrary: vs rule: parse_fields.induct)
  case (2 c cs s ss)
  obtain v ws where v: "parse_field c s = Inr v" "parse_fields cs ss = Inr ws" "vs = v # ws"
    using 2(2) by (auto simp: bindE_Inr_iff)
  have "fits c v"
    using v(1) by (auto simp: parse_field_def fits_def bindE_Inr_iff split: if_splits ColumnKind.splits option.splits)
  then show ?case using 2(1)[OF v(2)] v(3) by simp
qed auto

lemma decode_conforms: "decode cols cursor = Inr vs \<Longrightarrow> conforms cols vs"
  using parse_fields_conform by (auto simp: decode_def Let_def split: if_splits)

lemma filterE_pure: "(\<And>x. x \<in> set xs \<Longrightarrow> p x = Inr (q x)) \<Longrightarrow> filterE p xs = Inr (filter q xs)"
  by (induction xs) auto

text \<open>The matching jobs in their order, and the jobs a cursor leaves.\<close>

definition matching :: "(timestamptz \<Rightarrow> datetime) \<Rightarrow> JobFilter \<Rightarrow> job list \<Rightarrow> job list" where
  "matching dt f rows = sort_by (row_le dt (f_order_by f)) (filter (\<lambda>j. list_all (cond_holds j) (build_filter_conditions f)) rows)"

lemma list_jobs_first: "f_cursor f = None \<Longrightarrow> 0 \<le> f_limit f \<Longrightarrow> list_jobs dt coll f rows = Inr (take (nat (f_limit f)) (matching dt f rows))"
  by (simp add: list_jobs_def matching_def order_by_row_le Let_def)

lemma list_jobs_cursor:
  assumes "f_cursor f = Some cursor" "0 \<le> f_limit f" "decode (ordering_for (f_order_by f)) cursor = Inr vals"
  shows "list_jobs dt coll f rows = Inr (take (nat (f_limit f))
    (filter (\<lambda>j. past True (ordering_for (f_order_by f)) (values_of dt (ordering_for (f_order_by f)) j) vals) (matching dt f rows)))"
proof -
  let ?cols = "ordering_for (f_order_by f)" and ?k = "length (build_filter_conditions f) + 1"
  let ?b = "\<lambda>j. list_all (cond_holds j) (build_filter_conditions f)"
  obtain c ps where c: "sql_after ?cols vals ?k True True = Inr (c, ps)"
    "\<And>row. conforms ?cols (row_key ?cols row) \<Longrightarrow> accepted ?k ps c \<and> (holds coll ?k ps row c \<longleftrightarrow> past True ?cols (row_key ?cols row) vals)"
    using keyset_seam[OF ordering_pageable decode_conforms[OF assms(3)], of ?k True True coll] by auto
  have h: "accepted ?k ps c" "holds coll ?k ps (row_reader dt j) c \<longleftrightarrow> past True ?cols (values_of dt ?cols j) vals" for j
    using c(2)[of "row_reader dt j"] ordering_conforms[of "f_order_by f" dt j] unfolding values_of_row_key by blast+
  have "list_jobs dt coll f rows = Inr (take (nat (f_limit f)) (sort_by (row_le dt (f_order_by f))
      (filter (\<lambda>j. ?b j \<and> past True ?cols (values_of dt ?cols j) vals) rows)))"
    using assms(1-3) c(1) h by (simp add: list_jobs_def Let_def order_by_row_le)
  also have "filter (\<lambda>j. ?b j \<and> past True ?cols (values_of dt ?cols j) vals) rows
      = filter (\<lambda>j. past True ?cols (values_of dt ?cols j) vals) (filter ?b rows)"
    by (simp add: conj_commute)
  finally show ?thesis unfolding matching_def jobs_order.filter_sort_by .
qed

lemma mem_sort_order: "sort_by (\<lambda>a b. case compare_rows dt (ordering_for ob) a b of Inl _ \<Rightarrow> False | Inr n \<Rightarrow> n \<le> 0) = sort_by (row_le dt ob)"
proof -
  have "(case compare_rows dt (ordering_for ob) a b of Inl _ \<Rightarrow> False | Inr n \<Rightarrow> n \<le> 0) = row_le dt ob a b" for a b
    using compare_rows_total[of dt ob a b] by auto
  then show ?thesis by presburger
qed


definition demo_filter :: JobFilter where
  "demo_filter = \<lparr>f_queue = Some ''q'', f_status = None, f_actor = None, f_identity_key = None, f_batch_id = None,
     f_limit = 1, f_cursor = None, f_tags = None, f_order_by = Some FINISHED_AT_DESC, f_created_before = None,
     f_unfinished = None\<rparr>"

definition demo_rows :: "job list" where
  "demo_rows = [sample_job, sample_job\<lparr>jid := 5, finished_at := Some 7\<rparr>, sample_job\<lparr>jid := 6, finished_at := Some 9\<rparr>]"

definition demo_dt :: "timestamptz \<Rightarrow> datetime" where
  "demo_dt t = Datetime 2024 2 29 23 59 58 (nat (t mod 1000000))"


section \<open>Following the cursor\<close>

lemma matching_facts:
  assumes "distinct (map jid rows)"
  shows "sorted_wrt (row_le dt (f_order_by f)) (matching dt f rows)" "distinct (matching dt f rows)"
    "set (matching dt f rows) = {j \<in> set rows. list_all (cond_holds j) (build_filter_conditions f)}"
    "inj_on jid (set (matching dt f rows))"
proof -
  show set: "set (matching dt f rows) = {j \<in> set rows. list_all (cond_holds j) (build_filter_conditions f)}"
    by (auto simp: matching_def jobs_order.set_sort_by)
  show "sorted_wrt (row_le dt (f_order_by f)) (matching dt f rows)" by (simp add: matching_def jobs_order.sorted_sort_by)
  show "distinct (matching dt f rows)"
    using assms by (auto simp: matching_def distinct_map intro: jobs_order.distinct_sort_by distinct_filter)
  show "inj_on jid (set (matching dt f rows))" using assms set by (auto simp: distinct_map intro: inj_on_subset)
qed

lemma matching_strict:
  assumes "distinct (map jid rows)"
  shows "sorted_wrt (\<lambda>a b. \<exists>n < 0. compare_rows dt (ordering_for (f_order_by f)) a b = Inr n) (matching dt f rows)"
  unfolding sorted_wrt_iff_nth_less
proof (intro allI impI)
  let ?m = "matching dt f rows"
  note facts = matching_facts[OF assms, of dt f]
  fix i j assume ij: "i < j" "j < length ?m"
  have le: "row_le dt (f_order_by f) (?m ! i) (?m ! j)" by (rule sorted_wrt_nth_less[OF facts(1) ij])
  have "\<not> row_le dt (f_order_by f) (?m ! j) (?m ! i)"
  proof
    assume "row_le dt (f_order_by f) (?m ! j) (?m ! i)"
    then have "?m ! i = ?m ! j" using inj_onD[OF facts(4)] row_le_unique[OF le] ij by simp
    then show False using facts(2) ij by (simp add: nth_eq_iff_index_eq)
  qed
  then show "\<exists>n < 0. compare_rows dt (ordering_for (f_order_by f)) (?m ! i) (?m ! j) = Inr n"
    using compare_rows_total[of dt "f_order_by f" "?m ! i" "?m ! j"] by auto
qed

text \<open>A filter whose cursor stands before position \<open>p\<close> of the matching jobs.\<close>

definition at_position :: "(timestamptz \<Rightarrow> datetime) \<Rightarrow> JobFilter \<Rightarrow> job list \<Rightarrow> nat \<Rightarrow> JobFilter" where
  "at_position dt f rows p = f\<lparr>f_cursor := if p = 0 then None
     else Some (encode_job_cursor dt (matching dt f rows ! (p - 1)) (f_order_by f))\<rparr>"

definition cursor_rows :: "job list \<Rightarrow> bool" where
  "cursor_rows rows \<longleftrightarrow> distinct (map jid rows)
     \<and> list_all (\<lambda>j. jid j < 2 ^ 128 \<and> int4_min \<le> priority j \<and> priority j \<le> int4_max) rows"

lemma matching_update [simp]: "matching dt (f\<lparr>f_cursor := c\<rparr>) rows = matching dt f rows" "matching dt (f\<lparr>f_limit := l\<rparr>) rows = matching dt f rows"
  by (cases "f_status f"; simp add: matching_def build_filter_conditions_def)+

lemma list_jobs_position:
  assumes "cursor_rows rows" "\<And>t. valid_datetime (dt t)" "p \<le> length (matching dt f rows)" "0 \<le> l"
  shows "list_jobs dt coll ((at_position dt f rows p)\<lparr>f_limit := l\<rparr>) rows = Inr (take (nat l) (drop p (matching dt f rows)))"
proof (cases p)
  case 0
  then show ?thesis using assms(4) by (simp add: at_position_def list_jobs_first)
next
  case (Suc i)
  let ?m = "matching dt f rows" and ?o = "ordering_for (f_order_by f)"
  have i: "i < length ?m" using assms(3) Suc by simp
  note facts = matching_facts[of rows dt f]
  have "?m ! i \<in> set rows" using facts(3) assms(1) nth_mem[OF i] by (simp add: cursor_rows_def)
  then have j: "jid (?m ! i) < 2 ^ 128" "int4_min \<le> priority (?m ! i)" "priority (?m ! i) \<le> int4_max"
    using assms(1) by (auto simp: cursor_rows_def list_all_iff)
  have dec: "decode ?o (encode dt ?o (?m ! i)) = Inr (values_of dt ?o (?m ! i))" by (rule decode_encoded[OF j assms(2)])
  have rest: "filter (\<lambda>j. \<not> row_le dt (f_order_by f) j (?m ! i)) ?m = drop (Suc i) ?m"
  proof (rule jobs_order.rest_of_page[OF facts(1) facts(2) _ i])
    show "a = b" if "a \<in> set ?m" "b \<in> set ?m" "row_le dt (f_order_by f) a b" "row_le dt (f_order_by f) b a" for a b
      using row_le_unique[OF that(3,4)] inj_onD[OF facts(4) _ that(1,2)] assms(1) by (simp add: cursor_rows_def)
  qed (use assms(1) in \<open>simp_all add: cursor_rows_def\<close>)
  let ?f = "(at_position dt f rows p)\<lparr>f_limit := l\<rparr>"
  have "list_jobs dt coll ?f rows = Inr (take (nat l) (filter (\<lambda>j. past True ?o (values_of dt ?o j) (values_of dt ?o (?m ! i))) ?m))"
    using list_jobs_cursor[of ?f "encode dt ?o (?m ! i)" "values_of dt ?o (?m ! i)" dt coll rows] dec assms(4) Suc
    by (simp add: at_position_def encode_job_cursor_def)
  then show ?thesis using rest Suc by (simp add: row_le_def)
qed

lemma take_nat_Suc: "0 \<le> l \<Longrightarrow> take (nat l) (take (nat (l + 1)) xs) = take (nat l) xs"
  by (simp add: nat_add_distrib min_def)

text \<open>One page of the client from a position, and whether there is another.\<close>

lemma list_page_position:
  assumes "cursor_rows rows" "\<And>t. valid_datetime (dt t)" "p \<le> length (matching dt f rows)" "1 \<le> f_limit f" "f_limit f \<le> MAX_JOB_LIST_LIMIT"
  defines "n \<equiv> nat (f_limit f)" and "m \<equiv> matching dt f rows"
  defines "next_page \<equiv> if f_limit f < MAX_JOB_LIST_LIMIT then p + n < length m else p + n \<le> length m"
  shows "list_page dt (\<lambda>f. list_jobs dt coll f rows) (at_position dt f rows p)
    = Inr (take n (drop p m), if next_page then Some (encode_job_cursor dt (m ! (p + n - 1)) (f_order_by f)) else None)"
proof -
  let ?f = "at_position dt f rows p"
  have fields: "f_limit ?f = f_limit f" "f_order_by ?f = f_order_by f" by (simp_all add: at_position_def)
  have same: "?f\<lparr>f_limit := f_limit f\<rparr> = ?f" by (cases f) (simp add: at_position_def)
  have n: "1 \<le> n" "f_limit f = int n" using assms(4) by (auto simp: n_def)
  have last: "last (take n (drop p m)) = m ! (p + n - 1)" if "p + n \<le> length m"
  proof -
    have "length (take n (drop p m)) = n" using that by simp
    then show ?thesis using that n(1) by (subst last_conv_nth) auto
  qed
  have ne: "take n (drop p m) \<noteq> [] \<longleftrightarrow> p < length m" using n(1) by auto
  show ?thesis
  proof (cases "f_limit f < MAX_JOB_LIST_LIMIT")
    case True
    have "list_jobs dt coll (?f\<lparr>f_limit := f_limit f + 1\<rparr>) rows = Inr (take (Suc n) (drop p m))"
      using list_jobs_position[OF assms(1-3), of "f_limit f + 1" coll] n by (simp add: m_def nat_add_distrib)
    moreover have "take n (take (Suc n) (drop p m)) = take n (drop p m)" by simp
    ultimately show ?thesis using True last n ne fields
      by (auto simp: list_page_def Let_def py_prefix_def next_page_def)
  next
    case False
    then have "nat MAX_JOB_LIST_LIMIT = n" "f_limit f = MAX_JOB_LIST_LIMIT" using assms(5) n(2) by auto
    moreover have "list_jobs dt coll ?f rows = Inr (take n (drop p m))"
      using list_jobs_position[OF assms(1-3), of "f_limit f" coll] n same by (simp add: m_def)
    ultimately show ?thesis using last n ne fields
      by (auto simp: list_page_def Let_def py_prefix_def next_page_def)
  qed
qed

lemma all_pages_position:
  assumes "cursor_rows rows" "\<And>t. valid_datetime (dt t)" "1 \<le> f_limit f" "f_limit f \<le> MAX_JOB_LIST_LIMIT"
    and "p \<le> length (matching dt f rows)" "length (matching dt f rows) - p < k"
  shows "\<exists>ps. all_pages k dt (\<lambda>f. list_jobs dt coll f rows) (at_position dt f rows p) = Some (Inr ps)
    \<and> concat ps = drop p (matching dt f rows)
    \<and> (f_limit f < MAX_JOB_LIST_LIMIT \<and> p < length (matching dt f rows) \<longrightarrow> [] \<notin> set ps)"
  using assms(5,6)
proof (induction k arbitrary: p)
  case (Suc k)
  let ?m = "matching dt f rows" and ?n = "nat (f_limit f)" and ?b = "\<lambda>f. list_jobs dt coll f rows"
  let ?next = "if f_limit f < MAX_JOB_LIST_LIMIT then p + ?n < length ?m else p + ?n \<le> length ?m"
  note page = list_page_position[OF assms(1,2) Suc.prems(1) assms(3,4), of coll]
  have n: "0 < ?n" using assms(3) by simp
  show ?case
  proof (cases ?next)
    case True
    then have le: "p + ?n \<le> length ?m" by (auto split: if_splits)
    have lt: "length ?m - (p + ?n) < k" using Suc.prems(2) n le by linarith
    obtain ps where ps: "all_pages k dt ?b (at_position dt f rows (p + ?n)) = Some (Inr ps)" "concat ps = drop (p + ?n) ?m"
      "f_limit f < MAX_JOB_LIST_LIMIT \<and> p + ?n < length ?m \<longrightarrow> [] \<notin> set ps"
      using Suc.IH[OF le] lt by blast
    have cur: "(at_position dt f rows p)\<lparr>f_cursor := Some (encode_job_cursor dt (?m ! (p + ?n - 1)) (f_order_by f))\<rparr> = at_position dt f rows (p + ?n)"
      using n by (simp add: at_position_def)
    have "all_pages (Suc k) dt ?b (at_position dt f rows p) = Some (Inr (take ?n (drop p ?m) # ps))"
      using page True ps(1) cur by simp
    moreover have "concat (take ?n (drop p ?m) # ps) = drop p ?m"
      using ps(2) append_take_drop_id[of ?n "drop p ?m"] by (simp add: add.commute)
    moreover have "take ?n (drop p ?m) \<noteq> []" if "p < length ?m" using n that by simp
    ultimately show ?thesis using ps(3) True by auto
  next
    case False
    then have "length ?m - p \<le> ?n" by (auto split: if_splits)
    moreover have "all_pages (Suc k) dt ?b (at_position dt f rows p) = Some (Inr [take ?n (drop p ?m)])" using page False by simp
    ultimately show ?thesis using n by auto
  qed
qed simp

declare all_pages.simps [simp del]

text \<open>
  C15: paging is complete.  Over an unchanged table, a caller that follows
  \<open>next_cursor\<close> from the first page until it runs out stops, and the pages it got, put together, are all jobs that match
  the filter, each once and strictly in the order of the comparison, whatever the limit, the order and the predicates.
  Below the largest limit no page is empty unless nothing matches.
\<close>
theorem paging_complete:
  assumes "cursor_rows rows" "\<And>t. valid_datetime (dt t)" "1 \<le> f_limit f" "f_limit f \<le> MAX_JOB_LIST_LIMIT" "f_cursor f = None"
  shows "\<exists>ps. all_pages (Suc (length rows)) dt (\<lambda>f. list_jobs dt coll f rows) f = Some (Inr ps)
    \<and> set (concat ps) = {j \<in> set rows. list_all (cond_holds j) (build_filter_conditions f)}
    \<and> sorted_wrt (\<lambda>a b. \<exists>n < 0. compare_rows dt (ordering_for (f_order_by f)) a b = Inr n) (concat ps)
    \<and> (f_limit f < MAX_JOB_LIST_LIMIT \<and> concat ps \<noteq> [] \<longrightarrow> [] \<notin> set ps)"
proof -
  let ?m = "matching dt f rows"
  have d: "distinct (map jid rows)" using assms(1) by (simp add: cursor_rows_def)
  note facts = matching_facts[OF d, of dt f]
  have "length ?m = card (set ?m)" using facts(2) by (simp add: distinct_card)
  also have "\<dots> \<le> card (set rows)" using facts(3) by (intro card_mono) auto
  also have "\<dots> \<le> length rows" by (rule card_length)
  finally have "length ?m \<le> length rows" .
  then obtain ps where ps: "all_pages (Suc (length rows)) dt (\<lambda>f. list_jobs dt coll f rows) (at_position dt f rows 0) = Some (Inr ps)"
    "concat ps = ?m" "f_limit f < MAX_JOB_LIST_LIMIT \<and> 0 < length ?m \<longrightarrow> [] \<notin> set ps"
    using all_pages_position[where dt = dt and p = 0 and k = "Suc (length rows)" and coll = coll, OF assms(1-4)] by auto
  have f: "at_position dt f rows 0 = f" using assms(5) by (simp add: at_position_def)
  show ?thesis using ps facts(3) matching_strict[OF d, of dt f] f by (intro exI[of _ ps]) simp
qed

lemma demo_pages:
  "cursor_rows demo_rows" "valid_datetime (demo_dt t)" "1 \<le> f_limit demo_filter" "f_limit demo_filter < MAX_JOB_LIST_LIMIT"
  "f_cursor demo_filter = None"
  "{j \<in> set demo_rows. list_all (cond_holds j) (build_filter_conditions demo_filter)} = set demo_rows"
proof -
  show "cursor_rows demo_rows" by (simp add: cursor_rows_def demo_rows_def sample_job_def int4_min_def int4_max_def)
  have "nat (t mod 1000000) < 1000000" by (simp add: nat_less_iff)
  then show "valid_datetime (demo_dt t)" by (simp add: demo_dt_def valid_datetime_def days_in_month_def)
  show "1 \<le> f_limit demo_filter" "f_limit demo_filter < MAX_JOB_LIST_LIMIT" "f_cursor demo_filter = None"
    by (simp_all add: demo_filter_def MAX_JOB_LIST_LIMIT_def)
  have "list_all (\<lambda>j. list_all (cond_holds j) (build_filter_conditions demo_filter)) demo_rows"
    by (simp add: demo_rows_def build_filter_conditions_def demo_filter_def sample_job_def)
  then show "{j \<in> set demo_rows. list_all (cond_holds j) (build_filter_conditions demo_filter)} = set demo_rows"
    unfolding list_all_iff by blast
qed

theorem paging_complete_witness:
  "\<exists>ps. all_pages (Suc (length demo_rows)) demo_dt (\<lambda>f. list_jobs demo_dt (\<lambda>_ _. False) f demo_rows) demo_filter = Some (Inr ps)
    \<and> set (concat ps) = set demo_rows \<and> [] \<notin> set ps"
proof -
  obtain ps where ps: "all_pages (Suc (length demo_rows)) demo_dt (\<lambda>f. list_jobs demo_dt (\<lambda>_ _. False) f demo_rows) demo_filter = Some (Inr ps)"
    "set (concat ps) = {j \<in> set demo_rows. list_all (cond_holds j) (build_filter_conditions demo_filter)}"
    "f_limit demo_filter < MAX_JOB_LIST_LIMIT \<and> concat ps \<noteq> [] \<longrightarrow> [] \<notin> set ps"
    using paging_complete[where dt = demo_dt and coll = "\<lambda>_ _. False", OF demo_pages(1,2,3) less_imp_le[OF demo_pages(4)] demo_pages(5)] by blast
  have s: "set (concat ps) = set demo_rows" using ps(2) demo_pages(6) by simp
  have "set (concat ps) \<noteq> {}" unfolding s by (simp add: demo_rows_def)
  then have "concat ps \<noteq> []" by force
  then have "[] \<notin> set ps" using ps(3) demo_pages(4) by blast
  then show ?thesis using ps(1) s by blast
qed

end
