(* ===== verification/Bulk_Cancel.thy ===== *)
theory Bulk_Cancel
  imports Paging Sweeps
begin

text \<open>
  The bulk cancel (\<open>backend/_cancel_bulk.py\<close>): two statements, one for queued and
  one for running jobs, each drained in committed batches behind a keyset cursor, in up to three rounds.  Other sessions
  commit before each batch and between the snapshot of a statement and its UPDATE.
\<close>

section \<open>The model\<close>

datatype bulk_error = BulkValueError | BulkDeadlock

text \<open>
  What surrounds the batches, by their number: what other sessions commit before
  it (\<open>bi_env\<close>) and inside it, between snapshot and UPDATE (\<open>bi_mid\<close>), how often it deadlocks (\<open>bi_deadlocks\<close>), and
  the clock readings of its statements for each job (\<open>bi_clk\<close>: 0 the UPDATE, 1 and 2 the event inserts).
\<close>

record bulk_io =
  bi_env :: "nat \<Rightarrow> db \<Rightarrow> db"
  bi_mid :: "nat \<Rightarrow> db \<Rightarrow> db"
  bi_deadlocks :: "nat \<Rightarrow> nat"
  bi_clk :: "nat \<Rightarrow> nat \<Rightarrow> uuid \<Rightarrow> timestamptz"

definition window :: "(job \<Rightarrow> bool) \<Rightarrow> uuid \<Rightarrow> nat \<Rightarrow> db \<Rightarrow> job list" where
  "window p cursor n d = take n (sort_key jid (filter (\<lambda>j. p j \<and> cursor < jid j) (jobs d)))"

text \<open>Rows of the window that still pass the statement's own condition when the UPDATE meets them.\<close>

definition rechecked :: "(job \<Rightarrow> bool) \<Rightarrow> job list \<Rightarrow> db \<Rightarrow> job list" where
  "rechecked p win d = filter (\<lambda>w. list_ex (\<lambda>j. jid j = jid w \<and> p j) (jobs d)) win"

definition cr_detail :: "string option \<Rightarrow> jobj" where
  "cr_detail reason = jsonb_strip_nulls (jsonb_build_object [(''reason'', json_text reason)])"

definition cancel_ps_set :: "timestamptz \<Rightarrow> job \<Rightarrow> job" where
  "cancel_ps_set t j = j\<lparr>status := Cancelled, finished_at := Some t, error_class := Some CANCEL_ORIGIN_PENDING\<rparr>"

definition cancel_running_set :: "timestamptz \<Rightarrow> job \<Rightarrow> job" where
  "cancel_running_set t j = j\<lparr>cancel_requested_at := Some t, cancel_phase := 1\<rparr>"

definition running_uncancelled :: "job \<Rightarrow> bool" where
  "running_uncancelled j \<longleftrightarrow> status j = Running \<and> cancel_phase j = 0"

definition matches :: "filter_cond list \<Rightarrow> job \<Rightarrow> bool" where
  "matches conds j \<longleftrightarrow> list_all (cond_holds j) conds"

text \<open>
  A batch of either statement: the size of its window, the greatest id in it, the
  rows it changed as the snapshot had them, and the state after the events.
\<close>

type_synonym batch = "nat \<Rightarrow> uuid \<Rightarrow> nat \<Rightarrow> db \<Rightarrow> nat \<times> uuid option \<times> job list \<times> db"

definition last_id :: "job list \<Rightarrow> uuid option" where
  "last_id win = (if win = [] then None else Some (jid (last win)))"

definition cancel_ps_batch :: "bulk_io \<Rightarrow> filter_cond list \<Rightarrow> string option \<Rightarrow> batch" where
  "cancel_ps_batch io conds reason b cursor n d =
     (let d0 = bi_env io b d;
          win = window (\<lambda>j. matches conds j \<and> queued (status j)) cursor n d0;
          d1 = bi_mid io b d0;
          hits = rechecked (\<lambda>j. queued (status j)) win d1;
          d2 = d1\<lparr>jobs := upd_where (\<lambda>j. jid j \<in> jid ` set hits \<and> queued (status j))
                            (\<lambda>j. cancel_ps_set (bi_clk io b 0 (jid j)) j) (jobs d1)\<rparr>
      in (length win, last_id win, hits,
          if hits = [] then d2
          else insert_events_batch (bi_clk io b 2) ''cancel_request'' (map (\<lambda>w. (jid w, cr_detail reason)) hits)
                 (insert_events_batch (bi_clk io b 1) ''state_change''
                    (map (\<lambda>w. (jid w, state_change_detail (status_text (status w)) ''cancelled'' [])) hits) d2)))"

definition cancel_running_batch :: "bulk_io \<Rightarrow> filter_cond list \<Rightarrow> string option \<Rightarrow> batch" where
  "cancel_running_batch io conds reason b cursor n d =
     (let d0 = bi_env io b d;
          win = window (\<lambda>j. matches conds j \<and> running_uncancelled j) cursor n d0;
          d1 = bi_mid io b d0;
          hits = rechecked running_uncancelled win d1;
          d2 = d1\<lparr>jobs := upd_where (\<lambda>j. jid j \<in> jid ` set hits \<and> running_uncancelled j)
                            (\<lambda>j. cancel_running_set (bi_clk io b 0 (jid j)) j) (jobs d1)\<rparr>
      in (length win, last_id win, hits,
          if hits = [] then d2
          else insert_events_batch (bi_clk io b 1) ''cancel_request'' (map (\<lambda>w. (jid w, cr_detail reason)) hits) d2))"

text \<open>
  The drain: a batch that deadlocks three times raises; a full window moves the
  cursor to its greatest id and asks again.  It returns the changed rows, the number of the next batch and the state;
  \<open>fuel\<close> bounds the number of batches.
\<close>

fun drain_cancel_batches ::
    "nat \<Rightarrow> batch \<Rightarrow> (nat \<Rightarrow> nat) \<Rightarrow> nat \<Rightarrow> nat \<Rightarrow> uuid \<Rightarrow> job list \<Rightarrow> db \<Rightarrow> ((bulk_error + job list \<times> nat) \<times> db) option" where
  "drain_cancel_batches 0 stmt dead n b cursor acc d = None"
| "drain_cancel_batches (Suc k) stmt dead n b cursor acc d =
     (if 3 \<le> dead b then Some (Inl BulkDeadlock, d)
      else case stmt b cursor n d of (matched, final_id, hits, d') \<Rightarrow>
        if matched < n then Some (Inr (acc @ hits, Suc b), d')
        else drain_cancel_batches k stmt dead n (Suc b) (case final_id of None \<Rightarrow> cursor | Some u \<Rightarrow> u) (acc @ hits) d')"

definition UUID_MIN :: uuid where "UUID_MIN = 0"

definition MAX_CANCEL_DRAIN_ROUNDS :: nat where "MAX_CANCEL_DRAIN_ROUNDS = 3"

fun cancel_rounds ::
    "nat \<Rightarrow> nat \<Rightarrow> bulk_io \<Rightarrow> filter_cond list \<Rightarrow> string option \<Rightarrow> nat \<Rightarrow> nat \<Rightarrow> job list \<times> job list \<Rightarrow> db
      \<Rightarrow> ((bulk_error + job list \<times> job list) \<times> db) option" where
  "cancel_rounds 0 k io conds reason n b acc d = Some (Inr acc, d)"
| "cancel_rounds (Suc r) k io conds reason n b acc d =
     (case drain_cancel_batches k (cancel_ps_batch io conds reason) (bi_deadlocks io) n b UUID_MIN [] d of
        None \<Rightarrow> None
      | Some (Inl e, d1) \<Rightarrow> Some (Inl e, d1)
      | Some (Inr (ps, b1), d1) \<Rightarrow>
          (case drain_cancel_batches k (cancel_running_batch io conds reason) (bi_deadlocks io) n b1 UUID_MIN [] d1 of
             None \<Rightarrow> None
           | Some (Inl e, d2) \<Rightarrow> Some (Inl e, d2)
           | Some (Inr (rs, b2), d2) \<Rightarrow>
               if ps = [] \<and> rs = [] then Some (Inr acc, d2)
               else cancel_rounds r k io conds reason n b2 (fst acc @ ps, snd acc @ rs) d2))"

record BulkCancelResult =
  cancelled_directly :: nat
  cancel_requested :: nat
  cancelled_ids :: "uuid list"
  cancel_requested_ids :: "uuid list"

definition bulk_result :: "job list \<times> job list \<Rightarrow> BulkCancelResult" where
  "bulk_result acc = \<lparr>cancelled_directly = length (fst acc), cancel_requested = length (snd acc),
     cancelled_ids = map jid (fst acc), cancel_requested_ids = map jid (snd acc)\<rparr>"

text \<open>A reason that JSON cannot carry into the database is refused before the first batch.\<close>

definition cancel_where ::
    "nat \<Rightarrow> bulk_io \<Rightarrow> JobFilter \<Rightarrow> string option \<Rightarrow> int \<Rightarrow> int \<Rightarrow> db
      \<Rightarrow> ((bulk_error + BulkCancelResult \<times> (uuid \<times> uuid) list) \<times> db) option" where
  "cancel_where k io f reason batch_size timeout_ms d =
     (if validate_positive batch_size \<noteq> Inr () \<or> validate_positive timeout_ms \<noteq> Inr () \<or> \<not> pred_option nul_free reason
      then Some (Inl BulkValueError, d)
      else map_option (\<lambda>(r, d'). (bindE r (\<lambda>acc. Inr (bulk_result acc,
             List.map_filter (\<lambda>w. map_option (\<lambda>h. (jid w, h)) (locked_by_worker w)) (snd acc))), d'))
        (cancel_rounds MAX_CANCEL_DRAIN_ROUNDS k io (build_filter_conditions f) reason (nat batch_size) 0 ([], []) d))"

section \<open>A drain that nothing disturbs\<close>

definition remaining_rows :: "(job \<Rightarrow> bool) \<Rightarrow> uuid \<Rightarrow> db \<Rightarrow> job list" where
  "remaining_rows p c d = sort_key jid (filter (\<lambda>j. p j \<and> c < jid j) (jobs d))"

definition changed :: "(job \<Rightarrow> bool) \<Rightarrow> (timestamptz \<Rightarrow> job \<Rightarrow> job) \<Rightarrow> job \<Rightarrow> job \<Rightarrow> bool" where
  "changed p f j j' \<longleftrightarrow> (if p j then \<exists>t. j' = f t j else j' = j)"

interpretation id_order: row_order "\<lambda>a b. jid a \<le> jid b"
  by unfold_locales auto

lemma window_remaining: "window p c n d = take n (remaining_rows p c d)"
  by (simp add: window_def remaining_rows_def)

lemma remaining_rows_facts:
  assumes "distinct (map jid (jobs d))"
  shows "set (remaining_rows p c d) = {j \<in> set (jobs d). p j \<and> c < jid j}" "distinct (remaining_rows p c d)"
    "sorted_wrt (\<lambda>a b. jid a \<le> jid b) (remaining_rows p c d)"
    "\<And>a b. a \<in> set (remaining_rows p c d) \<Longrightarrow> b \<in> set (remaining_rows p c d) \<Longrightarrow> jid a \<le> jid b \<Longrightarrow> jid b \<le> jid a \<Longrightarrow> a = b"
proof -
  show s: "set (remaining_rows p c d) = {j \<in> set (jobs d). p j \<and> c < jid j}" by (auto simp: remaining_rows_def)
  show "distinct (remaining_rows p c d)" using assms by (simp add: remaining_rows_def distinct_map distinct_filter)
  show "sorted_wrt (\<lambda>a b. jid a \<le> jid b) (remaining_rows p c d)"
    using sorted_sort_key[of jid "filter (\<lambda>j. p j \<and> c < jid j) (jobs d)"] unfolding remaining_rows_def sorted_wrt_map[symmetric] .
  show "a = b" if "a \<in> set (remaining_rows p c d)" "b \<in> set (remaining_rows p c d)" "jid a \<le> jid b" "jid b \<le> jid a" for a b
    using assms that s by (auto simp: distinct_map inj_on_def)
qed

lemma filter_map_same:
  "(\<And>x. x \<in> set xs \<Longrightarrow> (P (g x) \<longleftrightarrow> Q x) \<and> (Q x \<longrightarrow> g x = x)) \<Longrightarrow> filter P (map g xs) = filter Q xs"
  by (induction xs) auto

text \<open>The rows after a full window, when its rows have left the predicate.\<close>

lemma remaining_next:
  assumes d: "distinct (map jid (jobs d))" and n: "0 < n" "n \<le> length (remaining_rows p c d)"
    and win: "win = take n (remaining_rows p c d)"
    and d1: "jobs d1 = map (\<lambda>j. if p j \<and> jid j \<in> jid ` set win then f (ts j) j else j) (jobs d)"
    and gone: "\<And>t j. \<not> p (f t j)"
  shows "remaining_rows p (jid (last win)) d1 = drop n (remaining_rows p c d)" "c < jid (last win)"
    "\<And>j. j \<in> set (remaining_rows p c d) \<Longrightarrow> j \<notin> set win \<Longrightarrow> jid (last win) < jid j"
    "\<And>j. j \<in> set win \<Longrightarrow> jid j \<le> jid (last win)"
proof -
  let ?S = "remaining_rows p c d" and ?u = "jid (last win)"
  note facts = remaining_rows_facts[OF d, where p = p and c = c]
  have "length win = n" using n win by simp
  then have u: "last win = ?S ! (n - 1)" using n win by (subst last_conv_nth) auto
  have top: "jid w \<le> ?u" if "w \<in> set win" for w
  proof -
    obtain i where "i < n" "w = ?S ! i" using \<open>w \<in> set win\<close> n(2) win by (auto simp: in_set_conv_nth)
    then show ?thesis using sorted_wrt_nth_less[OF facts(3), of i "n - 1"] n u by (cases "i = n - 1") auto
  qed
  have low: "c < ?u" using facts(1) nth_mem[of "n - 1" ?S] n u by auto
  have "filter (\<lambda>j. p j \<and> ?u < jid j) (jobs d1) = filter (\<lambda>j. p j \<and> c < jid j \<and> ?u < jid j) (jobs d)"
    unfolding d1 using gone low by (intro filter_map_same) (auto dest: top simp: not_less[symmetric])
  then have "remaining_rows p ?u d1 = filter (\<lambda>j. \<not> jid j \<le> ?u) ?S"
    by (simp add: remaining_rows_def filter_sort not_le)
  also have rest: "\<dots> = drop n ?S" using id_order.rest_of_page[OF facts(3,2,4), of "n - 1"] n u by simp
  finally show "remaining_rows p ?u d1 = drop n ?S" .
  show "c < ?u" by (rule low)
  show "jid j \<le> ?u" if "j \<in> set win" for j using top that .
  show "?u < jid j" if j: "j \<in> set ?S" "j \<notin> set win" for j
  proof -
    have "j \<in> set (drop n ?S)" using j win append_take_drop_id[of n ?S] by (metis Un_iff set_append)
    then have "j \<in> set (filter (\<lambda>j. \<not> jid j \<le> ?u) ?S)" using rest by simp
    then show ?thesis by simp
  qed
qed

lemma changed_compose:
  assumes "list_all2 (changed q2 f) (map g xs) zs"
    and "\<And>x. x \<in> set xs \<Longrightarrow> (q2 (g x) \<longrightarrow> g x = x \<and> q x) \<and> (\<not> q2 (g x) \<longrightarrow> changed q f x (g x))"
  shows "list_all2 (changed q f) xs zs"
proof -
  have "list_all2 (\<lambda>x z. changed q2 f (g x) z) xs zs" using assms(1) by (simp add: list_all2_map1)
  then show ?thesis by (rule list.rel_mono_strong) (use assms(2) in \<open>fastforce simp: changed_def split: if_splits\<close>)
qed

text \<open>What the drain relies on of a statement, and what it then does.\<close>

locale cancel_arm =
  fixes stmt :: batch and p :: "job \<Rightarrow> bool" and f :: "timestamptz \<Rightarrow> job \<Rightarrow> job"
  assumes batch_effect: "distinct (map jid (jobs d)) \<Longrightarrow> \<exists>ts d'. stmt b c n d = (length (window p c n d), last_id (window p c n d), window p c n d, d')
      \<and> jobs d' = map (\<lambda>j. if p j \<and> jid j \<in> jid ` set (window p c n d) then f (ts j) j else j) (jobs d)"
    and set_leaves: "\<not> p (f t j)"
    and set_keeps_id: "jid (f t j) = jid j"
begin

lemma drain_changes_rest:
  assumes "distinct (map jid (jobs d))" "0 < n" "length (remaining_rows p c d) < k"
  shows "\<exists>b' d'. drain_cancel_batches k stmt (\<lambda>_. 0) n b c acc d = Some (Inr (acc @ remaining_rows p c d, b'), d')
    \<and> list_all2 (changed (\<lambda>j. p j \<and> c < jid j) f) (jobs d) (jobs d')"
  using assms
proof (induction k arbitrary: b c acc d)
  case (Suc k)
  let ?S = "remaining_rows p c d" and ?w = "window p c n d"
  note facts = remaining_rows_facts[OF Suc.prems(1), where p = p and c = c]
  obtain ts d1 where s: "stmt b c n d = (length ?w, last_id ?w, ?w, d1)"
    "jobs d1 = map (\<lambda>j. if p j \<and> jid j \<in> jid ` set ?w then f (ts j) j else j) (jobs d)"
    using batch_effect[OF Suc.prems(1)] by blast
  have ids: "map jid (jobs d1) = map jid (jobs d)" unfolding s(2) by (simp add: set_keeps_id)
  have inw: "jid j \<in> jid ` set ?w \<longleftrightarrow> j \<in> set ?w" if "j \<in> set (jobs d)" for j
    using that Suc.prems(1) facts(1) set_take_subset[of n ?S] by (auto simp: window_remaining distinct_map inj_on_def)
  show ?case
  proof (cases "length ?S < n")
    case True
    then have w: "?w = ?S" by (simp add: window_remaining)
    have "drain_cancel_batches (Suc k) stmt (\<lambda>_. 0) n b c acc d = Some (Inr (acc @ ?S, Suc b), d1)" using s(1) True w by simp
    moreover have "list_all2 (changed (\<lambda>j. p j \<and> c < jid j) f) (jobs d) (jobs d1)"
      unfolding s(2) using inw facts(1) w by (auto simp: list_all2_map2 list_all2_same changed_def)
    ultimately show ?thesis by blast
  next
    case False
    then have w: "?w \<noteq> []" "length ?w = n" using Suc.prems(2) by (auto simp: window_remaining)
    let ?u = "jid (last ?w)"
    have full: "n \<le> length ?S" using False by simp
    note rest = remaining_next[where f = f and ts = ts and p = p, OF Suc.prems(1,2) full window_remaining s(2) set_leaves]
    have less: "length ?S - n < k" using Suc.prems(2,3) full by linarith
    obtain b' d' where IH: "drain_cancel_batches k stmt (\<lambda>_. 0) n (Suc b) ?u (acc @ ?w) d1 = Some (Inr ((acc @ ?w) @ drop n ?S, b'), d')"
      "list_all2 (changed (\<lambda>j. p j \<and> ?u < jid j) f) (jobs d1) (jobs d')"
      using Suc.IH[of d1 ?u "Suc b" "acc @ ?w"] ids Suc.prems(1,2) less rest(1) by (auto simp del: append_assoc)
    have "drain_cancel_batches (Suc k) stmt (\<lambda>_. 0) n b c acc d = Some (Inr (acc @ ?S, b'), d')"
      using s(1) w IH(1) append_take_drop_id[of n ?S] by (simp add: last_id_def window_remaining)
    moreover have "list_all2 (changed (\<lambda>j. p j \<and> c < jid j) f) (jobs d) (jobs d')"
    proof (rule changed_compose[OF IH(2)[unfolded s(2)]])
      fix x assume x: "x \<in> set (jobs d)"
      let ?g = "if p x \<and> jid x \<in> jid ` set ?w then f (ts x) x else x"
      have "x \<in> set ?w \<Longrightarrow> p x \<and> c < jid x" using facts(1) set_take_subset[of n ?S] by (auto simp: window_remaining)
      moreover have "p x \<and> c < jid x \<Longrightarrow> x \<notin> set ?w \<Longrightarrow> ?u < jid x" using rest(3)[of x] facts(1) x by simp
      ultimately show "(p ?g \<and> ?u < jid ?g \<longrightarrow> ?g = x \<and> p x \<and> c < jid x)
          \<and> (\<not> (p ?g \<and> ?u < jid ?g) \<longrightarrow> changed (\<lambda>j. p j \<and> c < jid j) f x ?g)"
        using inw[OF x] set_leaves rest(2) by (cases "x \<in> set ?w") (auto simp: changed_def)
    qed
    ultimately show ?thesis by blast
  qed
qed simp

end

section \<open>The two statements\<close>

definition quiet_bulk :: "(nat \<Rightarrow> nat \<Rightarrow> uuid \<Rightarrow> timestamptz) \<Rightarrow> bulk_io" where
  "quiet_bulk clk = \<lparr>bi_env = \<lambda>_ d. d, bi_mid = \<lambda>_ d. d, bi_deadlocks = \<lambda>_. 0, bi_clk = clk\<rparr>"

lemma rechecked_Nil [simp]: "rechecked q [] d = []"
  by (simp add: rechecked_def)

lemma upd_where_none [simp]: "upd_where (\<lambda>_. False) g xs = xs"
  by (simp add: upd_where_def)

lemma rechecked_quiet:
  assumes "\<And>j. p j \<Longrightarrow> q j"
  shows "rechecked q (window p c n d) d = window p c n d"
proof -
  have "w \<in> set (jobs d) \<and> q w" if "w \<in> set (window p c n d)" for w
    using in_set_takeD[OF that[unfolded window_def]] assms by auto
  then show ?thesis by (auto simp: rechecked_def list_ex_iff filter_id_conv)
qed

lemma quiet_update:
  assumes "distinct (map jid (jobs d))" "\<And>j. p j \<longleftrightarrow> m j \<and> q j"
  shows "upd_where (\<lambda>j. jid j \<in> jid ` set (window p c n d) \<and> q j) g (jobs d)
    = map (\<lambda>j. if p j \<and> jid j \<in> jid ` set (window p c n d) then g j else j) (jobs d)"
proof -
  have "p j" if in_d: "j \<in> set (jobs d)" and in_w: "jid j \<in> jid ` set (window p c n d)" for j
  proof -
    obtain w where w: "w \<in> set (window p c n d)" "jid w = jid j" using in_w by auto
    have "w \<in> set (jobs d)" "p w" using in_set_takeD[OF w(1)[unfolded window_def]] by auto
    then show ?thesis using w(2) in_d assms(1) by (auto simp: distinct_map dest: inj_onD)
  qed
  then show ?thesis using assms(2) by (auto simp: upd_where_def)
qed

interpretation ps_arm: cancel_arm "cancel_ps_batch (quiet_bulk clk) conds reason" "\<lambda>j. matches conds j \<and> queued (status j)" cancel_ps_set
  for clk conds reason
proof unfold_locales
  fix d :: db and b c n
  let ?p = "\<lambda>j. matches conds j \<and> queued (status j)"
  assume d: "distinct (map jid (jobs d))"
  note upd = quiet_update[OF d, of ?p "matches conds" "\<lambda>j. queued (status j)" c n "\<lambda>j. cancel_ps_set (clk b 0 (jid j)) j"]
  show "\<exists>ts d'. cancel_ps_batch (quiet_bulk clk) conds reason b c n d = (length (window ?p c n d), last_id (window ?p c n d), window ?p c n d, d')
      \<and> jobs d' = map (\<lambda>j. if ?p j \<and> jid j \<in> jid ` set (window ?p c n d) then cancel_ps_set (ts j) j else j) (jobs d)"
    using rechecked_quiet[of ?p "\<lambda>j. queued (status j)" c n d] upd
    by (intro exI[of _ "\<lambda>j. clk b 0 (jid j)"] exI[of _ "snd (snd (snd (cancel_ps_batch (quiet_bulk clk) conds reason b c n d)))"])
      (simp add: cancel_ps_batch_def quiet_bulk_def Let_def)
qed (auto simp: cancel_ps_set_def queued_def)

interpretation running_arm: cancel_arm "cancel_running_batch (quiet_bulk clk) conds reason" "\<lambda>j. matches conds j \<and> running_uncancelled j" cancel_running_set
  for clk conds reason
proof unfold_locales
  fix d :: db and b c n
  let ?p = "\<lambda>j. matches conds j \<and> running_uncancelled j"
  assume d: "distinct (map jid (jobs d))"
  note upd = quiet_update[OF d, of ?p "matches conds" running_uncancelled c n "\<lambda>j. cancel_running_set (clk b 0 (jid j)) j"]
  show "\<exists>ts d'. cancel_running_batch (quiet_bulk clk) conds reason b c n d = (length (window ?p c n d), last_id (window ?p c n d), window ?p c n d, d')
      \<and> jobs d' = map (\<lambda>j. if ?p j \<and> jid j \<in> jid ` set (window ?p c n d) then cancel_running_set (ts j) j else j) (jobs d)"
    using rechecked_quiet[of ?p running_uncancelled c n d] upd
    by (intro exI[of _ "\<lambda>j. clk b 0 (jid j)"] exI[of _ "snd (snd (snd (cancel_running_batch (quiet_bulk clk) conds reason b c n d)))"])
      (simp add: cancel_running_batch_def quiet_bulk_def Let_def)
qed (auto simp: cancel_running_set_def running_uncancelled_def)

section \<open>The rounds\<close>

lemma filter_changed:
  assumes "list_all2 (changed q f) xs ys" "\<And>j t. q j \<Longrightarrow> \<not> P (f t j)" "\<And>j. q j \<Longrightarrow> \<not> P j"
  shows "filter P ys = filter P xs"
  using assms(1)
proof (induction xs ys rule: list_all2_induct)
  case (Cons x xs y ys)
  then show ?case using assms(2)[of x] assms(3)[of x] by (auto simp: changed_def split: if_splits)
qed simp

lemma filter_changed_empty:
  assumes "list_all2 (changed q f) xs ys" "\<And>t j. \<not> q (f t j)"
  shows "filter q ys = []"
  using assms(1)
proof (induction xs ys rule: list_all2_induct)
  case (Cons x xs y ys)
  then show ?case using assms(2)[of _ x] by (auto simp: changed_def split: if_splits)
qed simp

lemma changed_nothing:
  assumes "list_all2 (changed q f) xs ys" "filter q xs = []"
  shows "ys = xs"
  using assms
proof (induction xs ys rule: list_all2_induct)
  case (Cons x xs y ys)
  then show ?case by (auto simp: changed_def split: if_splits)
qed simp

lemma changed_ids:
  assumes "list_all2 (changed q f) xs ys" "\<And>t j. jid (f t j) = jid j"
  shows "map jid ys = map jid xs"
  using assms(1)
proof (induction xs ys rule: list_all2_induct)
  case (Cons x xs y ys)
  then show ?case using assms(2) by (auto simp: changed_def split: if_splits)
qed simp

lemma remaining_rows_le: "length (remaining_rows p c d) \<le> length (jobs d)"
  by (simp add: remaining_rows_def)

text \<open>Jobs the first statement cancels and jobs the second one asks to stop.\<close>

definition ps_rows :: "filter_cond list \<Rightarrow> job \<Rightarrow> bool" where
  "ps_rows conds j \<longleftrightarrow> (matches conds j \<and> queued (status j)) \<and> UUID_MIN < jid j"

definition running_rows :: "filter_cond list \<Rightarrow> job \<Rightarrow> bool" where
  "running_rows conds j \<longleftrightarrow> (matches conds j \<and> running_uncancelled j) \<and> UUID_MIN < jid j"

lemma row_classes:
  "\<not> ps_rows conds (cancel_ps_set t j)" "\<not> running_rows conds (cancel_ps_set t j)"
  "running_rows conds j \<Longrightarrow> \<not> ps_rows conds (cancel_running_set t j)" "\<not> running_rows conds (cancel_running_set t j)"
  "ps_rows conds j \<Longrightarrow> \<not> running_rows conds j"
  by (auto simp: ps_rows_def running_rows_def cancel_ps_set_def cancel_running_set_def queued_def running_uncancelled_def)

lemma set_ids: "jid (cancel_ps_set t j) = jid j" "jid (cancel_running_set t j) = jid j"
  by (simp_all add: cancel_ps_set_def cancel_running_set_def)

text \<open>One round with nothing in its way.\<close>

lemma quiet_round:
  assumes "distinct (map jid (jobs d))" "0 < n" "length (jobs d) < k"
    and io: "io = quiet_bulk clk"
  shows "\<exists>b1 d1 b2 d2. drain_cancel_batches k (cancel_ps_batch io conds reason) (bi_deadlocks io) n b UUID_MIN [] d
        = Some (Inr (sort_key jid (filter (ps_rows conds) (jobs d)), b1), d1)
    \<and> drain_cancel_batches k (cancel_running_batch io conds reason) (bi_deadlocks io) n b1 UUID_MIN [] d1
        = Some (Inr (sort_key jid (filter (running_rows conds) (jobs d)), b2), d2)
    \<and> list_all2 (changed (ps_rows conds) cancel_ps_set) (jobs d) (jobs d1)
    \<and> list_all2 (changed (running_rows conds) cancel_running_set) (jobs d1) (jobs d2)"
proof -
  have dead: "bi_deadlocks io = (\<lambda>_. 0)" by (simp add: io quiet_bulk_def)
  obtain b1 d1 where p: "drain_cancel_batches k (cancel_ps_batch io conds reason) (\<lambda>_. 0) n b UUID_MIN [] d
      = Some (Inr (sort_key jid (filter (ps_rows conds) (jobs d)), b1), d1)"
    "list_all2 (changed (ps_rows conds) cancel_ps_set) (jobs d) (jobs d1)"
    using ps_arm.drain_changes_rest[where clk = clk and conds = conds and reason = reason and b = b and c = UUID_MIN and acc = "[]",
        OF assms(1,2) le_less_trans[OF remaining_rows_le assms(3)]]
    unfolding io remaining_rows_def ps_rows_def[abs_def] by auto
  have ids: "map jid (jobs d1) = map jid (jobs d)" by (rule changed_ids[OF p(2) set_ids(1)])
  have d1: "distinct (map jid (jobs d1))" "length (jobs d1) < k"
    using ids assms(1,3) length_map[of jid "jobs d1"] by simp_all
  have same: "filter (running_rows conds) (jobs d1) = filter (running_rows conds) (jobs d)"
    by (rule filter_changed[OF p(2)]) (simp_all add: row_classes)
  obtain b2 d2 where r: "drain_cancel_batches k (cancel_running_batch io conds reason) (\<lambda>_. 0) n b1 UUID_MIN [] d1
      = Some (Inr (sort_key jid (filter (running_rows conds) (jobs d1)), b2), d2)"
    "list_all2 (changed (running_rows conds) cancel_running_set) (jobs d1) (jobs d2)"
    using running_arm.drain_changes_rest[where clk = clk and conds = conds and reason = reason and b = b1 and c = UUID_MIN and acc = "[]",
        OF d1(1) assms(2) le_less_trans[OF remaining_rows_le d1(2)]]
    unfolding io remaining_rows_def running_rows_def[abs_def] by auto
  show ?thesis unfolding dead using p r same by auto
qed

lemma rounds_quiet:
  assumes "distinct (map jid (jobs d))" "0 < n" "length (jobs d) < k"
  shows "\<exists>d'. cancel_rounds MAX_CANCEL_DRAIN_ROUNDS k (quiet_bulk clk) conds reason n b ([], []) d
      = Some (Inr (sort_key jid (filter (ps_rows conds) (jobs d)), sort_key jid (filter (running_rows conds) (jobs d))), d')
    \<and> (\<exists>js. list_all2 (changed (ps_rows conds) cancel_ps_set) (jobs d) js \<and> list_all2 (changed (running_rows conds) cancel_running_set) js (jobs d'))"
proof -
  let ?io = "quiet_bulk clk"
  obtain b1 d1 b2 d2 where r1: "drain_cancel_batches k (cancel_ps_batch ?io conds reason) (bi_deadlocks ?io) n b UUID_MIN [] d
        = Some (Inr (sort_key jid (filter (ps_rows conds) (jobs d)), b1), d1)"
    "drain_cancel_batches k (cancel_running_batch ?io conds reason) (bi_deadlocks ?io) n b1 UUID_MIN [] d1
        = Some (Inr (sort_key jid (filter (running_rows conds) (jobs d)), b2), d2)"
    "list_all2 (changed (ps_rows conds) cancel_ps_set) (jobs d) (jobs d1)"
    "list_all2 (changed (running_rows conds) cancel_running_set) (jobs d1) (jobs d2)"
    using quiet_round[OF assms refl, of clk conds reason b] by blast
  have ids: "map jid (jobs d2) = map jid (jobs d)"
    using changed_ids[OF r1(3) set_ids(1)] changed_ids[OF r1(4) set_ids(2)] by simp
  have d2: "distinct (map jid (jobs d2))" "length (jobs d2) < k" using ids assms(1,3) length_map[of jid "jobs d2"] by simp_all
  have "filter (ps_rows conds) (jobs d2) = filter (ps_rows conds) (jobs d1)"
    by (rule filter_changed[OF r1(4)]) (use row_classes(3,5) in blast)+
  then have none: "filter (ps_rows conds) (jobs d2) = []" "filter (running_rows conds) (jobs d2) = []"
    using filter_changed_empty[OF r1(3) row_classes(1)] filter_changed_empty[OF r1(4) row_classes(4)] by simp_all
  obtain b3 d3 b4 d4 where r2: "drain_cancel_batches k (cancel_ps_batch ?io conds reason) (bi_deadlocks ?io) n b2 UUID_MIN [] d2 = Some (Inr ([], b3), d3)"
    "drain_cancel_batches k (cancel_running_batch ?io conds reason) (bi_deadlocks ?io) n b3 UUID_MIN [] d3 = Some (Inr ([], b4), d4)"
    "list_all2 (changed (ps_rows conds) cancel_ps_set) (jobs d2) (jobs d3)"
    "list_all2 (changed (running_rows conds) cancel_running_set) (jobs d3) (jobs d4)"
    using quiet_round[OF d2(1) assms(2) d2(2) refl, of clk conds reason b2] none by auto
  have same: "jobs d3 = jobs d2" by (rule changed_nothing[OF r2(3) none(1)])
  have same4: "jobs d4 = jobs d3" by (rule changed_nothing[OF r2(4)]) (simp add: same none(2))
  let ?ps = "sort_key jid (filter (ps_rows conds) (jobs d))" and ?rs = "sort_key jid (filter (running_rows conds) (jobs d))"
  have rounds: "cancel_rounds (Suc r) k ?io conds reason n b2 acc d2 = Some (Inr acc, d4)" for r acc using r2(1,2) by simp
  show ?thesis
  proof (cases "?ps = [] \<and> ?rs = []")
    case True
    then have "cancel_rounds MAX_CANCEL_DRAIN_ROUNDS k ?io conds reason n b ([], []) d = Some (Inr (?ps, ?rs), d2)"
      using r1(1,2) by (simp add: MAX_CANCEL_DRAIN_ROUNDS_def numeral_3_eq_3)
    then show ?thesis using r1(3,4) by blast
  next
    case False
    then have "cancel_rounds MAX_CANCEL_DRAIN_ROUNDS k ?io conds reason n b ([], []) d = Some (Inr (?ps, ?rs), d4)"
      using r1(1,2) rounds by (auto simp: MAX_CANCEL_DRAIN_ROUNDS_def numeral_3_eq_3 cancel_rounds.simps(2)[of "Suc (Suc 0)" k _ conds reason n b] simp del: cancel_rounds.simps(2))
    then show ?thesis using r1(3,4) same same4 by auto
  qed
qed

lemma cancel_sets:
  "queued (status j) \<Longrightarrow> cancel_ps_set t j = cancel_request_set (\<lambda>_. t) j"
  "running_uncancelled j \<Longrightarrow> cancel_running_set t j = cancel_request_set (\<lambda>_. t) j"
  by (cases j; auto simp: cancel_ps_set_def cancel_running_set_def cancel_request_set_def running_uncancelled_def queued_def Let_def)+

lemma bulk_row:
  assumes "list_all2 (changed (ps_rows conds) cancel_ps_set) xs js" "list_all2 (changed (running_rows conds) cancel_running_set) js ys"
  shows "list_all2 (\<lambda>j j'. if ps_rows conds j \<or> running_rows conds j then \<exists>c. j' = cancel_request_set c j else j' = j) xs ys"
proof -
  have row: "if ps_rows conds j \<or> running_rows conds j then \<exists>c. j' = cancel_request_set c j else j' = j"
    if "changed (ps_rows conds) cancel_ps_set j m" "changed (running_rows conds) cancel_running_set m j'" for j m j'
    using that row_classes(2)[of conds _ j] by (auto simp: changed_def ps_rows_def running_rows_def cancel_sets split: if_splits)
  show ?thesis by (rule list_all2_trans[OF row assms])
qed

lemma notify_targets:
  "set (List.map_filter (\<lambda>w. map_option (\<lambda>h. (jid w, h)) (locked_by_worker w)) xs) = {(jid j, h) | j h. j \<in> set xs \<and> locked_by_worker j = Some h}"
  by (force simp: map_filter_def)

text \<open>
  C19: an undisturbed bulk cancel is complete and exact.  With enough batches
  allowed the drains end; every queued job that matches the filter is cancelled, every running one that matches and has
  no cancel in flight is asked to stop, and every other job is left as it was.  The reply lists just these ids, each
  once, in order, and names the worker of every job asked to stop; the rows are changed as the cancel of a single job
  changes them, up to the clock.
\<close>
theorem bulk_cancel_complete:
  assumes "distinct (map jid (jobs d))" "list_all (\<lambda>j. 0 < jid j) (jobs d)" "1 \<le> batch_size" "1 \<le> timeout_ms"
    "pred_option nul_free reason" "length (jobs d) < k"
  shows "\<exists>r notify d'. cancel_where k (quiet_bulk clk) f reason batch_size timeout_ms d = Some (Inr (r, notify), d')
    \<and> cancelled_ids r = map jid (sort_key jid (filter (\<lambda>j. matches (build_filter_conditions f) j \<and> queued (status j)) (jobs d)))
    \<and> cancel_requested_ids r = map jid (sort_key jid (filter (\<lambda>j. matches (build_filter_conditions f) j \<and> running_uncancelled j) (jobs d)))
    \<and> set notify = {(jid j, h) | j h. j \<in> set (jobs d) \<and> matches (build_filter_conditions f) j \<and> running_uncancelled j \<and> locked_by_worker j = Some h}
    \<and> list_all2 (\<lambda>j j'. if matches (build_filter_conditions f) j \<and> cancel_request_where j then \<exists>c. j' = cancel_request_set c j else j' = j) (jobs d) (jobs d')"
proof -
  let ?c = "build_filter_conditions f"
  have cls: "ps_rows ?c j \<longleftrightarrow> matches ?c j \<and> queued (status j)" "running_rows ?c j \<longleftrightarrow> matches ?c j \<and> running_uncancelled j" if "j \<in> set (jobs d)" for j
    using that assms(2) by (auto simp: ps_rows_def running_rows_def  UUID_MIN_def list_all_iff)
  have fil: "filter (ps_rows ?c) (jobs d) = filter (\<lambda>j. matches ?c j \<and> queued (status j)) (jobs d)"
    "filter (running_rows ?c) (jobs d) = filter (\<lambda>j. matches ?c j \<and> running_uncancelled j) (jobs d)"
    using cls by (auto intro!: filter_cong)
  have n: "0 < nat batch_size" using assms(3) by simp
  obtain d' js where r: "cancel_rounds MAX_CANCEL_DRAIN_ROUNDS k (quiet_bulk clk) ?c reason (nat batch_size) 0 ([], []) d
      = Some (Inr (sort_key jid (filter (ps_rows ?c) (jobs d)), sort_key jid (filter (running_rows ?c) (jobs d))), d')"
    "list_all2 (changed (ps_rows ?c) cancel_ps_set) (jobs d) js" "list_all2 (changed (running_rows ?c) cancel_running_set) js (jobs d')"
    using rounds_quiet[OF assms(1) n assms(6), of clk ?c reason 0] by blast
  have "list_all2 (\<lambda>j j'. if matches ?c j \<and> cancel_request_where j then \<exists>c. j' = cancel_request_set c j else j' = j) (jobs d) (jobs d')"
    by (rule list.rel_mono_strong[OF bulk_row[OF r(2,3)]]) (use cls in \<open>auto simp: cancel_request_where_def running_uncancelled_def split: if_splits\<close>)
  moreover have "cancel_where k (quiet_bulk clk) f reason batch_size timeout_ms d
      = Some (Inr (bulk_result (sort_key jid (filter (ps_rows ?c) (jobs d)), sort_key jid (filter (running_rows ?c) (jobs d))),
          List.map_filter (\<lambda>w. map_option (\<lambda>h. (jid w, h)) (locked_by_worker w)) (sort_key jid (filter (running_rows ?c) (jobs d)))), d')"
    using r(1) assms(3-5) by (simp add: cancel_where_def validate_positive_def)
  ultimately show ?thesis unfolding fil by (auto simp: bulk_result_def notify_targets)
qed

definition demo_bulk :: db where
  "demo_bulk = sample_db\<lparr>jobs := [sample_job, sample_job\<lparr>jid := 3, status := Pending\<rparr>, sample_job\<lparr>jid := 5, status := Succeeded\<rparr>]\<rparr>"

theorem bulk_cancel_complete_witness:
  "\<exists>r notify d'. cancel_where 4 (quiet_bulk (\<lambda>_ _ _. 0)) (demo_filter\<lparr>f_queue := None\<rparr>) None 1 1 demo_bulk = Some (Inr (r, notify), d')
    \<and> cancelled_ids r = [3] \<and> cancel_requested_ids r = [4]"
proof -
  have p: "distinct (map jid (jobs demo_bulk))" "list_all (\<lambda>j. 0 < jid j) (jobs demo_bulk)" "pred_option nul_free None"
    "length (jobs demo_bulk) < 4" by (simp_all add: demo_bulk_def)
  have m: "matches (build_filter_conditions (demo_filter\<lparr>f_queue := None\<rparr>)) j" for j
    by (simp add: matches_def build_filter_conditions_def demo_filter_def)
  have f: "filter (\<lambda>j. matches (build_filter_conditions (demo_filter\<lparr>f_queue := None\<rparr>)) j \<and> queued (status j)) (jobs demo_bulk)
      = [sample_job\<lparr>jid := 3, status := Pending\<rparr>]"
    "filter (\<lambda>j. matches (build_filter_conditions (demo_filter\<lparr>f_queue := None\<rparr>)) j \<and> running_uncancelled j) (jobs demo_bulk) = [sample_job]"
    by (simp_all add: m demo_bulk_def queued_def running_uncancelled_def sample_job_def)
  show ?thesis
    using bulk_cancel_complete[where batch_size = 1 and timeout_ms = 1 and f = "demo_filter\<lparr>f_queue := None\<rparr>" and clk = "\<lambda>_ _ _. 0", OF p(1,2) _ _ p(3,4)] unfolding f
    by (auto simp: sample_job_def)
qed

text \<open>Another session that retries a job just before the second round.\<close>

definition retry_between :: "clock \<Rightarrow> uuid \<Rightarrow> nat \<Rightarrow> db \<Rightarrow> db" where
  "retry_between rclk i b d = (if b = 2 then (case retry_job rclk i d of Inr (True, d') \<Rightarrow> d' | _ \<Rightarrow> d) else d)"

lemma one_row_batches:
  assumes "jobs (bi_env io b d) = [x]" "bi_mid io = (\<lambda>_ d. d)" "bi_deadlocks io = (\<lambda>_. 0)" "0 < jid x" "2 \<le> n"
  shows "queued (status x) \<Longrightarrow> \<exists>d' t. drain_cancel_batches (Suc k) (cancel_ps_batch io [] reason) (bi_deadlocks io) n b UUID_MIN [] d
      = Some (Inr ([x], Suc b), d') \<and> jobs d' = [cancel_ps_set t x]"
    and "\<not> queued (status x) \<Longrightarrow> \<exists>d'. drain_cancel_batches (Suc k) (cancel_ps_batch io [] reason) (bi_deadlocks io) n b UUID_MIN [] d
      = Some (Inr ([], Suc b), d') \<and> jobs d' = [x]"
    and "status x \<noteq> Running \<Longrightarrow> \<exists>d'. drain_cancel_batches (Suc k) (cancel_running_batch io [] reason) (bi_deadlocks io) n b UUID_MIN [] d
      = Some (Inr ([], Suc b), d') \<and> jobs d' = [x]"
  using assms
  by (auto simp: cancel_ps_batch_def cancel_running_batch_def window_def matches_def UUID_MIN_def rechecked_def
      upd_where_def running_uncancelled_def Let_def)

lemma retry_reopens:
  assumes "jobs d = [cancel_ps_set t j]" "attempt j < raised_ceiling j" "metadata j = Map.empty"
  shows "\<exists>d'. retry_job rclk (jid j) d = Inr (True, d') \<and> jobs d' = [retry_job_set rclk (cancel_ps_set t j)]"
proof -
  let ?x = "cancel_ps_set t j"
  have "find_job (jid j) d = Some ?x" using assms(1) by (simp add: find_job_def row_by_def set_ids)
  moreover have "retry_job_where ?x" using assms(2) by (simp add: retry_job_where_def raised_ceiling_def cancel_ps_set_def)
  moreover have "\<not> singleton_conflict (retry_job_set rclk ?x) d"
    using assms(3) by (simp add: singleton_conflict_def is_singleton_def retry_job_set_def cancel_ps_set_def)
  moreover have "uuid_key ''batch_id'' (metadata ?x) = Inr None" using assms(3) by (simp add: uuid_key_def cancel_ps_set_def)
  ultimately show ?thesis using assms(1) by (simp add: retry_job_def put_job_def upd_where_def retry_job_set_def)
qed

text \<open>
  C20: a bulk cancel can count a job twice.  The rounds are said to report each
  id once because a cancelled row is terminal; the operator retry reopens such a row.  When it does so between the
  first and the second round, the second round cancels the job again, and the reply lists its id twice and counts two
  cancelled jobs where there is one.
\<close>
theorem bulk_cancel_counts_twice:
  assumes "jobs d = [j]" "0 < jid j" "queued (status j)" "attempt j < raised_ceiling j" "metadata j = Map.empty"
    "\<not> has_predicates f" "2 \<le> batch_size" "1 \<le> timeout_ms" "pred_option nul_free reason" "0 < k"
  shows "\<exists>r notify d'. cancel_where k ((quiet_bulk clk)\<lparr>bi_env := retry_between rclk (jid j)\<rparr>) f reason batch_size timeout_ms d
      = Some (Inr (r, notify), d')
    \<and> cancelled_ids r = [jid j, jid j] \<and> cancelled_directly r = 2 \<and> length (jobs d') = 1"
proof -
  have conds: "build_filter_conditions f = []"
    using assms(6) by (auto simp: has_predicates_def build_filter_conditions_def split: option.splits)
  define io where "io = (quiet_bulk clk)\<lparr>bi_env := retry_between rclk (jid j)\<rparr>"
  let ?n = "nat batch_size"
  have calm: "bi_mid io = (\<lambda>_ d. d)" "bi_deadlocks io = (\<lambda>_. 0)" and n: "2 \<le> ?n" using assms(7) by (simp_all add: io_def quiet_bulk_def)
  have env: "jobs (bi_env io b d) = jobs d" if "b \<noteq> 2" for b d using that by (simp add: io_def retry_between_def)
  obtain m where k: "k = Suc m" using assms(10) by (cases k) auto
  obtain d1 t where r1: "drain_cancel_batches k (cancel_ps_batch io [] reason) (bi_deadlocks io) ?n 0 UUID_MIN [] d = Some (Inr ([j], 1), d1)"
    "jobs d1 = [cancel_ps_set t j]"
    using one_row_batches(1)[OF _ calm assms(2) n assms(3), of 0 d m reason] env[of 0 d] assms(1) k by auto
  let ?x = "cancel_ps_set t j" and ?y = "retry_job_set rclk (cancel_ps_set t j)"
  have x: "0 < jid ?x" "status ?x \<noteq> Running" "jid ?y = jid j" "queued (status ?y)"
    using assms(2) by (simp_all add: cancel_ps_set_def retry_job_set_def queued_def)
  obtain d2 where r2: "drain_cancel_batches k (cancel_running_batch io [] reason) (bi_deadlocks io) ?n 1 UUID_MIN [] d1 = Some (Inr ([], 2), d2)"
    "jobs d2 = [?x]"
    using one_row_batches(3)[OF _ calm x(1) n x(2), of 1 d1 m reason] env[of 1 d1] r1(2) k by (auto simp: numeral_2_eq_2)
  have "jobs (bi_env io 2 d2) = [?y]"
    using retry_reopens[OF r2(2) assms(4,5), of rclk] by (auto simp: io_def retry_between_def)
  then obtain d3 u where r3: "drain_cancel_batches k (cancel_ps_batch io [] reason) (bi_deadlocks io) ?n 2 UUID_MIN [] d2 = Some (Inr ([?y], 3), d3)"
    "jobs d3 = [cancel_ps_set u ?y]"
    using one_row_batches(1)[OF _ calm _ n x(4), of 2 d2 m reason] x(3) assms(2) k by (auto simp: numeral_3_eq_3 numeral_2_eq_2)
  let ?z = "cancel_ps_set u ?y"
  have z: "0 < jid ?z" "status ?z \<noteq> Running" "\<not> queued (status ?z)"
    using x(3) assms(2) by (simp_all add: cancel_ps_set_def queued_def)
  obtain d4 where r4: "drain_cancel_batches k (cancel_running_batch io [] reason) (bi_deadlocks io) ?n 3 UUID_MIN [] d3 = Some (Inr ([], 4), d4)"
    "jobs d4 = [?z]"
    using one_row_batches(3)[OF _ calm z(1) n z(2), of 3 d3 m reason] env[of 3 d3] r3(2) k by (auto simp: eval_nat_numeral)
  obtain d5 where r5: "drain_cancel_batches k (cancel_ps_batch io [] reason) (bi_deadlocks io) ?n 4 UUID_MIN [] d4 = Some (Inr ([], 5), d5)"
    "jobs d5 = [?z]"
    using one_row_batches(2)[OF _ calm z(1) n z(3), of 4 d4 m reason] env[of 4 d4] r4(2) k by (auto simp: eval_nat_numeral)
  obtain d6 where r6: "drain_cancel_batches k (cancel_running_batch io [] reason) (bi_deadlocks io) ?n 5 UUID_MIN [] d5 = Some (Inr ([], 6), d6)"
    "jobs d6 = [?z]"
    using one_row_batches(3)[OF _ calm z(1) n z(2), of 5 d5 m reason] env[of 5 d5] r5(2) k by (auto simp: eval_nat_numeral)
  have three: "MAX_CANCEL_DRAIN_ROUNDS = Suc (Suc (Suc 0))" by (simp add: MAX_CANCEL_DRAIN_ROUNDS_def)
  have "cancel_rounds MAX_CANCEL_DRAIN_ROUNDS k io [] reason ?n 0 ([], []) d = Some (Inr ([j, ?y], []), d6)"
    by (simp add: three r1(1) r2(1) r3(1) r4(1) r5(1) r6(1) del: One_nat_def)
  then show ?thesis using assms(7-9) r6(2) x(3) unfolding io_def by (auto simp: cancel_where_def validate_positive_def conds bulk_result_def)
qed

theorem bulk_cancel_counts_twice_witness:
  "\<exists>r notify d'. cancel_where 1 ((quiet_bulk (\<lambda>_ _ _. 0))\<lparr>bi_env := retry_between (\<lambda>_. 0) (jid (sample_job\<lparr>status := Pending\<rparr>))\<rparr>)
        (demo_filter\<lparr>f_queue := None\<rparr>) None 2 1 (sample_db\<lparr>jobs := [sample_job\<lparr>status := Pending\<rparr>]\<rparr>) = Some (Inr (r, notify), d')
    \<and> cancelled_ids r = [4, 4]"
proof -
  let ?j = "sample_job\<lparr>status := Pending\<rparr>"
  have j: "jobs (sample_db\<lparr>jobs := [?j]\<rparr>) = [?j]" "0 < jid ?j" "queued (status ?j)" "attempt ?j < raised_ceiling ?j" "metadata ?j = Map.empty"
    by (simp_all add: sample_job_def queued_def raised_ceiling_def least_def greatest_def)
  have f: "\<not> has_predicates (demo_filter\<lparr>f_queue := None\<rparr>)" by (simp add: has_predicates_def demo_filter_def)
  have "pred_option nul_free None" by simp
  from bulk_cancel_counts_twice[where clk = "\<lambda>_ _ _. 0" and rclk = "\<lambda>_. 0" and batch_size = 2 and timeout_ms = 1 and k = 1, OF j f _ _ this]
  show ?thesis by (auto simp: sample_job_def)
qed

end
