(* ===== verification/Spec2Isabelle.thy ===== *)
theory Spec2Isabelle
  imports Prelude Statemachine Jobs Fence Terminal Deferral Json Terminal_Api Cancel Dispatch
    Float64 Backoff Drain Sweeps Enqueue Heartbeat Lifecycle Refinement System Example_Run
    Limiter Token_Bucket Sliding_Window Window_Log Gcra Reservation Leases Keyed_Rows Registry Admission
    Injection Provider_Graph Resolution Cursor Paging Bulk_Cancel
begin

text \<open>
  \<^bold>\<open>TaskQ, modelled and verified.\<close>

  TaskQ is a job queue on PostgreSQL.  Producers enqueue rows of the table \<open>jobs\<close>; workers claim them under a lease,
  run the actor and report the outcome with one fused statement; a leader runs maintenance sweeps that reclaim what
  dead workers left; operators cancel, retry and list jobs; limiters and reservations decide whether a claimed job may
  start; a dependency injector builds the arguments of actors.  The parts meet in the tables: a statement is sound
  because of what every other statement keeps.  The development models the statements and the Python functions around
  them, and proves what each part promises and what holds of all of them together.  Paths below are relative to
  \<open>src/src/taskq\<close>.

  \<^bold>\<open>How code is modelled.\<close>
  \<^item> A table is a list of records in the state \<open>db\<close>, a nullable column an option, a \<open>uuid\<close> a natural number, a
    \<open>timestamptz\<close> or \<open>interval\<close> an integer number of microseconds, text a \<open>string\<close>, JSON the type \<open>json\<close>, a Python dict
    an association list.  A comparison with NULL is not true (\<open>sql_eq\<close>, \<open>sql_lt\<close>).
  \<^item> A statement is a function from the state to its reply and the new state; a chain of data-modifying CTEs is a list
    of guarded arms on one snapshot.  Errors are values of sum types, one per raise, driver error or constraint.
  \<^item> Every reading of the clock is its own argument: \<open>clk k\<close> is the \<open>k\<close>-th \<open>clock_timestamp()\<close> of a statement, and where
    a statement reads it per row it also takes the row.  Theorems say which monotonicity they need, if any.
  \<^item> A float is the rational it denotes and an operation the exact one followed by a rounding \<open>rnd\<close>; \<open>Float64\<close>
    gives binary64 as the instance.
  \<^item> Code outside the repository is a parameter: \<open>md5\<close>, the driver's reading of a timestamp (\<open>dt\<close>), the collation
    (\<open>coll\<close>), Redis replies, user factories, what other sessions commit.  What is assumed of it is in the statements.

  \<^bold>\<open>The theories.\<close>
  \<^descr>[Jobs and outcomes] \<open>Prelude\<close> has the shared types and lemmas; \<open>Statemachine\<close> the statuses and the table of
    transitions (\<open>backend/statemachine.py\<close>); \<open>Jobs\<close> the rows and shared SQL fragments (\<open>_sql_fragments.py\<close>, \<open>_sql.py\<close>);
    \<open>Fence\<close> the contract of a fenced write, a locale interpreted on every fenced statement; \<open>Terminal\<close> and
    \<open>Deferral\<close> the fused statements of \<open>_sql_templates.py\<close>; \<open>Json\<close> and \<open>Terminal_Api\<close> the encoding and the
    functions of \<open>_json.py\<close> and \<open>_terminal.py\<close>; \<open>Cancel\<close> the cancel request, its escalation and the operator retry;
    \<open>Dispatch\<close> the claiming UPDATE of \<open>_dispatch_sql.py\<close>; \<open>Enqueue\<close> \<open>_enqueue.py\<close> with its constraints.
  \<^descr>[Maintenance] \<open>Float64\<close> and \<open>Backoff\<close> the delays of \<open>retry.py\<close> and their SQL twins; \<open>Drain\<close> and \<open>Sweeps\<close> the
    bounded sweeps of \<open>_sweeps.py\<close> and the loop of \<open>worker/_leader_sweeps.py\<close>; \<open>Heartbeat\<close> lease renewal, reconciling
    and isolation (\<open>worker/heartbeat.py\<close>).
  \<^descr>[The system] \<open>Lifecycle\<close> is an abstract machine for one job; \<open>Refinement\<close> shows that every statement moves every
    row along it; \<open>System\<close> is the step relation of all statements on the tables and the issued claims, with the
    invariants of reachable states; \<open>Sample\<close> and \<open>Example_Run\<close> hold concrete data and a run.
  \<^descr>[Admission] \<open>Limiter\<close> (decisions, guards, stores), \<open>Token_Bucket\<close>, \<open>Sliding_Window\<close>, \<open>Window_Log\<close>, \<open>Gcra\<close> the
    rate limits of \<open>ratelimit/\<close> on memory, Redis and PostgreSQL; \<open>Reservation\<close>, \<open>Leases\<close>, \<open>Keyed_Rows\<close> the
    concurrency slots and the sweep of idle keyed rows; \<open>Registry\<close> and \<open>Admission\<close> the registry, its keyed
    references, eviction, and the all-or-nothing composition for an actor.
  \<^descr>[Dependency injection] \<open>Injection\<close> models \<open>_di/\<close>: registration, the five phases of validation, the solver and the
    scope containers; \<open>Provider_Graph\<close> and \<open>Resolution\<close> relate validation and resolution.
  \<^descr>[Listing and bulk writes] \<open>Cursor\<close> models \<open>_cursor.py\<close>, with SQL conditions as syntax with numbered placeholders
    and a meaning on rows; \<open>Paging\<close> the job filter, \<open>list_jobs\<close> of both backends and the pages of the client;
    \<open>Bulk_Cancel\<close> \<open>_cancel_bulk.py\<close> with the commits of other sessions around and inside its batches.

  \<^bold>\<open>What the theorems show.\<close>
  \<^item> This theory: a claim has at most one outcome, a fallen claim never writes, at most one claim stands per row, the
    columns and the ledger of every reachable state are consistent, every step follows the state machine, a cancel in
    flight is never lost, and a deferral costs no attempt.
  \<^item> Sweeps and heartbeat: a drain ends and leaves nothing reclaimable, a reclaim does what the phase and budget say, a
    renewed lease is safe until the threshold, isolation accounts for every held row; SQL and Python delays agree.
  \<^item> Admission: slots never have more holders than the bucket has slots, limits are kept on every backend under stated
    clocks, a fixed quota is never reset by the idle sweep, an actor gets all its resources or none.
  \<^item> Injection: the cycle search ends and is exact, plans list dependencies first, a validated actor is resolved.
  \<^item> Listing: the rendered keyset predicate is the in-memory comparison, cursors read back, the backends agree on every
    filter, paging gives each matching job once; an undisturbed bulk cancel does what the single cancel does to exactly
    the matching jobs.
  \<^item> Theorems of kind error prove where the code departs from what it or its comments say; each is one of the findings
    recorded beside the development, from a leaked-slot sweep that frees a live lease to a validation that drops an
    override to the process scope.

  \<^bold>\<open>Locales.\<close>  Interfaces are locales interpreted on the model: fenced statements, bounded sweeps and their drain,
  float arithmetic, log limiters, admission of a composition, sorting by a total order (job order and id order), and the
  statements of the bulk cancel.

  \<^bold>\<open>Bounds and fuel.\<close>  Loops of the source that end by their data are total functions.  Fuel appears where the source
  recurses or loops on outside input, and each has a theorem that a stated amount is enough: the sweep drain (the number
  of eligible rows), post-order and resolution in the injector (\<open>post_order_enough\<close>, \<open>fuel_enough\<close>: the number of
  providers), paging (one page more than rows) and the batches of the bulk cancel (more than the number of jobs).  The
  cycle search is a total function by a measure on unexplored edges.

  \<^bold>\<open>Not modelled.\<close>
  \<^item> The choice of candidates before the claim (\<open>_dispatch_sql.py\<close>: fairness windows, oversampling, the claim cursor):
    the claim re-checks what it needs of the chosen rows, so safety does not rest on the choice; liveness of dispatch is
    not claimed.
  \<^item> Cron (\<open>cron.py\<close>, \<open>scheduler.py\<close>): schedules are evaluated by third-party calendar and time zone packages.
  \<^item> Batches beyond their membership lock and reopening, workflows and progress publishing: layers of their own on the
    same tables, whose steps go through the statements modelled here.
  \<^item> The worker runtime (tasks, shutdown, watchdogs, leader election), the client's wrappers, settings, CLI, web pages
    and authentication, migrations, observability and test fixtures: asynchronous plumbing, configuration and I/O around
    the modelled calls.
  \<^item> Inside modelled parts: logs, metrics, retries of connections, statement timeouts, plan settings and notifications.
\<close>

section \<open>Claims and outcomes over whole histories\<close>

text \<open>
  C1: exactly-once outcomes.  Once a fenced statement issued under a claim has
  landed, no fenced statement under that claim writes anything in any later
  state of the system, whatever enqueues, claims, sweeps, cancels, operator
  retries, renewals, isolations or other workers' writes come in between.
\<close>

theorem claim_outcome_once:
  assumes "reachable s" "c \<in> issued s"
    and "exec_fenced clk f c (tables s) = Inr (Some r, d')"
    and "sys_step\<^sup>*\<^sup>* (s\<lparr>tables := d'\<rparr>) s'"
  shows "exec_fenced clk' f' c (tables s') = Inr (None, tables s')"
proof -
  have inv: "sys_inv s" using assms(1) by (rule reachable_inv)
  have "sys_step s (s\<lparr>tables := d'\<rparr>)" using assms(2,3) by (rule sys_step.outcome)
  then have "sys_inv (s\<lparr>tables := d'\<rparr>)" using inv by (rule sys_step_inv)
  then have "\<not> stands c (tables s')"
    using fallen_forever[OF assms(4)] landed_fallen[OF assms(3)] assms(2) by simp
  then show ?thesis by (rule fallen_no_write)
qed

lemma claim_outcome_once_witness:
  "exec_fenced ex_clock (MarkCancelled \<lparr>p_seq = 0, p_state = None\<rparr>) ex_claim ex_done = Inr (None, ex_done)"
proof -
  obtain r where r: "exec_fenced ex_clock (MarkSucceeded ex_binds) ex_claim ex_claimed = Inr (Some r, ex_done)"
    using ex_lands by blast
  have "exec_fenced ex_clock (MarkSucceeded ex_binds) ex_claim (tables ex_running) = Inr (Some r, ex_done)"
    using r by (simp add: ex_running_def)
  from claim_outcome_once[OF ex_reachable _ this rtranclp.rtrancl_refl] show ?thesis
    by (simp add: ex_running_def)
qed

text \<open>
  C2: a claim that has lost its row never writes again.  If the row no longer
  matches a claim (its lease was swept, it was cancelled, refunded, finished or
  claimed anew), then in every later state every fenced statement under that
  claim leaves all tables unchanged.
\<close>

theorem fallen_claim_never_writes:
  assumes "reachable s" "c \<in> issued s" "find_job (c_job c) (tables s) = Some j" "\<not> JOB_FENCE c j"
    and "sys_step\<^sup>*\<^sup>* s s'"
  shows "exec_fenced clk f c (tables s') = Inr (None, tables s')"
  using fallen_forever[OF assms(5) reachable_inv[OF assms(1)] assms(2)] assms(3,4)
  by (intro fallen_no_write) (simp add: stands_def)

lemma fallen_claim_never_writes_witness:
  "exec_fenced ex_clock (MarkSucceeded ex_binds) ex_claim ex_done = Inr (None, ex_done)"
proof -
  obtain r where r: "exec_fenced ex_clock (MarkSucceeded ex_binds) ex_claim ex_claimed = Inr (Some r, ex_done)"
    using ex_lands by blast
  let ?s = "ex_running\<lparr>tables := ex_done\<rparr>"
  have step: "sys_step ex_running ?s"
    using sys_step.outcome[of ex_claim ex_running ex_clock "MarkSucceeded ex_binds" "Some r" ex_done] r
    by (simp add: ex_running_def)
  then have reach: "reachable ?s"
    using ex_reachable unfolding reachable_def by (meson rtranclp.rtrancl_into_rtrancl)
  obtain j where j: "find_job (c_job ex_claim) ex_done = Some j" "status j \<noteq> Running"
    using any.row_after[OF r] any.left_running[OF r] by metis
  then have "\<not> JOB_FENCE ex_claim j" by (simp add: JOB_FENCE_def)
  from fallen_claim_never_writes[OF reach _ _ this rtranclp.rtrancl_refl] j(1) show ?thesis
    by (simp add: ex_running_def)
qed

text \<open>
  C3: mutual exclusion.  In every reachable state at most one of all the
  claims ever issued passes the fence of a job row.
\<close>

theorem single_standing_claim:
  assumes "reachable s" "c1 \<in> issued s" "c2 \<in> issued s" "JOB_FENCE c1 j" "JOB_FENCE c2 j"
  shows "c1 = c2"
proof -
  have "c_job c1 = c_job c2" "c_epoch c1 = c_epoch c2" using assms(4,5) by (auto simp: JOB_FENCE_def)
  then show ?thesis using reachable_inv[OF assms(1)] assms(2,3) unfolding sys_inv_def by blast
qed

lemma single_standing_claim_witness: "claim_of ex_claimed_row 7 = ex_claim"
proof -
  have "claim_of ex_claimed_row 7 \<in> issued ex_running" "JOB_FENCE (claim_of ex_claimed_row 7) ex_claimed_row"
    by (simp_all add: ex_running_def ex_claim_def claim_of_def JOB_FENCE_def)
  then show ?thesis
    using single_standing_claim[OF ex_reachable _ _ _ ex_fence] by (simp add: ex_running_def)
qed

section \<open>The tables in every reachable state\<close>



text \<open>
  C5: the attempt ledger in every reachable state: every recorded attempt
  belongs to a job, no (job, attempt) pair is recorded twice, and until a
  job's ledger holds the smallint ceiling no recorded number exceeds the
  job's counter and a running, started attempt is not recorded yet.
\<close>

theorem reachable_ledger:
  assumes "reachable s"
  shows "distinct (map att_key (job_attempts (tables s)))
    \<and> (\<forall>a\<in>set (job_attempts (tables s)). find_job (a_job_id a) (tables s) \<noteq> None)
    \<and> (\<forall>i j. find_job i (tables s) = Some j \<longrightarrow>
         (i, MAX_ATTEMPTS_SMALLINT_CEILING) \<notin> att_key ` set (job_attempts (tables s)) \<longrightarrow>
         (\<forall>n. (i, n) \<in> att_key ` set (job_attempts (tables s)) \<longrightarrow> n \<le> attempt j)
         \<and> (status j = Running \<and> started_at j \<noteq> None \<longrightarrow>
              (i, attempt j) \<notin> att_key ` set (job_attempts (tables s))))"
proof (intro conjI ballI allI impI)
  have ok: "rows_ok (tables s)" using reachable_inv[OF assms] by (simp add: sys_inv_def)
  then show "distinct (map att_key (job_attempts (tables s)))" by (simp add: rows_ok_def)
  show "find_job (a_job_id a) (tables s) \<noteq> None" if "a \<in> set (job_attempts (tables s))" for a
    using ok that find_job_None[of "a_job_id a" "tables s"] by (auto simp: rows_ok_def ledger_ids_def)
  fix i j assume j: "find_job i (tables s) = Some j"
    and c: "(i, MAX_ATTEMPTS_SMALLINT_CEILING) \<notin> att_key ` set (job_attempts (tables s))"
  have fresh: "ledger_fresh (life_of (tables s) j)"
    using ok find_job_in[OF j] by (simp add: rows_ok_def linv_def)
  then show "n \<le> attempt j" if "(i, n) \<in> att_key ` set (job_attempts (tables s))" for n
    using c that find_job_jid[OF j]
    by (simp add: ledger_fresh_def ceiling_reached_def att_def MAX_ATTEMPTS_SMALLINT_CEILING_def)
  show "(i, attempt j) \<notin> att_key ` set (job_attempts (tables s))"
    if "status j = Running \<and> started_at j \<noteq> None"
    using c that fresh find_job_jid[OF j]
    by (simp add: ledger_fresh_def ceiling_reached_def att_def MAX_ATTEMPTS_SMALLINT_CEILING_def)
qed

lemma reachable_ledger_witness:
  "(1, attempt ex_claimed_row) \<notin> att_key ` set (job_attempts ex_claimed)"
proof -
  have "find_job 1 (tables ex_running) = Some ex_claimed_row" "job_attempts (tables ex_running) = []"
    using ex_find by (simp_all add: ex_running_def) (simp add: ex_claimed_def ex_tables_def)
  then show ?thesis
    using reachable_ledger[OF ex_reachable] by (simp add: ex_running_def)
qed





text \<open>
  C8: a deferral costs no attempt.  When a snooze or a RetryAfter that keeps the
  budget hands a job back, the attempt number drops by the one the claim had
  added, nothing enters the ledger, and the next dispatch runs under the same
  attempt number; the old claim still cannot pass the new row's fence, because
  the epoch tells the two claims apart.
\<close>

theorem deferral_costs_no_attempt:
  assumes "f \<in> range MarkSnoozed \<union> range MarkRetryAfterFalse" "find_job (c_job c) d = Some j"
    and "1 \<le> attempt j" "attempt j \<le> 32767"
    and "exec_fenced clk f c d = Inr (Some r, d')" "status r \<notin> TERMINAL_STATUSES"
  shows "attempt r = attempt j - 1 \<and> job_attempts d' = job_attempts d
    \<and> attempt (claim_set clk' w lease r) = attempt j \<and> \<not> JOB_FENCE c (claim_set clk' w lease r)"
proof -
  obtain a where a: "a \<in> set (arms_of clk f c)" "arm_where a j" "r = arm_set a j"
      "arm_post a j r (put_job r d) = Inr d'"
    using handed_back[OF assms(5,6)] assms(2) by (metis option.inject)
  then have "JOB_FENCE c j \<and> attempt r = ATTEMPT_REFUND j \<and> claim_epoch r = claim_epoch j \<and> d' = put_job r d"
    using assms(1,6) by (auto simp: arm_defs set_defs deadline_cancel_def)
  then show ?thesis
    using assms(3,4) by (auto simp: ATTEMPT_REFUND_def greatest_def least_def claim_set_def JOB_FENCE_def
        sql_rel_iff put_job_def)
qed

lemma deferral_costs_no_attempt_witness:
  "\<exists>r d'. exec_fenced sample_clock (MarkRetryAfterFalse \<lparr>ab_delay = 5, ab_progress = \<lparr>p_seq = 0, p_state = None\<rparr>\<rparr>)
     sample_claim sample_db = Inr (Some r, d') \<and> attempt r = 0
     \<and> attempt (claim_set (\<lambda>_ _. 9) 8 30 r) = 1 \<and> \<not> JOB_FENCE sample_claim (claim_set (\<lambda>_ _. 9) 8 30 r)"
proof -
  let ?b = "\<lparr>ab_delay = 5, ab_progress = \<lparr>p_seq = 0, p_state = None\<rparr>\<rparr>"
  let ?r = "arm_set (refund_snoozed sample_clock ?b sample_claim) sample_job"
  have "arm_where (refund_snoozed sample_clock ?b sample_claim) sample_job"
    by (simp add: refund_snoozed_def Let_def deadline_fits_def floored_delay_def greatest_def
        MIN_DEFERRAL_INTERVAL_def sample_clock_def seconds_def usec_per_sec_def)
  then have e: "exec_fenced sample_clock (MarkRetryAfterFalse ?b) sample_claim sample_db
      = Inr (Some ?r, put_job ?r sample_db)"
    by (simp add: mark_retry_after_consume_false_def run_arms_def bindE_def drop_branch_def)
      (simp add: refund_snoozed_def Let_def)
  have "status ?r \<notin> TERMINAL_STATUSES" by (simp add: refund_snoozed_def Let_def set_defs)
  from deferral_costs_no_attempt[OF _ _ _ _ e this, of sample_job "\<lambda>_ _. 9" 8 30] e show ?thesis by auto
qed

end
